(* ===== verification/Prelude.thy ===== *)
theory Prelude
  imports Complex_Main "HOL-Library.AList" "HOL-Library.Multiset" "HOL-Library.Char_ord"
    "HOL-Library.List_Lexorder"
begin

text \<open>
  Shared vocabulary of the development: how JavaScript strings, errors, maps, sets and sorts of
  the TypeScript sources are represented, and the generic lemmas about them.

  \<^item> A JavaScript string is represented by its UTF-8 bytes (a HOL \<open>string\<close>). Strings with lone
    surrogates, which have no UTF-8 form, are outside the model. \<open>Buffer.byteLength(s, "utf8")\<close>
    is then \<open>length s\<close>, and \<open>s.length\<close> (UTF-16 units) is \<open>js_length s\<close>.
  \<^item> A throw is the left injection of a sum; \<open>Error m\<close> is \<open>new Error(m)\<close>.
  \<^item> A \<open>Map\<close> is an association list in insertion order: \<open>Map.set\<close> is \<open>AList.update\<close>, which
    keeps the position of a key that is already there.
  \<^item> A \<open>Set\<close> built from an array is \<open>uniq\<close>, which keeps the first occurrence.
  \<^item> \<open>toSorted(cmp)\<close> is the stable \<open>js_sort cmp\<close>.
\<close>

subsection \<open>Errors and sequencing\<close>

datatype error = Error string

type_synonym 'a res = "error + 'a"

fun and_then :: "'e + 'a \<Rightarrow> ('a \<Rightarrow> 'e + 'b) \<Rightarrow> 'e + 'b" where
  "and_then (Inl e) f = Inl e"
| "and_then (Inr x) f = f x"

definition ensure :: "bool \<Rightarrow> 'e \<Rightarrow> 'e + unit" where
  "ensure b e = (if b then Inr () else Inl e)"

text \<open>An \<open>array.map\<close> whose callback may throw: the first throw wins.\<close>

fun traverse :: "('a \<Rightarrow> 'e + 'b) \<Rightarrow> 'a list \<Rightarrow> 'e + 'b list" where
  "traverse f [] = Inr []"
| "traverse f (x # xs) = and_then (f x) (\<lambda>y. and_then (traverse f xs) (\<lambda>ys. Inr (y # ys)))"

definition ok :: "'e + 'a \<Rightarrow> bool" where
  "ok r = (case r of Inl _ \<Rightarrow> False | Inr _ \<Rightarrow> True)"

lemma ok_simps [simp]: "ok (Inr x) = True" "ok (Inl e) = False"
  by (simp_all add: ok_def)

lemma ok_iff: "ok r \<longleftrightarrow> (\<exists>x. r = Inr x)"
  by (cases r) (simp_all)

lemma and_then_Inr [simp]:
  "(and_then r f = Inr y) \<longleftrightarrow> (\<exists>x. r = Inr x \<and> f x = Inr y)"
  by (cases r) simp_all

lemma and_then_Inl:
  "(and_then r f = Inl e) \<longleftrightarrow> r = Inl e \<or> (\<exists>x. r = Inr x \<and> f x = Inl e)"
  by (cases r) auto

lemma ensure_Inr [simp]: "(ensure b e = Inr u) \<longleftrightarrow> b"
  by (simp add: ensure_def)

lemma ensure_Inl [simp]: "(ensure b e = Inl e') \<longleftrightarrow> \<not> b \<and> e' = e"
  by (auto simp: ensure_def)

lemma ensure_simps [simp]: "ensure True e = Inr ()" "ensure False e = Inl e"
  by (simp_all add: ensure_def)

lemma traverse_Inr:
  "(traverse f xs = Inr ys) \<longleftrightarrow> list_all2 (\<lambda>x y. f x = Inr y) xs ys"
proof (induction xs arbitrary: ys)
  case Nil
  then show ?case by auto
next
  case (Cons x xs)
  then show ?case by (cases ys) (auto simp: list_all2_Cons1)
qed

lemma traverse_map:
  "(\<And>x. x \<in> set xs \<Longrightarrow> f x = Inr (g x)) \<Longrightarrow> traverse f xs = Inr (map g xs)"
  by (induction xs) auto

subsection \<open>Characters and strings\<close>

definition code_of :: "char \<Rightarrow> nat" where
  "code_of c = of_char c"

definition digit_char :: "char \<Rightarrow> bool" where
  "digit_char c \<longleftrightarrow> 48 \<le> code_of c \<and> code_of c \<le> 57"

definition lower_char :: "char \<Rightarrow> bool" where
  "lower_char c \<longleftrightarrow> 97 \<le> code_of c \<and> code_of c \<le> 122"

definition upper_char :: "char \<Rightarrow> bool" where
  "upper_char c \<longleftrightarrow> 65 \<le> code_of c \<and> code_of c \<le> 90"

definition alnum_char :: "char \<Rightarrow> bool" where
  "alnum_char c \<longleftrightarrow> digit_char c \<or> lower_char c \<or> upper_char c"

definition hex_char :: "char \<Rightarrow> bool" where
  "hex_char c \<longleftrightarrow> digit_char c \<or> (97 \<le> code_of c \<and> code_of c \<le> 102)"

lemma code_of_less_256: "code_of c < 256"
  by (simp add: code_of_def)

lemma code_of_inj: "code_of c = code_of d \<longleftrightarrow> c = d"
  by (simp add: code_of_def)

text \<open>\<open>s.length\<close>: one unit per code point, two for a code point beyond the BMP, so one per byte
  that starts a code point and one more per byte that starts a four-byte sequence.\<close>

definition js_length :: "string \<Rightarrow> nat" where
  "js_length s =
     length (filter (\<lambda>c. code_of c < 128 \<or> 192 \<le> code_of c) s) + length (filter (\<lambda>c. 240 \<le> code_of c) s)"

lemma js_length_le: "js_length s \<le> 2 * length s"
proof -
  have "length (filter P s) \<le> length s" for P :: "char \<Rightarrow> bool"
    by (rule length_filter_le)
  then show ?thesis unfolding js_length_def
    by (metis (no_types, lifting) add_mono mult_2)
qed

lemma js_length_ascii: "(\<And>c. c \<in> set s \<Longrightarrow> code_of c < 128) \<Longrightarrow> js_length s = length s"
proof (induction s)
  case (Cons c s)
  from Cons.prems [of c] have c: "code_of c < 128" by simp
  have "js_length s = length s" using Cons by simp
  with c show ?case by (simp add: js_length_def)
qed (simp add: js_length_def)

lemma js_length_0: "s = [] \<Longrightarrow> js_length s = 0"
  by (simp add: js_length_def)

definition starts_with :: "string \<Rightarrow> string \<Rightarrow> bool" where
  "starts_with p s \<longleftrightarrow> take (length p) s = p"

definition ends_with :: "string \<Rightarrow> string \<Rightarrow> bool" where
  "ends_with p s \<longleftrightarrow> length p \<le> length s \<and> drop (length s - length p) s = p"

fun has_sub :: "string \<Rightarrow> string \<Rightarrow> bool" where
  "has_sub p [] = (p = [])"
| "has_sub p (c # s) = (starts_with p (c # s) \<or> has_sub p s)"

text \<open>\<open>s.split(sep)\<close> for a one-character separator, and \<open>parts.join(sep)\<close>.\<close>

fun split_on :: "char \<Rightarrow> string \<Rightarrow> string list" where
  "split_on d [] = [[]]"
| "split_on d (c # s) =
     (if c = d then [] # split_on d s
      else (case split_on d s of [] \<Rightarrow> [[c]] | p # ps \<Rightarrow> (c # p) # ps))"

fun join :: "string \<Rightarrow> string list \<Rightarrow> string" where
  "join d [] = []"
| "join d [p] = p"
| "join d (p # q # ps) = p @ d @ join d (q # ps)"

lemma split_on_nonempty [simp]: "split_on d s \<noteq> []"
  by (induction s) (auto split: list.splits)

lemma join_split_on: "join [d] (split_on d s) = s"
proof (induction s)
  case Nil
  then show ?case by simp
next
  case (Cons c s)
  obtain p ps where ps: "split_on d s = p # ps"
    by (cases "split_on d s") auto
  with Cons show ?case by (cases ps) auto
qed

lemma split_on_no_sep: "d \<notin> set s \<Longrightarrow> split_on d s = [s]"
  by (induction s) auto

lemma split_on_append_sep: "d \<notin> set p \<Longrightarrow> split_on d (p @ d # s) = p # split_on d s"
  by (induction p) auto

lemma split_on_join:
  "ps \<noteq> [] \<Longrightarrow> (\<And>p. p \<in> set ps \<Longrightarrow> d \<notin> set p) \<Longrightarrow> split_on d (join [d] ps) = ps"
proof (induction "[d]" ps rule: join.induct)
  case 1
  then show ?case by simp
next
  case (2 p)
  then show ?case by (simp add: split_on_no_sep)
next
  case (3 p q ps)
  then show ?case by (simp add: split_on_append_sep)
qed

lemma split_on_parts_no_sep: "p \<in> set (split_on d s) \<Longrightarrow> d \<notin> set p"
proof (induction s arbitrary: p)
  case Nil
  then show ?case by simp
next
  case (Cons c s)
  then show ?case by (auto split: if_splits list.splits)
qed

lemma set_split_on: "p \<in> set (split_on d s) \<Longrightarrow> set p \<subseteq> set s"
proof (induction s arbitrary: p)
  case Nil
  then show ?case by simp
next
  case (Cons c s)
  then show ?case by (fastforce split: if_splits list.splits)
qed

definition NUL :: char where
  "NUL = CHR 0x00"

definition zeros64 :: string where
  "zeros64 = replicate 64 (CHR ''0'')"

text \<open>The patterns the sources share: lower-case hexadecimal of a fixed length, and
  \<open>[a-z0-9]+(-[a-z0-9]+)*\<close>.\<close>

definition hex_string :: "nat \<Rightarrow> string \<Rightarrow> bool" where
  "hex_string n s \<longleftrightarrow> length s = n \<and> list_all hex_char s"

definition kebab :: "string \<Rightarrow> bool" where
  "kebab s \<longleftrightarrow>
     list_all (\<lambda>p. p \<noteq> [] \<and> list_all (\<lambda>c. lower_char c \<or> digit_char c) p) (split_on (CHR ''-'') s)"

subsection \<open>Decimal numerals\<close>

text \<open>\<open>String(n)\<close> and \<open>n.toString()\<close> of a natural number and of an integer.\<close>

fun show_nat :: "nat \<Rightarrow> string" where
  "show_nat n = (if n < 10 then [char_of (48 + n)] else show_nat (n div 10) @ [char_of (48 + n mod 10)])"

declare show_nat.simps [simp del]

definition show_int :: "int \<Rightarrow> string" where
  "show_int i = (if i < 0 then CHR ''-'' # show_nat (nat (- i)) else show_nat (nat i))"

fun read_nat :: "string \<Rightarrow> nat" where
  "read_nat s = foldl (\<lambda>n c. 10 * n + (code_of c - 48)) 0 s"

lemma code_of_digit [simp]: "d < 10 \<Longrightarrow> code_of (char_of (48 + d)) = 48 + d"
  by (simp add: code_of_def)

lemma show_nat_digits: "c \<in> set (show_nat n) \<Longrightarrow> digit_char c"
proof (induction n rule: show_nat.induct)
  case (1 n)
  then show ?case
    by (subst (asm) (2) show_nat.simps) (auto simp: digit_char_def split: if_splits)
qed

lemma show_nat_nonempty: "show_nat n \<noteq> []"
  by (subst show_nat.simps) simp

lemma read_show_nat: "read_nat (show_nat n) = n"
proof (induction n rule: show_nat.induct)
  case (1 n)
  show ?case
  proof (cases "n < 10")
    case True
    then show ?thesis by (subst show_nat.simps) simp
  next
    case False
    then have "read_nat (show_nat (n div 10)) = n div 10"
      using "1" by simp
    with False show ?thesis by (subst show_nat.simps) simp
  qed
qed

lemma show_nat_inj: "show_nat m = show_nat n \<longleftrightarrow> m = n"
  by (metis read_show_nat)

lemma minus_not_digit: "\<not> digit_char (CHR ''-'')"
  by (simp add: digit_char_def code_of_def)

lemma show_int_inj: "show_int i = show_int j \<longleftrightarrow> i = j"
proof
  assume eq: "show_int i = show_int j"
  have no_minus: "CHR ''-'' # s \<noteq> show_nat n" for s n
  proof
    assume a: "CHR ''-'' # s = show_nat n"
    have "CHR ''-'' \<in> set (show_nat n)"
      by (simp add: a [symmetric])
    then have "digit_char (CHR ''-'')" by (rule show_nat_digits)
    with minus_not_digit show False by simp
  qed
  show "i = j"
    using eq no_minus no_minus [symmetric]
    by (auto simp: show_int_def show_nat_inj split: if_splits)
qed simp

subsection \<open>Sets and maps in insertion order\<close>

fun uniq :: "'a list \<Rightarrow> 'a list" where
  "uniq [] = []"
| "uniq (x # xs) = x # removeAll x (uniq xs)"

lemma set_uniq [simp]: "set (uniq xs) = set xs"
  by (induction xs) auto

lemma distinct_uniq [simp]: "distinct (uniq xs)"
  by (induction xs) (auto simp: distinct_removeAll)

lemma length_uniq_le: "length (uniq xs) \<le> length xs"
proof (induction xs)
  case (Cons x xs)
  have "length (removeAll x (uniq xs)) \<le> length (uniq xs)"
    by (rule length_removeAll_less_eq)
  with Cons show ?case by (metis (no_types, lifting) Suc_le_mono dual_order.trans length_Cons uniq.simps(2))
qed simp

lemma length_uniq_card: "length (uniq xs) = card (set xs)"
  by (metis distinct_card distinct_uniq set_uniq)

text \<open>\<open>new Set(xs).size === xs.length\<close>, the sources' test for duplicates.\<close>

lemma length_uniq_distinct: "length (uniq xs) = length xs \<longleftrightarrow> distinct xs"
  by (metis card_distinct distinct_card length_uniq_card)

lemma uniq_distinct: "distinct xs \<Longrightarrow> uniq xs = xs"
  by (induction xs) auto

lemma distinct_keys_update:
  "distinct (map fst m) \<Longrightarrow> distinct (map fst (AList.update k v m))"
  by (rule distinct_update)

lemma map_of_update [simp]: "map_of (AList.update k v m) = (map_of m)(k \<mapsto> v)"
  by (rule update_conv')

subsection \<open>Sorting\<close>

fun insert_by :: "('a \<Rightarrow> 'a \<Rightarrow> int) \<Rightarrow> 'a \<Rightarrow> 'a list \<Rightarrow> 'a list" where
  "insert_by cmp x [] = [x]"
| "insert_by cmp x (y # ys) = (if cmp x y \<le> 0 then x # y # ys else y # insert_by cmp x ys)"

definition js_sort :: "('a \<Rightarrow> 'a \<Rightarrow> int) \<Rightarrow> 'a list \<Rightarrow> 'a list" where
  "js_sort cmp xs = foldr (insert_by cmp) xs []"

text \<open>A consistent comparator in the sense of ECMAScript: a total preorder with symmetric signs.
  Only for such a comparator does the language fix the result of a sort.\<close>

definition consistent :: "('a \<Rightarrow> 'a \<Rightarrow> int) \<Rightarrow> bool" where
  "consistent cmp \<longleftrightarrow>
     (\<forall>x y. sgn (cmp x y) = - sgn (cmp y x)) \<and>
     (\<forall>x y z. cmp x y \<le> 0 \<longrightarrow> cmp y z \<le> 0 \<longrightarrow> cmp x z \<le> 0)"

lemma consistent_flip:
  assumes "consistent cmp"
  shows "(cmp x y \<le> 0) = (0 \<le> cmp y x)"
proof -
  have "sgn (cmp x y) = - sgn (cmp y x)"
    using assms unfolding consistent_def by blast
  then show ?thesis by (auto simp: sgn_if split: if_splits)
qed

lemma consistent_trans: "consistent cmp \<Longrightarrow> cmp x y \<le> 0 \<Longrightarrow> cmp y z \<le> 0 \<Longrightarrow> cmp x z \<le> 0"
  unfolding consistent_def by blast

lemma consistent_refl: "consistent cmp \<Longrightarrow> cmp x x = 0"
  by (metis consistent_flip dual_order.antisym linorder_le_cases)

lemma mset_insert_by [simp]: "mset (insert_by cmp x xs) = add_mset x (mset xs)"
  by (induction xs) auto

lemma mset_js_sort [simp]: "mset (js_sort cmp xs) = mset xs"
  by (induction xs) (auto simp: js_sort_def)

lemma set_js_sort [simp]: "set (js_sort cmp xs) = set xs"
  by (metis mset_js_sort set_mset_mset)

lemma set_insert_by [simp]: "set (insert_by cmp x xs) = insert x (set xs)"
  by (induction xs) auto

lemma length_js_sort [simp]: "length (js_sort cmp xs) = length xs"
  by (metis mset_js_sort size_mset)

lemma js_sort_empty [simp]: "js_sort cmp xs = [] \<longleftrightarrow> xs = []"
  by (metis length_0_conv length_js_sort)

lemma distinct_js_sort [simp]: "distinct (js_sort cmp xs) = distinct xs"
  by (metis card_distinct distinct_card length_js_sort set_js_sort)

lemma mset_map_js_sort: "mset (map f (js_sort cmp xs)) = mset (map f xs)"
  by simp

lemma distinct_map_js_sort [simp]: "distinct (map f (js_sort cmp xs)) = distinct (map f xs)"
  by (rule mset_eq_imp_distinct_iff) simp

lemma js_sort_Nil [simp]: "js_sort cmp [] = []"
  by (simp add: js_sort_def)

lemma js_sort_Cons: "js_sort cmp (x # xs) = insert_by cmp x (js_sort cmp xs)"
  by (simp add: js_sort_def)

lemma sorted_insert_by:
  assumes "consistent cmp" and "sorted_wrt (\<lambda>a b. cmp a b \<le> 0) xs"
  shows "sorted_wrt (\<lambda>a b. cmp a b \<le> 0) (insert_by cmp x xs)"
  using assms(2)
proof (induction xs)
  case (Cons y ys)
  have "cmp x y \<le> 0 \<or> cmp y x \<le> 0"
    using consistent_flip [OF assms(1)] by (metis linorder_le_cases)
  with Cons show ?case
    by (auto intro: consistent_trans [OF assms(1)])
qed simp

lemma sorted_js_sort:
  assumes "consistent cmp"
  shows "sorted_wrt (\<lambda>a b. cmp a b \<le> 0) (js_sort cmp xs)"
proof (induction xs)
  case (Cons x xs)
  then show ?case by (simp add: js_sort_Cons sorted_insert_by [OF assms])
qed simp

text \<open>Where equal comparison means equal elements, the sorted list depends on the multiset only.\<close>

lemma sorted_wrt_mset_unique:
  assumes cons: "consistent cmp"
    and sep: "\<And>a b. a \<in> set xs \<Longrightarrow> b \<in> set xs \<Longrightarrow> cmp a b = 0 \<Longrightarrow> a = b"
    and "sorted_wrt (\<lambda>a b. cmp a b \<le> 0) xs" and "sorted_wrt (\<lambda>a b. cmp a b \<le> 0) ys"
    and "mset xs = mset ys"
  shows "xs = ys"
  using assms(2-)
proof (induction xs arbitrary: ys)
  case Nil
  then show ?case by simp
next
  case (Cons x xs)
  from Cons.prems(4) obtain y ys' where ys: "ys = y # ys'" by (cases ys) auto
  have mem: "x \<in> set ys" "y \<in> set (x # xs)"
    using Cons.prems(4) ys by (metis list.set_intros(1) set_mset_mset)+
  have "cmp x y \<le> 0" using Cons.prems(2) mem(2) consistent_refl [OF cons, of x] by auto
  moreover have "cmp y x \<le> 0" using Cons.prems(3) mem(1) ys consistent_refl [OF cons, of x] by auto
  ultimately have "cmp x y = 0" using consistent_flip [OF cons] by (metis dual_order.antisym)
  with Cons.prems(1) mem(2) have "x = y" by auto
  with Cons ys show ?case by auto
qed

lemma js_sort_mset_cong:
  assumes "consistent cmp" and "mset xs = mset ys"
    and "\<And>a b. a \<in> set xs \<Longrightarrow> b \<in> set xs \<Longrightarrow> cmp a b = 0 \<Longrightarrow> a = b"
  shows "js_sort cmp xs = js_sort cmp ys"
  by (rule sorted_wrt_mset_unique [OF assms(1)])
    (use assms(2,3) in \<open>auto intro: sorted_js_sort [OF assms(1)]\<close>)

lemma js_sort_sorted:
  assumes "sorted_wrt (\<lambda>a b. cmp a b \<le> 0) xs"
  shows "js_sort cmp xs = xs"
  using assms
proof (induction xs)
  case (Cons x xs)
  then show ?case by (cases xs) (auto simp: js_sort_Cons)
qed simp

text \<open>Comparing by a key keeps consistency.\<close>

lemma consistent_key: "consistent cmp \<Longrightarrow> consistent (\<lambda>a b. cmp (f a) (f b))"
  unfolding consistent_def by blast

lemma insert_by_map:
  "(\<And>a b. cmp' (f a) (f b) = cmp a b) \<Longrightarrow> map f (insert_by cmp x xs) = insert_by cmp' (f x) (map f xs)"
  by (induction xs) auto

lemma js_sort_map:
  "(\<And>a b. cmp' (f a) (f b) = cmp a b) \<Longrightarrow> map f (js_sort cmp xs) = js_sort cmp' (map f xs)"
proof (induction xs)
  case (Cons x xs)
  then show ?case by (simp add: js_sort_Cons insert_by_map [of cmp' f cmp])
qed simp

text \<open>The byte order as a comparator: what \<open>localeCompare\<close> is on witnesses, and the order of the
  default \<open>toSorted()\<close> on ASCII strings.\<close>

definition byte_compare :: "string \<Rightarrow> string \<Rightarrow> int" where
  "byte_compare a b = (if a < b then -1 else if a = b then 0 else 1)"

lemma consistent_byte_compare: "consistent byte_compare"
  unfolding consistent_def byte_compare_def by auto

text \<open>\<open>localeCompare\<close> may return 0 for canonically equivalent strings that differ; where the order
  matters, the strings compared are assumed to be told apart.\<close>

definition separates :: "('a \<Rightarrow> 'a \<Rightarrow> int) \<Rightarrow> 'a set \<Rightarrow> bool" where
  "separates cmp S \<longleftrightarrow> (\<forall>a\<in>S. \<forall>b\<in>S. cmp a b = 0 \<longrightarrow> a = b)"

lemma separatesD: "separates cmp S \<Longrightarrow> a \<in> S \<Longrightarrow> b \<in> S \<Longrightarrow> cmp a b = 0 \<Longrightarrow> a = b"
  by (simp add: separates_def)

lemma separates_mono: "separates cmp S \<Longrightarrow> T \<subseteq> S \<Longrightarrow> separates cmp T"
  by (auto simp: separates_def)

lemma byte_compare_0: "byte_compare a b = 0 \<longleftrightarrow> a = b"
  by (simp add: byte_compare_def)

lemma separates_byte_compare [simp]: "separates byte_compare S"
  by (simp add: separates_def byte_compare_0)

end
