(* ===== verification/Js_Text.thy ===== *)
theory Js_Text
  imports Prelude
begin

text \<open>
  The character classes that the regular expressions of the sources use, on UTF-8 bytes: the
  JavaScript white space \<open>\s\<close> with its multi-byte members, the word characters of \<open>\b\<close>, ASCII case
  folding for the flag \<open>i\<close>, and \<open>trim()\<close>. UTF-8 is self-synchronizing, so a match of the bytes of a
  character is a match of the character.
\<close>

subsection \<open>White space\<close>

definition ascii_space :: "char \<Rightarrow> bool" where
  "ascii_space c \<longleftrightarrow> code_of c \<in> {9, 10, 11, 12, 13, 32}"

definition byte :: "nat \<Rightarrow> char" where
  "byte n = char_of n"

text \<open>U+00A0, U+1680, U+2000 to U+200A, U+2028, U+2029, U+202F, U+205F, U+3000 and U+FEFF.\<close>

definition wide_spaces :: "string list" where
  "wide_spaces =
     [[byte 0xC2, byte 0xA0], [byte 0xE1, byte 0x9A, byte 0x80]] @
     map (\<lambda>n. [byte 0xE2, byte 0x80, byte n]) ([0x80..<0x8B] @ [0xA8, 0xA9, 0xAF]) @
     [[byte 0xE2, byte 0x81, byte 0x9F], [byte 0xE3, byte 0x80, byte 0x80], [byte 0xEF, byte 0xBB, byte 0xBF]]"

text \<open>The bytes of the white space character at the head of a string, if there is one.\<close>

definition space_at :: "string \<Rightarrow> nat" where
  "space_at s =
     (case s of [] \<Rightarrow> 0
      | c # _ \<Rightarrow> if ascii_space c then 1
                 else (case find (\<lambda>w. starts_with w s) wide_spaces of None \<Rightarrow> 0 | Some w \<Rightarrow> length w))"

fun has_space :: "string \<Rightarrow> bool" where
  "has_space [] = False"
| "has_space (c # s) = (0 < space_at (c # s) \<or> has_space s)"

function skip_spaces :: "string \<Rightarrow> string" where
  "skip_spaces s = (if space_at s = 0 then s else skip_spaces (drop (space_at s) s))"
  by auto
termination
  by (relation "measure length") (auto simp: space_at_def split: list.splits if_splits option.splits)

declare skip_spaces.simps [simp del]

lemma skip_spaces_nonspace: "space_at s = 0 \<Longrightarrow> skip_spaces s = s"
  by (simp add: skip_spaces.simps)

lemma space_at_Nil [simp]: "space_at [] = 0"
  by (simp add: space_at_def)

text \<open>The number of bytes before the trailing white space: the end of the last character that is not
  white space.\<close>

function last_visible :: "nat \<Rightarrow> nat \<Rightarrow> string \<Rightarrow> nat" where
  "last_visible seen pos s =
     (if s = [] then seen
      else if 0 < space_at s then last_visible seen (pos + space_at s) (drop (space_at s) s)
      else last_visible (Suc pos) (Suc pos) (drop 1 s))"
  by auto
termination
  by (relation "measure (\<lambda>(_, _, s). length s)") auto

declare last_visible.simps [simp del]

definition trim :: "string \<Rightarrow> string" where
  "trim s = (let visible = skip_spaces s in take (last_visible 0 0 visible) visible)"

lemma wide_spaces_heads: "list_all (\<lambda>w. w \<noteq> [] \<and> 128 \<le> code_of (hd w)) wide_spaces"
  by code_simp

lemma space_at_ascii:
  assumes "code_of c < 128" and "\<not> ascii_space c"
  shows "space_at (c # s) = 0"
proof -
  have "\<not> starts_with w (c # s)" if "w \<in> set wide_spaces" for w
    using wide_spaces_heads that assms(1) by (cases w) (auto simp: list_all_iff starts_with_def)
  then have "find (\<lambda>w. starts_with w (c # s)) wide_spaces = None" by (auto simp: find_None_iff)
  with assms(2) show ?thesis by (simp add: space_at_def)
qed

definition plain_char :: "char \<Rightarrow> bool" where
  "plain_char c \<longleftrightarrow> code_of c < 128 \<and> \<not> ascii_space c"

lemma no_space_plain: "list_all plain_char s \<Longrightarrow> \<not> has_space s"
  by (induction s) (simp_all add: plain_char_def space_at_ascii)

subsection \<open>Words and case\<close>

definition word_char :: "char \<Rightarrow> bool" where
  "word_char c \<longleftrightarrow> alnum_char c \<or> c = CHR ''_''"

text \<open>\<open>\b\<close> between an optional previous character and the rest of the string.\<close>

definition word_boundary :: "char option \<Rightarrow> string \<Rightarrow> bool" where
  "word_boundary before rest \<longleftrightarrow>
     (case before of None \<Rightarrow> False | Some c \<Rightarrow> word_char c) \<noteq>
     (case rest of [] \<Rightarrow> False | c # _ \<Rightarrow> word_char c)"

definition lower_ascii :: "char \<Rightarrow> char" where
  "lower_ascii c = (if upper_char c then char_of (code_of c + 32) else c)"

definition lower :: "string \<Rightarrow> string" where
  "lower s = map lower_ascii s"

text \<open>Is there a position of the string, given the character before it, where the pattern matches?\<close>

fun anywhere :: "(char option \<Rightarrow> string \<Rightarrow> bool) \<Rightarrow> char option \<Rightarrow> string \<Rightarrow> bool" where
  "anywhere p before [] = p before []"
| "anywhere p before (c # s) = (p before (c # s) \<or> anywhere p (Some c) s)"

lemma anywhere_here: "p before s \<Longrightarrow> anywhere p before s"
  by (cases s) simp_all

lemma anywhere_split: "anywhere p before s \<Longrightarrow> \<exists>b u v. s = u @ v \<and> p b v"
proof (induction s arbitrary: before)
  case (Cons c s)
  show ?case
  proof (cases "p before (c # s)")
    case True
    then show ?thesis by (metis append_Nil)
  next
    case False
    with Cons.prems have "anywhere p (Some c) s" by simp
    from Cons.IH [OF this] obtain b u v where "s = u @ v" "p b v" by blast
    then have "c # s = (c # u) @ v \<and> p b v" by simp
    then show ?thesis by blast
  qed
qed auto

lemma has_space_suffix: "0 < space_at v \<Longrightarrow> has_space (u @ v)"
proof (induction u)
  case Nil
  then show ?case by (cases v) simp_all
qed simp

lemma anywhere_suffix: "anywhere p (Some (last (c # u))) s \<Longrightarrow> anywhere p before (c # u @ s)"
  by (induction u arbitrary: c before) auto

end
