(* ===== verification/Doubles.thy ===== *)
theory Doubles
  imports Prelude "HOL-Library.Log_Nat"
begin

text \<open>
  Arithmetic on JavaScript numbers where it is not on integers: a finite double is the rational it
  stands for, and \<open>fl\<close> rounds an exact result to the nearest one, ties to even, with the spacing of
  the binary64 format (53 bits, smallest spacing \<open>2\<^sup>-\<^sup>1\<^sup>0\<^sup>7\<^sup>4\<close>). An operation \<open>a * b\<close> of the source is
  \<open>fl (a * b)\<close>. Results of \<open>2\<^sup>1\<^sup>0\<^sup>2\<^sup>4\<close> and more, which are infinite in the source, do not occur in
  the modelled code.
\<close>

subsection \<open>Rounding to binary64\<close>

text \<open>The exponent of the binade a positive number is in.\<close>

definition binade :: "rat \<Rightarrow> int" where
  "binade x = (if 1 \<le> x then int (floorlog 2 (nat \<lfloor>x\<rfloor>)) - 1 else - int (ceillog2 (nat \<lceil>1 / x\<rceil>)))"

definition spacing_exponent :: "rat \<Rightarrow> int" where
  "spacing_exponent x = max (- 1074) (binade x - 52)"

definition spacing :: "rat \<Rightarrow> rat" where
  "spacing x = 2 powi spacing_exponent x"

definition nearest_even :: "rat \<Rightarrow> int" where
  "nearest_even r =
     (let k = \<lfloor>r\<rfloor>; f = r - of_int k
      in if f < 1 / 2 then k else if 1 / 2 < f then k + 1 else if even k then k else k + 1)"

definition fl_pos :: "rat \<Rightarrow> rat" where
  "fl_pos x = (if x = 0 then 0 else of_int (nearest_even (x / spacing x)) * spacing x)"

definition fl :: "rat \<Rightarrow> rat" where
  "fl x = (if x < 0 then - fl_pos (- x) else fl_pos x)"

subsection \<open>Laws of rounding\<close>

lemma binade_ge_1:
  assumes "1 \<le> x"
  shows "2 powi binade x \<le> x \<and> x < 2 powi (binade x + 1)"
proof -
  define n where "n = nat \<lfloor>x\<rfloor>"
  have n: "0 < n" "of_nat n \<le> x" "x < of_nat n + 1"
    using assms floor_correct [of x] by (auto simp: n_def le_floor_iff of_nat_nat)
  define k where "k = floorlog 2 n"
  from floorlog_bounds [of n 2] n(1) have b: "2 ^ (k - 1) \<le> n" "n < 2 ^ k"
    by (simp_all add: k_def)
  have k: "0 < k" using b n(1) by (cases k) auto
  have "(2 :: rat) ^ (k - 1) \<le> of_nat n" using b(1) by (metis of_nat_le_iff of_nat_numeral of_nat_power)
  moreover have "of_nat n + 1 \<le> (2 :: rat) ^ k"
    using b(2) by (metis Suc_leI of_nat_Suc of_nat_le_iff of_nat_numeral of_nat_power add.commute)
  moreover have "binade x = int (k - 1)" using assms k by (simp add: binade_def k_def n_def)
  moreover have "binade x + 1 = int k" using calculation(3) k by simp
  ultimately show ?thesis using n(2,3) by (simp only: power_int_of_nat) linarith
qed

lemma binade_lt_1:
  assumes "0 < x" and "x < 1"
  shows "2 powi binade x \<le> x \<and> x < 2 powi (binade x + 1)"
proof -
  define n where "n = nat \<lceil>1 / x\<rceil>"
  have gt: "1 < 1 / x" using assms by simp
  then have n: "1 / x \<le> of_nat n" "of_nat n < 1 / x + 1" "1 < n"
    by (auto simp: n_def of_nat_nat less_ceiling_iff ceiling_correct le_of_int_ceiling) linarith+
  define c where "c = ceillog2 n"
  have up: "n \<le> 2 ^ c" unfolding c_def by (rule le_two_power_ceillog2)
  have c: "0 < c" using up n(3) by (cases c) auto
  have low: "2 ^ (c - 1) < n"
  proof -
    have "\<not> n \<le> 2 ^ (c - 1)"
      using c ceillog2_le_iff [of n "c - 1"] n(3) by (auto simp: c_def)
    then show ?thesis by simp
  qed
  have "of_nat n \<le> (2 :: rat) ^ c" using up by (metis of_nat_le_iff of_nat_numeral of_nat_power)
  then have "1 / x \<le> 2 ^ c" using n(1) by linarith
  then have le: "1 / 2 ^ c \<le> x" using assms by (simp add: field_simps)
  have "(2 :: rat) ^ (c - 1) + 1 \<le> of_nat n"
    using low by (metis Suc_leI of_nat_Suc of_nat_le_iff of_nat_numeral of_nat_power add.commute)
  then have "2 ^ (c - 1) < 1 / x" using n(2) by linarith
  then have lt: "x < 1 / 2 ^ (c - 1)" using assms by (simp add: field_simps)
  have b: "binade x = - int c" using assms by (simp add: binade_def c_def n_def)
  have "binade x + 1 = - int (c - 1)" using b c by simp
  then have "2 powi (binade x + 1) = 1 / (2 :: rat) ^ (c - 1)"
    by (simp only: power_int_minus power_int_of_nat inverse_eq_divide)
  moreover have "2 powi binade x = 1 / (2 :: rat) ^ c"
    by (simp only: b power_int_minus power_int_of_nat inverse_eq_divide)
  ultimately show ?thesis using le lt by simp
qed

lemma binade_bounds: "0 < x \<Longrightarrow> 2 powi binade x \<le> x \<and> x < 2 powi (binade x + 1)"
  using binade_ge_1 binade_lt_1 by (cases "1 \<le> x") auto

lemma powi2_less: "(2 :: rat) powi a < 2 powi b \<longleftrightarrow> a < b"
  by (metis linorder_not_less one_le_numeral one_less_numeral_iff power_int_increasing
      power_int_strict_increasing semiring_norm(76))

lemma binade_mono:
  assumes "0 < x" and "x \<le> y"
  shows "binade x \<le> binade y"
proof -
  have "2 powi binade x \<le> x" "y < 2 powi (binade y + 1)"
    using binade_bounds [of x] binade_bounds [of y] assms by auto
  then have "(2 :: rat) powi binade x < 2 powi (binade y + 1)" using assms(2) by linarith
  then have "binade x < binade y + 1" by (simp only: powi2_less)
  then show ?thesis by simp
qed

lemma spacing_pos [simp]: "0 < spacing x"
  by (simp add: spacing_def)

lemma nearest_even_ge: "of_int k \<le> r \<Longrightarrow> k \<le> nearest_even r"
  unfolding nearest_even_def Let_def by (simp add: le_floor_iff [symmetric])

lemma nearest_even_le: "r \<le> of_int k \<Longrightarrow> nearest_even r \<le> k"
proof -
  assume r: "r \<le> of_int k"
  show ?thesis
  proof (cases "\<lfloor>r\<rfloor> = k")
    case True
    then have "r = of_int k" using r by (metis floor_correct order_antisym)
    then show ?thesis by (simp add: nearest_even_def)
  next
    case False
    then have "\<lfloor>r\<rfloor> < k" using r by (metis floor_mono floor_of_int order_le_imp_less_or_eq)
    then show ?thesis by (simp add: nearest_even_def Let_def)
  qed
qed

lemma nearest_even_mono:
  assumes "r \<le> s"
  shows "nearest_even r \<le> nearest_even s"
proof (cases "\<lfloor>r\<rfloor> = \<lfloor>s\<rfloor>")
  case True
  then show ?thesis using assms by (auto simp: nearest_even_def Let_def)
next
  case False
  then have "\<lfloor>r\<rfloor> + 1 \<le> \<lfloor>s\<rfloor>" using floor_mono [OF assms] by simp
  moreover have "nearest_even r \<le> \<lfloor>r\<rfloor> + 1" by (simp add: nearest_even_def Let_def)
  moreover have "\<lfloor>s\<rfloor> \<le> nearest_even s" by (simp add: nearest_even_def Let_def)
  ultimately show ?thesis by linarith
qed

lemma nearest_even_error: "of_int (nearest_even r) \<le> r + 1 / 2"
  unfolding nearest_even_def Let_def by (auto; linarith)

lemma fl_0 [simp]: "fl 0 = 0"
  by (simp add: fl_def fl_pos_def)

lemma fl_pos_ge:
  assumes "0 < x" and "of_int k * spacing x \<le> x"
  shows "of_int k * spacing x \<le> fl x"
proof -
  have "of_int k \<le> x / spacing x" using assms by (simp add: pos_le_divide_eq)
  then have "k \<le> nearest_even (x / spacing x)" by (rule nearest_even_ge)
  then have "(of_int k :: rat) \<le> of_int (nearest_even (x / spacing x))" by simp
  then show ?thesis using assms by (simp add: fl_def fl_pos_def mult_right_mono)
qed

lemma fl_pos_le:
  assumes "0 < x" and "x \<le> of_int k * spacing x"
  shows "fl x \<le> of_int k * spacing x"
proof -
  have "x / spacing x \<le> of_int k" using assms by (simp add: pos_divide_le_eq)
  then have "nearest_even (x / spacing x) \<le> k" by (rule nearest_even_le)
  then have "of_int (nearest_even (x / spacing x)) \<le> (of_int k :: rat)" by simp
  then show ?thesis using assms by (simp add: fl_def fl_pos_def mult_right_mono)
qed

lemma fl_nonneg [simp]: "0 \<le> x \<Longrightarrow> 0 \<le> fl x"
  using fl_pos_ge [of x 0] by (cases "x = 0") auto

lemma powi2_multiple: "e \<le> b \<Longrightarrow> (2 :: rat) powi b = of_int (2 ^ nat (b - e)) * 2 powi e"
proof -
  assume "e \<le> b"
  then have "(2 :: rat) powi b = 2 powi (b - e) * 2 powi e" by (simp add: power_int_add [symmetric])
  then show ?thesis using \<open>e \<le> b\<close> by (simp add: power_int_def)
qed

lemma fl_mono_pos:
  assumes "0 < x" and "x \<le> y"
  shows "fl x \<le> fl y"
proof (cases "spacing_exponent x = spacing_exponent y")
  case True
  then have "spacing x = spacing y" by (simp add: spacing_def)
  moreover from assms have "nearest_even (x / spacing y) \<le> nearest_even (y / spacing y)"
    by (intro nearest_even_mono divide_right_mono) (simp_all add: less_imp_le)
  then have "(of_int (nearest_even (x / spacing y)) :: rat) \<le> of_int (nearest_even (y / spacing y))" by simp
  ultimately show ?thesis
    using assms by (simp add: fl_def fl_pos_def mult_right_mono less_imp_le)
next
  case False
  have b: "binade x \<le> binade y" using assms by (rule binade_mono)
  with False have lt: "binade x < binade y" "- 1074 < binade y - 52"
    by (auto simp: spacing_exponent_def max_def split: if_splits)
  define P :: rat where "P = 2 powi binade y"
  have ex: "spacing_exponent x \<le> binade y" and ey: "spacing_exponent y \<le> binade y"
    using lt by (auto simp: spacing_exponent_def)
  have "(2 :: rat) powi (binade x + 1) \<le> P"
    unfolding P_def using lt(1) by (intro power_int_increasing) auto
  then have "x \<le> P" using binade_bounds [OF assms(1)] by linarith
  then have "fl x \<le> P"
    unfolding P_def powi2_multiple [OF ex] spacing_def [symmetric] by (rule fl_pos_le [OF assms(1)])
  moreover have "P \<le> y" using binade_bounds [of y] assms by (simp add: P_def)
  then have "P \<le> fl y"
    unfolding P_def powi2_multiple [OF ey] spacing_def [symmetric] by (rule fl_pos_ge [rotated]) (use assms in simp)
  ultimately show ?thesis by simp
qed

lemma fl_mono: "0 \<le> x \<Longrightarrow> x \<le> y \<Longrightarrow> fl x \<le> fl y"
  using fl_mono_pos [of x y] by (cases "x = 0") auto

text \<open>Integers below \<open>2\<^sup>5\<^sup>3\<close> are exact.\<close>

lemma fl_of_nat:
  assumes "n < 2 ^ 53"
  shows "fl (of_nat n) = of_nat n"
proof (cases "n = 0")
  case False
  define x :: rat where "x = of_nat n"
  have x: "0 < x" "1 \<le> x" using False by (simp_all add: x_def)
  have "x < 2 ^ 53" unfolding x_def using assms by (metis of_nat_less_iff of_nat_numeral of_nat_power)
  then have "2 powi binade x < (2 :: rat) powi 53" using binade_bounds [OF x(1)] by auto
  then have b: "binade x < 53" by (simp only: powi2_less)
  have "(2 :: rat) powi 0 < 2 powi (binade x + 1)" using binade_bounds [OF x(1)] x(2) by auto
  then have b0: "0 < binade x + 1" by (simp only: powi2_less)
  then have e: "spacing_exponent x = binade x - 52" by (simp add: spacing_exponent_def)
  define k where "k = int n * 2 ^ nat (52 - binade x)"
  have "(1 :: rat) = 2 powi 0" by simp
  also have "\<dots> = of_int (2 ^ nat (0 - (binade x - 52))) * 2 powi (binade x - 52)"
    using b by (intro powi2_multiple) simp
  finally have "(1 :: rat) = of_int (2 ^ nat (52 - binade x)) * spacing x"
    by (simp add: spacing_def e)
  then have "x = of_int k * spacing x" by (simp add: k_def x_def mult.assoc)
  then show ?thesis using fl_pos_ge [OF x(1), of k] fl_pos_le [OF x(1), of k] by (simp add: x_def)
qed simp

text \<open>The error of one rounding.\<close>

definition unit_roundoff :: rat where
  "unit_roundoff = 1 / 2 ^ 53"

lemma spacing_le:
  assumes "0 < x"
  shows "spacing x \<le> x * (2 * unit_roundoff) + 1 / 2 ^ 1074"
proof (cases "- 1074 \<le> binade x - 52")
  case True
  then have "spacing x = 2 powi (binade x + - 52)"
    by (simp add: spacing_def spacing_exponent_def)
  also have "\<dots> = 2 powi binade x * 2 powi - 52"
    by (rule power_int_add) simp
  also have "\<dots> = 2 powi binade x * (2 * unit_roundoff)"
    by (simp add: unit_roundoff_def power_int_minus)
  also have "\<dots> \<le> x * (2 * unit_roundoff)"
    using binade_bounds [OF assms] by (intro mult_right_mono) (simp_all add: unit_roundoff_def)
  finally show ?thesis by (smt (verit) divide_nonneg_nonneg zero_le_one zero_le_power zero_le_numeral add_increasing2)
next
  case False
  then have "spacing x = 2 powi - 1074" by (simp add: spacing_def spacing_exponent_def)
  also have "\<dots> = 1 / 2 ^ 1074" by (simp only: power_int_minus power_int_numeral inverse_eq_divide)
  also have "\<dots> \<le> x * (2 * unit_roundoff) + 1 / 2 ^ 1074"
    using assms by (simp add: unit_roundoff_def)
  finally show ?thesis .
qed

lemma fl_error:
  assumes "0 \<le> x"
  shows "fl x \<le> x + x * unit_roundoff + 1 / 2 ^ 1075"
proof (cases "x = 0")
  case False
  with assms have x: "0 < x" by simp
  have "fl x = of_int (nearest_even (x / spacing x)) * spacing x" using x by (simp add: fl_def fl_pos_def)
  also have "\<dots> \<le> (x / spacing x + 1 / 2) * spacing x"
    by (intro mult_right_mono nearest_even_error) (simp add: less_imp_le)
  also have "\<dots> = x + spacing x / 2"
    using spacing_pos [of x] by (simp add: distrib_right less_imp_neq [symmetric])
  also have "\<dots> \<le> x + (x * (2 * unit_roundoff) + 1 / 2 ^ 1074) / 2"
    using spacing_le [OF x] by simp
  also have "\<dots> = x + x * unit_roundoff + 1 / 2 ^ 1075" by (simp add: add_divide_distrib)
  finally show ?thesis .
qed simp

end
