(* ===== verification/Canonical_JSON.thy ===== *)
theory Canonical_JSON
  imports Prelude
begin

text \<open>
  Canonical JSON (\<open>canonicalize\<close> and \<open>canonicalJson\<close> of
  \<open>src/domain/catalog/canonical-revision.ts\<close>), the byte string under every hash of the catalog.
  A JavaScript value is a \<open>json\<close>; \<open>JFraction\<close> stands for a number that is not an integer (a
  fraction, an infinity or NaN), \<open>JUndefined\<close> for undefined, \<open>JOther\<close> for a value that is no JSON
  data (a function, a symbol, a bigint). An object is the list of its own enumerable entries.
  Keys are ordered by their bytes, which is the order of \<open>toSorted()\<close> on keys without
  surrogate pairs; the keys the program hashes are field names.

  The lemmas show that the text determines the value up to the order of object keys.
\<close>

datatype json =
    JNull
  | JBool bool
  | JNum int
  | JFraction
  | JStr string
  | JArr "json list"
  | JObj "(string \<times> json) list"
  | JUndefined
  | JOther

subsection \<open>String literals\<close>

definition hex_digit :: "nat \<Rightarrow> char" where
  "hex_digit n = char_of (if n < 10 then 48 + n else 87 + n)"

definition esc :: "char \<Rightarrow> string" where
  "esc c =
     (if c = CHR 0x22 then [CHR 0x5C, CHR 0x22]
      else if c = CHR 0x5C then [CHR 0x5C, CHR 0x5C]
      else if code_of c = 8 then [CHR 0x5C, CHR ''b'']
      else if code_of c = 9 then [CHR 0x5C, CHR ''t'']
      else if code_of c = 10 then [CHR 0x5C, CHR ''n'']
      else if code_of c = 12 then [CHR 0x5C, CHR ''f'']
      else if code_of c = 13 then [CHR 0x5C, CHR ''r'']
      else if code_of c < 32 then
        [CHR 0x5C, CHR ''u'', CHR ''0'', CHR ''0'', hex_digit (code_of c div 16), hex_digit (code_of c mod 16)]
      else [c])"

definition quote :: "string \<Rightarrow> string" where
  "quote s = CHR 0x22 # concat (map esc s) @ [CHR 0x22]"

subsection \<open>The writer\<close>

definition MAX_SAFE_INTEGER :: int where
  "MAX_SAFE_INTEGER = 9007199254740991"

lemma traverse_cong [fundef_cong]:
  "xs = ys \<Longrightarrow> (\<And>x. x \<in> set ys \<Longrightarrow> f x = g x) \<Longrightarrow> traverse f xs = traverse g ys"
  by (induction ys arbitrary: xs) auto

function canonicalize :: "json \<Rightarrow> string res" where
  "canonicalize JNull = Inr ''null''"
| "canonicalize (JBool b) = Inr (if b then ''true'' else ''false'')"
| "canonicalize (JStr s) = Inr (quote s)"
| "canonicalize (JNum n) =
     (if \<bar>n\<bar> \<le> MAX_SAFE_INTEGER then Inr (show_int n)
      else Inl (Error ''Canonical numbers must be safe integers''))"
| "canonicalize JFraction = Inl (Error ''Canonical numbers must be safe integers'')"
| "canonicalize (JArr entries) =
     and_then (traverse canonicalize entries)
       (\<lambda>parts. Inr (CHR ''['' # join '','' parts @ '']''))"
| "canonicalize JUndefined = Inl (Error ''Value is not canonical JSON data'')"
| "canonicalize JOther = Inl (Error ''Value is not canonical JSON data'')"
| "canonicalize (JObj members) =
     and_then
       (traverse
         (\<lambda>(key, entry).
            if entry = JUndefined then Inl (Error ''Canonical JSON does not allow undefined'')
            else and_then (canonicalize entry) (\<lambda>text. Inr (quote key @ '':'' @ text)))
         (sort_key fst members))
       (\<lambda>parts. Inr (CHR ''{'' # join '','' parts @ ''}''))"
  by pat_completeness auto
termination
proof (relation "measure size", goal_cases)
  case 1
  then show ?case by simp
next
  case (2 entries v)
  then have "size v \<le> size_list size entries" by (auto intro: size_list_estimation')
  then show ?case by simp
next
  case (3 members p key entry)
  then have "(key, entry) \<in> set members" by simp
  then have "size_prod (\<lambda>_. 0) size (key, entry) \<le> size_list (size_prod (\<lambda>_. 0) size) members"
    by (rule size_list_estimation') simp
  then show ?case by simp
qed

definition canonicalJson :: "json \<Rightarrow> string res" where
  "canonicalJson value = canonicalize value"

subsection \<open>The text determines the value\<close>

text \<open>\<open>norm\<close> sorts the keys at every level; \<open>ser\<close> writes a value without sorting; \<open>plain\<close> values
  are those the writer accepts.\<close>

function norm :: "json \<Rightarrow> json" where
  "norm (JArr entries) = JArr (map norm entries)"
| "norm (JObj members) = JObj (map (\<lambda>(key, entry). (key, norm entry)) (sort_key fst members))"
| "norm JNull = JNull"
| "norm (JBool b) = JBool b"
| "norm (JNum n) = JNum n"
| "norm JFraction = JFraction"
| "norm (JStr s) = JStr s"
| "norm JUndefined = JUndefined"
| "norm JOther = JOther"
  by pat_completeness auto
termination
proof (relation "measure size", goal_cases)
  case 1
  then show ?case by simp
next
  case (2 entries v)
  then have "size v \<le> size_list size entries" by (auto intro: size_list_estimation')
  then show ?case by simp
next
  case (3 members p key entry)
  then have "(key, entry) \<in> set members" by simp
  then have "size_prod (\<lambda>_. 0) size (key, entry) \<le> size_list (size_prod (\<lambda>_. 0) size) members"
    by (rule size_list_estimation') simp
  then show ?case by simp
qed

fun ser :: "json \<Rightarrow> string" where
  "ser JNull = ''null''"
| "ser (JBool b) = (if b then ''true'' else ''false'')"
| "ser (JNum n) = show_int n"
| "ser (JStr s) = quote s"
| "ser (JArr entries) = CHR ''['' # join '','' (map ser entries) @ '']''"
| "ser (JObj members) =
     CHR ''{'' # join '','' (map (\<lambda>(key, entry). quote key @ '':'' @ ser entry) members) @ ''}''"
| "ser JFraction = []"
| "ser JUndefined = []"
| "ser JOther = []"

fun plain :: "json \<Rightarrow> bool" where
  "plain (JArr entries) = list_all plain entries"
| "plain (JObj members) = list_all (\<lambda>(key, entry). plain entry) members"
| "plain JFraction = False"
| "plain JUndefined = False"
| "plain JOther = False"
| "plain _ = True"

lemma canonicalize_ser: "canonicalize v = Inr s \<Longrightarrow> s = ser (norm v) \<and> plain (norm v)"
proof (induction v arbitrary: s rule: canonicalize.induct)
  case (6 entries)
  then obtain parts where p: "list_all2 (\<lambda>v t. canonicalize v = Inr t) entries parts"
    "s = CHR ''['' # join '','' parts @ '']''" by (auto simp: traverse_Inr)
  from p(1) have "parts = map (\<lambda>v. ser (norm v)) entries \<and> list_all plain (map norm entries)"
    using "6.IH"
  proof (induction rule: list_all2_induct)
    case (Cons v vs t ts)
    then show ?case by simp
  qed simp
  with p(2) show ?case by (simp add: comp_def)
next
  case (9 members)
  let ?f = "\<lambda>(key, entry). if entry = JUndefined then Inl (Error ''Canonical JSON does not allow undefined'')
            else and_then (canonicalize entry) (\<lambda>text. Inr (quote key @ '':'' @ text))"
  from "9.prems" obtain parts where
    p: "list_all2 (\<lambda>e t. ?f e = Inr t) (sort_key fst members) parts"
      "s = CHR ''{'' # join '','' parts @ ''}''" by (auto simp: traverse_Inr)
  have ih: "canonicalize entry = Inr t \<Longrightarrow> t = ser (norm entry) \<and> plain (norm entry)"
    if "(key, entry) \<in> set (sort_key fst members)" "entry \<noteq> JUndefined" for key entry t
    using "9.IH" [OF that(1) refl that(2)] by blast
  have "parts = map (\<lambda>(key, entry). quote key @ '':'' @ ser (norm entry)) (sort_key fst members)
      \<and> list_all (\<lambda>(key, entry). plain (norm entry)) (sort_key fst members)"
    using p(1) ih
  proof (induction rule: list_all2_induct)
    case (Cons e es t ts)
    obtain key entry where e: "e = (key, entry)" by (cases e)
    with Cons.hyps(1) obtain u where u: "entry \<noteq> JUndefined" "canonicalize entry = Inr u"
      "t = quote key @ '':'' @ u" by (auto split: if_splits)
    with Cons.prems [of key entry u] e have "u = ser (norm entry) \<and> plain (norm entry)" by simp
    moreover have "ts = map (\<lambda>(key, entry). quote key @ '':'' @ ser (norm entry)) es
      \<and> list_all (\<lambda>(key, entry). plain (norm entry)) es"
      by (rule Cons.IH) (use Cons.prems in auto)
    ultimately show ?case using e u by simp
  qed simp
  with p(2) show ?case by (simp add: comp_def case_prod_unfold list_all_iff)
qed (auto split: if_splits)

text \<open>Reading back one escaped character.\<close>

definition hex_value :: "char \<Rightarrow> nat" where
  "hex_value c = (if code_of c < 58 then code_of c - 48 else code_of c - 87)"

definition unescape :: "string \<Rightarrow> char \<times> string" where
  "unescape s =
     (case s of
        [] \<Rightarrow> (NUL, [])
      | c # r \<Rightarrow>
        if c \<noteq> CHR 0x5C then (c, r)
        else (case r of
            [] \<Rightarrow> (NUL, [])
          | d # r' \<Rightarrow>
            if d = CHR ''u'' then (char_of (16 * hex_value (r' ! 2) + hex_value (r' ! 3)), drop 4 r')
            else if d = CHR ''b'' then (CHR 0x08, r')
            else if d = CHR ''t'' then (CHR 0x09, r')
            else if d = CHR ''n'' then (CHR 0x0A, r')
            else if d = CHR ''f'' then (CHR 0x0C, r')
            else if d = CHR ''r'' then (CHR 0x0D, r')
            else (d, r')))"

lemma code_of_eq: "code_of c = n \<Longrightarrow> n < 256 \<Longrightarrow> c = char_of n"
  by (metis char_of_char code_of_def)

lemma char_of_code_of: "char_of (code_of c) = c"
  by (simp add: code_of_def)

lemma hex_value_digit: "n < 16 \<Longrightarrow> hex_value (hex_digit n) = n"
  by (auto simp: hex_value_def hex_digit_def code_of_def)

lemma control_codes:
  "code_of c \<in> {8, 9, 10, 12, 13} \<longleftrightarrow>
     c \<in> {CHR 0x08, CHR 0x09, CHR 0x0A, CHR 0x0C, CHR 0x0D}"
proof -
  have k: "code_of (CHR 0x08) = 8" "code_of (CHR 0x09) = 9" "code_of (CHR 0x0A) = 10"
    "code_of (CHR 0x0C) = 12" "code_of (CHR 0x0D) = 13"
    by (simp_all add: code_of_def)
  show ?thesis
    using code_of_inj [of c "CHR 0x08", unfolded k] code_of_inj [of c "CHR 0x09", unfolded k]
      code_of_inj [of c "CHR 0x0A", unfolded k] code_of_inj [of c "CHR 0x0C", unfolded k]
      code_of_inj [of c "CHR 0x0D", unfolded k]
    by simp
qed

lemma unescape_esc: "unescape (esc c @ r) = (c, r)"
proof -
  consider "c = CHR 0x22" | "c = CHR 0x5C" | "c = CHR 0x08" | "c = CHR 0x09" | "c = CHR 0x0A"
    | "c = CHR 0x0C" | "c = CHR 0x0D"
    | (low) "code_of c < 32" "code_of c \<notin> {8, 9, 10, 12, 13}" "c \<noteq> CHR 0x22" "c \<noteq> CHR 0x5C"
    | (self) "\<not> code_of c < 32" "c \<noteq> CHR 0x22" "c \<noteq> CHR 0x5C"
    using control_codes [of c] by blast
  then show ?thesis
  proof cases
    case low
    then have "esc c = [CHR 0x5C, CHR ''u'', CHR ''0'', CHR ''0'',
        hex_digit (code_of c div 16), hex_digit (code_of c mod 16)]"
      by (simp add: esc_def)
    moreover have "code_of c div 16 < 16" using low by simp
    ultimately show ?thesis
      by (simp add: unescape_def hex_value_digit char_of_code_of)
  next
    case self
    then show ?thesis by (simp add: esc_def unescape_def)
  qed (simp_all add: esc_def unescape_def code_of_def)
qed

lemma esc_prefix: "esc c @ x = esc d @ y \<Longrightarrow> c = d \<and> x = y"
  by (metis unescape_esc prod.inject)

lemma esc_nonempty: "esc c \<noteq> []"
  by (simp add: esc_def)

lemma hd_esc: "hd (esc c) \<noteq> CHR 0x22"
  by (simp add: esc_def)

lemma escapes_prefix:
  "concat (map esc s) @ CHR 0x22 # x = concat (map esc t) @ CHR 0x22 # y \<Longrightarrow> s = t \<and> x = y"
proof (induction s arbitrary: t)
  case Nil
  show ?case
  proof (cases t)
    case (Cons d t')
    with Nil esc_nonempty [of d] hd_esc [of d] show ?thesis by (cases "esc d") auto
  qed (use Nil in simp)
next
  case (Cons c s)
  show ?case
  proof (cases t)
    case Nil
    with Cons.prems esc_nonempty [of c] hd_esc [of c] show ?thesis by (cases "esc c") auto
  next
    case (Cons d t')
    with Cons.prems have "esc c @ concat (map esc s) @ CHR 0x22 # x
        = esc d @ concat (map esc t') @ CHR 0x22 # y" by simp
    then have "c = d" "concat (map esc s) @ CHR 0x22 # x = concat (map esc t') @ CHR 0x22 # y"
      by (auto dest: esc_prefix)
    with Cons.IH Cons show ?thesis by blast
  qed
qed

lemma quote_prefix: "quote s @ x = quote t @ y \<Longrightarrow> s = t \<and> x = y"
  using escapes_prefix [of s x t y] by (simp add: quote_def)

subsubsection \<open>Prefix property of the writer\<close>

definition delim :: "string \<Rightarrow> bool" where
  "delim s \<longleftrightarrow> (case s of [] \<Rightarrow> True | c # _ \<Rightarrow> \<not> digit_char c)"

lemma delim_simps [simp]: "delim []" "delim (c # s) = (\<not> digit_char c)"
  by (simp_all add: delim_def)

lemma digits_prefix:
  "list_all digit_char a \<Longrightarrow> list_all digit_char b \<Longrightarrow> delim x \<Longrightarrow> delim y \<Longrightarrow> a @ x = b @ y \<Longrightarrow>
     a = b \<and> x = y"
proof (induction a arbitrary: b)
  case Nil
  then show ?case by (cases b) (auto split: list.splits)
next
  case (Cons c a)
  then show ?case by (cases b) auto
qed

lemma show_nat_all_digits: "list_all digit_char (show_nat n)"
  by (simp add: list_all_iff show_nat_digits)

lemma show_nat_prefix:
  "show_nat m @ x = show_nat n @ y \<Longrightarrow> delim x \<Longrightarrow> delim y \<Longrightarrow> m = n \<and> x = y"
  using digits_prefix [OF show_nat_all_digits show_nat_all_digits] show_nat_inj by blast

lemma show_nat_head: "\<exists>c r. show_nat n = c # r \<and> digit_char c"
  using show_nat_nonempty [of n] show_nat_digits [of _ n] by (cases "show_nat n") auto

lemma show_int_prefix:
  assumes "show_int i @ x = show_int j @ y" "delim x" "delim y"
  shows "i = j \<and> x = y"
proof -
  have no: "CHR ''-'' # u \<noteq> show_nat n @ v" for u v n
    using show_nat_head [of n] minus_not_digit by auto
  show ?thesis
    using assms no no [symmetric]
    by (auto simp: show_int_def split: if_splits dest!: show_nat_prefix)
qed

lemma show_int_head: "\<exists>c r. show_int i = c # r \<and> (digit_char c \<or> c = CHR ''-'')"
  using show_nat_head [of "nat i"] by (auto simp: show_int_def)

lemma join_comma_concat: "join '','' (p # ps) = p @ concat (map (\<lambda>q. CHR '','' # q) ps)"
  by (induction ps arbitrary: p) auto

lemma items_prefix:
  assumes inj: "\<And>v w x y. v \<in> set vs \<Longrightarrow> w \<in> set ws \<Longrightarrow> f v @ x = f w @ y \<Longrightarrow> delim x \<Longrightarrow> delim y \<Longrightarrow>
      v = w \<and> x = y"
    and e: "e \<noteq> CHR '',''" "\<not> digit_char e"
    and eq: "concat (map (\<lambda>v. CHR '','' # f v) vs) @ e # x = concat (map (\<lambda>w. CHR '','' # f w) ws) @ e # y"
  shows "vs = ws \<and> x = y"
  using inj eq
proof (induction vs arbitrary: ws)
  case Nil
  then show ?case using e by (cases ws) auto
next
  case (Cons v vs)
  have comma: "\<not> digit_char (CHR '','')" by (simp add: digit_char_def code_of_def)
  have dl: "delim (concat (map (\<lambda>v. CHR '','' # f v) us) @ e # z)" for us z
    using e(2) comma by (cases us) auto
  show ?case
  proof (cases ws)
    case Nil
    with Cons.prems(2) e show ?thesis by auto
  next
    case (Cons w ws')
    with Cons.prems(2) have eq': "f v @ concat (map (\<lambda>v. CHR '','' # f v) vs) @ e # x
        = f w @ concat (map (\<lambda>w. CHR '','' # f w) ws') @ e # y" by simp
    have vw: "v = w" and rest: "concat (map (\<lambda>v. CHR '','' # f v) vs) @ e # x
        = concat (map (\<lambda>w. CHR '','' # f w) ws') @ e # y"
      using Cons.prems(1) [OF _ _ eq' dl dl] Cons by auto
    have "vs = ws' \<and> x = y"
      by (rule Cons.IH [OF _ rest]) (use Cons.prems(1) Cons in auto)
    with vw Cons show ?thesis by simp
  qed
qed

lemma joined_prefix:
  assumes inj: "\<And>v w x y. v \<in> set vs \<Longrightarrow> w \<in> set ws \<Longrightarrow> f v @ x = f w @ y \<Longrightarrow> delim x \<Longrightarrow> delim y \<Longrightarrow>
      v = w \<and> x = y"
    and e: "e \<noteq> CHR '',''" "\<not> digit_char e"
    and head: "\<And>v. v \<in> set vs \<union> set ws \<Longrightarrow> \<exists>c r. f v = c # r \<and> c \<noteq> e"
    and eq: "join '','' (map f vs) @ e # x = join '','' (map f ws) @ e # y"
  shows "vs = ws \<and> x = y"
proof (cases vs)
  case Nil
  show ?thesis
  proof (cases ws)
    case (Cons w ws')
    with Nil eq head [of w] show ?thesis by (auto simp: join_comma_concat)
  qed (use Nil eq in simp)
next
  case (Cons v vs')
  note vs = this
  show ?thesis
  proof (cases ws)
    case Nil
    with vs eq head [of v] show ?thesis by (auto simp: join_comma_concat)
  next
    case (Cons w ws')
    have "concat (map (\<lambda>v. CHR '','' # f v) vs) @ e # x = concat (map (\<lambda>w. CHR '','' # f w) ws) @ e # y"
      using eq vs Cons by (simp add: join_comma_concat comp_def)
    then show ?thesis by (intro items_prefix [OF inj e])
  qed
qed

lemma ser_head:
  "plain v \<Longrightarrow> \<exists>c r. ser v = c # r \<and> c \<notin> {CHR '']'', CHR ''}'', CHR '',''}"
  using show_int_head [of "case v of JNum n \<Rightarrow> n | _ \<Rightarrow> 0"]
  by (cases v) (auto simp: quote_def digit_char_def code_of_def)

lemma bracket_not_digit [simp]: "\<not> digit_char (CHR '']'')" "\<not> digit_char (CHR ''}'')"
  by (simp_all add: digit_char_def code_of_def)

lemma ser_prefix:
  "plain v \<Longrightarrow> plain w \<Longrightarrow> ser v @ x = ser w @ y \<Longrightarrow> delim x \<Longrightarrow> delim y \<Longrightarrow> v = w \<and> x = y"
proof (induction v arbitrary: w x y)
  case (JNum n)
  obtain c r where n: "show_int n = c # r" "digit_char c \<or> c = CHR ''-''"
    using show_int_head by blast
  show ?case
  proof (cases "\<exists>m. w = JNum m")
    case True
    with JNum show ?thesis by (auto dest: show_int_prefix)
  next
    case False
    with JNum n show ?thesis
      by (cases w) (auto simp: quote_def digit_char_def code_of_def split: if_splits)
  qed
next
  case (JStr s)
  then show ?case
  proof (cases w)
    case (JNum n)
    with JStr show ?thesis using show_int_head [of n]
      by (auto simp: quote_def digit_char_def code_of_def)
  next
    case (JStr t)
    with \<open>ser (json.JStr s) @ x = ser w @ y\<close> show ?thesis using quote_prefix [of s x t y] by simp
  qed (auto simp: quote_def split: if_splits)
next
  case (JArr vs)
  note ih = JArr.IH and prems = JArr.prems
  show ?case
  proof (cases w)
    case (JArr ws)
    have eq: "join '','' (map ser vs) @ CHR '']'' # x = join '','' (map ser ws) @ CHR '']'' # y"
      using prems(3) JArr by simp
    have pl: "plain v" if "v \<in> set vs \<union> set ws" for v
      using prems(1,2) JArr that by (auto simp: list_all_iff)
    have inj: "v = u \<and> x' = y'"
      if "v \<in> set vs" "u \<in> set ws" "ser v @ x' = ser u @ y'" "delim x'" "delim y'" for v u x' y'
      by (rule ih [OF that(1) _ _ that(3-5)]) (use pl that(1,2) in auto)
    have hd: "\<exists>c r. ser v = c # r \<and> c \<noteq> CHR '']''" if "v \<in> set vs \<union> set ws" for v
      using ser_head [OF pl [OF that]] by auto
    have "vs = ws \<and> x = y"
      by (rule joined_prefix [OF inj _ _ hd eq]) simp_all
    with JArr show ?thesis by simp
  next
    case (JNum n)
    with JArr.prems show ?thesis using show_int_head [of n] by (auto simp: digit_char_def code_of_def)
  qed (use JArr.prems in \<open>auto simp: quote_def split: if_splits\<close>)
next
  case (JObj vs)
  note ih = JObj.IH and prems = JObj.prems
  show ?case
  proof (cases w)
    case (JObj ws)
    let ?f = "\<lambda>(key, entry). quote key @ '':'' @ ser entry"
    have eq: "join '','' (map ?f vs) @ CHR ''}'' # x = join '','' (map ?f ws) @ CHR ''}'' # y"
      using prems(3) JObj by simp
    have pl: "plain (snd p)" if "p \<in> set vs \<union> set ws" for p
      using prems(1,2) JObj that by (auto simp: list_all_iff)
    have inj: "p = q \<and> x' = y'"
      if "p \<in> set vs" "q \<in> set ws" "?f p @ x' = ?f q @ y'" "delim x'" "delim y'" for p q x' y'
    proof -
      have "quote (fst p) @ (CHR '':'' # ser (snd p) @ x') = quote (fst q) @ (CHR '':'' # ser (snd q) @ y')"
        using that(3) by (simp add: case_prod_unfold)
      then have k: "fst p = fst q" and sn: "ser (snd p) @ x' = ser (snd q) @ y'"
        by (auto dest: quote_prefix)
      have "snd p = snd q \<and> x' = y'"
        by (rule ih [OF that(1) _ _ _ sn that(4,5)])
          (use pl that(1,2) in \<open>auto simp: prod_set_simps intro: snds.intros\<close>)
      with k show ?thesis by (simp add: prod_eq_iff)
    qed
    have hd: "\<exists>c r. ?f p = c # r \<and> c \<noteq> CHR ''}''" for p
      by (simp add: case_prod_unfold quote_def)
    have "vs = ws \<and> x = y"
      by (rule joined_prefix [OF inj _ _ hd eq]) simp_all
    with JObj show ?thesis by simp
  next
    case (JNum n)
    with JObj.prems show ?thesis using show_int_head [of n] by (auto simp: digit_char_def code_of_def)
  qed (use JObj.prems in \<open>auto simp: quote_def split: if_splits\<close>)
next
  case JNull
  then show ?case using show_int_head [of "case w of json.JNum n \<Rightarrow> n | _ \<Rightarrow> 0"]
    by (cases w) (auto simp: quote_def digit_char_def code_of_def split: if_splits)
next
  case (JBool b)
  then show ?case using show_int_head [of "case w of json.JNum n \<Rightarrow> n | _ \<Rightarrow> 0"]
    by (cases w) (auto simp: quote_def digit_char_def code_of_def split: if_splits)
qed simp_all

lemma ser_inj: "plain v \<Longrightarrow> plain w \<Longrightarrow> ser v = ser w \<Longrightarrow> v = w"
  using ser_prefix [of v w "[]" "[]"] by simp

lemma canonicalJson_norm_eq:
  "canonicalJson v = Inr s \<Longrightarrow> canonicalJson w = Inr s \<Longrightarrow> norm v = norm w"
  unfolding canonicalJson_def by (metis canonicalize_ser ser_inj)

lemma norm_JUndefined [simp]: "norm v = JUndefined \<longleftrightarrow> v = JUndefined"
  by (cases v) simp_all

lemma traverse_map_comp: "traverse f (map g xs) = traverse (\<lambda>x. f (g x)) xs"
  by (induction xs) simp_all

lemma canonicalize_norm: "canonicalize (norm v) = canonicalize v"
proof (induction v rule: canonicalize.induct)
  case (6 entries)
  then have "traverse (\<lambda>v. canonicalize (norm v)) entries = traverse canonicalize entries"
    by (intro traverse_cong) simp_all
  then show ?case by (simp add: traverse_map_comp)
next
  case (9 members)
  let ?g = "\<lambda>(key, entry). (key, norm entry)"
  let ?f = "\<lambda>(key, entry). if entry = JUndefined then Inl (Error ''Canonical JSON does not allow undefined'')
            else and_then (canonicalize entry) (\<lambda>text. Inr (quote key @ '':'' @ text))"
  have fst: "map fst (map ?g xs) = map fst xs" for xs :: "(string \<times> json) list"
    by (simp add: comp_def case_prod_unfold)
  have "sorted (map fst (map ?g (sort_key fst members)))"
    unfolding fst by simp
  then have sorted: "sort_key fst (map ?g (sort_key fst members)) = map ?g (sort_key fst members)"
    by (rule sort_key_id_if_sorted)
  have "traverse (\<lambda>p. ?f (?g p)) (sort_key fst members) = traverse ?f (sort_key fst members)"
  proof (rule traverse_cong [OF refl])
    fix p assume p: "p \<in> set (sort_key fst members)"
    obtain key entry where e: "p = (key, entry)" by (cases p)
    show "?f (?g p) = ?f p"
    proof (cases "entry = JUndefined")
      case False
      with "9.IH" [OF p e [symmetric] False] e show ?thesis by simp
    qed (simp add: e)
  qed
  with sorted show ?case by (simp add: traverse_map_comp)
qed simp_all

text \<open>Canonical JSON identifies data: for a value the writer accepts, another value has the same
  canonical text exactly when the two differ at most in the order of object keys (at any depth).
  Equal canonical texts therefore mean equal data, which is what every hash of a revision, of an
  advisory and of an ownership record relies on.\<close>

theorem canonicalJson_identifies:
  assumes "canonicalJson v = Inr text"
  shows "canonicalJson w = Inr text \<longleftrightarrow> norm v = norm w"
proof
  assume "norm v = norm w"
  then have "canonicalize v = canonicalize w" by (metis canonicalize_norm)
  with assms show "canonicalJson w = Inr text" by (simp add: canonicalJson_def)
qed (use assms canonicalJson_norm_eq in blast)

theorem canonicalJson_identifies_witness:
  "canonicalJson (JObj [(''b'', JNull), (''a'', JBool True)]) =
    Inr (CHR ''{'' # quote ''a'' @ '':true,'' @ quote ''b'' @ '':null}'') \<and>
   canonicalJson (JObj [(''a'', JBool True), (''b'', JNull)]) =
    Inr (CHR ''{'' # quote ''a'' @ '':true,'' @ quote ''b'' @ '':null}'')"
proof -
  have first: "canonicalJson (JObj [(''b'', JNull), (''a'', JBool True)]) =
    Inr (CHR ''{'' # quote ''a'' @ '':true,'' @ quote ''b'' @ '':null}'')"
    by (simp add: canonicalJson_def)
  have "norm (JObj [(''b'', JNull), (''a'', JBool True)]) = norm (JObj [(''a'', JBool True), (''b'', JNull)])"
    by simp
  with canonicalJson_identifies [OF first] first show ?thesis by blast
qed

subsection \<open>Canonical text has no line break\<close>

lemma newline_esc: "CHR 0x0A \<notin> set (esc c)"
proof -
  have hex: "n < 16 \<Longrightarrow> hex_digit n \<noteq> CHR 0x0A" for n
  proof
    assume "n < 16" "hex_digit n = CHR 0x0A"
    then have "code_of (hex_digit n) = 10" by (simp add: code_of_def)
    with \<open>n < 16\<close> show False by (auto simp: hex_digit_def code_of_def split: if_splits)
  qed
  have a: "hex_digit (code_of c div 16) \<noteq> CHR 0x0A"
    using code_of_less_256 [of c] by (intro hex) simp
  have b: "hex_digit (code_of c mod 16) \<noteq> CHR 0x0A"
    by (intro hex) simp
  show ?thesis
    using a [symmetric] b [symmetric] control_codes [of c] by (auto simp: esc_def)
qed

lemma newline_quote: "CHR 0x0A \<notin> set (quote s)"
  using newline_esc by (auto simp: quote_def)

lemma newline_show_int: "CHR 0x0A \<notin> set (show_int n)"
proof -
  have "\<not> digit_char (CHR 0x0A)" by (simp add: digit_char_def code_of_def)
  then show ?thesis using show_nat_digits by (auto simp: show_int_def)
qed

lemma set_join: "set (join d ps) \<subseteq> set d \<union> (\<Union>p \<in> set ps. set p)"
  by (induction d ps rule: join.induct) auto

lemma newline_ser: "CHR 0x0A \<notin> set (ser v)"
proof (induction v)
  case (JArr vs)
  then show ?case using set_join [of "'',''" "map ser vs"] by auto
next
  case (JObj vs)
  have "CHR 0x0A \<notin> set (quote k @ '':'' @ ser v)" if "(k, v) \<in> set vs" for k v
    using JObj [OF that] newline_quote by (auto simp: prod_set_simps)
  then show ?case
    using set_join [of "'',''" "map (\<lambda>(key, entry). quote key @ '':'' @ ser entry) vs"] by fastforce
qed (use newline_quote newline_show_int in auto)

lemma newline_canonicalJson: "canonicalJson v = Inr text \<Longrightarrow> CHR 0x0A \<notin> set text"
  unfolding canonicalJson_def using canonicalize_ser newline_ser by blast

lemma canonicalJson_nonempty: "canonicalJson v = Inr text \<Longrightarrow> text \<noteq> []"
  unfolding canonicalJson_def using canonicalize_ser ser_head by fastforce

end
