(* ===== verification/Text_Normalization.thy ===== *)
theory Text_Normalization
  imports Prelude
begin

text \<open>
  \<open>src/domain/catalog/text-normalization.ts\<close> and \<open>resource-path.ts\<close>: the normal form in which
  every instruction and resource text is stored and hashed, and the validation of resource paths.

  Bytes and strings are both HOL strings (a JavaScript string is its UTF-8 bytes). Unicode and
  cryptographic tables that the runtime provides are fields of \<open>runtime\<close>, a parameter of every
  definition that uses them: \<open>nfc\<close> for \<open>normalize("NFC")\<close>, \<open>sha256\<close> for the hexadecimal SHA-256 of
  a string, \<open>localeCompare\<close> for the en-US collation. \<open>nfc_laws\<close> states what Unicode documents of
  NFC and the lemmas need.
\<close>

record runtime =
  sha256 :: "string \<Rightarrow> string"
  nfc :: "string \<Rightarrow> string"
  localeCompare :: "string \<Rightarrow> string \<Rightarrow> int"

subsection \<open>UTF-8\<close>

definition cont :: "char \<Rightarrow> bool" where
  "cont c \<longleftrightarrow> 128 \<le> code_of c \<and> code_of c \<le> 191"

definition in_range :: "nat \<Rightarrow> nat \<Rightarrow> char \<Rightarrow> bool" where
  "in_range lo hi c \<longleftrightarrow> lo \<le> code_of c \<and> code_of c \<le> hi"

text \<open>Well-formed UTF-8 (no overlong forms, no surrogates, nothing above U+10FFFF): what a fatal
  \<open>TextDecoder\<close> accepts.\<close>

fun utf8_valid :: "string \<Rightarrow> bool" where
  "utf8_valid [] = True"
| "utf8_valid (c # r) =
     (if code_of c < 128 then utf8_valid r
      else if in_range 194 223 c then
        (case r of d # r' \<Rightarrow> cont d \<and> utf8_valid r' | _ \<Rightarrow> False)
      else if in_range 224 239 c then
        (case r of d # e # r' \<Rightarrow>
            (if code_of c = 224 then in_range 160 191 d
             else if code_of c = 237 then in_range 128 159 d else cont d)
            \<and> cont e \<and> utf8_valid r'
         | _ \<Rightarrow> False)
      else if in_range 240 244 c then
        (case r of d # e # f # r' \<Rightarrow>
            (if code_of c = 240 then in_range 144 191 d
             else if code_of c = 244 then in_range 128 143 d else cont d)
            \<and> cont e \<and> cont f \<and> utf8_valid r'
         | _ \<Rightarrow> False)
      else False)"

definition BOM :: string where
  "BOM = [CHR 0xEF, CHR 0xBB, CHR 0xBF]"

definition strip_bom :: "string \<Rightarrow> string" where
  "strip_bom s = (if starts_with BOM s then drop 3 s else s)"

text \<open>\<open>new TextDecoder("utf-8", { fatal: true }).decode(bytes)\<close>: it drops one leading byte order
  mark (\<open>ignoreBOM\<close> is false by default) and throws on malformed input.\<close>

definition text_decode :: "string \<Rightarrow> string option" where
  "text_decode bytes = (if utf8_valid bytes then Some (strip_bom bytes) else None)"

subsection \<open>Normal form of text\<close>

definition MAX_TEXT_BYTES :: nat where
  "MAX_TEXT_BYTES = 262144"

record NormalizedText =
  nt_text :: string
  nt_byteLength :: nat

fun replace_crlf :: "string \<Rightarrow> string" where
  "replace_crlf (c # d # r) =
     (if c = CHR 0x0D \<and> d = CHR 0x0A then CHR 0x0A # replace_crlf r else c # replace_crlf (d # r))"
| "replace_crlf s = s"

definition replace_cr :: "string \<Rightarrow> string" where
  "replace_cr s = map (\<lambda>c. if c = CHR 0x0D then CHR 0x0A else c) s"

definition normalizeUtf8 :: "runtime \<Rightarrow> string \<Rightarrow> nat \<Rightarrow> NormalizedText res" where
  "normalizeUtf8 rt bytes maximumBytes =
     (if maximumBytes < length bytes then Inl (Error ''Text exceeds the configured size limit'')
      else case text_decode bytes of
        None \<Rightarrow> Inl (Error ''Content is not valid UTF-8'')
      | Some decoded \<Rightarrow>
        if NUL \<in> set decoded then Inl (Error ''Text must not contain NUL'')
        else
          (let withoutBom = strip_bom decoded;
               text = nfc rt (replace_cr (replace_crlf withoutBom));
               byteLength = length text
           in if maximumBytes < byteLength
              then Inl (Error ''Normalized text exceeds the configured size limit'')
              else Inr \<lparr>nt_text = text, nt_byteLength = byteLength\<rparr>))"

text \<open>Documented properties of NFC (Unicode Standard Annex 15): it is idempotent, maps well-formed
  text to well-formed text, and composes or decomposes neither control characters nor the byte
  order mark, so it introduces none.\<close>

definition nfc_laws :: "(string \<Rightarrow> string) \<Rightarrow> bool" where
  "nfc_laws f \<longleftrightarrow>
     (\<forall>s. utf8_valid s \<longrightarrow>
        f (f s) = f s \<and> utf8_valid (f s) \<and>
        (\<forall>c. code_of c < 32 \<longrightarrow> c \<notin> set s \<longrightarrow> c \<notin> set (f s)) \<and>
        (\<not> starts_with BOM s \<longrightarrow> \<not> starts_with BOM (f s)))"

lemma nfc_laws_id: "nfc_laws (\<lambda>s. s)"
  by (simp add: nfc_laws_def)

lemma replace_crlf_id: "CHR 0x0D \<notin> set s \<Longrightarrow> replace_crlf s = s"
  by (induction s rule: replace_crlf.induct) auto

lemma replace_cr_id: "CHR 0x0D \<notin> set s \<Longrightarrow> replace_cr s = s"
  unfolding replace_cr_def by (rule map_idI) auto

lemma no_cr_replace_cr: "CHR 0x0D \<notin> set (replace_cr s)"
  by (auto simp: replace_cr_def)

lemma no_nul_replace: "NUL \<notin> set s \<Longrightarrow> NUL \<notin> set (replace_cr (replace_crlf s))"
proof -
  assume "NUL \<notin> set s"
  then have "NUL \<notin> set (replace_crlf s)"
    by (induction s rule: replace_crlf.induct) (auto simp: NUL_def)
  then show ?thesis by (auto simp: replace_cr_def NUL_def)
qed

text \<open>A multi-byte sequence at the head of a well-formed string has no ASCII byte and can be
  followed by any well-formed string.\<close>

lemma utf8_chunk:
  assumes "utf8_valid (c # r)" and "128 \<le> code_of c"
  shows "\<exists>m r'. r = m @ r' \<and> (\<forall>d \<in> set m. 128 \<le> code_of d) \<and> utf8_valid r' \<and>
    (\<forall>t. utf8_valid t \<longrightarrow> utf8_valid (c # m @ t))"
proof -
  have hi: "128 \<le> code_of d" if "cont d \<or> in_range 160 191 d \<or> in_range 128 159 d
      \<or> in_range 144 191 d \<or> in_range 128 143 d" for d
    using that by (auto simp: cont_def in_range_def)
  consider (two) "in_range 194 223 c" | (three) "in_range 224 239 c" "\<not> in_range 194 223 c"
    | (four) "in_range 240 244 c" "\<not> in_range 194 223 c" "\<not> in_range 224 239 c"
    using assms by (auto split: if_splits)
  then show ?thesis
  proof cases
    case two
    with assms obtain d r' where r: "r = d # r'" "cont d" "utf8_valid r'"
      by (auto split: list.splits if_splits)
    with two assms hi show ?thesis by (intro exI [of _ "[d]"] exI [of _ r']) auto
  next
    case three
    with assms obtain d e r' where r: "r = d # e # r'" "cont e" "utf8_valid r'"
      and d: "if code_of c = 224 then in_range 160 191 d
              else if code_of c = 237 then in_range 128 159 d else cont d"
      by (auto split: list.splits if_splits)
    then have "128 \<le> code_of d" "128 \<le> code_of e" using hi by (auto split: if_splits)
    with r d three assms(2) show ?thesis
      by (intro exI [of _ "[d, e]"] exI [of _ r']) simp
  next
    case four
    with assms obtain d e f r' where r: "r = d # e # f # r'" "cont e" "cont f" "utf8_valid r'"
      and d: "if code_of c = 240 then in_range 144 191 d
              else if code_of c = 244 then in_range 128 143 d else cont d"
      by (auto split: list.splits if_splits)
    then have "128 \<le> code_of d" "128 \<le> code_of e" "128 \<le> code_of f"
      using hi by (auto split: if_splits)
    with r d four assms(2) show ?thesis
      by (intro exI [of _ "[d, e, f]"] exI [of _ r']) simp
  qed
qed

lemma utf8_valid_ascii: "code_of c < 128 \<Longrightarrow> utf8_valid (c # r) = utf8_valid r"
  by simp

lemma utf8_valid_induct [consumes 1, case_names empty ascii chunk]:
  assumes "utf8_valid s" and "P []"
    and "\<And>c r. code_of c < 128 \<Longrightarrow> utf8_valid r \<Longrightarrow> (\<And>t. length t \<le> length r \<Longrightarrow> utf8_valid t \<Longrightarrow> P t) \<Longrightarrow> P (c # r)"
    and "\<And>m r. m \<noteq> [] \<Longrightarrow> (\<forall>d \<in> set m. 128 \<le> code_of d) \<Longrightarrow> (\<forall>t. utf8_valid t \<longrightarrow> utf8_valid (m @ t)) \<Longrightarrow>
       utf8_valid r \<Longrightarrow> P r \<Longrightarrow> P (m @ r)"
  shows "P s"
  using assms(1)
proof (induction s rule: length_induct)
  case (1 s)
  show ?case
  proof (cases s)
    case Nil
    then show ?thesis using assms(2) by simp
  next
    case (Cons c r)
    show ?thesis
    proof (cases "code_of c < 128")
      case True
      have v: "utf8_valid r" using 1(2) Cons utf8_valid_ascii [OF True] by blast
      show ?thesis unfolding Cons
        by (rule assms(3) [OF True v]) (use 1(1) Cons in simp)
    next
      case False
      then have hi: "128 \<le> code_of c" by simp
      from utf8_chunk [OF _ this, of r] 1(2) Cons obtain m r' where
        m: "r = m @ r'" "\<forall>d \<in> set m. 128 \<le> code_of d" "utf8_valid r'"
          "\<forall>t. utf8_valid t \<longrightarrow> utf8_valid (c # m @ t)" by blast
      have "P ((c # m) @ r')"
        by (rule assms(4)) (use m hi 1(1) Cons in simp_all)
      with m(1) Cons show ?thesis by simp
    qed
  qed
qed

declare utf8_valid.simps(2) [simp del]

lemma replace_crlf_high:
  "\<forall>d \<in> set m. 128 \<le> code_of d \<Longrightarrow> replace_crlf (m @ r) = m @ replace_crlf r"
proof (induction m)
  case (Cons d m)
  then have "d \<noteq> CHR 0x0D" by (auto simp: code_of_def)
  with Cons show ?case by (cases "m @ r") auto
qed simp

lemma utf8_valid_replace_crlf: "utf8_valid s \<Longrightarrow> utf8_valid (replace_crlf s)"
proof (induction s rule: utf8_valid_induct)
  case empty
  then show ?case by simp
next
  case (ascii c r)
  show ?case
  proof (cases r)
    case Nil
    with ascii(1) show ?thesis by (simp add: utf8_valid_ascii)
  next
    case (Cons d r')
    have lf: "code_of (CHR 0x0A) < 128" by (simp add: code_of_def)
    show ?thesis
    proof (cases "c = CHR 0x0D \<and> d = CHR 0x0A")
      case True
      with ascii(2) Cons lf have "utf8_valid r'" by (simp add: utf8_valid_ascii)
      with ascii(3) [of r'] Cons True lf show ?thesis by (simp add: utf8_valid_ascii)
    next
      case False
      then have "replace_crlf (c # r) = c # replace_crlf r" using Cons by auto
      with ascii(1,2) ascii(3) [of r] show ?thesis by (simp add: utf8_valid_ascii)
    qed
  qed
next
  case (chunk m r)
  then show ?case by (simp add: replace_crlf_high)
qed

lemma replace_cr_append: "replace_cr (s @ t) = replace_cr s @ replace_cr t"
  by (simp add: replace_cr_def)

lemma utf8_valid_replace_cr: "utf8_valid s \<Longrightarrow> utf8_valid (replace_cr s)"
proof (induction s rule: utf8_valid_induct)
  case empty
  then show ?case by (simp add: replace_cr_def)
next
  case (ascii c r)
  have lf: "code_of (CHR 0x0A) < 128" by (simp add: code_of_def)
  with ascii(1,2) ascii(3) [of r] show ?case
    by (simp add: replace_cr_def utf8_valid_ascii)
next
  case (chunk m r)
  have "CHR 0x0D \<notin> set m" using chunk(2) by (auto simp: code_of_def)
  then show ?case using chunk by (simp add: replace_cr_append replace_cr_id)
qed

lemma utf8_valid_BOM: "utf8_valid (BOM @ r) = utf8_valid r"
  by (simp add: BOM_def utf8_valid.simps(2) code_of_def in_range_def cont_def)

lemma starts_with_iff: "starts_with p s \<longleftrightarrow> (\<exists>r. s = p @ r)"
  unfolding starts_with_def by (metis append_eq_conv_conj append_take_drop_id)

lemma utf8_valid_strip_bom: "utf8_valid s \<Longrightarrow> utf8_valid (strip_bom s)"
  by (auto simp: strip_bom_def starts_with_iff utf8_valid_BOM) (simp add: BOM_def)

lemma normalizeUtf8_output:
  assumes laws: "nfc_laws (nfc rt)" and n: "normalizeUtf8 rt bytes m = Inr t"
  shows "nt_byteLength t = length (nt_text t)" "length (nt_text t) \<le> m" "utf8_valid (nt_text t)"
    "CHR 0x0D \<notin> set (nt_text t)" "NUL \<notin> set (nt_text t)" "nfc rt (nt_text t) = nt_text t"
proof -
  from n obtain d where d: "text_decode bytes = Some d" "NUL \<notin> set d"
    and t: "t = \<lparr>nt_text = nfc rt (replace_cr (replace_crlf (strip_bom d))),
      nt_byteLength = length (nfc rt (replace_cr (replace_crlf (strip_bom d))))\<rparr>"
    and le: "length (nt_text t) \<le> m"
    by (auto simp: normalizeUtf8_def Let_def split: if_splits option.splits)
  let ?s = "replace_cr (replace_crlf (strip_bom d))"
  from d(1) have "utf8_valid d" by (auto simp: text_decode_def utf8_valid_strip_bom split: if_splits)
  then have v: "utf8_valid ?s"
    by (intro utf8_valid_replace_cr utf8_valid_replace_crlf utf8_valid_strip_bom)
  have "NUL \<notin> set (strip_bom d)"
    using d(2) by (auto simp: strip_bom_def dest: in_set_dropD)
  then have nul: "NUL \<notin> set ?s" by (rule no_nul_replace)
  have low: "code_of NUL < 32" "code_of (CHR 0x0D) < 32" by (simp_all add: NUL_def code_of_def)
  have l: "nfc rt (nfc rt ?s) = nfc rt ?s" "utf8_valid (nfc rt ?s)"
    "\<And>c. code_of c < 32 \<Longrightarrow> c \<notin> set ?s \<Longrightarrow> c \<notin> set (nfc rt ?s)"
    using laws v unfolding nfc_laws_def by blast+
  show "nt_byteLength t = length (nt_text t)" "length (nt_text t) \<le> m" using t le by simp_all
  show "utf8_valid (nt_text t)" "nfc rt (nt_text t) = nt_text t" using t l by simp_all
  show "CHR 0x0D \<notin> set (nt_text t)" "NUL \<notin> set (nt_text t)"
    using t l(3) [OF low(2) no_cr_replace_cr] l(3) [OF low(1) nul] by simp_all
qed

lemma normalizeUtf8_fixed:
  assumes laws: "nfc_laws (nfc rt)" and n: "normalizeUtf8 rt bytes m = Inr t"
    and bom: "\<not> starts_with BOM (nt_text t)"
  shows "normalizeUtf8 rt (nt_text t) m = Inr t"
proof -
  note out = normalizeUtf8_output [OF laws n]
  have "strip_bom (nt_text t) = nt_text t" using bom by (simp add: strip_bom_def)
  moreover have "replace_cr (replace_crlf (nt_text t)) = nt_text t"
    using out(4) by (simp add: replace_crlf_id replace_cr_id)
  ultimately show ?thesis
    using out by (cases t) (simp add: normalizeUtf8_def text_decode_def Let_def)
qed

definition ascii_runtime :: runtime where
  "ascii_runtime =
     \<lparr>sha256 = (\<lambda>s. map (\<lambda>i. if (i + length s) mod 2 = 0 then CHR ''0'' else CHR ''1'') [0..<64]),
      nfc = (\<lambda>s. s), localeCompare = byte_compare\<rparr>"

lemma ascii_runtime_nfc [simp]: "nfc ascii_runtime = (\<lambda>s. s)"
  by (simp add: ascii_runtime_def)

lemma ascii_runtime_compare [simp]: "localeCompare ascii_runtime = byte_compare"
  by (simp add: ascii_runtime_def)

text \<open>Normalized text is a fixed point: whenever normalization accepts bytes, the result is
  well-formed UTF-8 within the size limit, has no carriage return and no NUL, reports its own byte
  length, and, unless it still begins with a byte order mark, normalizing it again returns it
  unchanged, so a stored text can be re-verified by re-normalizing it.\<close>

theorem normalizeUtf8_fixed_point:
  assumes "nfc_laws (nfc rt)" and "normalizeUtf8 rt bytes maximumBytes = Inr t"
  shows "utf8_valid (nt_text t) \<and> nt_byteLength t = length (nt_text t) \<and>
    length (nt_text t) \<le> maximumBytes \<and> CHR 0x0D \<notin> set (nt_text t) \<and> NUL \<notin> set (nt_text t) \<and>
    (starts_with BOM (nt_text t) \<or> normalizeUtf8 rt (nt_text t) maximumBytes = Inr t)"
  using normalizeUtf8_output [OF assms] normalizeUtf8_fixed [OF assms] by blast

theorem normalizeUtf8_fixed_point_witness:
  "normalizeUtf8 ascii_runtime (BOM @ [CHR ''a'', CHR 0x0D, CHR 0x0A, CHR ''b'']) 10
     = Inr \<lparr>nt_text = [CHR ''a'', CHR 0x0A, CHR ''b''], nt_byteLength = 3\<rparr> \<and>
   normalizeUtf8 ascii_runtime [CHR ''a'', CHR 0x0A, CHR ''b''] 10
     = Inr \<lparr>nt_text = [CHR ''a'', CHR 0x0A, CHR ''b''], nt_byteLength = 3\<rparr>"
proof -
  have laws: "nfc_laws (nfc ascii_runtime)" by (simp add: nfc_laws_id)
  have one: "normalizeUtf8 ascii_runtime (BOM @ [CHR ''a'', CHR 0x0D, CHR 0x0A, CHR ''b'']) 10
     = Inr \<lparr>nt_text = [CHR ''a'', CHR 0x0A, CHR ''b''], nt_byteLength = 3\<rparr>"
    by (simp add: normalizeUtf8_def text_decode_def utf8_valid.simps(2) code_of_def
        in_range_def cont_def strip_bom_def starts_with_def BOM_def NUL_def replace_cr_def)
  from normalizeUtf8_fixed_point [OF laws one] one show ?thesis
    by (simp add: starts_with_def BOM_def)
qed

text \<open>Three byte order marks are not normalized away: the decoder drops one and
  \<open>normalizeUtf8\<close> another, so the accepted text still begins with one and normalizing it again
  returns something else. The excepted case of the previous property is reachable.\<close>

theorem normalizeUtf8_keeps_third_bom:
  assumes "nfc rt (BOM @ ''x'') = BOM @ ''x''" and "nfc rt ''x'' = ''x''"
  shows "normalizeUtf8 rt (BOM @ BOM @ BOM @ ''x'') MAX_TEXT_BYTES
      = Inr \<lparr>nt_text = BOM @ ''x'', nt_byteLength = 4\<rparr> \<and>
    normalizeUtf8 rt (BOM @ ''x'') MAX_TEXT_BYTES = Inr \<lparr>nt_text = ''x'', nt_byteLength = 1\<rparr>"
  using assms
  by (simp add: normalizeUtf8_def MAX_TEXT_BYTES_def text_decode_def utf8_valid_BOM
      utf8_valid.simps(2) code_of_def in_range_def cont_def
      strip_bom_def starts_with_def BOM_def NUL_def replace_cr_def)

theorem normalizeUtf8_keeps_third_bom_witness:
  "normalizeUtf8 ascii_runtime (BOM @ BOM @ BOM @ ''x'') MAX_TEXT_BYTES
      = Inr \<lparr>nt_text = BOM @ ''x'', nt_byteLength = 4\<rparr>"
  by (rule normalizeUtf8_keeps_third_bom [THEN conjunct1]) simp_all

subsection \<open>Resource paths\<close>

definition path_char :: "char \<Rightarrow> bool" where
  "path_char c \<longleftrightarrow> alnum_char c \<or> c = CHR ''.'' \<or> c = CHR ''_'' \<or> c = CHR ''-''"

definition SAFE_RESOURCE_PATH :: "string \<Rightarrow> bool" where
  "SAFE_RESOURCE_PATH s \<longleftrightarrow>
     list_all (\<lambda>segment. segment \<noteq> [] \<and> list_all path_char segment) (split_on (CHR ''/'') s)"

definition assertSafeResourcePath :: "string \<Rightarrow> unit res" where
  "assertSafeResourcePath resourcePath =
     ensure (\<not> (js_length resourcePath = 0 \<or> 240 < js_length resourcePath
         \<or> \<not> SAFE_RESOURCE_PATH resourcePath
         \<or> list_ex (\<lambda>segment. segment = ''.'' \<or> segment = ''..'') (split_on (CHR ''/'') resourcePath)))
       (Error ''Resource path is not a safe relative path'')"

text \<open>\<open>path.resolve\<close> of Node on POSIX: the arguments are joined from the last absolute one on (the
  working directory if there is none), empty and \<open>.\<close> segments are dropped and \<open>..\<close> removes the
  segment before it. \<open>resolve_segments\<close> yields the segments of the absolute result.\<close>

definition resolve_step_seg :: "string list \<Rightarrow> string \<Rightarrow> string list" where
  "resolve_step_seg acc segment =
     (if segment = [] \<or> segment = ''.'' then acc
      else if segment = ''..'' then butlast acc else acc @ [segment])"

definition resolve_path :: "string list \<Rightarrow> string \<Rightarrow> string list" where
  "resolve_path acc p =
     foldl resolve_step_seg (if starts_with ''/'' p then [] else acc) (split_on (CHR ''/'') p)"

definition resolve_segments :: "string \<Rightarrow> string list \<Rightarrow> string list" where
  "resolve_segments cwd paths = foldl resolve_path (resolve_path [] cwd) paths"

definition absolute :: "string list \<Rightarrow> string" where
  "absolute segments = CHR ''/'' # join ''/'' segments"

definition resolveResourcePath :: "string \<Rightarrow> string \<Rightarrow> string \<Rightarrow> string res" where
  "resolveResourcePath cwd root_dir resourcePath =
     and_then (assertSafeResourcePath resourcePath)
       (\<lambda>_. let absoluteRoot = absolute (resolve_segments cwd [root_dir]);
                absolutePath = absolute (resolve_segments cwd [root_dir, resourcePath])
            in if \<not> starts_with (absoluteRoot @ ''/'') absolutePath
               then Inl (Error ''Resource path escapes its revision root'')
               else Inr absolutePath)"

lemma path_char_not_slash: "\<not> path_char (CHR ''/'')"
  by (simp add: path_char_def alnum_char_def digit_char_def lower_char_def upper_char_def code_of_def)

lemma safe_path_segments:
  assumes "assertSafeResourcePath p = Inr u"
  shows "\<forall>s \<in> set (split_on (CHR ''/'') p). s \<noteq> [] \<and> s \<noteq> ''.'' \<and> s \<noteq> ''..''"
    "\<not> starts_with ''/'' p" "js_length p \<le> 240" "\<forall>c \<in> set p. path_char c \<or> c = CHR ''/''"
proof -
  from assms have a: "SAFE_RESOURCE_PATH p" "js_length p \<noteq> 0" "js_length p \<le> 240"
    "\<not> list_ex (\<lambda>segment. segment = ''.'' \<or> segment = ''..'') (split_on (CHR ''/'') p)"
    by (auto simp: assertSafeResourcePath_def)
  show seg: "\<forall>s \<in> set (split_on (CHR ''/'') p). s \<noteq> [] \<and> s \<noteq> ''.'' \<and> s \<noteq> ''..''"
    using a(1,4) by (auto simp: SAFE_RESOURCE_PATH_def list_all_iff list_ex_iff)
  show "\<not> starts_with ''/'' p"
  proof
    assume "starts_with ''/'' p"
    then obtain r where "p = CHR ''/'' # r" by (auto simp: starts_with_iff)
    then have "[] \<in> set (split_on (CHR ''/'') p)" by simp
    with seg show False by blast
  qed
  show "js_length p \<le> 240" by (rule a(3))
  have "c \<in> set (join ''/'' ps) \<Longrightarrow> c = CHR ''/'' \<or> (\<exists>s \<in> set ps. c \<in> set s)" for c ps
    by (induction "''/''" ps rule: join.induct) auto
  from this [of _ "split_on (CHR ''/'') p"] show "\<forall>c \<in> set p. path_char c \<or> c = CHR ''/''"
    using a(1) by (auto simp: join_split_on SAFE_RESOURCE_PATH_def list_all_iff)
qed

lemma resolve_plain:
  "\<forall>s \<in> set segs. s \<noteq> [] \<and> s \<noteq> ''.'' \<and> s \<noteq> ''..'' \<Longrightarrow>
     foldl resolve_step_seg acc segs = acc @ segs"
  by (induction segs arbitrary: acc) (auto simp: resolve_step_seg_def)

lemma resolve_safe:
  "assertSafeResourcePath p = Inr u \<Longrightarrow>
     resolve_segments cwd [root_dir, p] = resolve_segments cwd [root_dir] @ split_on (CHR ''/'') p"
  using safe_path_segments [of p u]
  by (simp add: resolve_segments_def resolve_path_def resolve_plain)

lemma join_append:
  "xs \<noteq> [] \<Longrightarrow> ys \<noteq> [] \<Longrightarrow> join d (xs @ ys) = join d xs @ d @ join d ys"
proof (induction d xs rule: join.induct)
  case (2 d p)
  then show ?case by (cases ys) auto
qed auto

text \<open>A safe resource path resolves inside its revision root: for every path that validation
  accepts, the resolved file is the resolved root followed by the path itself, one directory entry
  per segment, so no accepted path escapes; the only rejection left is a root that is the file
  system root.\<close>

theorem resolveResourcePath_inside:
  assumes "assertSafeResourcePath resourcePath = Inr ()"
  shows "resolveResourcePath cwd root_dir resourcePath =
    (if resolve_segments cwd [root_dir] = []
     then Inl (Error ''Resource path escapes its revision root'')
     else Inr (absolute (resolve_segments cwd [root_dir]) @ ''/'' @ resourcePath))"
proof (cases "resolve_segments cwd [root_dir] = []")
  case True
  from safe_path_segments(2) [OF assms] have "\<not> starts_with ''//'' (CHR ''/'' # resourcePath)"
    by (simp add: starts_with_iff)
  with True assms show ?thesis
    by (simp add: resolveResourcePath_def resolve_safe absolute_def join_split_on)
next
  case False
  then have "absolute (resolve_segments cwd [root_dir, resourcePath])
      = absolute (resolve_segments cwd [root_dir]) @ ''/'' @ resourcePath"
    using assms by (simp add: resolve_safe absolute_def join_append join_split_on)
  with False assms show ?thesis
    by (simp add: resolveResourcePath_def starts_with_iff)
qed

theorem resolveResourcePath_inside_witness:
  "resolveResourcePath ''/srv'' ''../data/skills'' ''references/guide.md''
     = Inr ''/data/skills/references/guide.md''"
proof -
  have safe: "assertSafeResourcePath ''references/guide.md'' = Inr ()"
    by (simp add: assertSafeResourcePath_def SAFE_RESOURCE_PATH_def js_length_def code_of_def
        path_char_def alnum_char_def digit_char_def lower_char_def upper_char_def)
  have "resolve_segments ''/srv'' [''../data/skills''] = [''data'', ''skills'']"
    by (simp add: resolve_segments_def resolve_path_def resolve_step_seg_def starts_with_def)
  with resolveResourcePath_inside [OF safe, of "''/srv''" "''../data/skills''"]
  show ?thesis by (simp add: absolute_def)
qed

end
