(* ===== verification/External_Types.thy ===== *)
theory External_Types
  imports Prelude
begin

text \<open>
  The data types of the imported catalog (\<open>src/domain/external-catalog/types.ts\<close>): candidate
  classifications, validation findings, git objects, dependency evidence, staged revisions and
  the two validators of GitHub coordinates and object names. An optional field is an \<open>option\<close>,
  with \<open>None\<close> for an absent or undefined value.
\<close>

datatype CandidateClassification = Discovered | Verified | Quarantined | Curated

datatype GitHubSyncRunState =
  Queued | Running | RunPublished | RunQuarantined | Failed | Cancelled | Superseded

datatype InvocationMode = Automatic | UserOnly

datatype ImportResult = ImportPublished | Reused | ImportQuarantined | Missing

datatype ExternalAdvisoryStatus = ExtAvailable | ExtUnavailable | ExtRevoked

datatype ValidationSeverity = SevError | SevWarning | SevInfo

datatype ClassificationActor = Discovery | Verifier | Administrator | Synchronization

datatype ExternalValidationReasonCode =
    MANIFEST_INVALID
  | MANIFEST_DUPLICATE_SKILL
  | SKILL_SCHEMA_INVALID
  | SKILL_DUPLICATE_IDENTITY
  | COMMIT_MISMATCH
  | TREE_TRUNCATED
  | TREE_OVERSIZED
  | TREE_AMBIGUOUS
  | OBJECT_UNSUPPORTED
  | PATH_UNSAFE
  | RESOURCE_MISSING
  | RESOURCE_NON_TEXT
  | RESOURCE_OVERSIZED
  | LICENSE_MISSING
  | LICENSE_UNSUPPORTED
  | LICENSE_CONFLICT
  | ATTRIBUTION_MISSING
  | DEPENDENCY_MISSING
  | DEPENDENCY_AMBIGUOUS
  | DEPENDENCY_CYCLE
  | HASH_MISMATCH
  | PUBLICATION_CONFLICT
  | ADMIN_QUARANTINE

fun code_text :: "ExternalValidationReasonCode \<Rightarrow> string" where
  "code_text MANIFEST_INVALID = ''MANIFEST_INVALID''"
| "code_text MANIFEST_DUPLICATE_SKILL = ''MANIFEST_DUPLICATE_SKILL''"
| "code_text SKILL_SCHEMA_INVALID = ''SKILL_SCHEMA_INVALID''"
| "code_text SKILL_DUPLICATE_IDENTITY = ''SKILL_DUPLICATE_IDENTITY''"
| "code_text COMMIT_MISMATCH = ''COMMIT_MISMATCH''"
| "code_text TREE_TRUNCATED = ''TREE_TRUNCATED''"
| "code_text TREE_OVERSIZED = ''TREE_OVERSIZED''"
| "code_text TREE_AMBIGUOUS = ''TREE_AMBIGUOUS''"
| "code_text OBJECT_UNSUPPORTED = ''OBJECT_UNSUPPORTED''"
| "code_text PATH_UNSAFE = ''PATH_UNSAFE''"
| "code_text RESOURCE_MISSING = ''RESOURCE_MISSING''"
| "code_text RESOURCE_NON_TEXT = ''RESOURCE_NON_TEXT''"
| "code_text RESOURCE_OVERSIZED = ''RESOURCE_OVERSIZED''"
| "code_text LICENSE_MISSING = ''LICENSE_MISSING''"
| "code_text LICENSE_UNSUPPORTED = ''LICENSE_UNSUPPORTED''"
| "code_text LICENSE_CONFLICT = ''LICENSE_CONFLICT''"
| "code_text ATTRIBUTION_MISSING = ''ATTRIBUTION_MISSING''"
| "code_text DEPENDENCY_MISSING = ''DEPENDENCY_MISSING''"
| "code_text DEPENDENCY_AMBIGUOUS = ''DEPENDENCY_AMBIGUOUS''"
| "code_text DEPENDENCY_CYCLE = ''DEPENDENCY_CYCLE''"
| "code_text HASH_MISMATCH = ''HASH_MISMATCH''"
| "code_text PUBLICATION_CONFLICT = ''PUBLICATION_CONFLICT''"
| "code_text ADMIN_QUARANTINE = ''ADMIN_QUARANTINE''"

fun severity_text :: "ValidationSeverity \<Rightarrow> string" where
  "severity_text SevError = ''error''"
| "severity_text SevWarning = ''warning''"
| "severity_text SevInfo = ''info''"

datatype SubjectKind =
  SubjectSource | SubjectSnapshot | SubjectCandidate | SubjectRevision | SubjectResource

fun subject_text :: "SubjectKind \<Rightarrow> string" where
  "subject_text SubjectSource = ''source''"
| "subject_text SubjectSnapshot = ''snapshot''"
| "subject_text SubjectCandidate = ''candidate''"
| "subject_text SubjectRevision = ''revision''"
| "subject_text SubjectResource = ''resource''"

lemma code_text_inj: "code_text a = code_text b \<longleftrightarrow> a = b"
  by (cases a; cases b; simp)

lemma severity_text_inj: "severity_text a = severity_text b \<longleftrightarrow> a = b"
  by (cases a; cases b; simp)

lemma subject_text_inj: "subject_text a = subject_text b \<longleftrightarrow> a = b"
  by (cases a; cases b; simp)

lemma texts_no_colon [simp]:
  "CHR '':'' \<notin> set (code_text a)" "CHR '':'' \<notin> set (severity_text v)"
  "CHR '':'' \<notin> set (subject_text k)"
proof -
  show "CHR '':'' \<notin> set (code_text a)" by (cases a; simp)
  show "CHR '':'' \<notin> set (severity_text v)" by (cases v; simp)
  show "CHR '':'' \<notin> set (subject_text k)" by (cases k; simp)
qed

datatype GitObjectMode = Mode100644 | Mode100755 | Mode040000 | Mode120000 | Mode160000

datatype GitObjectType = Blob | Tree | Commit

record GitTreeEntry =
  te_path :: string
  te_mode :: GitObjectMode
  te_type :: GitObjectType
  te_sha :: string
  te_size :: "nat option"

datatype EvidenceKind = EvManifest | EvFrontmatter | EvExplicitInvocation

record ExternalDependencyInput =
  dep_skillName :: string
  dep_targetSkillId :: "string option"
  dep_targetRevision :: "string option"
  dep_required :: bool
  dep_evidenceKind :: EvidenceKind
  dep_evidenceLocator :: string

record ExternalValidationFinding =
  fd_code :: ExternalValidationReasonCode
  fd_severity :: ValidationSeverity
  fd_subjectKind :: SubjectKind
  fd_subjectId :: string

datatype MediaType = Markdown | PlainText

fun media_text :: "MediaType \<Rightarrow> string" where
  "media_text Markdown = ''text/markdown''"
| "media_text PlainText = ''text/plain''"

lemma media_text_inj: "media_text a = media_text b \<longleftrightarrow> a = b"
  by (cases a; cases b; simp)

record ExternalResourceInput =
  xr_path :: string
  xr_mediaType :: MediaType
  xr_content :: string

subsection \<open>Validators\<close>

definition assertGitSha :: "string \<Rightarrow> string res" where
  "assertGitSha value = (if hex_string 40 value then Inr value else Inl (Error ''INVALID_GIT_SHA''))"

record GitHubRepositoryCoordinate =
  co_owner :: string
  co_repository :: string

definition owner_pattern :: "string \<Rightarrow> bool" where
  "owner_pattern s \<longleftrightarrow>
     s \<noteq> [] \<and> length s \<le> 39 \<and> alnum_char (hd s) \<and> alnum_char (last s) \<and>
     list_all (\<lambda>c. alnum_char c \<or> c = CHR ''-'') s"

definition repository_pattern :: "string \<Rightarrow> bool" where
  "repository_pattern s \<longleftrightarrow>
     s \<noteq> [] \<and> length s \<le> 100 \<and> alnum_char (hd s) \<and>
     (alnum_char (last s) \<or> last s = CHR ''_'' \<or> last s = CHR ''-'') \<and>
     list_all (\<lambda>c. alnum_char c \<or> c = CHR ''.'' \<or> c = CHR ''_'' \<or> c = CHR ''-'') s"

definition assertGitHubCoordinate :: "GitHubRepositoryCoordinate \<Rightarrow> GitHubRepositoryCoordinate res" where
  "assertGitHubCoordinate coordinate =
     (if \<not> owner_pattern (co_owner coordinate) \<or> \<not> repository_pattern (co_repository coordinate)
      then Inl (Error ''INVALID_GITHUB_COORDINATE'')
      else Inr coordinate)"

text \<open>An accepted coordinate cannot leave its two path segments: it has no separator and is neither
  \<open>.\<close> nor \<open>..\<close>.\<close>

lemma coordinate_safe:
  assumes "assertGitHubCoordinate c = Inr d"
  shows "d = c" "CHR ''/'' \<notin> set (co_owner c)" "CHR ''/'' \<notin> set (co_repository c)"
    "co_repository c \<noteq> ''.''" "co_repository c \<noteq> ''..''"
proof -
  have slash: "\<not> alnum_char (CHR ''/'')" and dot: "\<not> alnum_char (CHR ''.'')"
    by (simp_all add: alnum_char_def digit_char_def lower_char_def upper_char_def code_of_def)
  from assms have p: "owner_pattern (co_owner c)" "repository_pattern (co_repository c)" "d = c"
    by (auto simp: assertGitHubCoordinate_def split: if_splits)
  then show "d = c" "CHR ''/'' \<notin> set (co_owner c)" "CHR ''/'' \<notin> set (co_repository c)"
    "co_repository c \<noteq> ''.''" "co_repository c \<noteq> ''..''"
    using slash dot by (auto simp: owner_pattern_def repository_pattern_def list_all_iff)
qed

end
