(* ===== verification/Revision.thy ===== *)
theory Revision
  imports Canonical_JSON Text_Normalization External_Types
begin

text \<open>
  Skill revisions (\<open>src/domain/catalog/types.ts\<close>, \<open>canonical-revision.ts\<close> and
  \<open>revision-integrity.ts\<close>): the immutable record of one revision of a skill, its construction from
  raw texts, and the check that a stored revision is what construction would produce. The JSON
  form of each record lists its fields under their source names; an absent optional field has no
  entry. The lemmas show the bounds and hashes of a constructed revision, that construction is
  accepted by the integrity check, and that the bundle hash pins the whole revision.
\<close>

subsection \<open>Data\<close>

datatype TrustAtPublication = Trusted | StructurallyVerified

fun trust_text :: "TrustAtPublication \<Rightarrow> string" where
  "trust_text Trusted = ''trusted''"
| "trust_text StructurallyVerified = ''structurally-verified''"

record SourceReference =
  sr_provider :: string
  sr_reference :: string

record PublishedProvenance =
  pp_source :: SourceReference
  pp_sourceRevision :: string
  pp_owner :: string
  pp_license :: string
  pp_trustAtPublication :: TrustAtPublication

record ResourceManifestEntry =
  rm_path :: string
  rm_mediaType :: MediaType
  rm_byteLength :: nat
  rm_sha256 :: string

record VerifiedResource = ResourceManifestEntry +
  vr_content :: string

record LicenseNotice =
  ln_sha256 :: string
  ln_path :: string

record OriginLicense =
  ol_spdxId :: string
  ol_attribution :: string
  ol_evidenceSha256 :: "string option"
  ol_evidencePath :: "string option"
  ol_notice :: "LicenseNotice option"

record GitHubCatalogOrigin =
  go_owner :: string
  go_repository :: string
  go_commitSha :: string
  go_skillPath :: string
  go_license :: OriginLicense

datatype CurrentClassification = CurVerified | CurCurated

fun current_classification_text :: "CurrentClassification \<Rightarrow> string" where
  "current_classification_text CurVerified = ''verified''"
| "current_classification_text CurCurated = ''curated''"

fun invocation_text :: "InvocationMode \<Rightarrow> string" where
  "invocation_text Automatic = ''automatic''"
| "invocation_text UserOnly = ''user-only''"

fun evidence_text :: "EvidenceKind \<Rightarrow> string" where
  "evidence_text EvManifest = ''manifest''"
| "evidence_text EvFrontmatter = ''frontmatter''"
| "evidence_text EvExplicitInvocation = ''explicit-invocation''"

record SkillDependencyReference =
  sd_skillId :: string
  sd_revision :: string
  sd_required :: bool
  sd_evidenceKind :: EvidenceKind

record SkillRevision =
  skillId :: string
  revision :: string
  publishedProvenance :: PublishedProvenance
  instructions :: string
  instructionsSha256 :: string
  resourceManifest :: "ResourceManifestEntry list"
  resources :: "VerifiedResource list"
  bundleSha256 :: string
  catalogOrigin :: "GitHubCatalogOrigin option"
  currentClassification :: "CurrentClassification option"
  invocationMode :: "InvocationMode option"
  dependencies :: "SkillDependencyReference list option"

record RevisionResourceInput =
  ri_path :: string
  ri_mediaType :: MediaType
  ri_content :: string

record CreateSkillRevisionInput =
  ci_skillId :: string
  ci_revision :: string
  ci_publishedProvenance :: PublishedProvenance
  ci_instructions :: string
  ci_resources :: "RevisionResourceInput list"

subsection \<open>JSON forms\<close>

definition opt_field :: "string \<Rightarrow> json option \<Rightarrow> (string \<times> json) list" where
  "opt_field key value = (case value of None \<Rightarrow> [] | Some v \<Rightarrow> [(key, v)])"

definition provenance_json :: "PublishedProvenance \<Rightarrow> json" where
  "provenance_json p = JObj
     [(''source'', JObj [(''provider'', JStr (sr_provider (pp_source p))),
                         (''reference'', JStr (sr_reference (pp_source p)))]),
      (''sourceRevision'', JStr (pp_sourceRevision p)),
      (''owner'', JStr (pp_owner p)),
      (''license'', JStr (pp_license p)),
      (''trustAtPublication'', JStr (trust_text (pp_trustAtPublication p)))]"

definition manifest_json :: "ResourceManifestEntry \<Rightarrow> json" where
  "manifest_json m = JObj
     [(''path'', JStr (rm_path m)), (''mediaType'', JStr (media_text (rm_mediaType m))),
      (''byteLength'', JNum (int (rm_byteLength m))), (''sha256'', JStr (rm_sha256 m))]"

definition resource_json :: "VerifiedResource \<Rightarrow> json" where
  "resource_json r = JObj
     [(''path'', JStr (rm_path r)), (''mediaType'', JStr (media_text (rm_mediaType r))),
      (''byteLength'', JNum (int (rm_byteLength r))), (''sha256'', JStr (rm_sha256 r)),
      (''content'', JStr (vr_content r))]"

definition notice_json :: "LicenseNotice \<Rightarrow> json" where
  "notice_json n = JObj [(''sha256'', JStr (ln_sha256 n)), (''path'', JStr (ln_path n))]"

definition license_members :: "OriginLicense \<Rightarrow> (string \<times> json) list" where
  "license_members l =
     ([(''spdxId'', JStr (ol_spdxId l)), (''attribution'', JStr (ol_attribution l))]
      @ opt_field ''evidenceSha256'' (map_option JStr (ol_evidenceSha256 l))
      @ opt_field ''evidencePath'' (map_option JStr (ol_evidencePath l))
      @ opt_field ''notice'' (map_option notice_json (ol_notice l)))"

definition license_json :: "OriginLicense \<Rightarrow> json" where
  "license_json l = JObj (license_members l)"

definition origin_json :: "GitHubCatalogOrigin \<Rightarrow> json" where
  "origin_json g = JObj
     [(''kind'', JStr ''github''), (''owner'', JStr (go_owner g)),
      (''repository'', JStr (go_repository g)), (''commitSha'', JStr (go_commitSha g)),
      (''skillPath'', JStr (go_skillPath g)),
      (''license'', license_json (go_license g))]"

definition dependency_json :: "SkillDependencyReference \<Rightarrow> json" where
  "dependency_json d = JObj
     [(''skillId'', JStr (sd_skillId d)), (''revision'', JStr (sd_revision d)),
      (''required'', JBool (sd_required d)), (''evidenceKind'', JStr (evidence_text (sd_evidenceKind d)))]"

definition revision_members :: "SkillRevision \<Rightarrow> (string \<times> json) list" where
  "revision_members r =
     ([(''skillId'', JStr (skillId r)), (''revision'', JStr (revision r)),
       (''publishedProvenance'', provenance_json (publishedProvenance r)),
       (''instructions'', JStr (instructions r)),
       (''instructionsSha256'', JStr (instructionsSha256 r)),
       (''resourceManifest'', JArr (map manifest_json (resourceManifest r))),
       (''resources'', JArr (map resource_json (resources r))),
       (''bundleSha256'', JStr (bundleSha256 r))]
      @ opt_field ''catalogOrigin'' (map_option origin_json (catalogOrigin r))
      @ opt_field ''currentClassification''
          (map_option (\<lambda>c. JStr (current_classification_text c)) (currentClassification r))
      @ opt_field ''invocationMode'' (map_option (\<lambda>m. JStr (invocation_text m)) (invocationMode r))
      @ opt_field ''dependencies'' (map_option (\<lambda>ds. JArr (map dependency_json ds)) (dependencies r)))"

definition revision_json :: "SkillRevision \<Rightarrow> json" where
  "revision_json r = JObj (revision_members r)"

definition canonicalPayload :: "SkillRevision \<Rightarrow> json" where
  "canonicalPayload r = JObj
     [(''schemaVersion'', JNum 1), (''skillId'', JStr (skillId r)), (''revision'', JStr (revision r)),
      (''publishedProvenance'', provenance_json (publishedProvenance r)),
      (''instructions'', JStr (instructions r)),
      (''resourceManifest'', JArr (map manifest_json (resourceManifest r))),
      (''resources'', JArr (map
         (\<lambda>resource. JObj [(''path'', JStr (rm_path resource)), (''content'', JStr (vr_content resource))])
         (resources r)))]"

definition canonicalizeRevision :: "SkillRevision \<Rightarrow> string res" where
  "canonicalizeRevision r = canonicalJson (canonicalPayload r)"

subsection \<open>Construction and verification\<close>

definition MAX_RESOURCES :: nat where
  "MAX_RESOURCES = 64"

definition MAX_BUNDLE_CONTENT_BYTES :: nat where
  "MAX_BUNDLE_CONTENT_BYTES = 2 * 1024 * 1024"

definition verified_resource :: "runtime \<Rightarrow> RevisionResourceInput \<Rightarrow> VerifiedResource res" where
  "verified_resource rt resource =
     and_then (assertSafeResourcePath (ri_path resource)) (\<lambda>_.
     and_then (normalizeUtf8 rt (ri_content resource) MAX_TEXT_BYTES) (\<lambda>normalized.
       Inr \<lparr>rm_path = ri_path resource, rm_mediaType = ri_mediaType resource,
            rm_byteLength = nt_byteLength normalized, rm_sha256 = sha256 rt (nt_text normalized),
            vr_content = nt_text normalized\<rparr>))"

definition by_path :: "runtime \<Rightarrow> VerifiedResource \<Rightarrow> VerifiedResource \<Rightarrow> int" where
  "by_path rt left right = localeCompare rt (rm_path left) (rm_path right)"

definition createSkillRevision :: "runtime \<Rightarrow> CreateSkillRevisionInput \<Rightarrow> SkillRevision res" where
  "createSkillRevision rt input =
     (if length (ci_resources input) = 0 \<or> MAX_RESOURCES < length (ci_resources input)
      then Inl (Error ''Revision must declare between one and 64 resources'')
      else
        and_then (normalizeUtf8 rt (ci_instructions input) MAX_TEXT_BYTES) (\<lambda>normalizedInstructions.
        and_then (traverse (verified_resource rt) (ci_resources input)) (\<lambda>verified.
          let resources = js_sort (by_path rt) verified
          in if length (uniq (map rm_path resources)) \<noteq> length resources
             then Inl (Error ''Resource paths must be unique'')
             else
               let totalBytes = nt_byteLength normalizedInstructions
                     + foldl (\<lambda>total resource. total + rm_byteLength resource) 0 resources
               in if MAX_BUNDLE_CONTENT_BYTES < totalBytes
                  then Inl (Error ''Revision content exceeds bundle size'')
                  else
                    let withoutBundleHash =
                          \<lparr>skillId = ci_skillId input, revision = ci_revision input,
                           publishedProvenance = ci_publishedProvenance input,
                           instructions = nt_text normalizedInstructions,
                           instructionsSha256 = sha256 rt (nt_text normalizedInstructions),
                           resourceManifest = map ResourceManifestEntry.truncate resources,
                           resources = resources, bundleSha256 = '''',
                           catalogOrigin = None, currentClassification = None,
                           invocationMode = None, dependencies = None\<rparr>
                    in and_then (canonicalizeRevision withoutBundleHash) (\<lambda>text.
                         Inr (withoutBundleHash\<lparr>bundleSha256 := sha256 rt text\<rparr>)))))"

definition revision_input :: "SkillRevision \<Rightarrow> CreateSkillRevisionInput" where
  "revision_input r =
     \<lparr>ci_skillId = skillId r, ci_revision = revision r, ci_publishedProvenance = publishedProvenance r,
      ci_instructions = instructions r,
      ci_resources = map (\<lambda>resource.
          \<lparr>ri_path = rm_path resource, ri_mediaType = rm_mediaType resource,
           ri_content = vr_content resource\<rparr>) (resources r)\<rparr>"

definition assertRevisionIntegrity :: "runtime \<Rightarrow> SkillRevision \<Rightarrow> SkillRevision res" where
  "assertRevisionIntegrity rt r =
     and_then (createSkillRevision rt (revision_input r)) (\<lambda>reconstructed.
     and_then (canonicalJson (revision_json reconstructed)) (\<lambda>expected.
     and_then (canonicalJson (revision_json r)) (\<lambda>actual.
       if expected \<noteq> actual then Inl (Error ''Revision integrity verification failed'') else Inr r)))"

subsection \<open>Writable values\<close>

fun writable :: "json \<Rightarrow> bool" where
  "writable (JArr entries) = list_all writable entries"
| "writable (JObj members) = list_all (\<lambda>(key, entry). writable entry) members"
| "writable (JNum n) = (\<bar>n\<bar> \<le> MAX_SAFE_INTEGER)"
| "writable JFraction = False"
| "writable JUndefined = False"
| "writable JOther = False"
| "writable _ = True"

lemma traverse_total: "(\<And>x. x \<in> set xs \<Longrightarrow> \<exists>y. f x = Inr y) \<Longrightarrow> \<exists>ys. traverse f xs = Inr ys"
proof (induction xs)
  case (Cons x xs)
  from Cons.prems [of x] obtain y where "f x = Inr y" by auto
  moreover from Cons obtain ys where "traverse f xs = Inr ys" by auto
  ultimately show ?case by simp
qed simp

subsection \<open>The JSON forms are faithful\<close>

lemma lookup_append:
  "map_of (xs @ ys) k = (case map_of xs k of None \<Rightarrow> map_of ys k | Some v \<Rightarrow> Some v)"
  by (simp add: map_add_def split: option.splits)

lemma lookup_opt_field [simp]: "map_of (opt_field key value) k = (if k = key then value else None)"
  by (simp add: opt_field_def split: option.splits)

lemma keys_opt_field [simp]: "fst ` set (opt_field key v) = (if v = None then {} else {key})"
  by (cases v) (simp_all add: opt_field_def)

lemma distinct_opt_field [simp]: "distinct (map fst (opt_field key v))"
  by (cases v) (simp_all add: opt_field_def)

lemma distinct_license_members: "distinct (map fst (license_members l))"
  unfolding license_members_def map_append distinct_append set_append set_map keys_opt_field
  by (simp add: Int_Un_distrib)

lemma distinct_revision_members: "distinct (map fst (revision_members r))"
  unfolding revision_members_def map_append distinct_append set_append set_map keys_opt_field
  by (simp add: Int_Un_distrib)

lemma license_lookup:
  "map_of (license_members l) ''spdxId'' = Some (JStr (ol_spdxId l))"
  "map_of (license_members l) ''attribution'' = Some (JStr (ol_attribution l))"
  "map_of (license_members l) ''evidenceSha256'' = map_option JStr (ol_evidenceSha256 l)"
  "map_of (license_members l) ''evidencePath'' = map_option JStr (ol_evidencePath l)"
  "map_of (license_members l) ''notice'' = map_option notice_json (ol_notice l)"
  by (simp_all add: license_members_def lookup_append option.case_eq_if del: map_of_append)

lemma revision_lookup:
  "map_of (revision_members r) ''skillId'' = Some (JStr (skillId r))"
  "map_of (revision_members r) ''revision'' = Some (JStr (revision r))"
  "map_of (revision_members r) ''publishedProvenance'' = Some (provenance_json (publishedProvenance r))"
  "map_of (revision_members r) ''instructions'' = Some (JStr (instructions r))"
  "map_of (revision_members r) ''instructionsSha256'' = Some (JStr (instructionsSha256 r))"
  "map_of (revision_members r) ''resourceManifest'' = Some (JArr (map manifest_json (resourceManifest r)))"
  "map_of (revision_members r) ''resources'' = Some (JArr (map resource_json (resources r)))"
  "map_of (revision_members r) ''bundleSha256'' = Some (JStr (bundleSha256 r))"
  "map_of (revision_members r) ''catalogOrigin'' = map_option origin_json (catalogOrigin r)"
  "map_of (revision_members r) ''currentClassification''
     = map_option (\<lambda>c. JStr (current_classification_text c)) (currentClassification r)"
  "map_of (revision_members r) ''invocationMode'' = map_option (\<lambda>m. JStr (invocation_text m)) (invocationMode r)"
  "map_of (revision_members r) ''dependencies'' = map_option (\<lambda>ds. JArr (map dependency_json ds)) (dependencies r)"
  by (simp_all add: revision_members_def lookup_append option.case_eq_if del: map_of_append)

lemma norm_lookup:
  assumes "norm (JObj a) = norm (JObj b)" "distinct (map fst a)" "distinct (map fst b)"
  shows "map_option norm (map_of a k) = map_option norm (map_of b k)"
proof -
  have m: "map_of (map (\<lambda>(key, entry). (key, norm entry)) (sort_key fst c)) k
      = map_option norm (map_of c k)" if "distinct (map fst c)" for c :: "(string \<times> json) list"
  proof -
    have "distinct (map fst (sort_key fst c))" using that by (simp add: distinct_map)
    then have "map_of (sort_key fst c) = map_of c"
      using that by (subst map_of_inject_set) simp_all
    then show ?thesis by (simp add: map_of_map option.map_comp)
  qed
  have "map (\<lambda>(key, entry). (key, norm entry)) (sort_key fst a)
      = map (\<lambda>(key, entry). (key, norm entry)) (sort_key fst b)"
    using assms(1) by simp
  then show ?thesis using m [OF assms(2)] m [OF assms(3)] by metis
qed

lemma map_norm_inj:
  "(\<And>x y. norm (f x) = norm (g y) \<Longrightarrow> h x = h' y) \<Longrightarrow> map (\<lambda>x. norm (f x)) xs = map (\<lambda>y. norm (g y)) ys \<Longrightarrow>
     map h xs = map h' ys"
proof (induction xs arbitrary: ys)
  case (Cons x xs)
  then show ?case by (cases ys) auto
qed simp

lemma text_injs:
  "trust_text a = trust_text b \<longleftrightarrow> a = b"
  "current_classification_text c = current_classification_text d \<longleftrightarrow> c = d"
  "invocation_text m = invocation_text n \<longleftrightarrow> m = n"
  "evidence_text e = evidence_text f \<longleftrightarrow> e = f"
     apply (cases a; cases b; simp)
    apply (cases c; cases d; simp)
   apply (cases m; cases n; simp)
  apply (cases e; cases f; simp)
  done

lemma provenance_json_inj: "norm (provenance_json p) = norm (provenance_json q) \<Longrightarrow> p = q"
proof -
  assume n: "norm (provenance_json p) = norm (provenance_json q)"
  note l = norm_lookup [OF n [unfolded provenance_json_def]]
  have src: "norm (JObj [(''provider'', JStr (sr_provider (pp_source p))),
      (''reference'', JStr (sr_reference (pp_source p)))]) =
    norm (JObj [(''provider'', JStr (sr_provider (pp_source q))),
      (''reference'', JStr (sr_reference (pp_source q)))])"
    using l [of "''source''"] by (simp del: norm.simps)
  have "pp_sourceRevision p = pp_sourceRevision q" "pp_owner p = pp_owner q"
    "pp_license p = pp_license q" "pp_trustAtPublication p = pp_trustAtPublication q"
    using l [of "''sourceRevision''"] l [of "''owner''"] l [of "''license''"]
      l [of "''trustAtPublication''"] by (simp_all add: text_injs)
  moreover have "pp_source p = pp_source q"
    using norm_lookup [OF src, of "''provider''"] norm_lookup [OF src, of "''reference''"]
    by (cases "pp_source p"; cases "pp_source q") simp
  ultimately show "p = q" by (cases p; cases q) simp
qed


lemma manifest_json_inj: "norm (manifest_json m) = norm (manifest_json n) \<Longrightarrow> m = n"
proof -
  assume e: "norm (manifest_json m) = norm (manifest_json n)"
  note l = norm_lookup [OF e [unfolded manifest_json_def]]
  show "m = n"
    using l [of "''path''"] l [of "''mediaType''"] l [of "''byteLength''"] l [of "''sha256''"]
    by (cases m; cases n) (simp add: media_text_inj)
qed

lemma resource_json_inj: "norm (resource_json m) = norm (resource_json n) \<Longrightarrow> m = n"
proof -
  assume e: "norm (resource_json m) = norm (resource_json n)"
  note l = norm_lookup [OF e [unfolded resource_json_def]]
  show "m = n"
    using l [of "''path''"] l [of "''mediaType''"] l [of "''byteLength''"] l [of "''sha256''"]
      l [of "''content''"]
    by (cases m; cases n) (simp add: media_text_inj)
qed

lemma dependency_json_inj: "norm (dependency_json m) = norm (dependency_json n) \<Longrightarrow> m = n"
proof -
  assume e: "norm (dependency_json m) = norm (dependency_json n)"
  note l = norm_lookup [OF e [unfolded dependency_json_def]]
  show "m = n"
    using l [of "''skillId''"] l [of "''revision''"] l [of "''required''"] l [of "''evidenceKind''"]
    by (cases m; cases n) (simp add: text_injs)
qed

lemma option_JStr_inj: "map_option norm (map_option JStr a) = map_option norm (map_option JStr b) \<Longrightarrow> a = b"
  by (cases a; cases b) simp_all

lemma notice_json_inj: "norm (notice_json m) = norm (notice_json n) \<Longrightarrow> m = n"
proof -
  assume e: "norm (notice_json m) = norm (notice_json n)"
  note l = norm_lookup [OF e [unfolded notice_json_def]]
  show "m = n" using l [of "''sha256''"] l [of "''path''"] by (cases m; cases n) simp
qed

lemma map_option_norm_inj:
  "(\<And>x y. norm (f x) = norm (f y) \<Longrightarrow> x = y) \<Longrightarrow>
     map_option norm (map_option f a) = map_option norm (map_option f b) \<Longrightarrow> a = b"
  by (cases a; cases b) (simp_all del: norm.simps)

lemma map_list_norm_inj:
  "(\<And>x y. norm (f x) = norm (f y) \<Longrightarrow> x = y) \<Longrightarrow>
     norm (JArr (map f xs)) = norm (JArr (map f ys)) \<Longrightarrow> xs = ys"
proof (induction xs arbitrary: ys)
  case (Cons x xs)
  then show ?case by (cases ys) auto
qed simp

lemma license_json_inj: "norm (license_json m) = norm (license_json n) \<Longrightarrow> m = n"
proof -
  assume e: "norm (license_json m) = norm (license_json n)"
  note l = norm_lookup [OF e [unfolded license_json_def] distinct_license_members distinct_license_members]
  have "ol_spdxId m = ol_spdxId n" "ol_attribution m = ol_attribution n"
    using l [of "''spdxId''"] l [of "''attribution''"] by (simp_all add: license_lookup)
  moreover have "ol_evidenceSha256 m = ol_evidenceSha256 n" "ol_evidencePath m = ol_evidencePath n"
    using l [of "''evidenceSha256''"] l [of "''evidencePath''"]
    by (simp_all only: license_lookup option_JStr_inj)
  moreover have "ol_notice m = ol_notice n"
    using l [of "''notice''"] map_option_norm_inj [OF notice_json_inj] by (simp only: license_lookup)
  ultimately show "m = n" by (cases m; cases n) simp
qed

lemma origin_json_inj: "norm (origin_json m) = norm (origin_json n) \<Longrightarrow> m = n"
proof -
  assume e: "norm (origin_json m) = norm (origin_json n)"
  note l = norm_lookup [OF e [unfolded origin_json_def]]
  have "go_license m = go_license n"
    by (rule license_json_inj) (use l [of "''license''"] in \<open>simp del: norm.simps\<close>)
  then show "m = n"
    using l [of "''owner''"] l [of "''repository''"] l [of "''commitSha''"] l [of "''skillPath''"]
    by (cases m; cases n) simp
qed

lemmas json_injs = provenance_json_inj manifest_json_inj resource_json_inj dependency_json_inj origin_json_inj

lemma revision_json_inj:
  assumes "norm (revision_json m) = norm (revision_json n)"
  shows "m = n"
proof -
  note l = norm_lookup [OF assms [unfolded revision_json_def] distinct_revision_members distinct_revision_members]
  have "skillId m = skillId n" "revision m = revision n" "instructions m = instructions n"
    "instructionsSha256 m = instructionsSha256 n" "bundleSha256 m = bundleSha256 n"
    using l [of "''skillId''"] l [of "''revision''"] l [of "''instructions''"]
      l [of "''instructionsSha256''"] l [of "''bundleSha256''"] by (simp_all add: revision_lookup)
  moreover have "publishedProvenance m = publishedProvenance n"
    using l [of "''publishedProvenance''"]
    by (intro provenance_json_inj) (simp only: revision_lookup option.map option.inject)
  moreover have "resourceManifest m = resourceManifest n"
    using l [of "''resourceManifest''"]
    by (intro map_list_norm_inj [OF manifest_json_inj]) (simp_all only: revision_lookup option.map option.inject)
  moreover have "resources m = resources n"
    using l [of "''resources''"]
    by (intro map_list_norm_inj [OF resource_json_inj]) (simp_all only: revision_lookup option.map option.inject)
  moreover have "catalogOrigin m = catalogOrigin n"
    using l [of "''catalogOrigin''"] map_option_norm_inj [OF origin_json_inj] by (simp only: revision_lookup)
  moreover have "currentClassification m = currentClassification n"
    by (rule map_option_norm_inj [OF _ l [of "''currentClassification''", unfolded revision_lookup]])
      (simp add: text_injs)
  moreover have "invocationMode m = invocationMode n"
    by (rule map_option_norm_inj [OF _ l [of "''invocationMode''", unfolded revision_lookup]])
      (simp add: text_injs)
  moreover have "dependencies m = dependencies n"
    by (rule map_option_norm_inj [OF _ l [of "''dependencies''", unfolded revision_lookup]])
      (rule map_list_norm_inj [OF dependency_json_inj])
  ultimately show "m = n" by (cases m; cases n) simp
qed

subsection \<open>Every revision has a canonical text\<close>

lemma canonicalize_total: "writable v \<Longrightarrow> \<exists>text. canonicalize v = Inr text"
proof (induction v rule: canonicalize.induct)
  case (6 entries)
  then show ?case using traverse_total [of entries canonicalize] by (auto simp: list_all_iff)
next
  case (9 members)
  let ?f = "\<lambda>(key, entry). if entry = JUndefined then Inl (Error ''Canonical JSON does not allow undefined'')
            else and_then (canonicalize entry) (\<lambda>text. Inr (quote key @ '':'' @ text))"
  have "\<exists>y. ?f p = Inr y" if p: "p \<in> set (sort_key fst members)" for p
  proof -
    obtain key entry where e: "p = (key, entry)" by (cases p)
    from p e 9(2) have w: "writable entry" by (auto simp: list_all_iff)
    then have u: "entry \<noteq> JUndefined" by auto
    from "9.IH" [OF p e [symmetric] u w] show ?thesis using e u by auto
  qed
  then have "\<exists>ys. traverse ?f (sort_key fst members) = Inr ys" by (rule traverse_total)
  then show ?case by auto
qed simp_all

lemma writable_provenance: "writable (provenance_json p)"
  by (simp add: provenance_json_def)

lemma writable_manifest: "rm_byteLength m \<le> MAX_TEXT_BYTES \<Longrightarrow> writable (manifest_json m)"
  by (simp add: manifest_json_def MAX_SAFE_INTEGER_def MAX_TEXT_BYTES_def)

lemma writable_resource: "rm_byteLength m \<le> MAX_TEXT_BYTES \<Longrightarrow> writable (resource_json m)"
  by (simp add: resource_json_def MAX_SAFE_INTEGER_def MAX_TEXT_BYTES_def)

subsection \<open>Constructed revisions\<close>

text \<open>What construction promises of a revision: the bounds of the source, unique paths, and hashes
  that are those of the data they stand beside.\<close>

definition well_formed_resource :: "runtime \<Rightarrow> VerifiedResource \<Rightarrow> bool" where
  "well_formed_resource rt resource \<longleftrightarrow>
     assertSafeResourcePath (rm_path resource) = Inr () \<and>
     rm_byteLength resource = length (vr_content resource) \<and>
     rm_byteLength resource \<le> MAX_TEXT_BYTES \<and>
     rm_sha256 resource = sha256 rt (vr_content resource)"

definition well_formed_revision :: "runtime \<Rightarrow> SkillRevision \<Rightarrow> bool" where
  "well_formed_revision rt r \<longleftrightarrow>
     resources r \<noteq> [] \<and> length (resources r) \<le> MAX_RESOURCES \<and>
     distinct (map rm_path (resources r)) \<and>
     list_all (well_formed_resource rt) (resources r) \<and>
     resourceManifest r = map ResourceManifestEntry.truncate (resources r) \<and>
     length (instructions r) + sum_list (map rm_byteLength (resources r)) \<le> MAX_BUNDLE_CONTENT_BYTES \<and>
     instructionsSha256 r = sha256 rt (instructions r) \<and>
     (case canonicalizeRevision r of Inl e \<Rightarrow> False | Inr text \<Rightarrow> bundleSha256 r = sha256 rt text)"

lemma canonicalizeRevision_bundle [simp]:
  "canonicalizeRevision (r\<lparr>bundleSha256 := h\<rparr>) = canonicalizeRevision r"
  by (simp add: canonicalizeRevision_def canonicalPayload_def)

lemma foldl_sum: "foldl (\<lambda>total x. total + f x) a xs = a + sum_list (map f xs)" for a :: nat
  by (induction xs arbitrary: a) simp_all

lemma createSkillRevision_cases:
  assumes "createSkillRevision rt input = Inr r"
  obtains n vs t where
    "normalizeUtf8 rt (ci_instructions input) MAX_TEXT_BYTES = Inr n"
    "traverse (verified_resource rt) (ci_resources input) = Inr vs"
    "ci_resources input \<noteq> []" "length (ci_resources input) \<le> MAX_RESOURCES"
    "distinct (map rm_path vs)"
    "nt_byteLength n + sum_list (map rm_byteLength (js_sort (by_path rt) vs)) \<le> MAX_BUNDLE_CONTENT_BYTES"
    "canonicalizeRevision r = Inr t"
    "r = \<lparr>skillId = ci_skillId input, revision = ci_revision input,
          publishedProvenance = ci_publishedProvenance input,
          instructions = nt_text n, instructionsSha256 = sha256 rt (nt_text n),
          resourceManifest = map ResourceManifestEntry.truncate (js_sort (by_path rt) vs),
          resources = js_sort (by_path rt) vs, bundleSha256 = sha256 rt t,
          catalogOrigin = None, currentClassification = None,
          invocationMode = None, dependencies = None\<rparr>"
proof -
  let ?mk = "\<lambda>n vs. \<lparr>skillId = ci_skillId input, revision = ci_revision input,
          publishedProvenance = ci_publishedProvenance input,
          instructions = nt_text n, instructionsSha256 = sha256 rt (nt_text n),
          resourceManifest = map ResourceManifestEntry.truncate (js_sort (by_path rt) vs),
          resources = js_sort (by_path rt) vs, bundleSha256 = [],
          catalogOrigin = None, currentClassification = None,
          invocationMode = None, dependencies = None\<rparr>"
  from assms obtain n vs t where o:
    "normalizeUtf8 rt (ci_instructions input) MAX_TEXT_BYTES = Inr n"
    "traverse (verified_resource rt) (ci_resources input) = Inr vs"
    "length (ci_resources input) \<noteq> 0" "length (ci_resources input) \<le> MAX_RESOURCES"
    "length (uniq (map rm_path (js_sort (by_path rt) vs))) = length (js_sort (by_path rt) vs)"
    "nt_byteLength n + foldl (\<lambda>total resource. total + rm_byteLength resource) 0 (js_sort (by_path rt) vs)
        \<le> MAX_BUNDLE_CONTENT_BYTES"
    "canonicalizeRevision (?mk n vs) = Inr t" "r = (?mk n vs)\<lparr>bundleSha256 := sha256 rt t\<rparr>"
    unfolding createSkillRevision_def and_then_Inr Let_def if_distrib
    by (auto simp: Let_def split: if_splits)
  have "canonicalizeRevision r = Inr t" unfolding o(8) canonicalizeRevision_bundle by (rule o(7))
  moreover have "distinct (map rm_path vs)"
    using o(5) length_uniq_distinct [of "map rm_path (js_sort (by_path rt) vs)"] by simp
  moreover have "ci_resources input \<noteq> []" using o(3) by auto
  ultimately show thesis
    by (intro that [of n vs t]) (use o in \<open>simp_all add: foldl_sum\<close>)
qed

lemma createSkillRevision_texts:
  assumes "createSkillRevision rt input = Inr r"
  shows "\<exists>n vs. normalizeUtf8 rt (ci_instructions input) MAX_TEXT_BYTES = Inr n \<and>
    traverse (verified_resource rt) (ci_resources input) = Inr vs \<and>
    instructions r = nt_text n \<and> resources r = js_sort (by_path rt) vs"
  by (rule createSkillRevision_cases [OF assms]) simp

lemma verified_resource_spec:
  assumes "nfc_laws (nfc rt)" "verified_resource rt resource = Inr v"
  shows "well_formed_resource rt v" "rm_path v = ri_path resource" "rm_mediaType v = ri_mediaType resource"
    "normalizeUtf8 rt (ri_content resource) MAX_TEXT_BYTES
       = Inr \<lparr>nt_text = vr_content v, nt_byteLength = rm_byteLength v\<rparr>"
proof -
  from assms(2) obtain n where n: "assertSafeResourcePath (ri_path resource) = Inr ()"
    "normalizeUtf8 rt (ri_content resource) MAX_TEXT_BYTES = Inr n"
    "v = \<lparr>rm_path = ri_path resource, rm_mediaType = ri_mediaType resource,
            rm_byteLength = nt_byteLength n, rm_sha256 = sha256 rt (nt_text n), vr_content = nt_text n\<rparr>"
    by (auto simp: verified_resource_def)
  then show "well_formed_resource rt v" "rm_path v = ri_path resource" "rm_mediaType v = ri_mediaType resource"
    "normalizeUtf8 rt (ri_content resource) MAX_TEXT_BYTES
       = Inr \<lparr>nt_text = vr_content v, nt_byteLength = rm_byteLength v\<rparr>"
    using normalizeUtf8_output [OF assms(1) n(2)] by (simp_all add: well_formed_resource_def)
qed

lemma createSkillRevision_well_formed_aux:
  assumes laws: "nfc_laws (nfc rt)" and c: "createSkillRevision rt input = Inr r"
  shows "well_formed_revision rt r" "mset (map rm_path (resources r)) = mset (map ri_path (ci_resources input))"
    "list_all (\<lambda>v. normalizeUtf8 rt (vr_content v) MAX_TEXT_BYTES
         = Inr \<lparr>nt_text = vr_content v, nt_byteLength = rm_byteLength v\<rparr> \<or> starts_with BOM (vr_content v))
       (resources r)"
    "normalizeUtf8 rt (instructions r) MAX_TEXT_BYTES
         = Inr \<lparr>nt_text = instructions r, nt_byteLength = length (instructions r)\<rparr>
       \<or> starts_with BOM (instructions r)"
proof -
  obtain n vs t where o:
    "normalizeUtf8 rt (ci_instructions input) MAX_TEXT_BYTES = Inr n"
    "traverse (verified_resource rt) (ci_resources input) = Inr vs"
    "ci_resources input \<noteq> []" "length (ci_resources input) \<le> MAX_RESOURCES"
    "distinct (map rm_path vs)"
    "nt_byteLength n + sum_list (map rm_byteLength (js_sort (by_path rt) vs)) \<le> MAX_BUNDLE_CONTENT_BYTES"
    "canonicalizeRevision r = Inr t"
    and r: "r = \<lparr>skillId = ci_skillId input, revision = ci_revision input,
          publishedProvenance = ci_publishedProvenance input,
          instructions = nt_text n, instructionsSha256 = sha256 rt (nt_text n),
          resourceManifest = map ResourceManifestEntry.truncate (js_sort (by_path rt) vs),
          resources = js_sort (by_path rt) vs, bundleSha256 = sha256 rt t,
          catalogOrigin = None, currentClassification = None,
          invocationMode = None, dependencies = None\<rparr>"
    by (rule createSkillRevision_cases [OF c])
  have all: "list_all2 (\<lambda>x y. verified_resource rt x = Inr y) (ci_resources input) vs"
    using o(2) by (simp add: traverse_Inr)
  note spec = verified_resource_spec [OF laws]
  have paths: "map rm_path vs = map ri_path (ci_resources input)"
    using all by (induction rule: list_all2_induct) (simp_all add: spec)
  have wf: "list_all (well_formed_resource rt) vs"
    using all by (induction rule: list_all2_induct) (simp_all add: spec)
  have len: "length vs = length (ci_resources input)" using all by (simp add: list_all2_lengthD)
  have "list_all (\<lambda>v. normalizeUtf8 rt (vr_content v) MAX_TEXT_BYTES
         = Inr \<lparr>nt_text = vr_content v, nt_byteLength = rm_byteLength v\<rparr> \<or> starts_with BOM (vr_content v)) vs"
    using all
  proof (induction rule: list_all2_induct)
    case (Cons x xs y ys)
    then show ?case using normalizeUtf8_fixed [OF laws spec(4) [of x y]] by auto
  qed simp
  with wf show "list_all (\<lambda>v. normalizeUtf8 rt (vr_content v) MAX_TEXT_BYTES
         = Inr \<lparr>nt_text = vr_content v, nt_byteLength = rm_byteLength v\<rparr> \<or> starts_with BOM (vr_content v))
       (resources r)"
    by (simp add: r list_all_iff)
  show "mset (map rm_path (resources r)) = mset (map ri_path (ci_resources input))"
    using arg_cong [OF paths, of mset] by (simp add: r)
  note out = normalizeUtf8_output [OF laws o(1)]
  have "list_all (well_formed_resource rt) (js_sort (by_path rt) vs)" using wf by (simp add: list_all_iff)
  then show "well_formed_revision rt r"
    using o(3-7) out(1) len by (auto simp: well_formed_revision_def r)
  show "normalizeUtf8 rt (instructions r) MAX_TEXT_BYTES
         = Inr \<lparr>nt_text = instructions r, nt_byteLength = length (instructions r)\<rparr>
       \<or> starts_with BOM (instructions r)"
    using normalizeUtf8_fixed [OF laws o(1)] out(1) by (auto simp: r)
qed

lemma revision_input_fixed:
  assumes laws: "nfc_laws (nfc rt)" and cons: "consistent (localeCompare rt)"
    and c: "createSkillRevision rt input = Inr r"
    and bom: "\<not> starts_with BOM (instructions r)"
      "list_all (\<lambda>v. \<not> starts_with BOM (vr_content v)) (resources r)"
  shows "createSkillRevision rt (revision_input r) = Inr r"
proof -
  note aux = createSkillRevision_well_formed_aux [OF laws c]
  have wf: "list_all (well_formed_resource rt) (resources r)"
    using aux(1) by (simp add: well_formed_revision_def)
  let ?in = "\<lambda>v. \<lparr>ri_path = rm_path v, ri_mediaType = rm_mediaType v, ri_content = vr_content v\<rparr>"
  have "verified_resource rt (?in v) = Inr v" if "v \<in> set (resources r)" for v :: VerifiedResource
  proof -
    from that wf aux(3) bom(2) have "well_formed_resource rt v" "normalizeUtf8 rt (vr_content v) MAX_TEXT_BYTES
         = Inr \<lparr>nt_text = vr_content v, nt_byteLength = rm_byteLength v\<rparr>"
      by (auto simp: list_all_iff)
    then show ?thesis
      by (cases v) (simp add: verified_resource_def well_formed_resource_def)
  qed
  then have tr: "traverse (verified_resource rt) (map ?in (resources r)) = Inr (resources r)"
    using traverse_map [of "resources r" "\<lambda>v. verified_resource rt (?in v)" "\<lambda>v. v"]
    by (simp add: traverse_map_comp)
  obtain n vs where r: "resources r = js_sort (by_path rt) vs" "catalogOrigin r = None"
    "currentClassification r = None" "invocationMode r = None" "dependencies r = None"
    by (rule createSkillRevision_cases [OF c]) simp
  have "sorted_wrt (\<lambda>a b. by_path rt a b \<le> 0) (resources r)"
    unfolding r(1) by_path_def by (rule sorted_js_sort [OF consistent_key [OF cons]])
  then have sort: "js_sort (by_path rt) (resources r) = resources r" by (rule js_sort_sorted)
  have ins: "normalizeUtf8 rt (instructions r) MAX_TEXT_BYTES
         = Inr \<lparr>nt_text = instructions r, nt_byteLength = length (instructions r)\<rparr>"
    using aux(4) bom(1) by blast
  from aux(1) obtain t where t_def: "canonicalizeRevision r = Inr t" "bundleSha256 r = sha256 rt t"
    by (auto simp: well_formed_revision_def split: sum.splits)
  let ?w = "r\<lparr>bundleSha256 := []\<rparr>"
  have w: "\<lparr>skillId = skillId r, revision = revision r, publishedProvenance = publishedProvenance r,
      instructions = instructions r, instructionsSha256 = sha256 rt (instructions r),
      resourceManifest = map ResourceManifestEntry.truncate (resources r), resources = resources r,
      bundleSha256 = [], catalogOrigin = None, currentClassification = None, invocationMode = None,
      dependencies = None\<rparr> = ?w"
    using r(2-5) aux(1) by (cases r) (simp add: well_formed_revision_def)
  have "?w\<lparr>bundleSha256 := sha256 rt t\<rparr> = r" using t_def(2) by (cases r) simp
  moreover have "canonicalizeRevision ?w = Inr t" using t_def(1) by simp
  moreover have "resources r \<noteq> []" "length (resources r) \<le> MAX_RESOURCES"
    "length (uniq (map rm_path (resources r))) = length (resources r)"
    "length (instructions r) + sum_list (map rm_byteLength (resources r)) \<le> MAX_BUNDLE_CONTENT_BYTES"
    using aux(1) length_uniq_distinct [of "map rm_path (resources r)"]
    by (auto simp: well_formed_revision_def)
  ultimately show ?thesis
    using tr ins sort w
    by (simp add: createSkillRevision_def revision_input_def Let_def foldl_sum)
qed

lemma createSkillRevision_writable:
  assumes "createSkillRevision rt input = Inr r"
  shows "\<exists>t. canonicalJson (revision_json r) = Inr t"
proof -
  obtain n :: NormalizedText and vs t where o: "traverse (verified_resource rt) (ci_resources input) = Inr vs"
    and r: "r = \<lparr>skillId = ci_skillId input, revision = ci_revision input,
          publishedProvenance = ci_publishedProvenance input,
          instructions = nt_text n, instructionsSha256 = sha256 rt (nt_text n),
          resourceManifest = map ResourceManifestEntry.truncate (js_sort (by_path rt) vs),
          resources = js_sort (by_path rt) vs, bundleSha256 = sha256 rt t,
          catalogOrigin = None, currentClassification = None,
          invocationMode = None, dependencies = None\<rparr>"
    by (rule createSkillRevision_cases [OF assms]) blast
  have all: "list_all2 (\<lambda>x y. verified_resource rt x = Inr y) (ci_resources input) vs"
    using o by (simp add: traverse_Inr)
  have "list_all (\<lambda>v. rm_byteLength v \<le> MAX_TEXT_BYTES) vs"
    using all
    by (induction rule: list_all2_induct)
      (auto simp: verified_resource_def normalizeUtf8_def Let_def split: option.splits if_splits)
  then have le: "rm_byteLength v \<le> MAX_TEXT_BYTES" if "v \<in> set vs" for v
    using that by (simp add: list_all_iff)
  have "writable (manifest_json (ResourceManifestEntry.truncate v))" if "v \<in> set vs" for v
    by (rule writable_manifest) (use le [OF that] in \<open>simp add: ResourceManifestEntry.truncate_def\<close>)
  then have "writable (revision_json r)"
    using le
    by (auto simp: revision_json_def revision_members_def opt_field_def r list_all_iff
        writable_provenance writable_resource)
  then show ?thesis unfolding canonicalJson_def by (rule canonicalize_total)
qed

lemma assertRevisionIntegrity_reconstructs:
  assumes "assertRevisionIntegrity rt r = Inr r'"
  shows "r' = r \<and> createSkillRevision rt (revision_input r) = Inr r"
proof -
  from assms obtain q t where q: "createSkillRevision rt (revision_input r) = Inr q"
    "canonicalJson (revision_json q) = Inr t" "canonicalJson (revision_json r) = Inr t" "r' = r"
    unfolding assertRevisionIntegrity_def and_then_Inr by (metis Inl_Inr_False Inr_inject)
  have "q = r" by (rule revision_json_inj [OF canonicalJson_norm_eq [OF q(2,3)]])
  with q(1,4) show ?thesis by simp
qed

lemma resources_split:
  "map ResourceManifestEntry.truncate xs = map ResourceManifestEntry.truncate ys \<Longrightarrow>
     map vr_content xs = map vr_content ys \<Longrightarrow> xs = (ys :: VerifiedResource list)"
proof (induction xs arbitrary: ys)
  case (Cons x xs)
  then obtain y ys' where ys: "ys = y # ys'" by (cases ys) auto
  with Cons have "ResourceManifestEntry.truncate x = ResourceManifestEntry.truncate y"
    "vr_content x = vr_content y" "xs = ys'" by simp_all
  with ys show ?case by (cases x; cases y) (simp add: ResourceManifestEntry.truncate_def)
qed simp

lemma createSkillRevision_parts:
  assumes "createSkillRevision rt input = Inr q"
  shows "\<exists>t. canonicalizeRevision q = Inr t \<and> bundleSha256 q = sha256 rt t"
    "instructionsSha256 q = sha256 rt (instructions q)"
    "resourceManifest q = map ResourceManifestEntry.truncate (resources q)"
    "catalogOrigin q = None" "currentClassification q = None" "invocationMode q = None"
    "dependencies q = None"
proof -
  obtain n :: NormalizedText and vs t where t: "canonicalizeRevision q = Inr t"
    and q: "q = \<lparr>skillId = ci_skillId input, revision = ci_revision input,
          publishedProvenance = ci_publishedProvenance input,
          instructions = nt_text n, instructionsSha256 = sha256 rt (nt_text n),
          resourceManifest = map ResourceManifestEntry.truncate (js_sort (by_path rt) vs),
          resources = js_sort (by_path rt) vs, bundleSha256 = sha256 rt t,
          catalogOrigin = None, currentClassification = None,
          invocationMode = None, dependencies = None\<rparr>"
    by (rule createSkillRevision_cases [OF assms]) blast
  have "bundleSha256 q = sha256 rt t" by (simp add: q)
  with t show "\<exists>t. canonicalizeRevision q = Inr t \<and> bundleSha256 q = sha256 rt t" by blast
qed (rule createSkillRevision_cases [OF assms], simp)+

lemma createSkillRevision_pinned:
  assumes "createSkillRevision rt (revision_input r) = Inr r"
    and "createSkillRevision rt (revision_input s) = Inr s"
    and "canonicalizeRevision r = canonicalizeRevision s"
  shows "r = s"
proof -
  note parts = createSkillRevision_parts
  obtain t where t: "canonicalizeRevision r = Inr t" using parts [OF assms(1)] by blast
  with assms(3) have t': "canonicalizeRevision s = Inr t" by simp
  have e: "norm (canonicalPayload r) = norm (canonicalPayload s)"
    using canonicalJson_norm_eq [OF t [unfolded canonicalizeRevision_def] t' [unfolded canonicalizeRevision_def]] .
  note l = norm_lookup [OF e [unfolded canonicalPayload_def]]
  have scalars: "skillId r = skillId s" "revision r = revision s" "instructions r = instructions s"
    using l [of "''skillId''"] l [of "''revision''"] l [of "''instructions''"] by simp_all
  have prov: "publishedProvenance r = publishedProvenance s"
    by (rule provenance_json_inj) (use l [of "''publishedProvenance''"] in \<open>simp del: norm.simps\<close>)
  have man: "resourceManifest r = resourceManifest s"
    by (rule map_list_norm_inj [OF manifest_json_inj])
      (use l [of "''resourceManifest''"] in \<open>simp_all del: norm.simps\<close>)
  let ?c = "\<lambda>resource. JObj [(''path'', JStr (rm_path resource)), (''content'', JStr (vr_content resource))]"
  have cont: "norm (JArr (map ?c (resources r))) = norm (JArr (map ?c (resources s)))"
    using l [of "''resources''"] by (simp del: norm.simps)
  have "map vr_content (resources r) = map vr_content (resources s)"
    by (rule map_norm_inj [of ?c ?c]) (use cont in \<open>simp_all add: comp_def\<close>)
  then have "resources r = resources s"
    using man parts [OF assms(1)] parts [OF assms(2)] resources_split by metis
  with scalars prov man parts [OF assms(1)] parts [OF assms(2)] t t' show ?thesis
    by (cases r; cases s) auto
qed

subsection \<open>Properties\<close>

text \<open>A constructed revision is well formed: whatever input \<open>createSkillRevision\<close> accepts, the
  result holds exactly the resources of the input, at most 64, under distinct safe paths, each with
  its own byte length and hash, together with the instructions within the bundle limit, and its
  bundle hash is the hash of its own canonical text.\<close>

theorem createSkillRevision_well_formed:
  assumes "nfc_laws (nfc rt)" and "createSkillRevision rt input = Inr r"
  shows "well_formed_revision rt r \<and>
    mset (map rm_path (resources r)) = mset (map ri_path (ci_resources input))"
  using createSkillRevision_well_formed_aux [OF assms] by blast

definition example_provenance :: PublishedProvenance where
  "example_provenance = \<lparr>pp_source = \<lparr>sr_provider = ''git'', sr_reference = ''r''\<rparr>,
     pp_sourceRevision = ''1'', pp_owner = ''o'', pp_license = ''MIT'',
     pp_trustAtPublication = Trusted\<rparr>"

definition example_input :: "string \<Rightarrow> CreateSkillRevisionInput" where
  "example_input body =
     \<lparr>ci_skillId = ''a'', ci_revision = ''1'', ci_publishedProvenance = example_provenance,
      ci_instructions = body,
      ci_resources = [\<lparr>ri_path = ''b.md'', ri_mediaType = Markdown, ri_content = ''y''\<rparr>,
                      \<lparr>ri_path = ''a.md'', ri_mediaType = Markdown, ri_content = ''x''\<rparr>]\<rparr>"

definition example_revision :: "runtime \<Rightarrow> string \<Rightarrow> SkillRevision" where
  "example_revision rt body = projr (createSkillRevision rt (example_input body))"

definition constant_runtime :: runtime where
  "constant_runtime = ascii_runtime\<lparr>sha256 := (\<lambda>s. zeros64)\<rparr>"

definition plain_runtime :: "runtime \<Rightarrow> bool" where
  "plain_runtime rt \<longleftrightarrow> rt = ascii_runtime \<or> rt = constant_runtime"

lemma plain_runtimes [simp]: "plain_runtime ascii_runtime" "plain_runtime constant_runtime"
  by (simp_all add: plain_runtime_def)

lemma constant_sha: "sha256 constant_runtime s = zeros64"
  by (simp add: constant_runtime_def)

lemma plain_nfc: "plain_runtime rt \<Longrightarrow> nfc rt = (\<lambda>s. s)"
  by (auto simp: plain_runtime_def constant_runtime_def)

lemma plain_compare: "plain_runtime rt \<Longrightarrow> localeCompare rt = byte_compare"
  by (auto simp: plain_runtime_def constant_runtime_def)

lemma ascii_normalize:
  "plain_runtime rt \<Longrightarrow> list_all (\<lambda>c. code_of c < 128 \<and> c \<noteq> CHR 0x0D \<and> c \<noteq> NUL) s \<Longrightarrow> length s \<le> m \<Longrightarrow>
     normalizeUtf8 rt s m = Inr \<lparr>nt_text = s, nt_byteLength = length s\<rparr>"
proof -
  assume rt: "plain_runtime rt"
    and a: "list_all (\<lambda>c. code_of c < 128 \<and> c \<noteq> CHR 0x0D \<and> c \<noteq> NUL) s" "length s \<le> m"
  have "utf8_valid s" using a(1) by (induction s) (auto simp: utf8_valid_ascii)
  moreover have "CHR 0x0D \<notin> set s" "NUL \<notin> set s" using a(1) by (auto simp: list_all_iff)
  moreover have "strip_bom s = s"
    using a(1) by (auto simp: strip_bom_def starts_with_iff BOM_def code_of_def)
  ultimately show ?thesis
    using a(2) rt
    by (simp add: normalizeUtf8_def text_decode_def Let_def replace_crlf_id replace_cr_id plain_nfc)
qed

lemma example_plain:
  assumes "plain_runtime rt" "t \<in> {''hi'', ''yo'', ''x'', ''y''}"
  shows "normalizeUtf8 rt t MAX_TEXT_BYTES = Inr \<lparr>nt_text = t, nt_byteLength = length t\<rparr>"
  by (rule ascii_normalize [OF assms(1)])
    (use assms(2) in \<open>auto simp: code_of_def NUL_def MAX_TEXT_BYTES_def\<close>)

lemma example_safe: "assertSafeResourcePath ''a.md'' = Inr ()" "assertSafeResourcePath ''b.md'' = Inr ()"
  by (simp_all add: assertSafeResourcePath_def SAFE_RESOURCE_PATH_def js_length_def code_of_def
      path_char_def alnum_char_def digit_char_def lower_char_def upper_char_def)

lemma canonicalizeRevision_total:
  "list_all (\<lambda>m. rm_byteLength m \<le> MAX_TEXT_BYTES) (resourceManifest q) \<Longrightarrow>
     \<exists>t. canonicalizeRevision q = Inr t"
  unfolding canonicalizeRevision_def canonicalJson_def
  by (rule canonicalize_total)
    (auto simp: canonicalPayload_def writable_provenance list_all_iff writable_manifest MAX_SAFE_INTEGER_def)

lemma example_created:
  assumes rt: "plain_runtime rt" and body: "body \<in> {''hi'', ''yo''}"
  shows "createSkillRevision rt (example_input body) = Inr (example_revision rt body)"
    and "instructions (example_revision rt body) = body"
    and "map vr_content (resources (example_revision rt body)) = [''x'', ''y'']"
proof -
  note plain = example_plain [OF rt]
  have one: "Suc 0 \<le> MAX_TEXT_BYTES" by (simp add: MAX_TEXT_BYTES_def)
  have len: "length body = 2" "body \<in> {''hi'', ''yo'', ''x'', ''y''}" using body by auto
  note eval = example_input_def plain [OF len(2)] plain example_safe verified_resource_def
    js_sort_Cons by_path_def byte_compare_def plain_compare [OF rt]
  have "\<exists>r. createSkillRevision rt (example_input body) = Inr r"
    by (simp add: createSkillRevision_def eval len(1) MAX_RESOURCES_def MAX_BUNDLE_CONTENT_BYTES_def Let_def
        canonicalizeRevision_total one ResourceManifestEntry.truncate_def)
  then show e: "createSkillRevision rt (example_input body) = Inr (example_revision rt body)"
    unfolding example_revision_def by force
  from createSkillRevision_texts [OF e]
  show "instructions (example_revision rt body) = body"
    "map vr_content (resources (example_revision rt body)) = [''x'', ''y'']"
    by (auto simp: eval)
qed

theorem createSkillRevision_well_formed_witness:
  "well_formed_revision ascii_runtime (example_revision ascii_runtime ''hi'')"
  using createSkillRevision_well_formed [OF _ example_created(1)] by (simp add: nfc_laws_id)

text \<open>C1. Construction output passes verification: for an input whose normalized texts do not begin
  with a byte order mark, the revision that \<open>createSkillRevision\<close> returns is accepted unchanged by
  \<open>assertRevisionIntegrity\<close>, so what is published can be loaded again.\<close>

theorem createSkillRevision_verifies:
  assumes "nfc_laws (nfc rt)" and "consistent (localeCompare rt)"
    and "createSkillRevision rt input = Inr r"
    and "\<not> starts_with BOM (instructions r)"
    and "list_all (\<lambda>v. \<not> starts_with BOM (vr_content v)) (resources r)"
  shows "assertRevisionIntegrity rt r = Inr r"
  using revision_input_fixed [OF assms] createSkillRevision_writable [OF assms(3)]
  by (auto simp: assertRevisionIntegrity_def)

theorem createSkillRevision_verifies_witness:
  "assertRevisionIntegrity ascii_runtime (example_revision ascii_runtime ''hi'')
     = Inr (example_revision ascii_runtime ''hi'')"
proof -
  note ex = example_created [OF plain_runtimes(1), of "''hi''", simplified]
  have "\<forall>c \<in> set (map vr_content (resources (example_revision ascii_runtime ''hi''))). \<not> starts_with BOM c"
    unfolding ex(3) by (simp add: starts_with_def BOM_def)
  then have "list_all (\<lambda>v. \<not> starts_with BOM (vr_content v)) (resources (example_revision ascii_runtime ''hi''))"
    by (simp add: list_all_iff)
  then show ?thesis
    by (intro createSkillRevision_verifies [OF _ _ ex(1)])
      (simp_all add: nfc_laws_id consistent_byte_compare ex(2) starts_with_def BOM_def)
qed

text \<open>Verification accepts exactly the revisions that construction reproduces: a stored revision
  passes \<open>assertRevisionIntegrity\<close> if and only if rebuilding it from its own texts yields the
  identical record, hashes, manifest and order included. In particular a tampered hash, a resource
  out of order or a field that construction does not set is always rejected.\<close>

theorem assertRevisionIntegrity_iff:
  "assertRevisionIntegrity rt r = Inr r \<longleftrightarrow> createSkillRevision rt (revision_input r) = Inr r"
proof
  assume "createSkillRevision rt (revision_input r) = Inr r"
  then show "assertRevisionIntegrity rt r = Inr r"
    using createSkillRevision_writable by (fastforce simp: assertRevisionIntegrity_def)
qed (use assertRevisionIntegrity_reconstructs in blast)

text \<open>C2. The bundle hash pins a verified revision: two revisions that both pass verification and
  carry the same bundle hash are identical in every field, unless their two canonical texts are a
  concrete collision of the hash function.\<close>

theorem bundleSha256_pins_revision:
  assumes "assertRevisionIntegrity rt r = Inr r" and "assertRevisionIntegrity rt s = Inr s"
    and "bundleSha256 r = bundleSha256 s"
  shows "r = s \<or> (\<exists>t u. canonicalizeRevision r = Inr t \<and> canonicalizeRevision s = Inr u \<and>
    t \<noteq> u \<and> sha256 rt t = sha256 rt u)"
proof -
  have r: "createSkillRevision rt (revision_input r) = Inr r"
    and s: "createSkillRevision rt (revision_input s) = Inr s"
    using assertRevisionIntegrity_reconstructs assms(1,2) by blast+
  obtain t u where "canonicalizeRevision r = Inr t" "bundleSha256 r = sha256 rt t"
    "canonicalizeRevision s = Inr u" "bundleSha256 s = sha256 rt u"
    using createSkillRevision_parts(1) [OF r] createSkillRevision_parts(1) [OF s] by blast
  then show ?thesis using createSkillRevision_pinned [OF r s] assms(3) by auto
qed

lemma example_verified:
  assumes rt: "plain_runtime rt" and body: "body \<in> {''hi'', ''yo''}"
  shows "assertRevisionIntegrity rt (example_revision rt body) = Inr (example_revision rt body)"
proof -
  note ex = example_created [OF assms]
  have "\<forall>c \<in> set (map vr_content (resources (example_revision rt body))). \<not> starts_with BOM c"
    unfolding ex(3) by (simp add: starts_with_def BOM_def)
  moreover have "\<not> starts_with BOM body" using body by (auto simp: starts_with_def BOM_def)
  ultimately have "createSkillRevision rt (revision_input (example_revision rt body)) = Inr (example_revision rt body)"
    by (intro revision_input_fixed [OF _ _ ex(1)])
      (simp_all add: nfc_laws_id consistent_byte_compare ex(2) plain_nfc [OF rt] plain_compare [OF rt] list_all_iff)
  moreover from this obtain t where "canonicalJson (revision_json (example_revision rt body)) = Inr t"
    using createSkillRevision_writable by blast
  ultimately show ?thesis by (simp add: assertRevisionIntegrity_def)
qed

theorem bundleSha256_pins_revision_witness:
  "\<exists>t u. canonicalizeRevision (example_revision constant_runtime ''hi'') = Inr t \<and>
     canonicalizeRevision (example_revision constant_runtime ''yo'') = Inr u \<and>
     t \<noteq> u \<and> sha256 constant_runtime t = sha256 constant_runtime u"
proof -
  let ?r = "example_revision constant_runtime ''hi''" and ?s = "example_revision constant_runtime ''yo''"
  have ex: "assertRevisionIntegrity constant_runtime ?r = Inr ?r" "instructions ?r = ''hi''"
    "assertRevisionIntegrity constant_runtime ?s = Inr ?s" "instructions ?s = ''yo''"
    by (simp_all add: example_verified example_created(2))
  have "bundleSha256 ?r = zeros64" "bundleSha256 ?s = zeros64"
    using createSkillRevision_parts(1) [OF example_created(1) [OF plain_runtimes(2), of "''hi''"]]
      createSkillRevision_parts(1) [OF example_created(1) [OF plain_runtimes(2), of "''yo''"]]
    by (auto simp: constant_sha)
  then have "bundleSha256 ?r = bundleSha256 ?s" by simp
  moreover have "?r \<noteq> ?s" using ex(2,4) by auto
  ultimately show ?thesis using bundleSha256_pins_revision [OF ex(1,3)] by blast
qed

end
