(* ===== verification/Advisory_Chain.thy ===== *)
theory Advisory_Chain
  imports Revision
begin

text \<open>
  Advisory chains (\<open>src/domain/catalog/advisory-chain.ts\<close> and
  \<open>src/domain/external-catalog/external-advisory-chain.ts\<close>): append-only logs in which each event
  carries the hash of the one before it. What the two chains share is the locale \<open>hash_chain\<close>: an
  event's text determines the event up to its own hash, so a head determines the history or
  exhibits a collision. Both chains interpret it. \<open>date_ok\<close> stands for the date syntax that the schema
  library checks.
\<close>

subsection \<open>Chains of hashed events\<close>

fun linked :: "('e \<Rightarrow> 's) \<Rightarrow> (nat \<Rightarrow> 's) \<Rightarrow> ('e \<Rightarrow> string) \<Rightarrow> ('e \<Rightarrow> string) \<Rightarrow> ('e \<Rightarrow> string res) \<Rightarrow>
    (string \<Rightarrow> string) \<Rightarrow> nat \<Rightarrow> string \<Rightarrow> 'e list \<Rightarrow> bool" where
  "linked seq number prev own content H i p [] = True"
| "linked seq number prev own content H i p (e # es) \<longleftrightarrow>
     seq e = number (Suc i) \<and> prev e = p \<and>
     (case content e of Inl err \<Rightarrow> False | Inr t \<Rightarrow> H t = own e) \<and>
     linked seq number prev own content H (Suc i) (own e) es"

definition chain_head :: "('e \<Rightarrow> string) \<Rightarrow> string \<Rightarrow> 'e list \<Rightarrow> string" where
  "chain_head own p es = (if es = [] then p else own (last es))"

lemma linked_append:
  "linked seq number prev own content H i p (xs @ ys) \<longleftrightarrow>
     linked seq number prev own content H i p xs \<and>
     linked seq number prev own content H (i + length xs) (chain_head own p xs) ys"
  by (induction xs arbitrary: i p) (auto simp: chain_head_def)

definition collision :: "(string \<Rightarrow> string) \<Rightarrow> bool" where
  "collision H \<longleftrightarrow> (\<exists>t u. t \<noteq> u \<and> H t = H u)"

locale hash_chain =
  fixes seq :: "'e \<Rightarrow> 's" and number :: "nat \<Rightarrow> 's" and prev own :: "'e \<Rightarrow> string"
    and content :: "'e \<Rightarrow> string res" and H :: "string \<Rightarrow> string"
  assumes content_inj: "content e = Inr t \<Longrightarrow> content f = Inr t \<Longrightarrow> own e = own f \<Longrightarrow> e = f"
    and number_inj: "number m = number n \<Longrightarrow> m = n"
begin

abbreviation chained :: "string \<Rightarrow> 'e list \<Rightarrow> bool" where
  "chained p es \<equiv> linked seq number prev own content H 0 p es"

lemma chained_snoc:
  "chained p (es @ [e]) \<longleftrightarrow> chained p es \<and> seq e = number (Suc (length es)) \<and>
     prev e = chain_head own p es \<and> (\<exists>t. content e = Inr t \<and> H t = own e)"
  by (auto simp: linked_append split: sum.splits)

text \<open>Two logs with one head are the same log, unless the hash function collides or some text hashes
  to the initial head.\<close>

lemma head_pins:
  assumes "chained p es" and "chained p fs" and "chain_head own p es = chain_head own p fs"
  shows "es = fs \<or> (\<exists>e f t u. e \<in> set es \<and> f \<in> set fs \<and> content e = Inr t \<and> content f = Inr u \<and> t \<noteq> u \<and> H t = H u)
    \<or> (\<exists>e t. e \<in> set es \<union> set fs \<and> content e = Inr t \<and> H t = p)"
  using assms
proof (induction es arbitrary: fs rule: rev_induct)
  case Nil
  show ?case
  proof (cases fs rule: rev_cases)
    case (snoc fs' f)
    with Nil.prems(2,3) obtain t where "content f = Inr t" "H t = p"
      by (auto simp: chained_snoc chain_head_def)
    with snoc show ?thesis by auto
  qed simp
next
  case (snoc e es)
  from snoc.prems(1) obtain t where e: "chained p es" "seq e = number (Suc (length es))"
    "prev e = chain_head own p es" "content e = Inr t" "H t = own e" by (auto simp: chained_snoc)
  show ?case
  proof (cases fs rule: rev_cases)
    case Nil
    with snoc.prems(3) e show ?thesis by (auto simp: chain_head_def)
  next
    case (snoc fs' f)
    with snoc.prems(2) obtain u where f: "chained p fs'" "seq f = number (Suc (length fs'))"
      "prev f = chain_head own p fs'" "content f = Inr u" "H u = own f" by (auto simp: chained_snoc)
    have own: "own e = own f" using snoc.prems(3) snoc by (simp add: chain_head_def)
    show ?thesis
    proof (cases "t = u")
      case True
      with content_inj [OF e(4), of f] f(4) own have ef: "e = f" by simp
      with e(3) f(3) have "chain_head own p es = chain_head own p fs'" by simp
      from snoc.IH [OF e(1) f(1) this] ef snoc show ?thesis by auto
    next
      case False
      with e f own snoc have "e \<in> set (es @ [e])" "f \<in> set fs" "content e = Inr t" "content f = Inr u"
        "t \<noteq> u" "H t = H u" by simp_all
      then show ?thesis by blast
    qed
  qed
qed

end

subsection \<open>The catalog's advisory chain\<close>

datatype AdvisoryKind = Security | Availability

datatype CurrentAdvisoryStatus = Available | Unavailable | Revoked

fun advisory_kind_text :: "AdvisoryKind \<Rightarrow> string" where
  "advisory_kind_text Security = ''security''"
| "advisory_kind_text Availability = ''availability''"

fun advisory_status_text :: "CurrentAdvisoryStatus \<Rightarrow> string" where
  "advisory_status_text Available = ''available''"
| "advisory_status_text Unavailable = ''unavailable''"
| "advisory_status_text Revoked = ''revoked''"

record RevisionAdvisory =
  ra_sequence :: int
  ra_previousEventHash :: string
  ra_advisoryId :: string
  ra_skillId :: string
  ra_revision :: string
  ra_revisionSha256 :: string
  ra_kind :: AdvisoryKind
  ra_state :: CurrentAdvisoryStatus
  ra_reasonCode :: string
  ra_effectiveAt :: string
  ra_eventHash :: string

record VerifiedAdvisoryChain =
  ac_events :: "RevisionAdvisory list"
  ac_head :: string
  ac_statusByRevision :: "(string \<times> CurrentAdvisoryStatus) list"

definition EMPTY_ADVISORY_CHAIN_HEAD :: string where
  "EMPTY_ADVISORY_CHAIN_HEAD = zeros64"

definition revision_pattern :: "string \<Rightarrow> bool" where
  "revision_pattern s \<longleftrightarrow>
     s \<notin> {''latest'', ''main'', ''master'', ''HEAD''} \<and>
     (case s of [] \<Rightarrow> False | c # cs \<Rightarrow> alnum_char c \<and> list_all path_char cs)"

definition reason_pattern :: "string \<Rightarrow> bool" where
  "reason_pattern s \<longleftrightarrow> s \<noteq> [] \<and> list_all (\<lambda>c. upper_char c \<or> digit_char c \<or> c = CHR ''_'') s"

definition advisorySchema :: "(string \<Rightarrow> bool) \<Rightarrow> RevisionAdvisory \<Rightarrow> bool" where
  "advisorySchema date_ok event \<longleftrightarrow>
     1 \<le> ra_sequence event \<and> ra_sequence event \<le> MAX_SAFE_INTEGER \<and>
     hex_string 64 (ra_previousEventHash event) \<and>
     1 \<le> js_length (ra_advisoryId event) \<and> js_length (ra_advisoryId event) \<le> 120 \<and>
     kebab (ra_skillId event) \<and> js_length (ra_skillId event) \<le> 80 \<and>
     revision_pattern (ra_revision event) \<and> js_length (ra_revision event) \<le> 128 \<and>
     hex_string 64 (ra_revisionSha256 event) \<and>
     reason_pattern (ra_reasonCode event) \<and> js_length (ra_reasonCode event) \<le> 120 \<and>
     date_ok (ra_effectiveAt event) \<and>
     hex_string 64 (ra_eventHash event) \<and>
     \<not> (ra_kind event = Security \<and> ra_state event \<noteq> Revoked) \<and>
     \<not> (ra_kind event = Availability \<and> ra_state event = Revoked)"

definition revisionKey :: "string \<Rightarrow> string \<Rightarrow> string" where
  "revisionKey skill rv = skill @ [NUL] @ rv"

definition preimage_members :: "RevisionAdvisory \<Rightarrow> (string \<times> json) list" where
  "preimage_members event =
     [(''sequence'', JNum (ra_sequence event)), (''previousEventHash'', JStr (ra_previousEventHash event)),
      (''advisoryId'', JStr (ra_advisoryId event)), (''skillId'', JStr (ra_skillId event)),
      (''revision'', JStr (ra_revision event)), (''revisionSha256'', JStr (ra_revisionSha256 event)),
      (''kind'', JStr (advisory_kind_text (ra_kind event))),
      (''state'', JStr (advisory_status_text (ra_state event))),
      (''reasonCode'', JStr (ra_reasonCode event)), (''effectiveAt'', JStr (ra_effectiveAt event))]"

definition advisoryEventPreimage :: "RevisionAdvisory \<Rightarrow> string res" where
  "advisoryEventPreimage event = canonicalJson (JObj (preimage_members event))"

definition advisoryEventHash :: "runtime \<Rightarrow> RevisionAdvisory \<Rightarrow> string res" where
  "advisoryEventHash rt event = and_then (advisoryEventPreimage event) (\<lambda>t. Inr (sha256 rt t))"

definition createAdvisoryEvent :: "runtime \<Rightarrow> RevisionAdvisory \<Rightarrow> RevisionAdvisory res" where
  "createAdvisoryEvent rt event =
     and_then (advisoryEventHash rt event) (\<lambda>h. Inr (event\<lparr>ra_eventHash := h\<rparr>))"

definition advisory_json :: "RevisionAdvisory \<Rightarrow> json" where
  "advisory_json event = JObj (preimage_members event @ [(''eventHash'', JStr (ra_eventHash event))])"

definition serializeAdvisoryChain :: "RevisionAdvisory list \<Rightarrow> string res" where
  "serializeAdvisoryChain events =
     (if events = [] then Inr []
      else and_then (traverse (\<lambda>event. canonicalJson (advisory_json event)) events)
             (\<lambda>lines. Inr (join [CHR 0x0A] lines @ [CHR 0x0A])))"

text \<open>The loop of \<open>verifyAdvisoryChain\<close>: its index, the status map and the running head.\<close>

fun verify_events ::
  "runtime \<Rightarrow> (string \<Rightarrow> bool) \<Rightarrow> (string \<rightharpoonup> string) \<Rightarrow> nat \<Rightarrow> (string \<times> CurrentAdvisoryStatus) list \<Rightarrow>
     string \<Rightarrow> RevisionAdvisory list \<Rightarrow> ((string \<times> CurrentAdvisoryStatus) list \<times> string) res" where
  "verify_events rt date_ok revisionHashes i statusByRevision previousEventHash [] =
     Inr (statusByRevision, previousEventHash)"
| "verify_events rt date_ok revisionHashes i statusByRevision previousEventHash (event # events) =
     (if \<not> advisorySchema date_ok event then Inl (Error ''Advisory event is invalid'')
      else if ra_sequence event \<noteq> int i + 1
      then Inl (Error ''Advisory sequences must be contiguous and monotonic'')
      else if ra_previousEventHash event \<noteq> previousEventHash
      then Inl (Error ''Advisory previous-event hash is invalid'')
      else and_then (advisoryEventHash rt event) (\<lambda>h.
        if ra_eventHash event \<noteq> h then Inl (Error ''Advisory event hash is invalid'')
        else let key = revisionKey (ra_skillId event) (ra_revision event)
             in if revisionHashes key \<noteq> Some (ra_revisionSha256 event)
                then Inl (Error ''Advisory revision binding is invalid'')
                else let current = (case map_of statusByRevision key of None \<Rightarrow> Available | Some s \<Rightarrow> s)
                     in if current = Revoked \<and> ra_state event \<noteq> Revoked
                        then Inl (Error ''Security revocation is terminal'')
                        else verify_events rt date_ok revisionHashes (Suc i)
                               (AList.update key (ra_state event) statusByRevision)
                               (ra_eventHash event) events))"

definition verifyAdvisoryChain ::
  "runtime \<Rightarrow> (string \<Rightarrow> bool) \<Rightarrow> RevisionAdvisory list \<Rightarrow> (string \<rightharpoonup> string) \<Rightarrow> string option \<Rightarrow>
     VerifiedAdvisoryChain res" where
  "verifyAdvisoryChain rt date_ok events revisionHashes expectedHead =
     and_then (verify_events rt date_ok revisionHashes 0 [] EMPTY_ADVISORY_CHAIN_HEAD events)
       (\<lambda>(statusByRevision, head).
          if expectedHead \<noteq> None \<and> expectedHead \<noteq> Some head
          then Inl (Error ''Advisory chain head does not match the release'')
          else Inr \<lparr>ac_events = events, ac_head = head, ac_statusByRevision = statusByRevision\<rparr>)"

definition advisoryStatusFor :: "VerifiedAdvisoryChain \<Rightarrow> string \<Rightarrow> string \<Rightarrow> CurrentAdvisoryStatus" where
  "advisoryStatusFor chain skill rv =
     (case map_of (ac_statusByRevision chain) (revisionKey skill rv) of
        None \<Rightarrow> Available | Some s \<Rightarrow> s)"

lemma advisory_text_inj [simp]:
  "advisory_kind_text a = advisory_kind_text b \<longleftrightarrow> a = b"
  "advisory_status_text c = advisory_status_text d \<longleftrightarrow> c = d"
  by (cases a; cases b; simp) (cases c; cases d; simp)

lemma preimage_inj:
  assumes "advisoryEventPreimage e = Inr t" and "advisoryEventPreimage f = Inr t"
    and "ra_eventHash e = ra_eventHash f"
  shows "e = f"
proof -
  have n: "norm (JObj (preimage_members e)) = norm (JObj (preimage_members f))"
    using canonicalJson_norm_eq assms(1,2) unfolding advisoryEventPreimage_def by blast
  note l = norm_lookup [OF n [unfolded preimage_members_def]]
  have "ra_sequence e = ra_sequence f" "ra_previousEventHash e = ra_previousEventHash f"
    "ra_advisoryId e = ra_advisoryId f" "ra_skillId e = ra_skillId f" "ra_revision e = ra_revision f"
    "ra_revisionSha256 e = ra_revisionSha256 f"
    using l [of "''sequence''"] l [of "''previousEventHash''"] l [of "''advisoryId''"] l [of "''skillId''"]
      l [of "''revision''"] l [of "''revisionSha256''"] by simp_all
  moreover have "ra_kind e = ra_kind f" "ra_state e = ra_state f"
    "ra_reasonCode e = ra_reasonCode f" "ra_effectiveAt e = ra_effectiveAt f"
    using l [of "''kind''"] l [of "''state''"] l [of "''reasonCode''"] l [of "''effectiveAt''"] by simp_all
  ultimately show ?thesis using assms(3) by (cases e; cases f) simp
qed

interpretation advisory: hash_chain ra_sequence int ra_previousEventHash ra_eventHash
    advisoryEventPreimage "sha256 rt" for rt
  by unfold_locales (auto intro: preimage_inj)

text \<open>What acceptance means for the events: the links, each event's schema and binding, and that no
  event follows a revocation of its revision with another state.\<close>

definition status_of :: "(string \<times> CurrentAdvisoryStatus) list \<Rightarrow> string \<Rightarrow> CurrentAdvisoryStatus" where
  "status_of m key = (case map_of m key of None \<Rightarrow> Available | Some s \<Rightarrow> s)"

definition event_key :: "RevisionAdvisory \<Rightarrow> string" where
  "event_key e = revisionKey (ra_skillId e) (ra_revision e)"

definition record_status ::
  "RevisionAdvisory \<Rightarrow> (string \<times> CurrentAdvisoryStatus) list \<Rightarrow> (string \<times> CurrentAdvisoryStatus) list" where
  "record_status e m = AList.update (event_key e) (ra_state e) m"

fun terminal :: "(string \<times> CurrentAdvisoryStatus) list \<Rightarrow> RevisionAdvisory list \<Rightarrow> bool" where
  "terminal m [] = True"
| "terminal m (e # es) \<longleftrightarrow>
     (status_of m (event_key e) = Revoked \<longrightarrow> ra_state e = Revoked) \<and> terminal (record_status e m) es"

lemma status_of_record [simp]:
  "status_of (record_status e m) key = (if key = event_key e then ra_state e else status_of m key)"
  by (simp add: status_of_def record_status_def)

lemma advisoryEventHash_Inr:
  "advisoryEventHash rt e = Inr h \<longleftrightarrow> (\<exists>t. advisoryEventPreimage e = Inr t \<and> sha256 rt t = h)"
  by (auto simp: advisoryEventHash_def)

abbreviation advisory_linked :: "runtime \<Rightarrow> nat \<Rightarrow> string \<Rightarrow> RevisionAdvisory list \<Rightarrow> bool" where
  "advisory_linked rt \<equiv> linked ra_sequence int ra_previousEventHash ra_eventHash
     advisoryEventPreimage (sha256 rt)"

lemma verify_events_Inr:
  "verify_events rt date_ok hashes i m p es = Inr (m', h) \<longleftrightarrow>
     advisory_linked rt i p es \<and>
     (\<forall>e \<in> set es. advisorySchema date_ok e \<and> hashes (event_key e) = Some (ra_revisionSha256 e)) \<and>
     terminal m es \<and> m' = fold record_status es m \<and> h = chain_head ra_eventHash p es"
proof (induction es arbitrary: i m p)
  case Nil
  then show ?case by (auto simp: chain_head_def)
next
  case (Cons e es)
  have num: "ra_sequence e = int i + 1 \<longleftrightarrow> ra_sequence e = int (Suc i)" by auto
  have hash: "(case advisoryEventPreimage e of Inl err \<Rightarrow> False | Inr t \<Rightarrow> sha256 rt t = ra_eventHash e) \<longleftrightarrow>
      advisoryEventHash rt e = Inr (ra_eventHash e)"
    by (auto simp: advisoryEventHash_def split: sum.splits)
  have head: "chain_head ra_eventHash p (e # es) = chain_head ra_eventHash (ra_eventHash e) es"
    by (simp add: chain_head_def)
  show ?case
    unfolding verify_events.simps linked.simps hash head terminal.simps fold_Cons comp_def
      Let_def event_key_def [symmetric] status_of_def [symmetric] record_status_def [symmetric]
    using Cons.IH [of "Suc i" "record_status e m" "ra_eventHash e"]
    by (cases "advisoryEventHash rt e") (auto simp: num)
qed

lemma terminal_keeps:
  "terminal m es \<Longrightarrow> status_of m k = Revoked \<Longrightarrow> status_of (fold record_status es m) k = Revoked"
proof (induction es arbitrary: m)
  case (Cons e es)
  then have "status_of (record_status e m) k = Revoked" by (cases "k = event_key e") simp_all
  with Cons show ?case by simp
qed simp

lemma terminal_event:
  "terminal m es \<Longrightarrow> e \<in> set es \<Longrightarrow> ra_state e = Revoked \<Longrightarrow>
     status_of (fold record_status es m) (event_key e) = Revoked"
proof (induction es arbitrary: m)
  case (Cons f es)
  then show ?case using terminal_keeps [of "record_status f m" es "event_key e"] by auto
qed simp

lemma status_of_fold:
  "status_of (fold record_status es m) k =
     (case find (\<lambda>e. event_key e = k) (rev es) of None \<Rightarrow> status_of m k | Some e \<Rightarrow> ra_state e)"
  by (induction es rule: rev_induct) auto

lemma status_of_empty [simp]: "status_of [] k = Available"
  by (simp add: status_of_def)

lemma status_of_fold_empty:
  "status_of (fold record_status es []) k =
     (case find (\<lambda>e. event_key e = k) (rev es) of None \<Rightarrow> Available | Some e \<Rightarrow> ra_state e)"
  using status_of_fold [of es "[]" k] by (simp split: option.splits)

lemma revisionKey_inj:
  "NUL \<notin> set a \<Longrightarrow> NUL \<notin> set b \<Longrightarrow> revisionKey a x = revisionKey b y \<longleftrightarrow> a = b \<and> x = y"
proof (induction a arbitrary: b)
  case Nil
  then show ?case by (cases b) (auto simp: revisionKey_def)
next
  case (Cons c a)
  then show ?case by (cases b) (auto simp: revisionKey_def)
qed

lemma kebab_no_NUL: "kebab s \<Longrightarrow> NUL \<notin> set s"
proof
  assume k: "kebab s" and "NUL \<in> set s"
  then have "NUL \<in> set (join ''-'' (split_on (CHR ''-'') s))" by (simp add: join_split_on)
  then have "\<exists>w \<in> set (split_on (CHR ''-'') s). NUL \<in> set w"
    using set_join [of "''-''" "split_on (CHR ''-'') s"] by (auto simp: NUL_def)
  with k have "lower_char NUL \<or> digit_char NUL" by (auto simp: kebab_def list_all_iff)
  then show False by (simp add: lower_char_def digit_char_def NUL_def code_of_def)
qed

lemma verifyAdvisoryChain_Inr:
  "verifyAdvisoryChain rt date_ok events hashes expected = Inr chain \<longleftrightarrow>
     advisory_linked rt 0 EMPTY_ADVISORY_CHAIN_HEAD events \<and>
     (\<forall>e \<in> set events. advisorySchema date_ok e \<and> hashes (event_key e) = Some (ra_revisionSha256 e)) \<and>
     terminal [] events \<and>
     (expected = None \<or> expected = Some (ac_head chain)) \<and>
     chain = \<lparr>ac_events = events, ac_head = chain_head ra_eventHash EMPTY_ADVISORY_CHAIN_HEAD events,
              ac_statusByRevision = fold record_status events []\<rparr>"
  unfolding verifyAdvisoryChain_def and_then_Inr
  by (auto simp: verify_events_Inr split: if_splits)

lemma advisoryStatusFor_status_of:
  "advisoryStatusFor chain skill rv = status_of (ac_statusByRevision chain) (revisionKey skill rv)"
  by (simp add: advisoryStatusFor_def status_of_def)

subsection \<open>Properties of the catalog's chain\<close>

text \<open>C11. Revocation is terminal: in every advisory chain that verification accepts, a revision that
  some event revokes is reported as revoked, whatever the events after it say; any other revision has
  the state of the last event about it, and is available when there is none.\<close>

theorem advisory_revocation_terminal:
  assumes "verifyAdvisoryChain rt date_ok events hashes expected = Inr chain" and "kebab skill"
  shows "advisoryStatusFor chain skill rv =
    (if \<exists>e \<in> set events. ra_skillId e = skill \<and> ra_revision e = rv \<and> ra_state e = Revoked then Revoked
     else case find (\<lambda>e. ra_skillId e = skill \<and> ra_revision e = rv) (rev events) of
            None \<Rightarrow> Available | Some e \<Rightarrow> ra_state e)"
proof -
  from assms(1) have v: "terminal [] events" "ac_statusByRevision chain = fold record_status events []"
    and schema: "\<And>e. e \<in> set events \<Longrightarrow> advisorySchema date_ok e"
    by (simp_all add: verifyAdvisoryChain_Inr)
  have key: "event_key e = revisionKey skill rv \<longleftrightarrow> ra_skillId e = skill \<and> ra_revision e = rv"
    if "e \<in> set events" for e
    using schema [OF that] assms(2)
    by (simp add: event_key_def revisionKey_inj kebab_no_NUL advisorySchema_def)
  have find: "find (\<lambda>e. event_key e = revisionKey skill rv) (rev events)
      = find (\<lambda>e. ra_skillId e = skill \<and> ra_revision e = rv) (rev events)"
    by (rule find_cong) (simp_all add: key)
  show ?thesis
  proof (cases "\<exists>e \<in> set events. ra_skillId e = skill \<and> ra_revision e = rv \<and> ra_state e = Revoked")
    case True
    then obtain e where "e \<in> set events" "event_key e = revisionKey skill rv" "ra_state e = Revoked"
      using key by blast
    with terminal_event [OF v(1) this(1,3)] True v(2) show ?thesis
      by (simp add: advisoryStatusFor_status_of)
  next
    case False
    then show ?thesis
      by (auto simp: advisoryStatusFor_status_of v(2) status_of_fold_empty find)
  qed
qed

text \<open>C12. The head pins the history: two advisory chains that verification accepts with the same head
  hold the same events, unless two of their event texts are a concrete collision of the hash
  function or one of them hashes to the sixty-four zeros of the empty chain.\<close>

theorem advisory_head_pins_history:
  assumes "verifyAdvisoryChain rt date_ok events hashes expected = Inr chain"
    and "verifyAdvisoryChain rt date_ok events' hashes' expected' = Inr chain'"
    and "ac_head chain = ac_head chain'"
  shows "events = events' \<or>
    (\<exists>e \<in> set events. \<exists>f \<in> set events'. \<exists>t u. advisoryEventPreimage e = Inr t \<and>
        advisoryEventPreimage f = Inr u \<and> t \<noteq> u \<and> sha256 rt t = sha256 rt u) \<or>
    (\<exists>e \<in> set events \<union> set events'. \<exists>t. advisoryEventPreimage e = Inr t \<and> sha256 rt t = zeros64)"
proof -
  have "advisory_linked rt 0 zeros64 events" "advisory_linked rt 0 zeros64 events'"
    "chain_head ra_eventHash zeros64 events = chain_head ra_eventHash zeros64 events'"
    using assms by (simp_all add: verifyAdvisoryChain_Inr EMPTY_ADVISORY_CHAIN_HEAD_def)
  from advisory.head_pins [OF this] show ?thesis by blast
qed

text \<open>Publishing appends: an event built by \<open>createAdvisoryEvent\<close> with the next sequence number,
  the current head and a valid binding extends a verified chain to a verified chain whose head is
  the new event, provided it does not lift a revocation; lifting one is refused.\<close>

theorem advisory_append:
  assumes "verifyAdvisoryChain rt date_ok events hashes None = Inr chain"
    and "createAdvisoryEvent rt draft = Inr e" and "advisorySchema date_ok e"
    and "ra_sequence e = int (length events) + 1" and "ra_previousEventHash e = ac_head chain"
    and "hashes (revisionKey (ra_skillId e) (ra_revision e)) = Some (ra_revisionSha256 e)"
  shows "verifyAdvisoryChain rt date_ok (events @ [e]) hashes None =
    (if advisoryStatusFor chain (ra_skillId e) (ra_revision e) = Revoked \<and> ra_state e \<noteq> Revoked
     then Inl (Error ''Security revocation is terminal'')
     else Inr \<lparr>ac_events = events @ [e], ac_head = ra_eventHash e,
               ac_statusByRevision = fold record_status (events @ [e]) []\<rparr>)"
proof -
  from assms(2) obtain t where t: "advisoryEventPreimage draft = Inr t" "e = draft\<lparr>ra_eventHash := sha256 rt t\<rparr>"
    by (auto simp: createAdvisoryEvent_def advisoryEventHash_def)
  then have h: "advisoryEventHash rt e = Inr (ra_eventHash e)"
    by (simp add: advisoryEventHash_def advisoryEventPreimage_def preimage_members_def)
  from assms(1) obtain m where m: "verify_events rt date_ok hashes 0 [] EMPTY_ADVISORY_CHAIN_HEAD events
      = Inr (m, ac_head chain)" "m = ac_statusByRevision chain" "m = fold record_status events []"
    by (auto simp: verifyAdvisoryChain_Inr verify_events_Inr)
  have append: "verify_events rt date_ok hashes i m p (xs @ ys) =
      and_then (verify_events rt date_ok hashes i m p xs)
        (\<lambda>(m', h). verify_events rt date_ok hashes (i + length xs) m' h ys)" for i m p xs ys
  proof (induction xs arbitrary: i m p)
    case (Cons x xs)
    then show ?case by (cases "advisoryEventHash rt x") (simp_all add: Let_def)
  qed simp
  show ?thesis
    using assms(3-6) h m(2,3)
    by (simp add: verifyAdvisoryChain_def append m(1) Let_def advisoryStatusFor_def record_status_def event_key_def)
qed

subsection \<open>A concrete chain\<close>

definition example_advisory :: "int \<Rightarrow> CurrentAdvisoryStatus \<Rightarrow> RevisionAdvisory" where
  "example_advisory n st =
     \<lparr>ra_sequence = n, ra_previousEventHash = zeros64, ra_advisoryId = ''A'', ra_skillId = ''a'',
      ra_revision = ''1'', ra_revisionSha256 = zeros64,
      ra_kind = (if st = Revoked then Security else Availability), ra_state = st,
      ra_reasonCode = ''X'', ra_effectiveAt = ''now'', ra_eventHash = zeros64\<rparr>"

lemma zeros64_hex [simp]: "hex_string 64 zeros64"
  by (simp add: hex_string_def zeros64_def list_all_iff hex_char_def digit_char_def code_of_def)

lemma example_advisory_schema:
  "1 \<le> n \<Longrightarrow> n \<le> 9 \<Longrightarrow> advisorySchema (\<lambda>_. True) (example_advisory n st)"
  by (simp add: advisorySchema_def example_advisory_def MAX_SAFE_INTEGER_def js_length_def kebab_def
      revision_pattern_def reason_pattern_def alnum_char_def lower_char_def digit_char_def upper_char_def code_of_def)

lemma example_advisory_preimage:
  "\<bar>n\<bar> \<le> 9 \<Longrightarrow> \<exists>t. advisoryEventPreimage (example_advisory n st) = Inr t"
  unfolding advisoryEventPreimage_def canonicalJson_def
  by (rule canonicalize_total) (simp add: preimage_members_def example_advisory_def MAX_SAFE_INTEGER_def)

lemma example_advisory_fields [simp]:
  "ra_sequence (example_advisory n st) = n" "ra_previousEventHash (example_advisory n st) = zeros64"
  "ra_eventHash (example_advisory n st) = zeros64" "ra_state (example_advisory n st) = st"
  "ra_skillId (example_advisory n st) = ''a''" "ra_revision (example_advisory n st) = ''1''"
  "ra_revisionSha256 (example_advisory n st) = zeros64"
  by (simp_all add: example_advisory_def)

lemma example_advisory_link:
  assumes "\<bar>n\<bar> \<le> 9"
  shows "case advisoryEventPreimage (example_advisory n st) of Inl e \<Rightarrow> False
     | Inr t \<Rightarrow> sha256 constant_runtime t = ra_eventHash (example_advisory n st)"
  using example_advisory_preimage [OF assms, of st]
  by (auto simp: constant_sha)

lemma example_chain_verifies:
  "verifyAdvisoryChain constant_runtime (\<lambda>_. True) [example_advisory 1 st] (\<lambda>_. Some zeros64) None
     = Inr \<lparr>ac_events = [example_advisory 1 st], ac_head = zeros64,
            ac_statusByRevision = [(revisionKey ''a'' ''1'', st)]\<rparr>"
  unfolding verifyAdvisoryChain_Inr
  using example_advisory_link [of 1 st] example_advisory_schema [of 1 st]
  by (simp add: EMPTY_ADVISORY_CHAIN_HEAD_def chain_head_def record_status_def event_key_def)

theorem advisory_revocation_terminal_witness:
  "advisoryStatusFor \<lparr>ac_events = [example_advisory 1 Revoked], ac_head = zeros64,
     ac_statusByRevision = [(revisionKey ''a'' ''1'', Revoked)]\<rparr> ''a'' ''1'' = Revoked"
proof -
  have "kebab ''a''" by (simp add: kebab_def lower_char_def code_of_def)
  from advisory_revocation_terminal [OF example_chain_verifies this, of Revoked "''1''"]
  show ?thesis by simp
qed

theorem advisory_head_pins_history_witness:
  "example_advisory 1 Revoked \<noteq> example_advisory 1 Unavailable \<and>
   (\<exists>e \<in> {example_advisory 1 Revoked, example_advisory 1 Unavailable}.
      \<exists>t. advisoryEventPreimage e = Inr t \<and> sha256 constant_runtime t = zeros64)"
proof -
  have "example_advisory 1 Revoked \<noteq> example_advisory 1 Unavailable"
    by (simp add: example_advisory_def)
  moreover from this
    advisory_head_pins_history [OF example_chain_verifies example_chain_verifies, of Revoked Unavailable]
  have "\<exists>e \<in> {example_advisory 1 Revoked, example_advisory 1 Unavailable}.
      \<exists>t. advisoryEventPreimage e = Inr t \<and> sha256 constant_runtime t = zeros64"
    by (auto simp: constant_sha)
  ultimately show ?thesis by blast
qed

theorem advisory_append_witness:
  "ac_head (projr (verifyAdvisoryChain constant_runtime (\<lambda>_. True)
       [example_advisory 1 Unavailable, (example_advisory 2 Revoked)] (\<lambda>_. Some zeros64) None)) = zeros64"
proof -
  obtain t where "advisoryEventPreimage (example_advisory 2 Revoked) = Inr t"
    using example_advisory_preimage [of 2 Revoked] by auto
  then have c: "createAdvisoryEvent constant_runtime (example_advisory 2 Revoked) = Inr (example_advisory 2 Revoked)"
    by (simp add: createAdvisoryEvent_def advisoryEventHash_def constant_sha example_advisory_def)
  from advisory_append [OF example_chain_verifies [of Unavailable] c] show ?thesis
    using example_advisory_schema [of 2 Revoked] by (simp add: advisoryStatusFor_def)
qed

subsection \<open>The external advisory chain\<close>

record ExternalAdvisoryChainEvent =
  ea_sequence :: string
  ea_previousEventSha256 :: string
  ea_revisionId :: string
  ea_kind :: AdvisoryKind
  ea_status :: CurrentAdvisoryStatus
  ea_reasonCode :: string
  ea_effectiveAt :: string
  ea_eventSha256 :: string

definition external_members :: "ExternalAdvisoryChainEvent \<Rightarrow> (string \<times> json) list" where
  "external_members event =
     [(''sequence'', JStr (ea_sequence event)),
      (''previousEventSha256'', JStr (ea_previousEventSha256 event)),
      (''revisionId'', JStr (ea_revisionId event)), (''kind'', JStr (advisory_kind_text (ea_kind event))),
      (''status'', JStr (advisory_status_text (ea_status event))),
      (''reasonCode'', JStr (ea_reasonCode event)), (''effectiveAt'', JStr (ea_effectiveAt event))]"

definition external_preimage :: "ExternalAdvisoryChainEvent \<Rightarrow> string res" where
  "external_preimage event = canonicalJson (JObj (external_members event))"

definition hashExternalAdvisoryEvent :: "runtime \<Rightarrow> ExternalAdvisoryChainEvent \<Rightarrow> string res" where
  "hashExternalAdvisoryEvent rt event = and_then (external_preimage event) (\<lambda>t. Inr (sha256 rt t))"

fun verify_external_events ::
  "runtime \<Rightarrow> nat \<Rightarrow> string \<Rightarrow> ExternalAdvisoryChainEvent list \<Rightarrow> string res" where
  "verify_external_events rt sequence previous [] = Inr previous"
| "verify_external_events rt sequence previous (event # events) =
     (if ea_sequence event \<noteq> show_nat (sequence + 1) then Inl (Error ''ADVISORY_CHAIN_INVALID'')
      else if ea_previousEventSha256 event \<noteq> previous then Inl (Error ''ADVISORY_CHAIN_INVALID'')
      else and_then (hashExternalAdvisoryEvent rt event) (\<lambda>h.
        if h \<noteq> ea_eventSha256 event then Inl (Error ''ADVISORY_CHAIN_INVALID'')
        else verify_external_events rt (sequence + 1) (ea_eventSha256 event) events))"

definition verifyExternalAdvisoryChain ::
  "runtime \<Rightarrow> ExternalAdvisoryChainEvent list \<Rightarrow> string \<Rightarrow> unit res" where
  "verifyExternalAdvisoryChain rt events expectedHead =
     and_then (verify_external_events rt 0 zeros64 events) (\<lambda>previous.
       if previous \<noteq> expectedHead then Inl (Error ''ADVISORY_CHAIN_INVALID'') else Inr ())"

lemma external_preimage_inj:
  assumes "external_preimage e = Inr t" and "external_preimage f = Inr t"
    and "ea_eventSha256 e = ea_eventSha256 f"
  shows "e = f"
proof -
  have n: "norm (JObj (external_members e)) = norm (JObj (external_members f))"
    using canonicalJson_norm_eq assms(1,2) unfolding external_preimage_def by blast
  note l = norm_lookup [OF n [unfolded external_members_def]]
  show ?thesis
    using l [of "''sequence''"] l [of "''previousEventSha256''"] l [of "''revisionId''"] l [of "''kind''"]
      l [of "''status''"] l [of "''reasonCode''"] l [of "''effectiveAt''"] assms(3)
    by (cases e; cases f) simp
qed

interpretation external: hash_chain ea_sequence show_nat ea_previousEventSha256 ea_eventSha256
    external_preimage "sha256 rt" for rt
  by unfold_locales (auto intro: external_preimage_inj simp: show_nat_inj)

lemma verify_external_events_Inr:
  "verify_external_events rt i p es = Inr h \<longleftrightarrow>
     linked ea_sequence show_nat ea_previousEventSha256 ea_eventSha256 external_preimage (sha256 rt) i p es \<and>
     h = chain_head ea_eventSha256 p es"
proof (induction es arbitrary: i p)
  case Nil
  then show ?case by (auto simp: chain_head_def)
next
  case (Cons e es)
  have "chain_head ea_eventSha256 p (e # es) = chain_head ea_eventSha256 (ea_eventSha256 e) es"
    by (simp add: chain_head_def)
  with Cons.IH [of "Suc i" "ea_eventSha256 e"] show ?case
    by (cases "external_preimage e") (auto simp: hashExternalAdvisoryEvent_def)
qed

text \<open>The expected head pins the external history: two external advisory chains that are accepted
  against the same expected head are the same list of events, unless two of their event texts
  collide under the hash function or one hashes to the initial sixty-four zeros; so replaying,
  dropping, reordering or editing events is always detected.\<close>

theorem external_head_pins_history:
  assumes "verifyExternalAdvisoryChain rt events head = Inr ()"
    and "verifyExternalAdvisoryChain rt events' head = Inr ()"
  shows "events = events' \<or>
    (\<exists>e \<in> set events. \<exists>f \<in> set events'. \<exists>t u. external_preimage e = Inr t \<and>
        external_preimage f = Inr u \<and> t \<noteq> u \<and> sha256 rt t = sha256 rt u) \<or>
    (\<exists>e \<in> set events \<union> set events'. \<exists>t. external_preimage e = Inr t \<and> sha256 rt t = zeros64)"
proof -
  have *: "linked ea_sequence show_nat ea_previousEventSha256 ea_eventSha256 external_preimage (sha256 rt) 0 zeros64 es \<and>
      chain_head ea_eventSha256 zeros64 es = head"
    if "verifyExternalAdvisoryChain rt es head = Inr ()" for es
    using that by (auto simp: verifyExternalAdvisoryChain_def verify_external_events_Inr split: if_splits)
  note e = * [OF assms(1), THEN conjunct1] and f = * [OF assms(2), THEN conjunct1]
  have "chain_head ea_eventSha256 zeros64 events = chain_head ea_eventSha256 zeros64 events'"
    using * [OF assms(1)] * [OF assms(2)] by simp
  from external.head_pins [OF e f this] show ?thesis by blast
qed

lemma show_nat_1: "show_nat (Suc 0) = ''1''"
  by code_simp

definition example_external :: "CurrentAdvisoryStatus \<Rightarrow> ExternalAdvisoryChainEvent" where
  "example_external st =
     \<lparr>ea_sequence = ''1'', ea_previousEventSha256 = zeros64, ea_revisionId = ''r'', ea_kind = Availability,
      ea_status = st, ea_reasonCode = ''X'', ea_effectiveAt = ''now'', ea_eventSha256 = zeros64\<rparr>"

lemma example_external_verifies:
  "verifyExternalAdvisoryChain constant_runtime [example_external st] zeros64 = Inr ()"
proof -
  have "\<exists>t. external_preimage (example_external st) = Inr t"
    unfolding external_preimage_def canonicalJson_def
    by (rule canonicalize_total) (simp add: external_members_def)
  then show ?thesis
    by (auto simp: verifyExternalAdvisoryChain_def hashExternalAdvisoryEvent_def constant_sha)
      (simp_all add: example_external_def show_nat_1)
qed

theorem external_head_pins_history_witness:
  "example_external Available \<noteq> example_external Unavailable \<and>
   (\<exists>e \<in> {example_external Available, example_external Unavailable}.
      \<exists>t. external_preimage e = Inr t \<and> sha256 constant_runtime t = zeros64)"
proof -
  have "example_external Available \<noteq> example_external Unavailable" by (simp add: example_external_def)
  moreover from this
    external_head_pins_history [OF example_external_verifies example_external_verifies, of Available Unavailable]
  have "\<exists>e \<in> {example_external Available, example_external Unavailable}.
      \<exists>t. external_preimage e = Inr t \<and> sha256 constant_runtime t = zeros64"
    by (auto simp: constant_sha)
  ultimately show ?thesis by blast
qed

end
