(* ===== verification/Service_Errors.thy ===== *)
theory Service_Errors
  imports Prelude
begin

text \<open>
  The service's error codes and envelopes (\<open>src/application/errors.ts\<close>), the activity check of a
  request (\<open>src/application/request-execution.ts\<close>) and the transaction wrapper of the stores
  (\<open>src/persistence/postgres/request-transaction.ts\<close>). A request's execution answers each activity
  check in order (\<open>ex_active n\<close> is the answer to the check numbered \<open>n\<close>), because the abort signal and
  the clock may change between two of them.
\<close>

subsection \<open>Error codes\<close>

datatype SkillWireErrorCode =
  UNAUTHENTICATED | INVALID_ARGUMENT | NOT_FOUND | REVISION_UNAVAILABLE | RESOURCE_REJECTED
| MEMORY_CONFLICT | ERASURE_INCOMPLETE | RATE_LIMITED | INTERNAL

text \<open>A thrown value is a \<open>SkillWireError\<close> or something else.\<close>

datatype service_error = SkillWireError SkillWireErrorCode | OtherError string

fun SAFE_MESSAGES :: "SkillWireErrorCode \<Rightarrow> string" where
  "SAFE_MESSAGES UNAUTHENTICATED = ''Authentication is required.''"
| "SAFE_MESSAGES INVALID_ARGUMENT = ''The request is invalid.''"
| "SAFE_MESSAGES NOT_FOUND = ''The requested item was not found.''"
| "SAFE_MESSAGES REVISION_UNAVAILABLE = ''The exact revision is temporarily unavailable.''"
| "SAFE_MESSAGES RESOURCE_REJECTED = ''The requested resource was rejected.''"
| "SAFE_MESSAGES MEMORY_CONFLICT = ''The requested memory update cannot be applied.''"
| "SAFE_MESSAGES ERASURE_INCOMPLETE = ''Repository memory could not be erased.''"
| "SAFE_MESSAGES RATE_LIMITED = ''The request rate limit was exceeded.''"
| "SAFE_MESSAGES INTERNAL = ''The request could not be completed.''"

definition RETRYABLE :: "SkillWireErrorCode list" where
  "RETRYABLE = [REVISION_UNAVAILABLE, ERASURE_INCOMPLETE, RATE_LIMITED, INTERNAL]"

fun error_code :: "service_error \<Rightarrow> SkillWireErrorCode" where
  "error_code (SkillWireError c) = c"
| "error_code (OtherError m) = INTERNAL"

definition safeSkillWireError :: "service_error \<Rightarrow> service_error" where
  "safeSkillWireError e = (case e of SkillWireError c \<Rightarrow> e | OtherError m \<Rightarrow> SkillWireError INTERNAL)"

record SafeErrorEnvelope =
  ee_code :: SkillWireErrorCode
  ee_message :: string
  ee_retryable :: bool
  ee_requestId :: string

definition safeErrorEnvelope :: "service_error \<Rightarrow> string \<Rightarrow> SafeErrorEnvelope" where
  "safeErrorEnvelope e requestId =
     (let code = error_code (safeSkillWireError e)
      in \<lparr>ee_code = code, ee_message = SAFE_MESSAGES code, ee_retryable = code \<in> set RETRYABLE,
          ee_requestId = requestId\<rparr>)"

lemma safeErrorEnvelope_no_leak:
  "safeErrorEnvelope (OtherError secret) requestId = safeErrorEnvelope (SkillWireError INTERNAL) requestId"
  by (simp add: safeErrorEnvelope_def safeSkillWireError_def)

subsection \<open>Active requests and transactions\<close>

record RequestExecution =
  ex_active :: "nat \<Rightarrow> bool"
  ex_deadline :: bool
  ex_now :: nat

definition assertRequestActive :: "RequestExecution \<Rightarrow> nat \<Rightarrow> service_error + unit" where
  "assertRequestActive ex n = (if ex_active ex n then Inr () else Inl (SkillWireError INTERNAL))"

text \<open>The operation runs between \<open>BEGIN\<close> and \<open>COMMIT\<close>; whatever is thrown after \<open>BEGIN\<close> rolls back.\<close>

definition requestTransaction ::
  "RequestExecution \<Rightarrow> ('db \<Rightarrow> (service_error + 'r) \<times> 'db) \<Rightarrow> 'db \<Rightarrow> (service_error + 'r) \<times> 'db" where
  "requestTransaction ex operation db =
     (case and_then (assertRequestActive ex 0) (\<lambda>_.
           and_then (assertRequestActive ex 1) (\<lambda>_.
           and_then (assertRequestActive ex 2) (\<lambda>_.
             if ex_deadline ex then assertRequestActive ex 3 else Inr ()))) of
        Inl e \<Rightarrow> (Inl e, db)
      | Inr _ \<Rightarrow>
          (case operation db of
             (Inl e, db') \<Rightarrow> (Inl e, db)
           | (Inr r, db') \<Rightarrow>
               (case assertRequestActive ex 4 of
                  Inl e \<Rightarrow> (Inl e, db)
                | Inr _ \<Rightarrow> (Inr r, db'))))"

text \<open>All or nothing.\<close>

lemma requestTransaction_cases:
  "requestTransaction ex operation db = (out, db') \<Longrightarrow>
     (\<exists>e. out = Inl e \<and> db' = db) \<or> (\<exists>r. out = Inr r \<and> operation db = (Inr r, db'))"
  by (auto simp: requestTransaction_def split: sum.splits prod.splits)

lemma requestTransaction_Inr:
  "requestTransaction ex operation db = (Inr r, db') \<Longrightarrow> operation db = (Inr r, db')"
  using requestTransaction_cases by fastforce

lemma requestTransaction_Inl:
  "requestTransaction ex operation db = (Inl e, db') \<Longrightarrow> db' = db"
  using requestTransaction_cases by fastforce

definition live :: "nat \<Rightarrow> RequestExecution" where
  "live now = \<lparr>ex_active = (\<lambda>n. True), ex_deadline = True, ex_now = now\<rparr>"

lemma requestTransaction_live [simp]:
  "requestTransaction (live now) operation db =
     (case operation db of (Inl e, db') \<Rightarrow> (Inl e, db) | (Inr r, db') \<Rightarrow> (Inr r, db'))"
  by (simp add: requestTransaction_def live_def assertRequestActive_def split: sum.splits prod.splits)

lemma live_now [simp]: "ex_now (live now) = now"
  by (simp add: live_def)

end
