(* ===== verification/Memory_Store.thy ===== *)
theory Memory_Store
  imports Service_Errors
begin

text \<open>
  Repository memory: its types (\<open>src/domain/repository-memory/types.ts\<close> and \<open>outcome.ts\<close>), the port
  (\<open>src/application/ports/repository-memory-store.ts\<close>), the PostgreSQL store
  (\<open>src/persistence/postgres/repository-memory-store.ts\<close>) and the erasure audit
  (\<open>erasure-audit-store.ts\<close>). A table is a list of rows; each SQL statement is a function on it, with
  the constraints of \<open>migrations/002\<close> and \<open>003\<close>; time is the statement's time stamp; \<open>collate\<close> is the
  database's order of texts. What a client may rely on is the locale \<open>memory_contract\<close>, a map from
  scopes and revisions to usage, which the PostgreSQL store interprets.
\<close>

subsection \<open>Types\<close>

datatype SkillOutcome = Useful | Neutral | Unsuccessful

definition parseSkillOutcome :: "string \<Rightarrow> SkillOutcome res" where
  "parseSkillOutcome v =
     (if v = ''useful'' then Inr Useful
      else if v = ''neutral'' then Inr Neutral
      else if v = ''unsuccessful'' then Inr Unsuccessful
      else Inl (Error ''Outcome must be useful, neutral, or unsuccessful''))"

definition memoryBoostForOutcome :: "SkillOutcome option \<Rightarrow> int" where
  "memoryBoostForOutcome out =
     (if out = Some Useful then 2 else if out = Some Unsuccessful then 0 else 1)"

record RepositoryMemoryScope =
  sc_accountId :: string
  sc_repositoryHash :: string

definition assertRepositoryHash :: "string \<Rightarrow> string res" where
  "assertRepositoryHash v =
     (if \<not> hex_string 64 v
      then Inl (Error ''Repository hash must be exactly 64 lowercase hexadecimal characters'')
      else Inr v)"

definition repositoryMemoryScope :: "string \<Rightarrow> string \<Rightarrow> RepositoryMemoryScope res" where
  "repositoryMemoryScope accountId repositoryHash =
     (if js_length accountId = 0 then Inl (Error ''Account ID is required'')
      else and_then (assertRepositoryHash repositoryHash) (\<lambda>h.
             Inr \<lparr>sc_accountId = accountId, sc_repositoryHash = h\<rparr>))"

record RecordUsageInput =
  ru_skillId :: string
  ru_revision :: string
  ru_revisionSha256 :: string

record SkillUsageRecord =
  ur_skillId :: string
  ur_revision :: string
  ur_revisionSha256 :: string
  ur_firstUsedAt :: nat
  ur_lastUsedAt :: nat
  ur_usageCount :: int
  ur_outcome :: "SkillOutcome option"

record RepositoryUsageProjection =
  up_skillId :: string
  up_revision :: string
  up_outcome :: "SkillOutcome option"

text \<open>The port: every operation may fail and passes the database on.\<close>

record 'db memory_store =
  ms_recordUsage :: "RequestExecution \<Rightarrow> RepositoryMemoryScope \<Rightarrow> RecordUsageInput \<Rightarrow> 'db \<Rightarrow>
    (service_error + unit) \<times> 'db"
  ms_list :: "RequestExecution \<Rightarrow> RepositoryMemoryScope \<Rightarrow> 'db \<Rightarrow> (service_error + SkillUsageRecord list) \<times> 'db"
  ms_rankingProjection :: "RequestExecution \<Rightarrow> RepositoryMemoryScope \<Rightarrow> 'db \<Rightarrow>
    (service_error + RepositoryUsageProjection list) \<times> 'db"
  ms_replaceOutcome :: "RequestExecution \<Rightarrow> RepositoryMemoryScope \<Rightarrow> string \<Rightarrow> string \<Rightarrow> SkillOutcome \<Rightarrow> 'db \<Rightarrow>
    (service_error + bool) \<times> 'db"
  ms_forget :: "RequestExecution \<Rightarrow> RepositoryMemoryScope \<Rightarrow> string \<Rightarrow> 'db \<Rightarrow> (service_error + unit) \<times> 'db"

subsection \<open>The tables\<close>

record usage_row =
  us_account :: string
  us_repository :: string
  us_skill :: string
  us_revision :: string
  us_bundle :: string
  us_first :: nat
  us_last :: nat
  us_count :: int
  us_outcome :: "SkillOutcome option"

record audit_row =
  au_account :: string
  au_request :: string
  au_created :: nat
  au_expires :: nat
  au_removed :: int

record memory_db =
  db_accounts :: "string list"
  db_usage :: "usage_row list"
  db_audit :: "audit_row list"

definition max_integer :: int where
  "max_integer = 2147483647"

definition THIRTY_DAYS :: nat where
  "THIRTY_DAYS = 30 * 24 * 3600 * 1000"

definition us_key :: "usage_row \<Rightarrow> string \<times> string \<times> string \<times> string" where
  "us_key u = (us_account u, us_repository u, us_skill u, us_revision u)"

definition in_scope :: "RepositoryMemoryScope \<Rightarrow> usage_row \<Rightarrow> bool" where
  "in_scope sc u \<longleftrightarrow> us_account u = sc_accountId sc \<and> us_repository u = sc_repositoryHash sc"

definition stored_revision :: "string \<Rightarrow> bool" where
  "stored_revision s \<longleftrightarrow>
     (case s of
        [] \<Rightarrow> False
      | c # cs \<Rightarrow> alnum_char c \<and>
          list_all (\<lambda>d. alnum_char d \<or> d = CHR ''.'' \<or> d = CHR ''_'' \<or> d = CHR ''-'') cs) \<and>
     length s \<le> 128"

text \<open>The table's \<open>CHECK\<close> constraints and the range of its integer column.\<close>

definition usage_row_ok :: "usage_row \<Rightarrow> bool" where
  "usage_row_ok u \<longleftrightarrow>
     hex_string 64 (us_repository u) \<and> kebab (us_skill u) \<and> length (us_skill u) \<le> 80 \<and>
     stored_revision (us_revision u) \<and> hex_string 64 (us_bundle u) \<and>
     0 < us_count u \<and> us_count u \<le> max_integer \<and> us_first u \<le> us_last u"

subsection \<open>Statements\<close>

text \<open>\<open>INSERT ... ON CONFLICT DO UPDATE ... WHERE\<close>: the number of rows it returns, or an error.\<close>

definition upsert_usage ::
  "nat \<Rightarrow> RepositoryMemoryScope \<Rightarrow> RecordUsageInput \<Rightarrow> memory_db \<Rightarrow> (service_error + nat) \<times> memory_db" where
  "upsert_usage now sc input db =
     (let new_row = \<lparr>us_account = sc_accountId sc, us_repository = sc_repositoryHash sc,
                 us_skill = ru_skillId input, us_revision = ru_revision input,
                 us_bundle = ru_revisionSha256 input, us_first = now, us_last = now, us_count = 1,
                 us_outcome = None\<rparr>
      in if \<not> usage_row_ok new_row then (Inl (OtherError ''check constraint''), db)
         else case find (\<lambda>u. us_key u = us_key new_row) (db_usage db) of
           None \<Rightarrow>
             if sc_accountId sc \<notin> set (db_accounts db) then (Inl (OtherError ''foreign key''), db)
             else (Inr 1, db\<lparr>db_usage := db_usage db @ [new_row]\<rparr>)
         | Some u \<Rightarrow>
             if us_bundle u \<noteq> ru_revisionSha256 input then (Inr 0, db)
             else
               let updated = u\<lparr>us_last := now, us_count := us_count u + 1\<rparr>
               in if \<not> usage_row_ok updated then (Inl (OtherError ''check constraint''), db)
                  else (Inr 1, db\<lparr>db_usage :=
                         map (\<lambda>v. if us_key v = us_key u then updated else v) (db_usage db)\<rparr>))"

definition recordUsage ::
  "RequestExecution \<Rightarrow> RepositoryMemoryScope \<Rightarrow> RecordUsageInput \<Rightarrow> memory_db \<Rightarrow>
     (service_error + unit) \<times> memory_db" where
  "recordUsage ex sc input =
     requestTransaction ex (\<lambda>db.
       case upsert_usage (ex_now ex) sc input db of
         (Inl e, db') \<Rightarrow> (Inl e, db')
       | (Inr rowCount, db') \<Rightarrow>
           if rowCount \<noteq> 1
           then (Inl (OtherError ''Stored revision integrity does not match catalog''), db')
           else (Inr (), db'))"

definition usage_order :: "(string \<Rightarrow> string \<Rightarrow> int) \<Rightarrow> usage_row \<Rightarrow> usage_row \<Rightarrow> int" where
  "usage_order collate a b =
     (if us_last a \<noteq> us_last b then int (us_last b) - int (us_last a)
      else if collate (us_skill a) (us_skill b) \<noteq> 0 then collate (us_skill a) (us_skill b)
      else collate (us_revision a) (us_revision b))"

definition select_usage ::
  "(string \<Rightarrow> string \<Rightarrow> int) \<Rightarrow> RepositoryMemoryScope \<Rightarrow> memory_db \<Rightarrow> usage_row list" where
  "select_usage collate sc db = take 100 (js_sort (usage_order collate) (filter (in_scope sc) (db_usage db)))"

definition usage_record :: "usage_row \<Rightarrow> SkillUsageRecord" where
  "usage_record u =
     \<lparr>ur_skillId = us_skill u, ur_revision = us_revision u, ur_revisionSha256 = us_bundle u,
      ur_firstUsedAt = us_first u, ur_lastUsedAt = us_last u, ur_usageCount = us_count u,
      ur_outcome = us_outcome u\<rparr>"

definition list_usage ::
  "(string \<Rightarrow> string \<Rightarrow> int) \<Rightarrow> RequestExecution \<Rightarrow> RepositoryMemoryScope \<Rightarrow> memory_db \<Rightarrow>
     (service_error + SkillUsageRecord list) \<times> memory_db" where
  "list_usage collate ex sc =
     requestTransaction ex (\<lambda>db. (Inr (map usage_record (select_usage collate sc db)), db))"

definition rankingProjection ::
  "(string \<Rightarrow> string \<Rightarrow> int) \<Rightarrow> RequestExecution \<Rightarrow> RepositoryMemoryScope \<Rightarrow> memory_db \<Rightarrow>
     (service_error + RepositoryUsageProjection list) \<times> memory_db" where
  "rankingProjection collate ex sc =
     requestTransaction ex (\<lambda>db.
       (Inr (map (\<lambda>u. \<lparr>up_skillId = us_skill u, up_revision = us_revision u, up_outcome = us_outcome u\<rparr>)
               (select_usage collate sc db)), db))"

definition replaceOutcome ::
  "RequestExecution \<Rightarrow> RepositoryMemoryScope \<Rightarrow> string \<Rightarrow> string \<Rightarrow> SkillOutcome \<Rightarrow> memory_db \<Rightarrow>
     (service_error + bool) \<times> memory_db" where
  "replaceOutcome ex sc skill rv out =
     requestTransaction ex (\<lambda>db.
       let hit = (\<lambda>u. in_scope sc u \<and> us_skill u = skill \<and> us_revision u = rv)
       in (Inr (length (filter hit (db_usage db)) = 1),
           db\<lparr>db_usage := map (\<lambda>u. if hit u then u\<lparr>us_outcome := Some out\<rparr> else u) (db_usage db)\<rparr>))"

definition forget ::
  "RequestExecution \<Rightarrow> RepositoryMemoryScope \<Rightarrow> string \<Rightarrow> memory_db \<Rightarrow> (service_error + unit) \<times> memory_db" where
  "forget ex sc requestId =
     requestTransaction ex (\<lambda>db.
       let removed = int (length (filter (in_scope sc) (db_usage db)))
       in if requestId \<in> set (map au_request (db_audit db)) then (Inl (OtherError ''duplicate key''), db)
          else if sc_accountId sc \<notin> set (db_accounts db) then (Inl (OtherError ''foreign key''), db)
          else if max_integer < removed then (Inl (OtherError ''integer out of range''), db)
          else (Inr (),
                db\<lparr>db_usage := filter (\<lambda>u. \<not> in_scope sc u) (db_usage db),
                   db_audit := db_audit db @
                     [\<lparr>au_account = sc_accountId sc, au_request = requestId, au_created = ex_now ex,
                       au_expires = ex_now ex + THIRTY_DAYS, au_removed = removed\<rparr>]\<rparr>))"

definition audit_order :: "(string \<Rightarrow> string \<Rightarrow> int) \<Rightarrow> audit_row \<Rightarrow> audit_row \<Rightarrow> int" where
  "audit_order collate a b =
     (if au_created a \<noteq> au_created b then int (au_created b) - int (au_created a)
      else collate (au_request a) (au_request b))"

definition listActive :: "(string \<Rightarrow> string \<Rightarrow> int) \<Rightarrow> nat \<Rightarrow> string \<Rightarrow> memory_db \<Rightarrow> audit_row list" where
  "listActive collate now accountId db =
     take 100 (js_sort (audit_order collate)
       (filter (\<lambda>a. au_account a = accountId \<and> now < au_expires a) (db_audit db)))"

definition deleteExpired :: "nat \<Rightarrow> memory_db \<Rightarrow> nat \<times> memory_db" where
  "deleteExpired now db =
     (length (filter (\<lambda>a. au_expires a \<le> now) (db_audit db)),
      db\<lparr>db_audit := filter (\<lambda>a. \<not> au_expires a \<le> now) (db_audit db)\<rparr>)"

definition postgres_store :: "(string \<Rightarrow> string \<Rightarrow> int) \<Rightarrow> memory_db memory_store" where
  "postgres_store collate =
     \<lparr>ms_recordUsage = recordUsage, ms_list = list_usage collate,
      ms_rankingProjection = rankingProjection collate, ms_replaceOutcome = replaceOutcome,
      ms_forget = forget\<rparr>"

subsection \<open>What a client relies on\<close>

text \<open>A call of the port and the trace of a run: each call with whether it succeeded.\<close>

datatype memory_call =
  CallRecord RequestExecution RepositoryMemoryScope RecordUsageInput
| CallReplace RequestExecution RepositoryMemoryScope string string SkillOutcome
| CallForget RequestExecution RepositoryMemoryScope string

fun call_scope :: "memory_call \<Rightarrow> RepositoryMemoryScope" where
  "call_scope (CallRecord ex sc input) = sc"
| "call_scope (CallReplace ex sc skill rv out) = sc"
| "call_scope (CallForget ex sc requestId) = sc"

fun do_call :: "'db memory_store \<Rightarrow> memory_call \<Rightarrow> 'db \<Rightarrow> bool \<times> 'db" where
  "do_call store (CallRecord ex sc input) db =
     (let (out, db') = ms_recordUsage store ex sc input db in (ok out, db'))"
| "do_call store (CallReplace ex sc skill rv out) db =
     (let (r, db') = ms_replaceOutcome store ex sc skill rv out db in (ok r, db'))"
| "do_call store (CallForget ex sc requestId) db =
     (let (out, db') = ms_forget store ex sc requestId db in (ok out, db'))"

fun do_calls :: "'db memory_store \<Rightarrow> memory_call list \<Rightarrow> 'db \<Rightarrow> (memory_call \<times> bool) list \<times> 'db" where
  "do_calls store [] db = ([], db)"
| "do_calls store (call # calls) db =
     (let (success, db1) = do_call store call db; (trace, db2) = do_calls store calls db1
      in ((call, success) # trace, db2))"

locale scoped_store =
  fixes store :: "'db memory_store" and inv :: "'db \<Rightarrow> bool"
    and part :: "'db \<Rightarrow> RepositoryMemoryScope \<Rightarrow> 'p"
  assumes call_inv: "inv db \<Longrightarrow> do_call store call db = (b, db') \<Longrightarrow> inv db'"
    and call_frame: "inv db \<Longrightarrow> do_call store call db = (b, db') \<Longrightarrow> sc \<noteq> call_scope call \<Longrightarrow> part db' sc = part db sc"
    and list_part: "part db sc = part db2 sc \<Longrightarrow> fst (ms_list store ex sc db) = fst (ms_list store ex sc db2)"
    and projection_part: "part db sc = part db2 sc \<Longrightarrow>
      fst (ms_rankingProjection store ex sc db) = fst (ms_rankingProjection store ex sc db2)"
begin

lemma calls_inv: "inv db \<Longrightarrow> do_calls store calls db = (trace, db') \<Longrightarrow> inv db'"
proof (induction calls arbitrary: db db' trace)
  case (Cons call calls)
  obtain b db1 where one: "do_call store call db = (b, db1)" by (cases "do_call store call db")
  obtain trace2 db2 where rest: "do_calls store calls db1 = (trace2, db2)" by (cases "do_calls store calls db1")
  from Cons.prems one rest have "db' = db2" by simp
  with Cons.IH [OF call_inv [OF Cons.prems(1) one] rest] show ?case by simp
qed simp

lemma calls_frame:
  "inv db \<Longrightarrow> do_calls store calls db = (trace, db') \<Longrightarrow> sc \<notin> call_scope ` set calls \<Longrightarrow> part db' sc = part db sc"
proof (induction calls arbitrary: db db' trace)
  case (Cons call calls)
  obtain b db1 where one: "do_call store call db = (b, db1)" by (cases "do_call store call db")
  obtain trace2 db2 where rest: "do_calls store calls db1 = (trace2, db2)" by (cases "do_calls store calls db1")
  from Cons.prems one rest have "db' = db2" by simp
  moreover have "part db2 sc = part db1 sc"
    using Cons.IH [OF call_inv [OF Cons.prems(1) one] rest] Cons.prems(3) by simp
  moreover have "part db1 sc = part db sc" using call_frame [OF Cons.prems(1) one] Cons.prems(3) by simp
  ultimately show ?case by simp
qed simp

text \<open>What others do is invisible to a scope.\<close>

lemma others_invisible:
  assumes "inv db" and "do_calls store calls db = (trace, db')" and "sc \<notin> call_scope ` set calls"
  shows "fst (ms_list store ex sc db') = fst (ms_list store ex sc db)"
    and "fst (ms_rankingProjection store ex sc db') = fst (ms_rankingProjection store ex sc db)"
  using calls_frame [OF assms] by (auto intro: list_part projection_part)

end

text \<open>The number of recorded uses since the scope was last forgotten.\<close>

definition counted :: "RepositoryMemoryScope \<Rightarrow> string \<Rightarrow> string \<Rightarrow> memory_call \<times> bool \<Rightarrow> int \<Rightarrow> int" where
  "counted sc skill rv entry n =
     (case entry of
        (CallRecord ex s input, True) \<Rightarrow>
          if s = sc \<and> ru_skillId input = skill \<and> ru_revision input = rv then n + 1 else n
      | (CallForget ex s requestId, True) \<Rightarrow> if s = sc then 0 else n
      | _ \<Rightarrow> n)"

locale memory_contract = scoped_store store inv part
  for store :: "'db memory_store" and inv and part :: "'db \<Rightarrow> RepositoryMemoryScope \<Rightarrow> 'p" +
  fixes uses :: "'p \<Rightarrow> string \<Rightarrow> string \<Rightarrow> int"
  assumes call_uses: "inv db \<Longrightarrow> do_call store call db = (b, db') \<Longrightarrow>
      uses (part db' sc) skill rv = counted sc skill rv (call, b) (uses (part db sc) skill rv)"
begin

lemma calls_uses:
  "inv db \<Longrightarrow> do_calls store calls db = (trace, db') \<Longrightarrow>
     uses (part db' sc) skill rv = fold (counted sc skill rv) trace (uses (part db sc) skill rv)"
proof (induction calls arbitrary: db db' trace)
  case (Cons call calls)
  obtain b db1 where one: "do_call store call db = (b, db1)" by (cases "do_call store call db")
  obtain trace2 db2 where rest: "do_calls store calls db1 = (trace2, db2)" by (cases "do_calls store calls db1")
  from Cons.prems one rest have "db' = db2" "trace = (call, b) # trace2" by simp_all
  with Cons.IH [OF call_inv [OF Cons.prems(1) one] rest] call_uses [OF Cons.prems(1) one]
  show ?case by simp
qed simp

end

subsection \<open>The PostgreSQL store keeps the contract\<close>

definition memory_inv :: "memory_db \<Rightarrow> bool" where
  "memory_inv db \<longleftrightarrow>
     distinct (map us_key (db_usage db)) \<and> list_all usage_row_ok (db_usage db) \<and>
     distinct (map au_request (db_audit db)) \<and>
     list_all (\<lambda>a. au_expires a = au_created a + THIRTY_DAYS \<and> 0 \<le> au_removed a) (db_audit db)"

definition scope_rows :: "memory_db \<Rightarrow> RepositoryMemoryScope \<Rightarrow> usage_row list" where
  "scope_rows db sc = filter (in_scope sc) (db_usage db)"

definition uses_of :: "usage_row list \<Rightarrow> string \<Rightarrow> string \<Rightarrow> int" where
  "uses_of rows skill rv =
     (case find (\<lambda>u. us_skill u = skill \<and> us_revision u = rv) rows of None \<Rightarrow> 0 | Some u \<Rightarrow> us_count u)"

lemma in_scope_key:
  "us_key u = (sc_accountId sc, sc_repositoryHash sc, skill, rv) \<longleftrightarrow>
     in_scope sc u \<and> us_skill u = skill \<and> us_revision u = rv"
  by (auto simp: us_key_def in_scope_def)

lemma in_scope_unique: "in_scope sc u \<Longrightarrow> in_scope sc' u \<Longrightarrow> sc = sc'"
  by (cases sc; cases sc') (simp add: in_scope_def)

lemma upsert_cases:
  assumes "upsert_usage now sc input db = (Inr n, db')"
  obtains (zero) "n = 0" "db' = db"
  | (insert) u where "n = 1" "db' = db\<lparr>db_usage := db_usage db @ [u]\<rparr>" "usage_row_ok u" "us_count u = 1"
      "us_key u = (sc_accountId sc, sc_repositoryHash sc, ru_skillId input, ru_revision input)"
      "us_key u \<notin> us_key ` set (db_usage db)"
  | (update) u where "n = 1" "u \<in> set (db_usage db)" "usage_row_ok (u\<lparr>us_last := now, us_count := us_count u + 1\<rparr>)"
      "us_key u = (sc_accountId sc, sc_repositoryHash sc, ru_skillId input, ru_revision input)"
      "db' = db\<lparr>db_usage := map (\<lambda>v. if us_key v = us_key u
         then u\<lparr>us_last := now, us_count := us_count u + 1\<rparr> else v) (db_usage db)\<rparr>"
proof -
  let ?u = "\<lparr>us_account = sc_accountId sc, us_repository = sc_repositoryHash sc,
                 us_skill = ru_skillId input, us_revision = ru_revision input,
                 us_bundle = ru_revisionSha256 input, us_first = now, us_last = now, us_count = 1,
                 us_outcome = None\<rparr>"
  have key: "us_key ?u = (sc_accountId sc, sc_repositoryHash sc, ru_skillId input, ru_revision input)"
    by (simp add: us_key_def)
  from assms have ok: "usage_row_ok ?u" by (auto simp: upsert_usage_def Let_def split: if_splits)
  show thesis
  proof (cases "find (\<lambda>u. us_key u = us_key ?u) (db_usage db)")
    case None
    with assms ok have "n = 1" "db' = db\<lparr>db_usage := db_usage db @ [?u]\<rparr>"
      by (auto simp: upsert_usage_def Let_def split: if_splits)
    moreover have "us_key ?u \<notin> us_key ` set (db_usage db)" using None by (auto simp: find_None_iff)
    ultimately show thesis using insert [of ?u] ok key by simp
  next
    case (Some v)
    then have v: "v \<in> set (db_usage db)" "us_key v = us_key ?u" by (auto simp: find_Some_iff)
    from assms ok Some have "(n = 0 \<and> db' = db) \<or>
      (n = 1 \<and> usage_row_ok (v\<lparr>us_last := now, us_count := us_count v + 1\<rparr>) \<and>
       db' = db\<lparr>db_usage := map (\<lambda>w. if us_key w = us_key v
         then v\<lparr>us_last := now, us_count := us_count v + 1\<rparr> else w) (db_usage db)\<rparr>)"
      by (auto simp: upsert_usage_def Let_def split: if_splits)
    then show thesis
    proof (elim disjE conjE)
      assume "n = 0" "db' = db" then show thesis by (rule zero)
    next
      assume "n = 1" "usage_row_ok (v\<lparr>us_last := now, us_count := us_count v + 1\<rparr>)"
        "db' = db\<lparr>db_usage := map (\<lambda>w. if us_key w = us_key v
         then v\<lparr>us_last := now, us_count := us_count v + 1\<rparr> else w) (db_usage db)\<rparr>"
      with v key show thesis by (intro update [of v]) simp_all
    qed
  qed
qed

text \<open>The effect of each call on the table.\<close>

lemma recordUsage_effect:
  assumes "recordUsage ex sc input db = (r, db')"
  obtains (fail) e where "r = Inl e" "db' = db"
  | (insert) u where "r = Inr ()" "db' = db\<lparr>db_usage := db_usage db @ [u]\<rparr>" "usage_row_ok u" "us_count u = 1"
      "us_key u = (sc_accountId sc, sc_repositoryHash sc, ru_skillId input, ru_revision input)"
      "us_key u \<notin> us_key ` set (db_usage db)"
  | (update) u where "r = Inr ()" "u \<in> set (db_usage db)"
      "usage_row_ok (u\<lparr>us_last := ex_now ex, us_count := us_count u + 1\<rparr>)"
      "us_key u = (sc_accountId sc, sc_repositoryHash sc, ru_skillId input, ru_revision input)"
      "db' = db\<lparr>db_usage := map (\<lambda>v. if us_key v = us_key u
         then u\<lparr>us_last := ex_now ex, us_count := us_count u + 1\<rparr> else v) (db_usage db)\<rparr>"
proof (cases r)
  case (Inl e)
  with assms have "db' = db" unfolding recordUsage_def by (auto dest: requestTransaction_Inl)
  with Inl fail show thesis by simp
next
  case (Inr x)
  from assms Inr have step: "(case upsert_usage (ex_now ex) sc input db of
         (Inl e, db') \<Rightarrow> (Inl e, db')
       | (Inr rowCount, db') \<Rightarrow>
           if rowCount \<noteq> 1
           then (Inl (OtherError ''Stored revision integrity does not match catalog''), db')
           else (Inr (), db')) = (Inr x, db')"
    unfolding recordUsage_def by (auto dest: requestTransaction_Inr)
  obtain q db2 where up: "upsert_usage (ex_now ex) sc input db = (q, db2)"
    by (cases "upsert_usage (ex_now ex) sc input db")
  with step have q: "q = Inr 1" "db2 = db'" by (auto split: sum.splits if_splits)
  show thesis
    by (rule upsert_cases [OF up [unfolded q]]) (use Inr insert update in auto)
qed

lemma replaceOutcome_effect:
  assumes "replaceOutcome ex sc skill rv out db = (r, db')"
  shows "db' = db \<or> db' = db\<lparr>db_usage := map (\<lambda>u. if in_scope sc u \<and> us_skill u = skill \<and> us_revision u = rv
            then u\<lparr>us_outcome := Some out\<rparr> else u) (db_usage db)\<rparr>"
  using requestTransaction_cases [OF assms [unfolded replaceOutcome_def]] by (auto simp: Let_def)

lemma forget_effect:
  assumes "forget ex sc requestId db = (r, db')"
  shows "(\<exists>e. r = Inl e \<and> db' = db) \<or>
    (r = Inr () \<and> requestId \<notin> au_request ` set (db_audit db) \<and>
     db' = db\<lparr>db_usage := filter (\<lambda>u. \<not> in_scope sc u) (db_usage db),
                   db_audit := db_audit db @
                     [\<lparr>au_account = sc_accountId sc, au_request = requestId, au_created = ex_now ex,
                       au_expires = ex_now ex + THIRTY_DAYS,
                       au_removed = int (length (scope_rows db sc))\<rparr>]\<rparr>)"
  using requestTransaction_cases [OF assms [unfolded forget_def]]
  by (auto simp: Let_def scope_rows_def split: if_splits)

lemma us_key_outcome [simp]: "us_key (u\<lparr>us_outcome := out\<rparr>) = us_key u"
  "in_scope sc (u\<lparr>us_outcome := out\<rparr>) = in_scope sc u"
  "usage_row_ok (u\<lparr>us_outcome := out\<rparr>) = usage_row_ok u"
  by (simp_all add: us_key_def in_scope_def usage_row_ok_def)

lemma us_key_used [simp]: "us_key (u\<lparr>us_last := t, us_count := n\<rparr>) = us_key u"
  "in_scope sc (u\<lparr>us_last := t, us_count := n\<rparr>) = in_scope sc u"
  by (simp_all add: us_key_def in_scope_def)

lemma map_key_cong:
  assumes "\<And>u. us_key (f u) = us_key u"
  shows "map us_key (map f rows) = map us_key rows"
  using assms by simp

lemma filter_map_other:
  assumes "\<And>u. in_scope sc (f u) = in_scope sc u" and "\<And>u. in_scope sc u \<Longrightarrow> f u = u"
  shows "filter (in_scope sc) (map f rows) = filter (in_scope sc) rows"
  using assms by (induction rows) auto

lemma recordUsage_inv:
  assumes "memory_inv db" and "recordUsage ex sc input db = (r, db')"
  shows "memory_inv db'"
proof (rule recordUsage_effect [OF assms(2)])
  fix u assume u: "u \<in> set (db_usage db)" "usage_row_ok (u\<lparr>us_last := ex_now ex, us_count := us_count u + 1\<rparr>)"
    and db': "db' = db\<lparr>db_usage := map (\<lambda>v. if us_key v = us_key u
         then u\<lparr>us_last := ex_now ex, us_count := us_count u + 1\<rparr> else v) (db_usage db)\<rparr>"
  have "map us_key (db_usage db') = map us_key (db_usage db)" unfolding db' by simp
  moreover have "list_all usage_row_ok (db_usage db')"
    using assms(1) u(2) unfolding db' memory_inv_def by (auto simp: list_all_iff)
  moreover have "db_audit db' = db_audit db" unfolding db' by simp
  ultimately show ?thesis using assms(1) unfolding memory_inv_def by metis
qed (use assms(1) in \<open>auto simp: memory_inv_def\<close>)

lemma replaceOutcome_rows:
  fixes rows :: "usage_row list"
  defines "f P out \<equiv> (\<lambda>u. if P u then u\<lparr>us_outcome := Some out\<rparr> else u)"
  shows "map us_key (map (f P out) rows) = map us_key rows"
    and "list_all usage_row_ok (map (f P out) rows) = list_all usage_row_ok rows"
  unfolding f_def by (induction rows) auto

lemma replaceOutcome_inv:
  assumes "memory_inv db" and "replaceOutcome ex sc skill rv out db = (r, db')"
  shows "memory_inv db'"
  using replaceOutcome_effect [OF assms(2)]
proof
  assume "db' = db" with assms(1) show ?thesis by simp
next
  assume db': "db' = db\<lparr>db_usage := map (\<lambda>u. if in_scope sc u \<and> us_skill u = skill \<and> us_revision u = rv
            then u\<lparr>us_outcome := Some out\<rparr> else u) (db_usage db)\<rparr>"
  note rows = replaceOutcome_rows [where P = "\<lambda>u. in_scope sc u \<and> us_skill u = skill \<and> us_revision u = rv"
      and out = out and rows = "db_usage db"]
  have "map us_key (db_usage db') = map us_key (db_usage db)"
    and "list_all usage_row_ok (db_usage db') = list_all usage_row_ok (db_usage db)"
    and "db_audit db' = db_audit db"
    using rows unfolding db' by simp_all
  with assms(1) show ?thesis unfolding memory_inv_def by simp
qed

lemma forget_inv:
  assumes "memory_inv db" and "forget ex sc requestId db = (r, db')"
  shows "memory_inv db'"
  using assms(1) forget_effect [OF assms(2)]
  by (auto simp: memory_inv_def list_all_iff distinct_map_filter)

text \<open>Rows of other scopes stay.\<close>

lemma recordUsage_frame:
  assumes "recordUsage ex sc input db = (r, db')" and "sc' \<noteq> sc"
  shows "scope_rows db' sc' = scope_rows db sc'"
proof (rule recordUsage_effect [OF assms(1)])
  fix u assume db': "db' = db\<lparr>db_usage := db_usage db @ [u]\<rparr>"
    and "us_key u = (sc_accountId sc, sc_repositoryHash sc, ru_skillId input, ru_revision input)"
  then have "\<not> in_scope sc' u" using assms(2) in_scope_key in_scope_unique by blast
  then show ?thesis by (simp add: scope_rows_def db')
next
  fix u
  let ?f = "\<lambda>v. if us_key v = us_key u then u\<lparr>us_last := ex_now ex, us_count := us_count u + 1\<rparr> else v"
  assume db': "db' = db\<lparr>db_usage := map ?f (db_usage db)\<rparr>"
    and key: "us_key u = (sc_accountId sc, sc_repositoryHash sc, ru_skillId input, ru_revision input)"
  have u: "\<not> in_scope sc' u" using key assms(2) in_scope_key in_scope_unique by blast
  have same: "in_scope s v = in_scope s w" if "us_key v = us_key w" for s v w
    using that by (simp add: us_key_def in_scope_def)
  have "filter (in_scope sc') (map ?f rows) = filter (in_scope sc') rows" for rows
  proof (induction rows)
    case (Cons v rows)
    then show ?case using u same [of v u sc'] by simp
  qed simp
  then show ?thesis by (simp add: scope_rows_def db')
qed (simp_all add: scope_rows_def)

lemma replaceOutcome_frame:
  assumes "replaceOutcome ex sc skill rv out db = (r, db')" and "sc' \<noteq> sc"
  shows "scope_rows db' sc' = scope_rows db sc'"
proof -
  have "filter (in_scope sc') (map (\<lambda>u. if in_scope sc u \<and> P u then u\<lparr>us_outcome := Some out\<rparr> else u) rows)
      = filter (in_scope sc') rows" for P rows
    using assms(2) in_scope_unique by (induction rows) auto
  with replaceOutcome_effect [OF assms(1)] show ?thesis by (auto simp: scope_rows_def)
qed

lemma forget_frame:
  assumes "forget ex sc requestId db = (r, db')" and "sc' \<noteq> sc"
  shows "scope_rows db' sc' = scope_rows db sc'"
proof -
  have "filter (in_scope sc') (filter (\<lambda>u. \<not> in_scope sc u) rows) = filter (in_scope sc') rows" for rows
    using assms(2) in_scope_unique by (induction rows) auto
  with forget_effect [OF assms(1)] show ?thesis by (auto simp: scope_rows_def)
qed

lemma select_usage_rows:
  "scope_rows db sc = scope_rows db2 sc \<Longrightarrow> select_usage collate sc db = select_usage collate sc db2"
  by (simp add: select_usage_def scope_rows_def)

lemma request_result_cong:
  "fst (operation db) = fst (operation' db2) \<Longrightarrow>
     fst (requestTransaction ex operation db) = fst (requestTransaction ex operation' db2)"
  by (auto simp: requestTransaction_def split: sum.splits prod.splits)

lemma do_call_postgres:
  "do_call (postgres_store collate) call db =
     (case call of
        CallRecord ex sc input \<Rightarrow> (ok (fst (recordUsage ex sc input db)), snd (recordUsage ex sc input db))
      | CallReplace ex sc skill rv out \<Rightarrow>
          (ok (fst (replaceOutcome ex sc skill rv out db)), snd (replaceOutcome ex sc skill rv out db))
      | CallForget ex sc requestId \<Rightarrow> (ok (fst (forget ex sc requestId db)), snd (forget ex sc requestId db)))"
  by (cases call) (simp_all add: postgres_store_def case_prod_beta Let_def)

declare do_call.simps [simp del]

lemma postgres_call_inv:
  "memory_inv db \<Longrightarrow> do_call (postgres_store collate) call db = (b, db') \<Longrightarrow> memory_inv db'"
  by (cases call)
    (auto simp: do_call_postgres intro: recordUsage_inv [OF _ prod.collapse [symmetric]]
      replaceOutcome_inv [OF _ prod.collapse [symmetric]] forget_inv [OF _ prod.collapse [symmetric]])

lemma postgres_call_frame:
  "do_call (postgres_store collate) call db = (b, db') \<Longrightarrow> sc \<noteq> call_scope call \<Longrightarrow>
     scope_rows db' sc = scope_rows db sc"
  by (cases call)
    (auto simp: do_call_postgres intro: recordUsage_frame [OF prod.collapse [symmetric]]
      replaceOutcome_frame [OF prod.collapse [symmetric]] forget_frame [OF prod.collapse [symmetric]])

text \<open>The count of the row a call touches.\<close>

definition count_at :: "usage_row list \<Rightarrow> string \<times> string \<times> string \<times> string \<Rightarrow> int" where
  "count_at rows k = (case find (\<lambda>u. us_key u = k) rows of None \<Rightarrow> 0 | Some u \<Rightarrow> us_count u)"

lemma count_at_Nil [simp]: "count_at [] k = 0"
  by (simp add: count_at_def)

lemma count_at_Cons [simp]: "count_at (u # rows) k = (if us_key u = k then us_count u else count_at rows k)"
  by (simp add: count_at_def)

lemma uses_of_scope:
  "uses_of (filter (in_scope sc) rows) skill rv =
     count_at rows (sc_accountId sc, sc_repositoryHash sc, skill, rv)"
proof (induction rows)
  case (Cons u rows)
  then show ?case
    using in_scope_key [of u sc skill rv] by (auto simp: uses_of_def)
qed (simp add: uses_of_def)

lemma uses_of_rows:
  "uses_of (scope_rows db sc) skill rv =
     count_at (db_usage db) (sc_accountId sc, sc_repositoryHash sc, skill, rv)"
  by (simp add: scope_rows_def uses_of_scope)

lemma count_at_absent: "k \<notin> us_key ` set rows \<Longrightarrow> count_at rows k = 0"
  by (induction rows) auto

lemma count_at_snoc:
  "count_at (rows @ [u]) k = (if k \<in> us_key ` set rows then count_at rows k else count_at [u] k)"
  by (induction rows) auto

lemma count_at_member:
  "distinct (map us_key rows) \<Longrightarrow> u \<in> set rows \<Longrightarrow> count_at rows (us_key u) = us_count u"
  by (induction rows) (auto simp: image_iff)

lemma count_at_update:
  "us_key u' = us_key u \<Longrightarrow> u \<in> set rows \<Longrightarrow>
     count_at (map (\<lambda>v. if us_key v = us_key u then u' else v) rows) k =
       (if k = us_key u then us_count u' else count_at rows k)"
proof (induction rows)
  case (Cons v rows)
  have none: "count_at (map (\<lambda>v. if us_key v = us_key u then u' else v) ws) k = count_at ws k"
    if "k \<noteq> us_key u" for ws
    using that Cons.prems(1) by (induction ws) auto
  from Cons none show ?case by auto
qed simp

lemma count_at_map:
  "(\<And>u. us_key (f u) = us_key u \<and> us_count (f u) = us_count u) \<Longrightarrow> count_at (map f rows) k = count_at rows k"
  by (induction rows) auto

lemma recordUsage_uses:
  assumes inv: "memory_inv db" and "recordUsage ex sc input db = (r, db')"
  shows "uses_of (scope_rows db' sc) skill rv = uses_of (scope_rows db sc) skill rv +
    (if ok r \<and> ru_skillId input = skill \<and> ru_revision input = rv then 1 else 0)"
proof (rule recordUsage_effect [OF assms(2)])
  fix u assume "r = Inr ()" "db' = db\<lparr>db_usage := db_usage db @ [u]\<rparr>" "us_count u = 1"
    "us_key u = (sc_accountId sc, sc_repositoryHash sc, ru_skillId input, ru_revision input)"
    "us_key u \<notin> us_key ` set (db_usage db)"
  then show ?thesis by (auto simp: uses_of_rows count_at_snoc count_at_absent)
next
  fix u assume new: "r = Inr ()" "u \<in> set (db_usage db)"
    "us_key u = (sc_accountId sc, sc_repositoryHash sc, ru_skillId input, ru_revision input)"
    "db' = db\<lparr>db_usage := map (\<lambda>v. if us_key v = us_key u
         then u\<lparr>us_last := ex_now ex, us_count := us_count u + 1\<rparr> else v) (db_usage db)\<rparr>"
  have "count_at (db_usage db) (us_key u) = us_count u"
    using inv new(2) by (intro count_at_member) (auto simp: memory_inv_def)
  then show ?thesis
    using new(1,2,3) count_at_update [of "u\<lparr>us_last := ex_now ex, us_count := us_count u + 1\<rparr>" u "db_usage db"]
    by (auto simp: uses_of_rows new(4))
qed simp

lemma replaceOutcome_uses:
  assumes "replaceOutcome ex sc skill' rv' out db = (r, db')"
  shows "uses_of (scope_rows db' sc) skill rv = uses_of (scope_rows db sc) skill rv"
proof -
  have "count_at (map (\<lambda>u. if P u then u\<lparr>us_outcome := Some out\<rparr> else u) rows) k = count_at rows k" for P rows k
    by (rule count_at_map) simp
  with replaceOutcome_effect [OF assms] show ?thesis by (auto simp: uses_of_rows)
qed

lemma forget_uses:
  assumes "forget ex sc requestId db = (r, db')"
  shows "uses_of (scope_rows db' sc) skill rv = (if ok r then 0 else uses_of (scope_rows db sc) skill rv)"
proof -
  have "scope_rows db' sc = []" if "db_usage db' = filter (\<lambda>u. \<not> in_scope sc u) (db_usage db)"
    using that by (simp add: scope_rows_def)
  with forget_effect [OF assms] show ?thesis by (auto simp: uses_of_def)
qed

lemma postgres_call_uses:
  assumes inv: "memory_inv db" and step: "do_call (postgres_store collate) call db = (b, db')"
  shows "uses_of (scope_rows db' sc) skill rv =
    counted sc skill rv (call, b) (uses_of (scope_rows db sc) skill rv)"
proof (cases "sc = call_scope call")
  case False
  have "counted sc skill rv (call, b) n = n" for n
    using False by (cases call; cases b) (auto simp: counted_def)
  with postgres_call_frame [OF step False] show ?thesis by simp
next
  case True
  show ?thesis
  proof (cases call)
    case (CallRecord ex s input)
    obtain r db2 where run: "recordUsage ex s input db = (r, db2)" by (cases "recordUsage ex s input db")
    with CallRecord True step have "sc = s" "b = ok r" "db' = db2" by (simp_all add: do_call_postgres)
    with CallRecord recordUsage_uses [OF inv run] show ?thesis by (cases b) (auto simp: counted_def)
  next
    case (CallReplace ex s sk rvn out)
    obtain r db2 where run: "replaceOutcome ex s sk rvn out db = (r, db2)"
      by (cases "replaceOutcome ex s sk rvn out db")
    with CallReplace True step have "sc = s" "db' = db2" by (simp_all add: do_call_postgres)
    with CallReplace replaceOutcome_uses [OF run] show ?thesis by (simp add: counted_def)
  next
    case (CallForget ex s requestId)
    obtain r db2 where run: "forget ex s requestId db = (r, db2)" by (cases "forget ex s requestId db")
    with CallForget True step have "sc = s" "b = ok r" "db' = db2" by (simp_all add: do_call_postgres)
    with CallForget forget_uses [OF run] show ?thesis by (cases b) (auto simp: counted_def)
  qed
qed

interpretation postgres: memory_contract "postgres_store collate" memory_inv scope_rows uses_of
  for collate :: "string \<Rightarrow> string \<Rightarrow> int"
proof unfold_locales
  fix db db2 :: memory_db and ex sc
  assume same: "scope_rows db sc = scope_rows db2 sc"
  show "fst (ms_list (postgres_store collate) ex sc db) = fst (ms_list (postgres_store collate) ex sc db2)"
    and "fst (ms_rankingProjection (postgres_store collate) ex sc db) =
         fst (ms_rankingProjection (postgres_store collate) ex sc db2)"
    using select_usage_rows [OF same, of collate]
    by (simp_all add: postgres_store_def list_usage_def rankingProjection_def request_result_cong)
qed (auto intro: postgres_call_inv postgres_call_frame postgres_call_uses)

subsection \<open>Properties\<close>

definition example_scope :: "string \<Rightarrow> RepositoryMemoryScope" where
  "example_scope account = \<lparr>sc_accountId = account, sc_repositoryHash = zeros64\<rparr>"

definition example_use :: RecordUsageInput where
  "example_use = \<lparr>ru_skillId = ''review'', ru_revision = ''r1'', ru_revisionSha256 = zeros64\<rparr>"

definition example_db :: memory_db where
  "example_db = \<lparr>db_accounts = [''a'', ''b''], db_usage = [], db_audit = []\<rparr>"

definition example_calls :: "memory_call list" where
  "example_calls =
     [CallRecord (live 1) (example_scope ''a'') example_use, CallRecord (live 2) (example_scope ''a'') example_use,
      CallReplace (live 3) (example_scope ''a'') ''review'' ''r1'' Useful]"

definition example_row :: usage_row where
  "example_row = \<lparr>us_account = ''a'', us_repository = zeros64, us_skill = ''review'', us_revision = ''r1'',
     us_bundle = zeros64, us_first = 1, us_last = 2, us_count = 2, us_outcome = Some Useful\<rparr>"

lemma memory_inv_example [simp]: "memory_inv example_db"
  by (simp add: memory_inv_def example_db_def)

lemma example_calls_run:
  "do_calls (postgres_store collate) example_calls example_db =
     (map (\<lambda>c. (c, True)) example_calls, example_db\<lparr>db_usage := [example_row]\<rparr>)"
proof -
  have row: "usage_row_ok (example_row\<lparr>us_first := f, us_last := t, us_count := n, us_outcome := out\<rparr>)"
    if "f \<le> t" "0 < n" "n \<le> 2" for f t n out
  proof -
    have "hex_string 64 zeros64" "kebab ''review''" "stored_revision ''r1''" by code_simp+
    with that show ?thesis by (simp add: usage_row_ok_def example_row_def max_integer_def)
  qed
  note defs = example_calls_def do_call_postgres recordUsage_def upsert_usage_def replaceOutcome_def
    example_db_def example_use_def example_scope_def Let_def us_key_def in_scope_def
  show ?thesis
    using row [of 1 1 1 None] row [of 2 2 1 None] row [of 1 2 2 None] by (simp add: defs example_row_def)
qed

text \<open>C4. Tenant isolation: whatever calls are made on other accounts or other repositories, in any
  order and whether they succeed or fail, what a scope lists and what its ranking sees stay the same.\<close>

theorem memory_tenant_isolation:
  assumes "memory_inv db" and "do_calls (postgres_store collate) calls db = (trace, db')"
    and "sc \<notin> call_scope ` set calls"
  shows "fst (list_usage collate ex sc db') = fst (list_usage collate ex sc db) \<and>
    fst (rankingProjection collate ex sc db') = fst (rankingProjection collate ex sc db)"
  using postgres.others_invisible [OF assms] by (simp add: postgres_store_def)

theorem memory_tenant_isolation_witness:
  "fst (list_usage byte_compare (live 9) (example_scope ''b'')
      (snd (do_calls (postgres_store byte_compare) example_calls example_db))) =
   fst (list_usage byte_compare (live 9) (example_scope ''b'') example_db)"
  using memory_tenant_isolation [OF memory_inv_example, of byte_compare example_calls
      "map (\<lambda>c. (c, True)) example_calls" "example_db\<lparr>db_usage := [example_row]\<rparr>" "example_scope ''b''" "live 9"]
  by (simp add: example_calls_run) (simp add: example_calls_def example_scope_def)

text \<open>C38. The use count a scope lists for a revision is the number of successful recordings of that
  revision in that scope since it was last forgotten (on top of what was stored before); failed calls,
  outcomes and other scopes do not count.\<close>

theorem usage_count_exact:
  assumes inv: "memory_inv db" and run: "do_calls (postgres_store collate) calls db = (trace, db')"
    and listed: "fst (list_usage collate ex sc db') = Inr records" and mem: "r \<in> set records"
  shows "ur_usageCount r =
    fold (counted sc (ur_skillId r) (ur_revision r)) trace (uses_of (scope_rows db sc) (ur_skillId r) (ur_revision r))"
proof -
  obtain db2 where "list_usage collate ex sc db' = (Inr records, db2)"
    using listed by (cases "list_usage collate ex sc db'") auto
  then have "records = map usage_record (select_usage collate sc db')"
    unfolding list_usage_def by (auto dest: requestTransaction_Inr)
  with mem obtain u where u: "r = usage_record u" "u \<in> set (select_usage collate sc db')" by auto
  then have "u \<in> set (scope_rows db' sc)"
    unfolding select_usage_def scope_rows_def by (metis in_set_takeD set_js_sort)
  then have row: "u \<in> set (db_usage db')" "in_scope sc u" by (auto simp: scope_rows_def)
  have "memory_inv db'" by (rule postgres.calls_inv [OF inv run])
  then have "count_at (db_usage db') (us_key u) = us_count u"
    using row(1) by (intro count_at_member) (auto simp: memory_inv_def)
  then have "us_count u = uses_of (scope_rows db' sc) (us_skill u) (us_revision u)"
    using row(2) by (simp add: uses_of_rows us_key_def in_scope_def)
  with postgres.calls_uses [OF inv run] u(1) show ?thesis by (simp add: usage_record_def)
qed

theorem usage_count_exact_witness:
  "ur_usageCount (usage_record example_row) = 2 \<and>
   fold (counted (example_scope ''a'') ''review'' ''r1'') (map (\<lambda>c. (c, True)) example_calls) 0 = 2"
proof -
  have listed: "fst (list_usage byte_compare (live 9) (example_scope ''a'') (example_db\<lparr>db_usage := [example_row]\<rparr>)) =
      Inr [usage_record example_row]"
    by (simp add: list_usage_def select_usage_def in_scope_def example_row_def example_scope_def js_sort_Cons)
  have "scope_rows example_db (example_scope ''a'') = []" by (simp add: scope_rows_def example_db_def)
  then show ?thesis
    using usage_count_exact [OF memory_inv_example example_calls_run listed, of "usage_record example_row"]
    by (simp add: usage_record_def example_row_def uses_of_def)
qed

text \<open>Forgetting a repository erases all its rows and nothing else, and leaves exactly one audit
  row, which holds the number of removed rows, no repository data, and expires thirty days later.\<close>

theorem forget_erases:
  assumes "forget ex sc requestId db = (Inr (), db')"
  shows "fst (list_usage collate (live t) sc db') = Inr [] \<and>
    (\<forall>sc'. sc' \<noteq> sc \<longrightarrow> scope_rows db' sc' = scope_rows db sc') \<and>
    db_audit db' = db_audit db @ [\<lparr>au_account = sc_accountId sc, au_request = requestId, au_created = ex_now ex,
      au_expires = ex_now ex + THIRTY_DAYS, au_removed = int (length (scope_rows db sc))\<rparr>]"
proof (intro conjI allI impI)
  have rows: "scope_rows db' sc = []" using forget_effect [OF assms] by (auto simp: scope_rows_def)
  then show "fst (list_usage collate (live t) sc db') = Inr []"
    by (simp add: list_usage_def select_usage_def scope_rows_def)
  show "db_audit db' = db_audit db @ [\<lparr>au_account = sc_accountId sc, au_request = requestId, au_created = ex_now ex,
      au_expires = ex_now ex + THIRTY_DAYS, au_removed = int (length (scope_rows db sc))\<rparr>]"
    using forget_effect [OF assms] by auto
  show "scope_rows db' sc' = scope_rows db sc'" if "sc' \<noteq> sc" for sc'
    by (rule forget_frame [OF assms that])
qed

theorem forget_erases_witness:
  "fst (list_usage byte_compare (live 9) (example_scope ''a'')
     (snd (forget (live 5) (example_scope ''a'') ''q1'' (example_db\<lparr>db_usage := [example_row]\<rparr>)))) = Inr []"
proof -
  have "fst (forget (live 5) (example_scope ''a'') ''q1'' (example_db\<lparr>db_usage := [example_row]\<rparr>)) = Inr ()"
    by (simp add: forget_def example_db_def example_scope_def max_integer_def in_scope_def Let_def)
  then have "forget (live 5) (example_scope ''a'') ''q1'' (example_db\<lparr>db_usage := [example_row]\<rparr>) =
      (Inr (), snd (forget (live 5) (example_scope ''a'') ''q1'' (example_db\<lparr>db_usage := [example_row]\<rparr>)))"
    by (metis prod.collapse)
  from forget_erases [OF this, of byte_compare 9] show ?thesis by simp
qed

end
