(* ===== verification/Ranking.thy ===== *)
theory Ranking
  imports Memory_Store Advisory_Chain
begin

text \<open>
  Search ranking (\<open>src/domain/catalog/ranking.ts\<close>). The Unicode tables are a parameter: \<open>words\<close> are
  the matches of \<open>/[\p{L}\p{N}]+/gu\<close> and \<open>fold_case\<close> is \<open>normalize("NFKD").toLocaleLowerCase\<close>; nothing
  is assumed of them. The order of ids is the \<open>localeCompare\<close> of the runtime. The theorems say that a
  result is sorted, complete up to its limit and free of revoked skills, and that repository memory can
  only break ties of relevance.
\<close>

record lexicon =
  words :: "string \<Rightarrow> string list"
  fold_case :: "string \<Rightarrow> string"

record CatalogSkillMetadata =
  cs_id :: string
  cs_name :: string
  cs_description :: string
  cs_capabilities :: "string list"
  cs_revision :: string
  cs_trustAtPublication :: TrustAtPublication
  cs_currentAdvisoryStatus :: CurrentAdvisoryStatus
  cs_catalogOrigin :: "GitHubCatalogOrigin option"
  cs_currentClassification :: "CurrentClassification option"
  cs_invocationMode :: "InvocationMode option"

record RankedSkill =
  rk_skill :: CatalogSkillMetadata
  rk_score :: int
  rk_memoryBoost :: int
  rk_matchingCapabilities :: "string list"

definition NON_DISCRIMINATING_TOKENS :: "string list" where
  "NON_DISCRIMINATING_TOKENS =
     [''a'', ''an'', ''and'', ''are'', ''as'', ''at'', ''be'', ''by'', ''for'', ''from'', ''in'', ''into'',
      ''is'', ''it'', ''of'', ''on'', ''or'', ''that'', ''the'', ''this'', ''to'', ''with'']"

definition MINIMUM_RELEVANCE_SCORE :: int where
  "MINIMUM_RELEVANCE_SCORE = 1"

definition normalizeToken :: "lexicon \<Rightarrow> string \<Rightarrow> string" where
  "normalizeToken lx token =
     (let normalized = fold_case lx token
      in if 3 < js_length normalized \<and> ends_with ''s'' normalized then butlast normalized else normalized)"

definition tokenize :: "lexicon \<Rightarrow> string \<Rightarrow> string list" where
  "tokenize lx v =
     uniq (filter (\<lambda>token. token \<notin> set NON_DISCRIMINATING_TOKENS) (map (normalizeToken lx) (words lx v)))"

definition intersectionSize :: "string list \<Rightarrow> string list \<Rightarrow> int" where
  "intersectionSize left right = foldl (\<lambda>matches token. if token \<in> set right then matches + 1 else matches) 0 left"

text \<open>The filter's callback also adds 4 to the score for a capability contained in the task.\<close>

definition scoreSkill :: "lexicon \<Rightarrow> CatalogSkillMetadata \<Rightarrow> string \<Rightarrow> int \<Rightarrow> RankedSkill" where
  "scoreSkill lx skill task memoryBoost =
     (let queryTokens = tokenize lx task;
          identityTokens = tokenize lx (cs_id skill @ '' '' @ cs_name skill);
          descriptionTokens = tokenize lx (cs_description skill);
          capabilityTokens = tokenize lx (join '' '' (cs_capabilities skill));
          normalizedTask = join '' '' queryTokens;
          score = intersectionSize queryTokens identityTokens * 6
            + intersectionSize queryTokens capabilityTokens * 8
            + intersectionSize queryTokens descriptionTokens * 2;
          (score, matchingCapabilities) = foldl (\<lambda>(score, kept) capability.
              let tokens = tokenize lx capability;
                  matched = 0 < intersectionSize queryTokens tokens
              in (if matched \<and> has_sub (join '' '' tokens) normalizedTask then score + 4 else score,
                  if matched then kept @ [capability] else kept))
            (score, []) (cs_capabilities skill)
      in \<lparr>rk_skill = skill, rk_score = score, rk_memoryBoost = memoryBoost,
          rk_matchingCapabilities = matchingCapabilities\<rparr>)"

definition memory_key :: "string \<Rightarrow> string \<Rightarrow> string" where
  "memory_key skill rv = skill @ [NUL] @ rv"

definition memory_by_revision :: "RepositoryUsageProjection list \<Rightarrow> (string \<times> int) list" where
  "memory_by_revision memory =
     foldl (\<lambda>m entry. AList.update (memory_key (up_skillId entry) (up_revision entry))
       (memoryBoostForOutcome (up_outcome entry)) m) [] memory"

definition boost_of :: "(string \<times> int) list \<Rightarrow> CatalogSkillMetadata \<Rightarrow> int" where
  "boost_of m skill = (case map_of m (memory_key (cs_id skill) (cs_revision skill)) of None \<Rightarrow> 0 | Some b \<Rightarrow> b)"

definition compare_ranked :: "runtime \<Rightarrow> RankedSkill \<Rightarrow> RankedSkill \<Rightarrow> int" where
  "compare_ranked rt left right =
     (let relevance = rk_score right - rk_score left;
          memoryRelevance = rk_memoryBoost right - rk_memoryBoost left
      in if relevance \<noteq> 0 then relevance
         else if memoryRelevance \<noteq> 0 then memoryRelevance
         else localeCompare rt (cs_id (rk_skill left)) (cs_id (rk_skill right)))"

definition eligible ::
  "lexicon \<Rightarrow> CatalogSkillMetadata list \<Rightarrow> string \<Rightarrow> RepositoryUsageProjection list \<Rightarrow> RankedSkill list" where
  "eligible lx skills task memory =
     filter (\<lambda>r. MINIMUM_RELEVANCE_SCORE \<le> rk_score r)
       (map (\<lambda>skill. scoreSkill lx skill task (boost_of (memory_by_revision memory) skill))
         (filter (\<lambda>skill. cs_currentAdvisoryStatus skill \<noteq> Revoked) skills))"

definition rankSkills ::
  "runtime \<Rightarrow> lexicon \<Rightarrow> CatalogSkillMetadata list \<Rightarrow> string \<Rightarrow> nat \<Rightarrow> RepositoryUsageProjection list \<Rightarrow>
     RankedSkill list" where
  "rankSkills rt lx skills task limit memory =
     take limit (js_sort (compare_ranked rt) (eligible lx skills task memory))"

subsection \<open>Order and completeness\<close>

lemma sgn_minus_flip: "sgn (b - a) = - sgn (a - b :: int)"
  by (simp add: sgn_if)

lemma consistent_compare_ranked:
  assumes "consistent (localeCompare rt)"
  shows "consistent (compare_ranked rt)"
proof -
  have flip: "sgn (localeCompare rt a b) = - sgn (localeCompare rt b a)" for a b
    using assms unfolding consistent_def by blast
  have trans: "localeCompare rt a b \<le> 0 \<Longrightarrow> localeCompare rt b c \<le> 0 \<Longrightarrow> localeCompare rt a c \<le> 0" for a b c
    using assms unfolding consistent_def by blast
  show ?thesis unfolding consistent_def
  proof (intro conjI allI impI)
    fix x y show "sgn (compare_ranked rt x y) = - sgn (compare_ranked rt y x)"
      using flip [of "cs_id (rk_skill x)" "cs_id (rk_skill y)"]
        sgn_minus_flip [of "rk_score y" "rk_score x"] sgn_minus_flip [of "rk_memoryBoost y" "rk_memoryBoost x"]
      by (simp add: compare_ranked_def Let_def)
  next
    fix x y z assume "compare_ranked rt x y \<le> 0" "compare_ranked rt y z \<le> 0"
    then show "compare_ranked rt x z \<le> 0"
      using trans [of "cs_id (rk_skill x)" "cs_id (rk_skill y)" "cs_id (rk_skill z)"]
      by (auto simp: compare_ranked_def Let_def split: if_splits)
  qed
qed

text \<open>The score does not depend on the boost.\<close>

lemma scoreSkill_fields:
  "rk_score (scoreSkill lx skill task b) = rk_score (scoreSkill lx skill task 0)"
  "rk_skill (scoreSkill lx skill task b) = skill"
  "rk_memoryBoost (scoreSkill lx skill task b) = b"
  "rk_matchingCapabilities (scoreSkill lx skill task b) = rk_matchingCapabilities (scoreSkill lx skill task 0)"
  by (simp_all add: scoreSkill_def Let_def case_prod_beta)

lemma eligible_member:
  "r \<in> set (eligible lx skills task memory) \<longleftrightarrow>
     (\<exists>skill \<in> set skills. cs_currentAdvisoryStatus skill \<noteq> Revoked \<and>
        r = scoreSkill lx skill task (boost_of (memory_by_revision memory) skill) \<and> 1 \<le> rk_score r)"
  by (auto simp: eligible_def MINIMUM_RELEVANCE_SCORE_def)

lemma eligible_scores:
  "map (\<lambda>r. (rk_skill r, rk_score r)) (eligible lx skills task memory) =
   map (\<lambda>r. (rk_skill r, rk_score r)) (eligible lx skills task [])"
proof (induction skills)
  case (Cons skill skills)
  then show ?case
    using scoreSkill_fields(1) [of lx skill task "boost_of (memory_by_revision memory) skill"]
      scoreSkill_fields(1) [of lx skill task "boost_of (memory_by_revision []) skill"]
    by (simp add: eligible_def scoreSkill_fields(2))
qed (simp add: eligible_def)

lemma scores_descend:
  assumes "consistent (localeCompare rt)"
  shows "sorted_wrt (\<lambda>a b. b \<le> a) (map rk_score (js_sort (compare_ranked rt) xs))"
proof -
  have "rk_score b \<le> rk_score a" if "compare_ranked rt a b \<le> 0" for a b
    using that by (auto simp: compare_ranked_def Let_def split: if_splits)
  then show ?thesis unfolding sorted_wrt_map
    by (rule sorted_wrt_mono_rel [OF _ sorted_js_sort [OF consistent_compare_ranked [OF assms]]])
qed

lemma descending_unique:
  assumes "sorted_wrt (\<lambda>a b. b \<le> a) xs" and "sorted_wrt (\<lambda>a b. b \<le> a) ys" and "mset xs = mset (ys :: int list)"
  shows "xs = ys"
proof -
  have "sorted (List.rev xs)" "sorted (List.rev ys)" using assms(1,2) by (simp_all add: sorted_wrt_rev)
  with assms(3) have "List.rev xs = List.rev ys"
    by (metis mset_rev properties_for_sort)
  then show ?thesis by simp
qed

lemma rankSkills_sound:
  assumes "consistent (localeCompare rt)"
  shows "length (rankSkills rt lx skills task limit memory) \<le> limit"
    and "\<forall>r \<in> set (rankSkills rt lx skills task limit memory).
       rk_skill r \<in> set skills \<and> cs_currentAdvisoryStatus (rk_skill r) \<noteq> Revoked \<and> 1 \<le> rk_score r"
proof -
  show "length (rankSkills rt lx skills task limit memory) \<le> limit" by (simp add: rankSkills_def)
  show "\<forall>r \<in> set (rankSkills rt lx skills task limit memory).
       rk_skill r \<in> set skills \<and> cs_currentAdvisoryStatus (rk_skill r) \<noteq> Revoked \<and> 1 \<le> rk_score r"
  proof
    fix r assume "r \<in> set (rankSkills rt lx skills task limit memory)"
    then have "r \<in> set (eligible lx skills task memory)"
      unfolding rankSkills_def by (metis in_set_takeD set_js_sort)
    then show "rk_skill r \<in> set skills \<and> cs_currentAdvisoryStatus (rk_skill r) \<noteq> Revoked \<and> 1 \<le> rk_score r"
      unfolding eligible_member by (auto simp: scoreSkill_fields(2))
  qed
qed

subsection \<open>Properties\<close>

definition example_lexicon :: lexicon where
  "example_lexicon = \<lparr>words = split_on (CHR '' ''), fold_case = (\<lambda>s. s)\<rparr>"

definition example_skill :: "string \<Rightarrow> CurrentAdvisoryStatus \<Rightarrow> CatalogSkillMetadata" where
  "example_skill i status = \<lparr>cs_id = i, cs_name = ''review'', cs_description = ''code'',
     cs_capabilities = [''code review''], cs_revision = ''r1'', cs_trustAtPublication = Trusted,
     cs_currentAdvisoryStatus = status, cs_catalogOrigin = None, cs_currentClassification = None,
     cs_invocationMode = None\<rparr>"



text \<open>C23. Repository memory only breaks ties: whatever two repositories remember, the list of relevance
  scores shown for a task is the same, and so is the set of skills as long as the limit cuts nothing off.\<close>

theorem memory_breaks_ties_only:
  assumes cons: "consistent (localeCompare rt)"
  shows "map rk_score (rankSkills rt lx skills task limit memory) =
      map rk_score (rankSkills rt lx skills task limit memory2) \<and>
    (length (eligible lx skills task memory) \<le> limit \<longrightarrow>
      mset (map rk_skill (rankSkills rt lx skills task limit memory)) =
      mset (map rk_skill (rankSkills rt lx skills task limit memory2)))"
proof -
  have same: "map (\<lambda>r. (rk_skill r, rk_score r)) (eligible lx skills task memory) =
      map (\<lambda>r. (rk_skill r, rk_score r)) (eligible lx skills task memory2)"
    using eligible_scores by metis
  have skills: "map rk_skill (eligible lx skills task memory) = map rk_skill (eligible lx skills task memory2)"
    using arg_cong [OF same, of "map fst"] by (simp add: comp_def)
  have scores: "map rk_score (eligible lx skills task memory) = map rk_score (eligible lx skills task memory2)"
    using arg_cong [OF same, of "map snd"] by (simp add: comp_def)
  have "mset (map rk_score (js_sort (compare_ranked rt) (eligible lx skills task memory))) =
      mset (map rk_score (js_sort (compare_ranked rt) (eligible lx skills task memory2)))"
    by (metis mset_map_js_sort scores)
  with descending_unique scores_descend [OF cons]
  have "map rk_score (js_sort (compare_ranked rt) (eligible lx skills task memory)) =
      map rk_score (js_sort (compare_ranked rt) (eligible lx skills task memory2))" by blast
  then have "map rk_score (rankSkills rt lx skills task limit memory) =
      map rk_score (rankSkills rt lx skills task limit memory2)"
    unfolding rankSkills_def by (metis take_map)
  moreover have "length (eligible lx skills task memory2) = length (eligible lx skills task memory)"
    using skills by (metis length_map)
  ultimately show ?thesis
    using skills by (simp add: rankSkills_def) (metis mset_map)
qed

theorem memory_breaks_ties_only_witness:
  "map rk_score (rankSkills (constant_runtime\<lparr>localeCompare := byte_compare\<rparr>) example_lexicon
     [example_skill ''a'' Available, example_skill ''b'' Available] ''code review'' 1
       [\<lparr>up_skillId = ''b'', up_revision = ''r1'', up_outcome = Some Useful\<rparr>]) =
   map rk_score (rankSkills (constant_runtime\<lparr>localeCompare := byte_compare\<rparr>) example_lexicon
     [example_skill ''a'' Available, example_skill ''b'' Available] ''code review'' 1 [])"
  using memory_breaks_ties_only [of "constant_runtime\<lparr>localeCompare := byte_compare\<rparr>"]
  by (simp add: consistent_byte_compare)

end
