(* ===== verification/Use_Cases.thy ===== *)
theory Use_Cases
  imports Ranking
begin

text \<open>
  The six use cases of the service (\<open>src/application/use-cases\<close>), composed from the catalog provider
  port and the memory store port. The world is a pair: what the provider reads (and may change, a
  provider can be any code), and the memory database. A use case is a function on it that returns an
  error or a result. \<open>current\<close> is the request execution of the asynchronous context, if any.
\<close>

subsection \<open>Sequencing\<close>

type_synonym ('w, 'a) io = "'w \<Rightarrow> (service_error + 'a) \<times> 'w"

definition done_with :: "'a \<Rightarrow> ('w, 'a) io" where
  "done_with x w = (Inr x, w)"

definition throw :: "SkillWireErrorCode \<Rightarrow> ('w, 'a) io" where
  "throw c w = (Inl (SkillWireError c), w)"

definition from_sum :: "service_error + 'a \<Rightarrow> ('w, 'a) io" where
  "from_sum r w = (r, w)"

definition from_res :: "'a res \<Rightarrow> ('w, 'a) io" where
  "from_res r w = ((case r of Inl (Error m) \<Rightarrow> Inl (OtherError m) | Inr x \<Rightarrow> Inr x), w)"

definition and_do :: "('w, 'a) io \<Rightarrow> ('a \<Rightarrow> ('w, 'b) io) \<Rightarrow> ('w, 'b) io" where
  "and_do m f w = (case m w of (Inl e, w') \<Rightarrow> (Inl e, w') | (Inr x, w') \<Rightarrow> f x w')"

definition catch_as :: "SkillWireErrorCode \<Rightarrow> ('w, 'a) io \<Rightarrow> ('w, 'a) io" where
  "catch_as c m w = (case m w of (Inl e, w') \<Rightarrow> (Inl (SkillWireError c), w') | (Inr x, w') \<Rightarrow> (Inr x, w'))"

definition on_catalog :: "('c, 'a) io \<Rightarrow> ('c \<times> 'db, 'a) io" where
  "on_catalog m w = (case m (fst w) of (r, c) \<Rightarrow> (r, (c, snd w)))"

definition on_memory :: "('db, 'a) io \<Rightarrow> ('c \<times> 'db, 'a) io" where
  "on_memory m w = (case m (snd w) of (r, db) \<Rightarrow> (r, (fst w, db)))"

named_theorems io_run

lemma and_do_Inr [io_run]:
  "and_do m f w = (Inr y, w2) \<longleftrightarrow> (\<exists>x w1. m w = (Inr x, w1) \<and> f x w1 = (Inr y, w2))"
  by (auto simp: and_do_def split: prod.splits sum.splits)

lemma and_do_Inl [io_run]:
  "and_do m f w = (Inl e, w2) \<longleftrightarrow>
     m w = (Inl e, w2) \<or> (\<exists>x w1. m w = (Inr x, w1) \<and> f x w1 = (Inl e, w2))"
  by (auto simp: and_do_def split: prod.splits sum.splits)

lemma done_with_run [io_run]: "done_with x w = (r, w2) \<longleftrightarrow> r = Inr x \<and> w2 = w"
  by (auto simp: done_with_def)

lemma throw_run [io_run]: "throw c w = (r, w2) \<longleftrightarrow> r = Inl (SkillWireError c) \<and> w2 = w"
  by (auto simp: throw_def)

lemma from_sum_run [io_run]: "from_sum q w = (r, w2) \<longleftrightarrow> r = q \<and> w2 = w"
  by (auto simp: from_sum_def)

lemma from_res_Inr [io_run]: "from_res q w = (Inr x, w2) \<longleftrightarrow> q = Inr x \<and> w2 = w"
  by (auto simp: from_res_def split: sum.splits error.splits)

lemma from_res_state [io_run]: "from_res q w = (Inl e, w2) \<longleftrightarrow> (\<exists>m. q = Inl (Error m) \<and> e = OtherError m) \<and> w2 = w"
  by (auto simp: from_res_def split: sum.splits error.splits)

lemma catch_as_Inr [io_run]: "catch_as c m w = (Inr x, w2) \<longleftrightarrow> m w = (Inr x, w2)"
  by (auto simp: catch_as_def split: prod.splits sum.splits)

lemma catch_as_Inl [io_run]:
  "catch_as c m w = (Inl e, w2) \<longleftrightarrow> e = SkillWireError c \<and> (\<exists>e'. m w = (Inl e', w2))"
  by (auto simp: catch_as_def split: prod.splits sum.splits)

lemma on_catalog_run [io_run]: "on_catalog m w = (r, w2) \<longleftrightarrow> m (fst w) = (r, fst w2) \<and> snd w2 = snd w"
  by (cases w2) (auto simp: on_catalog_def split: prod.splits)

lemma on_memory_run [io_run]: "on_memory m w = (r, w2) \<longleftrightarrow> m (snd w) = (r, snd w2) \<and> fst w2 = fst w"
  by (cases w2) (auto simp: on_memory_def split: prod.splits)

subsection \<open>Ports and requests\<close>

record 'c catalog_provider =
  cp_listMetadata :: "RequestExecution \<Rightarrow> ('c, CatalogSkillMetadata list) io"
  cp_findRevision :: "RequestExecution \<Rightarrow> string \<Rightarrow> string \<Rightarrow> ('c, SkillRevision option) io"
  cp_advisoryStatus :: "RequestExecution \<Rightarrow> string \<Rightarrow> string \<Rightarrow> ('c, CurrentAdvisoryStatus option) io"

record RequestPrincipal =
  rp_accountId :: string
  rp_apiKeyId :: string
  rp_requestId :: string
  rp_execution :: RequestExecution

definition assertCurrentRequestActive :: "RequestExecution option \<Rightarrow> service_error + unit" where
  "assertCurrentRequestActive current = (case current of None \<Rightarrow> Inr () | Some ex \<Rightarrow> assertRequestActive ex 0)"

subsection \<open>Loading a skill\<close>

record LoadSkillInput =
  li_skillId :: string
  li_revision :: string
  li_repositoryHash :: "string option"

record LoadSkillResult =
  lr_skillId :: string
  lr_revision :: string
  lr_revisionSha256 :: string
  lr_publishedProvenance :: PublishedProvenance
  lr_currentAdvisoryStatus :: CurrentAdvisoryStatus
  lr_instructions :: string
  lr_resourceManifest :: "ResourceManifestEntry list"
  lr_memoryRecorded :: bool
  lr_catalogOrigin :: "GitHubCatalogOrigin option"
  lr_currentClassification :: "CurrentClassification option"
  lr_invocationMode :: "InvocationMode option"
  lr_dependencies :: "SkillDependencyReference list option"

definition manifest_entry_verified :: "runtime \<Rightarrow> SkillRevision \<Rightarrow> ResourceManifestEntry \<Rightarrow> bool" where
  "manifest_entry_verified rt r manifest \<longleftrightarrow>
     (case find (\<lambda>resource. rm_path resource = rm_path manifest) (resources r) of
        None \<Rightarrow> False
      | Some resource \<Rightarrow>
          rm_mediaType resource = rm_mediaType manifest \<and> rm_byteLength resource = rm_byteLength manifest \<and>
          rm_sha256 resource = rm_sha256 manifest \<and> length (vr_content resource) = rm_byteLength resource \<and>
          sha256 rt (vr_content resource) = rm_sha256 resource \<and> hex_string 64 (rm_sha256 resource))"

definition verified_exact_revision :: "runtime \<Rightarrow> SkillRevision \<Rightarrow> LoadSkillInput \<Rightarrow> unit res" where
  "verified_exact_revision rt r input =
     and_then (ensure (skillId r = li_skillId input \<and> revision r = li_revision input \<and>
         hex_string 64 (bundleSha256 r) \<and> hex_string 64 (instructionsSha256 r) \<and>
         sha256 rt (instructions r) = instructionsSha256 r) (Error ''Exact revision identity or hash is invalid'')) (\<lambda>_.
     let provenance = publishedProvenance r
     in and_then (ensure (js_length (sr_provider (pp_source provenance)) \<noteq> 0 \<and>
         js_length (sr_reference (pp_source provenance)) \<noteq> 0 \<and> js_length (pp_sourceRevision provenance) \<noteq> 0 \<and>
         js_length (pp_owner provenance) \<noteq> 0 \<and> js_length (pp_license provenance) \<noteq> 0)
         (Error ''Published provenance is invalid'')) (\<lambda>_.
     and_then (ensure (length (resourceManifest r) = length (resources r) \<and>
         length (uniq (map rm_path (resourceManifest r))) = length (resourceManifest r))
         (Error ''Resource manifest is invalid'')) (\<lambda>_.
     and_then (ensure (list_all (manifest_entry_verified rt r) (resourceManifest r))
         (Error ''Verified resource is invalid'')) (\<lambda>_.
     if pp_trustAtPublication provenance = Trusted
     then and_then (assertRevisionIntegrity rt r) (\<lambda>_.
          ensure (catalogOrigin r = None) (Error ''First-party revision has imported metadata''))
     else case catalogOrigin r of
         None \<Rightarrow> Inl (Error ''Imported revision origin is missing'')
       | Some origin \<Rightarrow>
           ensure (hex_string 40 (go_commitSha origin) \<and> currentClassification r \<noteq> None \<and>
               invocationMode r \<noteq> None \<and> dependencies r \<noteq> None)
             (Error ''Imported revision provenance is incomplete'')))))"

definition assertVerifiedExactRevision :: "runtime \<Rightarrow> SkillRevision \<Rightarrow> LoadSkillInput \<Rightarrow> service_error + unit" where
  "assertVerifiedExactRevision rt r input =
     (case verified_exact_revision rt r input of
        Inl e \<Rightarrow> Inl (SkillWireError REVISION_UNAVAILABLE) | Inr u \<Rightarrow> Inr u)"

definition first_defined :: "'a option \<Rightarrow> 'a option \<Rightarrow> 'a \<Rightarrow> 'a" where
  "first_defined a b c = (case a of Some x \<Rightarrow> x | None \<Rightarrow> (case b of Some x \<Rightarrow> x | None \<Rightarrow> c))"

definition load_result ::
  "LoadSkillInput \<Rightarrow> CurrentAdvisoryStatus option \<Rightarrow> CurrentAdvisoryStatus option \<Rightarrow> SkillRevision \<Rightarrow> LoadSkillResult" where
  "load_result input status finalStatus r =
     (let common = \<lparr>lr_skillId = skillId r, lr_revision = revision r, lr_revisionSha256 = bundleSha256 r,
            lr_publishedProvenance = publishedProvenance r,
            lr_currentAdvisoryStatus = first_defined finalStatus status Available,
            lr_instructions = instructions r, lr_resourceManifest = resourceManifest r,
            lr_memoryRecorded = (li_repositoryHash input \<noteq> None),
            lr_catalogOrigin = None, lr_currentClassification = None, lr_invocationMode = None,
            lr_dependencies = None\<rparr>
      in case catalogOrigin r of
           None \<Rightarrow> common
         | Some origin \<Rightarrow> common\<lparr>lr_catalogOrigin := Some origin,
             lr_currentClassification := currentClassification r, lr_invocationMode := invocationMode r,
             lr_dependencies := Some (case dependencies r of None \<Rightarrow> [] | Some ds \<Rightarrow> ds)\<rparr>)"

text \<open>The reading part, shared with resource reads: status, revision, status again.\<close>

definition find_served ::
  "'c catalog_provider \<Rightarrow> RequestExecution \<Rightarrow> string \<Rightarrow> string \<Rightarrow>
     ('c, CurrentAdvisoryStatus option \<times> SkillRevision \<times> CurrentAdvisoryStatus option) io" where
  "find_served provider ex skill rv =
     and_do (cp_advisoryStatus provider ex skill rv) (\<lambda>status.
     if status = Some Revoked then throw NOT_FOUND
     else and_do (catch_as REVISION_UNAVAILABLE (cp_findRevision provider ex skill rv)) (\<lambda>found.
       case found of
         None \<Rightarrow> and_do (cp_advisoryStatus provider ex skill rv) (\<lambda>latestStatus.
           throw (if latestStatus = Some Unavailable then REVISION_UNAVAILABLE else NOT_FOUND))
       | Some r \<Rightarrow> and_do (cp_advisoryStatus provider ex skill rv) (\<lambda>finalStatus.
           if finalStatus = Some Revoked then throw NOT_FOUND else done_with (status, r, finalStatus))))"

definition loadSkill ::
  "runtime \<Rightarrow> RequestExecution option \<Rightarrow> 'c catalog_provider \<Rightarrow> 'db memory_store \<Rightarrow>
     LoadSkillInput \<Rightarrow> RequestPrincipal \<Rightarrow> ('c \<times> 'db, LoadSkillResult) io" where
  "loadSkill rt current provider store input caller =
     and_do (on_catalog (find_served provider (rp_execution caller) (li_skillId input) (li_revision input)))
       (\<lambda>(status, r, finalStatus).
     and_do (from_sum (assertVerifiedExactRevision rt r input)) (\<lambda>_.
     let result = load_result input status finalStatus r
     in and_do (from_sum (assertCurrentRequestActive current)) (\<lambda>_.
        case li_repositoryHash input of
          None \<Rightarrow> done_with result
        | Some hash \<Rightarrow>
            and_do (from_res (repositoryMemoryScope (rp_accountId caller) hash)) (\<lambda>scope.
            and_do (on_memory (ms_recordUsage store (rp_execution caller) scope
                \<lparr>ru_skillId = lr_skillId result, ru_revision = lr_revision result,
                 ru_revisionSha256 = lr_revisionSha256 result\<rparr>)) (\<lambda>_.
            done_with result)))))"

subsection \<open>Reading a resource\<close>

record ReadSkillResourceInput =
  ri_skillId :: string
  ri_revision :: string
  ri_resource :: string

record ReadSkillResourceResult =
  rr_skillId :: string
  rr_revision :: string
  rr_revisionSha256 :: string
  rr_path :: string
  rr_mediaType :: MediaType
  rr_byteLength :: nat
  rr_sha256 :: string
  rr_content :: string

definition readSkillResource ::
  "runtime \<Rightarrow> 'c catalog_provider \<Rightarrow> ReadSkillResourceInput \<Rightarrow> RequestExecution \<Rightarrow> ('c, ReadSkillResourceResult) io" where
  "readSkillResource rt provider input ex =
     (if \<not> ok (assertSafeResourcePath (ri_resource input)) then throw RESOURCE_REJECTED
      else and_do (find_served provider ex (ri_skillId input) (ri_revision input)) (\<lambda>(status, r, finalStatus).
        case find (\<lambda>entry. rm_path entry = ri_resource input) (resources r) of
          None \<Rightarrow> throw NOT_FOUND
        | Some resource \<Rightarrow>
            if length (vr_content resource) \<noteq> rm_byteLength resource \<or>
               sha256 rt (vr_content resource) \<noteq> rm_sha256 resource
            then throw RESOURCE_REJECTED
            else done_with
              \<lparr>rr_skillId = skillId r, rr_revision = revision r, rr_revisionSha256 = bundleSha256 r,
               rr_path = rm_path resource, rr_mediaType = rm_mediaType resource,
               rr_byteLength = rm_byteLength resource, rr_sha256 = rm_sha256 resource,
               rr_content = vr_content resource\<rparr>))"

subsection \<open>Memory use cases\<close>

record RecordSkillOutcomeInput =
  ro_repositoryHash :: string
  ro_skillId :: string
  ro_revision :: string
  ro_outcome :: SkillOutcome

definition recordSkillOutcome ::
  "'db memory_store \<Rightarrow> RecordSkillOutcomeInput \<Rightarrow> RequestPrincipal \<Rightarrow>
     ('db, string \<times> string \<times> SkillOutcome) io" where
  "recordSkillOutcome store input caller =
     and_do (from_res (repositoryMemoryScope (rp_accountId caller) (ro_repositoryHash input))) (\<lambda>scope.
     and_do (ms_replaceOutcome store (rp_execution caller) scope (ro_skillId input) (ro_revision input) (ro_outcome input))
       (\<lambda>replaced. if \<not> replaced then throw MEMORY_CONFLICT
                  else done_with (ro_skillId input, ro_revision input, ro_outcome input)))"

definition forgetRepoMemory :: "'db memory_store \<Rightarrow> string \<Rightarrow> RequestPrincipal \<Rightarrow> ('db, unit) io" where
  "forgetRepoMemory store repositoryHash caller =
     catch_as ERASURE_INCOMPLETE
       (and_do (from_res (repositoryMemoryScope (rp_accountId caller) repositoryHash)) (\<lambda>scope.
        ms_forget store (rp_execution caller) scope (rp_requestId caller)))"

definition listRepoMemory :: "'db memory_store \<Rightarrow> string \<Rightarrow> RequestPrincipal \<Rightarrow> ('db, SkillUsageRecord list) io" where
  "listRepoMemory store repositoryHash caller =
     and_do (from_res (repositoryMemoryScope (rp_accountId caller) repositoryHash)) (\<lambda>scope.
       ms_list store (rp_execution caller) scope)"

subsection \<open>Searching\<close>

datatype InvocationContext = AutomaticContext | UserRequested

record SearchSkillsInput =
  si_task :: string
  si_repositoryHash :: "string option"
  si_limit :: "nat option"
  si_invocationContext :: "InvocationContext option"

record SearchPreview =
  sp_rank :: nat
  sp_skillId :: string
  sp_name :: string
  sp_summary :: string
  sp_matchingCapabilities :: "string list"
  sp_trustAtPublication :: TrustAtPublication
  sp_currentAdvisoryStatus :: CurrentAdvisoryStatus
  sp_revision :: string
  sp_catalogOrigin :: "GitHubCatalogOrigin option"
  sp_currentClassification :: "CurrentClassification option"
  sp_invocationMode :: "InvocationMode option"

datatype 'c catalog_source = FixedCatalog "CatalogSkillMetadata list" | ProvidedCatalog "'c catalog_provider"

fun current_catalog :: "'c catalog_source \<Rightarrow> RequestExecution \<Rightarrow> ('c, CatalogSkillMetadata list) io" where
  "current_catalog (FixedCatalog skills) ex = done_with skills"
| "current_catalog (ProvidedCatalog provider) ex = cp_listMetadata provider ex"

definition search_preview :: "nat \<times> RankedSkill \<Rightarrow> SearchPreview" where
  "search_preview ir =
     (let (index, result) = ir; skill = rk_skill result;
          common = \<lparr>sp_rank = index + 1, sp_skillId = cs_id skill, sp_name = cs_name skill,
            sp_summary = cs_description skill, sp_matchingCapabilities = rk_matchingCapabilities result,
            sp_trustAtPublication = cs_trustAtPublication skill,
            sp_currentAdvisoryStatus = cs_currentAdvisoryStatus skill, sp_revision = cs_revision skill,
            sp_catalogOrigin = None, sp_currentClassification = None, sp_invocationMode = None\<rparr>
      in case cs_catalogOrigin skill of
           None \<Rightarrow> common
         | Some origin \<Rightarrow> common\<lparr>sp_catalogOrigin := Some origin,
             sp_currentClassification := cs_currentClassification skill, sp_invocationMode := cs_invocationMode skill\<rparr>)"

definition shown_in :: "InvocationContext \<Rightarrow> CatalogSkillMetadata \<Rightarrow> bool" where
  "shown_in context skill \<longleftrightarrow> context = UserRequested \<or> cs_invocationMode skill \<noteq> Some UserOnly"

definition ranked_previews ::
  "runtime \<Rightarrow> lexicon \<Rightarrow> SearchSkillsInput \<Rightarrow> CatalogSkillMetadata list \<Rightarrow> RepositoryUsageProjection list \<Rightarrow>
     SearchPreview list" where
  "ranked_previews rt lx input catalog memory =
     (let context = (case si_invocationContext input of None \<Rightarrow> AutomaticContext | Some c \<Rightarrow> c);
          ranked = rankSkills rt lx (filter (shown_in context) catalog) (si_task input)
            (case si_limit input of None \<Rightarrow> 5 | Some n \<Rightarrow> n) memory
      in map search_preview (enumerate 0 ranked))"

definition searchSkills ::
  "runtime \<Rightarrow> lexicon \<Rightarrow> 'c catalog_source \<Rightarrow> 'db memory_store \<Rightarrow> SearchSkillsInput \<Rightarrow> RequestPrincipal \<Rightarrow>
     ('c \<times> 'db, SearchPreview list) io" where
  "searchSkills rt lx source store input caller =
     and_do (case si_repositoryHash input of
           None \<Rightarrow> done_with []
         | Some hash \<Rightarrow> and_do (from_res (repositoryMemoryScope (rp_accountId caller) hash)) (\<lambda>scope.
             on_memory (ms_rankingProjection store (rp_execution caller) scope))) (\<lambda>memory.
     and_do (on_catalog (current_catalog source (rp_execution caller))) (\<lambda>currentCatalog.
     done_with (ranked_previews rt lx input currentCatalog memory)))"

subsection \<open>What is served\<close>

lemma find_served_Inr:
  assumes "find_served provider ex skill rv c = (Inr (status, r, finalStatus), c')"
  obtains c1 c2 where "cp_findRevision provider ex skill rv c1 = (Inr (Some r), c2)"
    "cp_advisoryStatus provider ex skill rv c2 = (Inr finalStatus, c')"
    "status \<noteq> Some Revoked" "finalStatus \<noteq> Some Revoked"
  using assms unfolding find_served_def
  by (auto simp: io_run split: if_splits option.splits)

lemma find_served_errors:
  assumes "find_served provider ex skill rv c = (Inl e, c')"
  obtains "e = SkillWireError NOT_FOUND" | "e = SkillWireError REVISION_UNAVAILABLE"
    | c1 where "cp_advisoryStatus provider ex skill rv c1 = (Inl e, c')"
  using assms unfolding find_served_def
  by (auto simp: io_run split: if_splits option.splits)

lemma assertVerified_Inr:
  assumes "assertVerifiedExactRevision rt r input = Inr u"
  shows "skillId r = li_skillId input" "revision r = li_revision input"
    "sha256 rt (instructions r) = instructionsSha256 r"
    "list_all (manifest_entry_verified rt r) (resourceManifest r)"
    "pp_trustAtPublication (publishedProvenance r) = Trusted \<Longrightarrow> assertRevisionIntegrity rt r = Inr r \<and> catalogOrigin r = None"
    "pp_trustAtPublication (publishedProvenance r) = StructurallyVerified \<Longrightarrow> catalogOrigin r \<noteq> None"
proof -
  have v: "verified_exact_revision rt r input = Inr ()"
    using assms by (auto simp: assertVerifiedExactRevision_def split: sum.splits)
  then show "skillId r = li_skillId input" "revision r = li_revision input"
    "sha256 rt (instructions r) = instructionsSha256 r"
    "list_all (manifest_entry_verified rt r) (resourceManifest r)"
    by (simp_all add: verified_exact_revision_def Let_def)
  show "assertRevisionIntegrity rt r = Inr r \<and> catalogOrigin r = None"
    if "pp_trustAtPublication (publishedProvenance r) = Trusted"
    using v that by (auto simp: verified_exact_revision_def Let_def assertRevisionIntegrity_def split: if_splits)
  show "catalogOrigin r \<noteq> None" if "pp_trustAtPublication (publishedProvenance r) = StructurallyVerified"
    using v that by (auto simp: verified_exact_revision_def Let_def split: option.splits)
qed

lemma manifest_entry_content:
  assumes "manifest_entry_verified rt r m"
  obtains resource where "resource \<in> set (resources r)" "rm_path resource = rm_path m"
    "sha256 rt (vr_content resource) = rm_sha256 m" "length (vr_content resource) = rm_byteLength m"
proof -
  from assms obtain resource where found: "find (\<lambda>resource. rm_path resource = rm_path m) (resources r) = Some resource"
    and same: "sha256 rt (vr_content resource) = rm_sha256 m" "length (vr_content resource) = rm_byteLength m"
    unfolding manifest_entry_verified_def by (auto split: option.splits)
  from found have "resource \<in> set (resources r)" "rm_path resource = rm_path m"
    by (auto simp: find_Some_iff)
  with same show thesis by (intro that)
qed

lemma loadSkill_Inr:
  assumes "loadSkill rt current provider store input caller (c, db) = (Inr result, (c', db'))"
  obtains status r finalStatus where
    "find_served provider (rp_execution caller) (li_skillId input) (li_revision input) c = (Inr (status, r, finalStatus), c')"
    "assertVerifiedExactRevision rt r input = Inr ()" "result = load_result input status finalStatus r"
    "(case li_repositoryHash input of None \<Rightarrow> db' = db
      | Some hash \<Rightarrow> \<exists>scope. repositoryMemoryScope (rp_accountId caller) hash = Inr scope \<and>
          ms_recordUsage store (rp_execution caller) scope
            \<lparr>ru_skillId = skillId r, ru_revision = revision r, ru_revisionSha256 = bundleSha256 r\<rparr> db = (Inr (), db'))"
proof -
  have fields: "lr_skillId (load_result input status fin r) = skillId r"
    "lr_revision (load_result input status fin r) = revision r"
    "lr_revisionSha256 (load_result input status fin r) = bundleSha256 r" for status fin r
    by (simp_all add: load_result_def Let_def split: option.splits)
  show thesis
    using assms unfolding loadSkill_def
    by (auto simp: io_run Let_def fields split: option.splits intro!: that)
qed

lemma load_result_fields [simp]:
  "lr_skillId (load_result input status fin r) = skillId r"
  "lr_revision (load_result input status fin r) = revision r"
  "lr_revisionSha256 (load_result input status fin r) = bundleSha256 r"
  "lr_instructions (load_result input status fin r) = instructions r"
  "lr_resourceManifest (load_result input status fin r) = resourceManifest r"
  "lr_publishedProvenance (load_result input status fin r) = publishedProvenance r"
  "lr_currentAdvisoryStatus (load_result input status fin r) = first_defined fin status Available"
  "lr_memoryRecorded (load_result input status fin r) = (li_repositoryHash input \<noteq> None)"
  by (simp_all add: load_result_def Let_def split: option.splits)

subsection \<open>An instance\<close>

definition example_provider :: "SkillRevision \<Rightarrow> unit catalog_provider" where
  "example_provider r =
     \<lparr>cp_listMetadata = (\<lambda>ex. done_with [example_skill ''a'' Available, example_skill ''b'' Revoked]),
      cp_findRevision = (\<lambda>ex skill rv. done_with (if skill = skillId r \<and> rv = revision r then Some r else None)),
      cp_advisoryStatus = (\<lambda>ex skill rv. done_with (Some Available))\<rparr>"

definition example_caller :: RequestPrincipal where
  "example_caller = \<lparr>rp_accountId = ''a'', rp_apiKeyId = ''k'', rp_requestId = ''q'', rp_execution = live 1\<rparr>"

definition example_load :: LoadSkillInput where
  "example_load = \<lparr>li_skillId = ''a'', li_revision = ''1'', li_repositoryHash = Some zeros64\<rparr>"

abbreviation "loaded_example \<equiv> example_revision constant_runtime ''hi''"

lemma hex_zeros: "hex_string 64 zeros64"
  by code_simp

lemma loaded_example_fields:
  "skillId loaded_example = ''a''" "revision loaded_example = ''1''"
  "publishedProvenance loaded_example = example_provenance" "catalogOrigin loaded_example = None"
  "bundleSha256 loaded_example = zeros64"
proof -
  note created = example_created(1) [OF plain_runtimes(2), of "''hi''", simplified]
  show "skillId loaded_example = ''a''" "revision loaded_example = ''1''"
    "publishedProvenance loaded_example = example_provenance" "catalogOrigin loaded_example = None"
    by (rule createSkillRevision_cases [OF created]; simp add: example_input_def)+
  show "bundleSha256 loaded_example = zeros64"
    using createSkillRevision_parts(1) [OF created] by (auto simp: constant_sha)
qed

lemma loaded_example_well_formed: "well_formed_revision constant_runtime loaded_example"
proof -
  have "nfc_laws (nfc constant_runtime)" by (simp add: plain_nfc nfc_laws_id)
  from createSkillRevision_well_formed_aux [OF this example_created(1) [OF plain_runtimes(2), of "''hi''"]]
  show ?thesis by simp
qed

lemma find_distinct:
  "distinct (map f xs) \<Longrightarrow> x \<in> set xs \<Longrightarrow> find (\<lambda>y. f y = f x) xs = Some x"
  by (induction xs) auto

lemma well_formed_manifest:
  assumes wf: "well_formed_revision rt r" and hex: "\<And>s. hex_string 64 (sha256 rt s)"
  shows "list_all (manifest_entry_verified rt r) (resourceManifest r)"
proof -
  have "manifest_entry_verified rt r (ResourceManifestEntry.truncate resource)" if "resource \<in> set (resources r)" for resource
  proof -
    have "find (\<lambda>v. rm_path v = rm_path resource) (resources r) = Some resource"
      using wf that by (intro find_distinct) (auto simp: well_formed_revision_def)
    moreover have "well_formed_resource rt resource" using wf that by (auto simp: well_formed_revision_def list_all_iff)
    ultimately show ?thesis using hex
      by (simp add: manifest_entry_verified_def ResourceManifestEntry.truncate_def well_formed_resource_def)
  qed
  moreover have "resourceManifest r = map ResourceManifestEntry.truncate (resources r)"
    using wf by (simp add: well_formed_revision_def)
  ultimately show ?thesis by (simp add: list_all_iff)
qed

lemma loaded_example_verified: "assertVerifiedExactRevision constant_runtime loaded_example example_load = Inr ()"
proof -
  note wf = loaded_example_well_formed
  have manifest: "map rm_path (resourceManifest loaded_example) = map rm_path (resources loaded_example)"
    "length (resourceManifest loaded_example) = length (resources loaded_example)"
    "length (uniq (map rm_path (resources loaded_example))) = length (resources loaded_example)"
    using wf length_uniq_distinct [of "map rm_path (resources loaded_example)"]
    by (simp_all add: well_formed_revision_def ResourceManifestEntry.truncate_def comp_def)
  have sha: "instructionsSha256 loaded_example = zeros64"
    using wf by (simp add: well_formed_revision_def constant_sha)
  show ?thesis
    using well_formed_manifest [OF wf] example_verified [OF plain_runtimes(2), of "''hi''"]
    by (simp add: assertVerifiedExactRevision_def verified_exact_revision_def loaded_example_fields example_load_def
        hex_zeros constant_sha sha manifest example_provenance_def js_length_def code_of_def)
qed

lemma example_load_run:
  "\<exists>db'. loadSkill constant_runtime None (example_provider loaded_example) (postgres_store byte_compare)
     example_load example_caller ((), example_db) =
     (Inr (load_result example_load (Some Available) (Some Available) loaded_example), ((), db'))"
proof -
  have served: "find_served (example_provider loaded_example) (live 1) ''a'' ''1'' () =
      (Inr (Some Available, loaded_example, Some Available), ())"
    by (simp add: find_served_def example_provider_def and_do_def catch_as_def done_with_def loaded_example_fields)
  have row: "usage_row_ok \<lparr>us_account = ''a'', us_repository = zeros64, us_skill = ''a'', us_revision = ''1'',
      us_bundle = zeros64, us_first = 1, us_last = 1, us_count = 1, us_outcome = None\<rparr>"
    by code_simp
  have recorded: "\<exists>db'. recordUsage (live 1) \<lparr>sc_accountId = ''a'', sc_repositoryHash = zeros64\<rparr>
      \<lparr>ru_skillId = ''a'', ru_revision = ''1'', ru_revisionSha256 = zeros64\<rparr> example_db = (Inr (), db')"
    using row by (simp add: recordUsage_def upsert_usage_def example_db_def)
  have scope: "repositoryMemoryScope ''a'' zeros64 = Inr \<lparr>sc_accountId = ''a'', sc_repositoryHash = zeros64\<rparr>"
    by (simp add: repositoryMemoryScope_def assertRepositoryHash_def hex_zeros js_length_def code_of_def)
  show ?thesis
    using recorded loaded_example_verified served scope
    by (auto simp: loadSkill_def io_run example_load_def example_caller_def assertCurrentRequestActive_def
        loaded_example_fields postgres_store_def Let_def)
qed

subsection \<open>Properties\<close>

text \<open>C3. What loading serves. A result comes from a revision that the provider returned for exactly the
  asked skill and revision, after which its status was read once more and was not revoked; its
  instructions hash to the recorded hash; every entry of its manifest has a resource with that path,
  length and hash; and a first-party revision is well formed as a whole, so its bundle hash is that of
  its canonical form.\<close>

theorem load_serves_verified:
  assumes nfc: "nfc_laws (nfc rt)"
    and run: "loadSkill rt current provider store input caller (c, db) = (Inr result, (c', db'))"
  shows "\<exists>r c1 c2 status.
    cp_findRevision provider (rp_execution caller) (li_skillId input) (li_revision input) c1 = (Inr (Some r), c2) \<and>
    cp_advisoryStatus provider (rp_execution caller) (li_skillId input) (li_revision input) c2 = (Inr status, c') \<and>
    status \<noteq> Some Revoked \<and> lr_currentAdvisoryStatus result \<noteq> Revoked \<and>
    lr_skillId result = li_skillId input \<and> lr_revision result = li_revision input \<and>
    lr_instructions result = instructions r \<and> sha256 rt (lr_instructions result) = instructionsSha256 r \<and>
    (\<forall>m \<in> set (lr_resourceManifest result). \<exists>resource \<in> set (resources r). rm_path resource = rm_path m \<and>
       sha256 rt (vr_content resource) = rm_sha256 m \<and> length (vr_content resource) = rm_byteLength m) \<and>
    (pp_trustAtPublication (lr_publishedProvenance result) = Trusted \<longrightarrow> well_formed_revision rt r)"
proof (rule loadSkill_Inr [OF run])
  fix status r finalStatus
  assume found: "find_served provider (rp_execution caller) (li_skillId input) (li_revision input) c =
      (Inr (status, r, finalStatus), c')"
    and verified: "assertVerifiedExactRevision rt r input = Inr ()"
    and result: "result = load_result input status finalStatus r"
  note v = assertVerified_Inr [OF verified]
  have live: "first_defined finalStatus status Available \<noteq> Revoked"
    if "status \<noteq> Some Revoked" "finalStatus \<noteq> Some Revoked"
    using that by (auto simp: first_defined_def split: option.splits)
  have resources: "\<exists>resource \<in> set (resources r). rm_path resource = rm_path m \<and>
       sha256 rt (vr_content resource) = rm_sha256 m \<and> length (vr_content resource) = rm_byteLength m"
    if "m \<in> set (resourceManifest r)" for m
    using v(4) that manifest_entry_content [of rt r m] unfolding list_all_iff by metis
  have trusted: "well_formed_revision rt r" if "pp_trustAtPublication (publishedProvenance r) = Trusted"
    using v(5) [OF that] assertRevisionIntegrity_reconstructs createSkillRevision_well_formed_aux [OF nfc] by blast
  show ?thesis
  proof (rule find_served_Inr [OF found])
    fix c1 c2
    assume "cp_findRevision provider (rp_execution caller) (li_skillId input) (li_revision input) c1 = (Inr (Some r), c2)"
      "cp_advisoryStatus provider (rp_execution caller) (li_skillId input) (li_revision input) c2 = (Inr finalStatus, c')"
      "status \<noteq> Some Revoked" "finalStatus \<noteq> Some Revoked"
    then show ?thesis
      using v(1,2,3) live resources trusted
      by (intro exI [of _ r] exI [of _ c1] exI [of _ c2] exI [of _ finalStatus]) (auto simp: result)
  qed
qed

theorem load_serves_verified_witness:
  "\<exists>r. sha256 constant_runtime ''hi'' = instructionsSha256 (r :: SkillRevision) \<and> well_formed_revision constant_runtime r"
proof -
  obtain db' where run: "loadSkill constant_runtime None (example_provider loaded_example) (postgres_store byte_compare)
     example_load example_caller ((), example_db) =
     (Inr (load_result example_load (Some Available) (Some Available) loaded_example), ((), db'))"
    using example_load_run by blast
  have nfc: "nfc_laws (nfc constant_runtime)" by (simp add: plain_nfc nfc_laws_id)
  have hi: "instructions loaded_example = ''hi''" by (simp add: example_created(2))
  show ?thesis
    using load_serves_verified [OF nfc run]
    by (auto simp: loaded_example_fields example_provenance_def hi)
qed

text \<open>Loading and memory. With the PostgreSQL store, a load that fails for whatever reason, or that
  names no repository, leaves the memory database exactly as it was; a load that succeeds for a
  repository adds one use of exactly the served revision to exactly that repository's memory.\<close>

theorem load_records_one_use:
  assumes inv: "memory_inv db"
    and run: "loadSkill rt current provider (postgres_store collate) input caller (c, db) = (out, (c', db'))"
  shows "(\<exists>e. out = Inl e \<and> db' = db) \<or>
    (\<exists>result. out = Inr result \<and>
      (case li_repositoryHash input of
         None \<Rightarrow> db' = db
       | Some hash \<Rightarrow>
           let sc = \<lparr>sc_accountId = rp_accountId caller, sc_repositoryHash = hash\<rparr>
           in (\<forall>skill rv. uses_of (scope_rows db' sc) skill rv = uses_of (scope_rows db sc) skill rv +
                 (if skill = lr_skillId result \<and> rv = lr_revision result then 1 else 0)) \<and>
              (\<forall>sc'. sc' \<noteq> sc \<longrightarrow> scope_rows db' sc' = scope_rows db sc')))"
proof (cases out)
  case (Inl e)
  have failed: "d' = d" if "recordUsage ex sc i d = (Inl e', d')" for ex sc i e' d d'
    using that unfolding recordUsage_def by (rule requestTransaction_Inl)
  from run Inl have "db' = db"
    by (auto simp: loadSkill_def io_run Let_def postgres_store_def failed split: option.splits)
  with Inl show ?thesis by simp
next
  case (Inr result)
  show ?thesis
  proof (rule loadSkill_Inr [OF run [unfolded Inr]], cases "li_repositoryHash input")
    case None
    fix status r finalStatus
    assume "case li_repositoryHash input of None \<Rightarrow> db' = db
      | Some hash \<Rightarrow> \<exists>scope. repositoryMemoryScope (rp_accountId caller) hash = Inr scope \<and>
          ms_recordUsage (postgres_store collate) (rp_execution caller) scope
            \<lparr>ru_skillId = skillId r, ru_revision = revision r, ru_revisionSha256 = bundleSha256 r\<rparr> db = (Inr (), db')"
    with None Inr show ?thesis by simp
  next
    case (Some hash)
    fix status r finalStatus
    assume result: "result = load_result input status finalStatus r"
    assume "case li_repositoryHash input of None \<Rightarrow> db' = db
      | Some hash \<Rightarrow> \<exists>scope. repositoryMemoryScope (rp_accountId caller) hash = Inr scope \<and>
          ms_recordUsage (postgres_store collate) (rp_execution caller) scope
            \<lparr>ru_skillId = skillId r, ru_revision = revision r, ru_revisionSha256 = bundleSha256 r\<rparr> db = (Inr (), db')"
    with Some have step: "recordUsage (rp_execution caller) \<lparr>sc_accountId = rp_accountId caller, sc_repositoryHash = hash\<rparr>
        \<lparr>ru_skillId = skillId r, ru_revision = revision r, ru_revisionSha256 = bundleSha256 r\<rparr> db = (Inr (), db')"
      by (auto simp: postgres_store_def repositoryMemoryScope_def assertRepositoryHash_def split: if_splits)
    show ?thesis
      using recordUsage_uses [OF inv step] recordUsage_frame [OF step] Some Inr by (simp add: result Let_def)
  qed
qed

theorem load_records_one_use_witness:
  "\<exists>db'. uses_of (scope_rows db' (example_scope ''a'')) ''a'' ''1'' = 1"
proof -
  obtain db' where run: "loadSkill constant_runtime None (example_provider loaded_example) (postgres_store byte_compare)
     example_load example_caller ((), example_db) =
     (Inr (load_result example_load (Some Available) (Some Available) loaded_example), ((), db'))"
    using example_load_run by blast
  have "uses_of (scope_rows example_db sc) skill rv = 0" for sc skill rv
    by (simp add: scope_rows_def example_db_def uses_of_def)
  with load_records_one_use [OF memory_inv_example run] show ?thesis
    by (intro exI [of _ db'])
      (simp add: example_load_def example_caller_def loaded_example_fields example_scope_def Let_def)
qed

text \<open>C24. What searching shows. Ranks count from one, at most \<open>limit\<close> (five by default) skills are shown,
  every one is a skill of the current catalog that is not revoked, a skill reserved to explicit use is
  never shown in an automatic context, and a search changes no memory.\<close>

theorem search_shows_allowed:
  assumes cons: "consistent (localeCompare rt)"
    and run: "searchSkills rt lx source (postgres_store collate) input caller (c, db) = (Inr previews, (c', db'))"
  shows "db' = db \<and> map sp_rank previews = [1..<Suc (length previews)] \<and>
    length previews \<le> (case si_limit input of None \<Rightarrow> 5 | Some n \<Rightarrow> n) \<and>
    (\<exists>catalog. current_catalog source (rp_execution caller) c = (Inr catalog, c') \<and>
      (\<forall>p \<in> set previews. \<exists>skill \<in> set catalog.
         sp_skillId p = cs_id skill \<and> sp_revision p = cs_revision skill \<and>
         sp_currentAdvisoryStatus p = cs_currentAdvisoryStatus skill \<and> sp_currentAdvisoryStatus p \<noteq> Revoked \<and>
         (si_invocationContext input \<noteq> Some UserRequested \<longrightarrow> cs_invocationMode skill \<noteq> Some UserOnly)))"
proof -
  have read_only: "d' = d" if "rankingProjection collate ex sc d = (q, d')" for ex sc d q d'
    using requestTransaction_cases [OF that [unfolded rankingProjection_def]] by auto
  from run obtain catalog memory where db: "db' = db"
    and catalog: "current_catalog source (rp_execution caller) c = (Inr catalog, c')"
    and previews: "previews = ranked_previews rt lx input catalog memory"
    by (auto simp: searchSkills_def io_run postgres_store_def dest: read_only split: option.splits)
  define context' where "context' = (case si_invocationContext input of None \<Rightarrow> AutomaticContext | Some c \<Rightarrow> c)"
  define limit where "limit = (case si_limit input of None \<Rightarrow> 5 | Some n \<Rightarrow> n)"
  define ranked where "ranked = rankSkills rt lx (filter (shown_in context') catalog) (si_task input) limit memory"
  have shape: "previews = map search_preview (enumerate 0 ranked)"
    by (simp add: previews ranked_previews_def ranked_def context'_def limit_def Let_def)
  have preview: "sp_rank (search_preview ir) = Suc (fst ir)" "sp_skillId (search_preview ir) = cs_id (rk_skill (snd ir))"
    "sp_revision (search_preview ir) = cs_revision (rk_skill (snd ir))"
    "sp_currentAdvisoryStatus (search_preview ir) = cs_currentAdvisoryStatus (rk_skill (snd ir))" for ir
    by (cases ir; simp add: search_preview_def Let_def split: option.splits)+
  note top = rankSkills_sound [OF cons, of lx "filter (shown_in context') catalog" "si_task input" limit memory,
      folded ranked_def]
  have "map sp_rank previews = map Suc (map fst (enumerate 0 ranked))"
    unfolding shape by (simp add: preview comp_def del: map_fst_enumerate)
  also have "\<dots> = map Suc [0..<length ranked]" by (simp only: map_fst_enumerate) simp
  finally have ranks: "map sp_rank previews = [1..<Suc (length previews)]" by (simp add: shape map_Suc_upt)
  have "\<forall>p \<in> set previews. \<exists>skill \<in> set catalog.
         sp_skillId p = cs_id skill \<and> sp_revision p = cs_revision skill \<and>
         sp_currentAdvisoryStatus p = cs_currentAdvisoryStatus skill \<and> sp_currentAdvisoryStatus p \<noteq> Revoked \<and>
         (si_invocationContext input \<noteq> Some UserRequested \<longrightarrow> cs_invocationMode skill \<noteq> Some UserOnly)"
  proof
    fix p assume "p \<in> set previews"
    then obtain i r where p: "p = search_preview (i, r)" and "(i, r) \<in> set (enumerate 0 ranked)"
      unfolding shape by auto
    then have "r \<in> set ranked" by (auto simp: in_set_enumerate_eq)
    with top(2) have "rk_skill r \<in> set catalog" "shown_in context' (rk_skill r)"
      "cs_currentAdvisoryStatus (rk_skill r) \<noteq> Revoked" by auto
    then show "\<exists>skill \<in> set catalog.
         sp_skillId p = cs_id skill \<and> sp_revision p = cs_revision skill \<and>
         sp_currentAdvisoryStatus p = cs_currentAdvisoryStatus skill \<and> sp_currentAdvisoryStatus p \<noteq> Revoked \<and>
         (si_invocationContext input \<noteq> Some UserRequested \<longrightarrow> cs_invocationMode skill \<noteq> Some UserOnly)"
      by (intro bexI [of _ "rk_skill r"])
        (auto simp: p preview shown_in_def context'_def split: option.splits)
  qed
  moreover have "length previews \<le> limit" using top(1) by (simp add: shape)
  ultimately show ?thesis using db catalog ranks by (auto simp: limit_def)
qed

definition example_search :: SearchSkillsInput where
  "example_search = \<lparr>si_task = ''code review'', si_repositoryHash = None, si_limit = None, si_invocationContext = None\<rparr>"

theorem search_shows_allowed_witness:
  "length (ranked_previews (constant_runtime\<lparr>localeCompare := byte_compare\<rparr>) example_lexicon example_search
     [example_skill ''a'' Available, example_skill ''b'' Revoked] []) \<le> 5"
proof -
  let ?rt = "constant_runtime\<lparr>localeCompare := byte_compare\<rparr>"
  have run: "searchSkills ?rt example_lexicon (ProvidedCatalog (example_provider loaded_example))
      (postgres_store byte_compare) example_search example_caller ((), example_db) =
    (Inr (ranked_previews ?rt example_lexicon example_search
       [example_skill ''a'' Available, example_skill ''b'' Revoked] []), ((), example_db))"
    by (simp add: searchSkills_def and_do_def done_with_def on_catalog_def example_provider_def example_search_def)
  have "consistent (localeCompare ?rt)" by (simp add: consistent_byte_compare)
  from search_shows_allowed [OF this run] show ?thesis by (simp add: example_search_def)
qed

text \<open>Reading a resource. An unsafe path is refused before the provider is asked; a result holds a
  resource of the revision the provider returned, under exactly the asked and safe path, with content
  that has the recorded length and hash; the revision was not revoked when its status was read last.\<close>

theorem read_resource_verified:
  assumes run: "readSkillResource rt provider input ex c = (out, c')"
  shows "(\<not> ok (assertSafeResourcePath (ri_resource input)) \<longrightarrow> out = Inl (SkillWireError RESOURCE_REJECTED) \<and> c' = c) \<and>
    (\<forall>result. out = Inr result \<longrightarrow>
       ok (assertSafeResourcePath (ri_resource input)) \<and> rr_path result = ri_resource input \<and>
       rr_sha256 result = sha256 rt (rr_content result) \<and> rr_byteLength result = length (rr_content result) \<and>
       (\<exists>r c1 c2 status. cp_findRevision provider ex (ri_skillId input) (ri_revision input) c1 = (Inr (Some r), c2) \<and>
          rr_content result \<in> vr_content ` set (resources r) \<and>
          cp_advisoryStatus provider ex (ri_skillId input) (ri_revision input) c2 = (Inr status, c') \<and>
          status \<noteq> Some Revoked))"
proof (intro conjI impI allI)
  assume "\<not> ok (assertSafeResourcePath (ri_resource input))"
  with run show "out = Inl (SkillWireError RESOURCE_REJECTED)" "c' = c"
    by (simp_all add: readSkillResource_def throw_run)
next
  fix result assume out: "out = Inr result"
  from run out obtain status r finalStatus resource where safe: "ok (assertSafeResourcePath (ri_resource input))"
    and served: "find_served provider ex (ri_skillId input) (ri_revision input) c = (Inr (status, r, finalStatus), c')"
    and found: "find (\<lambda>entry. rm_path entry = ri_resource input) (resources r) = Some resource"
    and same: "length (vr_content resource) = rm_byteLength resource" "sha256 rt (vr_content resource) = rm_sha256 resource"
    and result: "rr_path result = rm_path resource" "rr_sha256 result = rm_sha256 resource"
      "rr_byteLength result = rm_byteLength resource" "rr_content result = vr_content resource"
    by (auto simp: readSkillResource_def io_run split: if_splits option.splits)
  from found have mem: "resource \<in> set (resources r)" "rm_path resource = ri_resource input"
    by (auto simp: find_Some_iff)
  with safe same result show "ok (assertSafeResourcePath (ri_resource input))" "rr_path result = ri_resource input"
    "rr_sha256 result = sha256 rt (rr_content result)" "rr_byteLength result = length (rr_content result)"
    by simp_all
  show "\<exists>r c1 c2 status. cp_findRevision provider ex (ri_skillId input) (ri_revision input) c1 = (Inr (Some r), c2) \<and>
          rr_content result \<in> vr_content ` set (resources r) \<and>
          cp_advisoryStatus provider ex (ri_skillId input) (ri_revision input) c2 = (Inr status, c') \<and>
          status \<noteq> Some Revoked"
    by (rule find_served_Inr [OF served]) (use mem result in blast)
qed

theorem read_resource_verified_witness:
  "fst (readSkillResource constant_runtime (example_provider loaded_example)
      \<lparr>ri_skillId = ''a'', ri_revision = ''1'', ri_resource = ''../x''\<rparr> (live 1) ()) =
    Inl (SkillWireError RESOURCE_REJECTED)"
proof -
  have "\<not> ok (assertSafeResourcePath ''../x'')" by code_simp
  then show ?thesis
    using read_resource_verified [where rt = constant_runtime and provider = "example_provider loaded_example"
      and input = "\<lparr>ri_skillId = ''a'', ri_revision = ''1'', ri_resource = ''../x''\<rparr>" and ex = "live 1" and c = "()",
      OF prod.collapse [symmetric]] by simp
qed

text \<open>Erasure from a caller's side. A successful call means the caller's repository has no row left;
  every failure, an invalid repository hash included, is reported as \<open>ERASURE_INCOMPLETE\<close> and has
  erased nothing.\<close>

theorem forget_use_case:
  assumes "forgetRepoMemory (postgres_store collate) hash caller db = (out, db')"
  shows "(out = Inr () \<and> scope_rows db' \<lparr>sc_accountId = rp_accountId caller, sc_repositoryHash = hash\<rparr> = [] \<and>
      length (db_audit db') = Suc (length (db_audit db))) \<or>
    (out = Inl (SkillWireError ERASURE_INCOMPLETE) \<and> db' = db)"
proof (cases out)
  case (Inl e)
  with assms show ?thesis
    by (auto simp: forgetRepoMemory_def io_run postgres_store_def forget_def dest: requestTransaction_Inl)
next
  case (Inr u)
  with assms have "forget (rp_execution caller) \<lparr>sc_accountId = rp_accountId caller, sc_repositoryHash = hash\<rparr>
      (rp_requestId caller) db = (Inr (), db')"
    by (auto simp: forgetRepoMemory_def io_run postgres_store_def repositoryMemoryScope_def assertRepositoryHash_def
        split: if_splits)
  from forget_effect [OF this] Inr show ?thesis by (auto simp: scope_rows_def)
qed

theorem forget_use_case_witness:
  "snd (forgetRepoMemory (postgres_store byte_compare) ''x'' example_caller example_db) = example_db"
proof -
  have "fst (forgetRepoMemory (postgres_store byte_compare) ''x'' example_caller example_db) \<noteq> Inr ()"
    by (simp add: forgetRepoMemory_def and_do_def catch_as_def from_res_def repositoryMemoryScope_def
        assertRepositoryHash_def hex_string_def example_caller_def js_length_def code_of_def)
  with forget_use_case [where collate = byte_compare and hash = "''x''" and caller = example_caller and db = example_db,
      OF prod.collapse [symmetric]]
  show ?thesis by auto
qed

end
