(* ===== verification/Catalog_Providers.thy ===== *)
theory Catalog_Providers
  imports Use_Cases
begin

text \<open>
  The catalog providers behind the use cases: the cache of verified revisions
  (\<open>src/catalog/verified-revision-cache.ts\<close>), the provider of one published release
  (\<open>version-controlled-provider.ts\<close>), its adapter (\<open>static-catalog-adapter.ts\<close>) and the union of
  providers (\<open>unified-catalog-provider.ts\<close>). Reading a release from disk (\<open>catalog-loader.ts\<close>) is a
  parameter \<open>load\<close>. What the use cases may expect of a provider is the locale \<open>exact_provider\<close>: it
  only returns acceptable revisions of the asked identity; the release provider and the union are
  interpreted in it. \<open>Object.freeze\<close> and the copies under it are the identity on values.
\<close>

subsection \<open>Maps built from arrays\<close>

definition map_last :: "('a \<Rightarrow> string) \<Rightarrow> 'a list \<Rightarrow> (string \<times> 'a) list" where
  "map_last key xs = foldl (\<lambda>m x. AList.update (key x) x m) [] xs"

lemma map_last_snoc: "map_last key (xs @ [x]) = AList.update (key x) x (map_last key xs)"
  by (simp add: map_last_def)

lemma map_last_Some: "map_of (map_last key xs) k = Some x \<Longrightarrow> x \<in> set xs \<and> key x = k"
proof (induction xs rule: rev_induct)
  case (snoc y ys)
  then show ?case by (cases "key y = k") (auto simp: map_last_snoc)
qed (simp add: map_last_def)

lemma map_last_defined: "x \<in> set xs \<Longrightarrow> map_of (map_last key xs) (key x) \<noteq> None"
proof (induction xs rule: rev_induct)
  case (snoc y ys)
  then show ?case by (cases "key y = key x") (auto simp: map_last_snoc)
qed simp

lemma map_last_distinct:
  assumes "inj_on key (set xs)" and "x \<in> set xs"
  shows "map_of (map_last key xs) (key x) = Some x"
proof -
  from map_last_defined [OF assms(2)] obtain y where y: "map_of (map_last key xs) (key x) = Some y" by blast
  from map_last_Some [OF this] assms have "y = x" by (auto dest: inj_onD)
  with y show ?thesis by simp
qed

subsection \<open>The cache of verified revisions\<close>

record revision_cache =
  rc_maximumEntries :: nat
  rc_entries :: "(string \<times> SkillRevision) list"

definition cacheKey :: "string \<Rightarrow> string \<Rightarrow> string \<Rightarrow> string \<Rightarrow> string" where
  "cacheKey releaseId skill rv bundle = releaseId @ [NUL] @ skill @ [NUL] @ rv @ [NUL] @ bundle"

definition new_cache :: "int \<Rightarrow> revision_cache res" where
  "new_cache maximumEntries =
     (if maximumEntries < 1 then Inl (Error ''Cache capacity must be a positive integer'')
      else Inr \<lparr>rc_maximumEntries = nat maximumEntries, rc_entries = []\<rparr>)"

definition revision_cache_key :: "string \<Rightarrow> SkillRevision \<Rightarrow> string" where
  "revision_cache_key releaseId r = cacheKey releaseId (skillId r) (revision r) (bundleSha256 r)"

definition admit :: "runtime \<Rightarrow> string \<Rightarrow> SkillRevision \<Rightarrow> revision_cache \<Rightarrow> revision_cache res" where
  "admit rt releaseId r cache =
     and_then (assertRevisionIntegrity rt r) (\<lambda>_.
       let key = revision_cache_key releaseId r;
           full = key \<notin> fst ` set (rc_entries cache) \<and> rc_maximumEntries cache \<le> length (rc_entries cache);
           entries = (if full then drop 1 (rc_entries cache) else rc_entries cache)
       in Inr (cache\<lparr>rc_entries := AList.update key r entries\<rparr>))"

definition get_cached ::
  "runtime \<Rightarrow> string \<Rightarrow> string \<Rightarrow> string \<Rightarrow> string \<Rightarrow> revision_cache \<Rightarrow> SkillRevision option res" where
  "get_cached rt releaseId skill rv bundle cache =
     (case map_of (rc_entries cache) (cacheKey releaseId skill rv bundle) of
        None \<Rightarrow> Inr None
      | Some entry \<Rightarrow> and_then (assertRevisionIntegrity rt entry) (\<lambda>_. Inr (Some entry)))"

fun admit_all :: "runtime \<Rightarrow> string \<Rightarrow> SkillRevision list \<Rightarrow> revision_cache \<Rightarrow> revision_cache res" where
  "admit_all rt releaseId [] cache = Inr cache"
| "admit_all rt releaseId (r # rs) cache = and_then (admit rt releaseId r cache) (admit_all rt releaseId rs)"

definition cache_inv :: "runtime \<Rightarrow> revision_cache \<Rightarrow> bool" where
  "cache_inv rt cache \<longleftrightarrow>
     0 < rc_maximumEntries cache \<and> length (rc_entries cache) \<le> rc_maximumEntries cache \<and>
     distinct (map fst (rc_entries cache)) \<and>
     (\<forall>(key, r) \<in> set (rc_entries cache). assertRevisionIntegrity rt r = Inr r \<and>
        (\<exists>releaseId. key = revision_cache_key releaseId r))"

lemma new_cache_inv: "new_cache n = Inr cache \<Longrightarrow> cache_inv rt cache"
  by (auto simp: new_cache_def cache_inv_def split: if_splits)

lemma length_update:
  "length (AList.update k v m) = (if k \<in> fst ` set m then length m else Suc (length m))"
  by (induction m) auto

lemma set_update: "set (AList.update k v m) \<subseteq> insert (k, v) (set m)"
  by (induction m) auto

lemma admit_inv:
  assumes inv: "cache_inv rt cache" and run: "admit rt releaseId r cache = Inr cache'"
  shows "cache_inv rt cache'"
proof -
  define key where "key = revision_cache_key releaseId r"
  define entries where "entries = (if key \<notin> fst ` set (rc_entries cache) \<and> rc_maximumEntries cache \<le> length (rc_entries cache)
    then drop 1 (rc_entries cache) else rc_entries cache)"
  from run have verified: "assertRevisionIntegrity rt r = Inr r"
    using assertRevisionIntegrity_reconstructs by (auto simp: admit_def)
  from run have cache': "cache' = cache\<lparr>rc_entries := AList.update key r entries\<rparr>"
    by (auto simp: admit_def Let_def key_def entries_def)
  have sub: "set entries \<subseteq> set (rc_entries cache)" "distinct (map fst entries)"
    using inv set_drop_subset [of 1 "rc_entries cache"]
    by (auto simp: entries_def cache_inv_def drop_map [symmetric])
  have room: "length (AList.update key r entries) \<le> rc_maximumEntries cache"
    using inv by (auto simp: entries_def length_update cache_inv_def)
  have "assertRevisionIntegrity rt r' = Inr r' \<and> (\<exists>releaseId. k = revision_cache_key releaseId r')"
    if "(k, r') \<in> set (AList.update key r entries)" for k r'
    using that set_update [of key r entries] sub(1) inv verified
    by (fastforce simp: cache_inv_def key_def)
  then show ?thesis
    using inv room distinct_update [OF sub(2), of key r] by (auto simp: cache_inv_def cache')
qed

lemma admit_all_inv: "cache_inv rt cache \<Longrightarrow> admit_all rt releaseId rs cache = Inr cache' \<Longrightarrow> cache_inv rt cache'"
  by (induction rs arbitrary: cache) (auto intro: admit_inv)

text \<open>What a cache hands out was verified, and its identity is that of the key.\<close>

lemma get_cached_verified:
  "get_cached rt releaseId skill rv bundle cache = Inr (Some r) \<Longrightarrow> assertRevisionIntegrity rt r = Inr r"
  using assertRevisionIntegrity_reconstructs by (auto simp: get_cached_def split: option.splits)

subsection \<open>One published release\<close>

record published_catalog =
  pc_metadata :: "CatalogSkillMetadata list"
  pc_revisions :: "SkillRevision list"

datatype cache_mode = Catalog_Cold | Catalog_Warm

definition at_key :: "string \<Rightarrow> string \<Rightarrow> string" where
  "at_key skill rv = skill @ [CHR ''@''] @ rv"

definition metadata_key :: "CatalogSkillMetadata \<Rightarrow> string" where
  "metadata_key m = at_key (cs_id m) (cs_revision m)"

definition revision_map_key :: "SkillRevision \<Rightarrow> string" where
  "revision_map_key r = at_key (skillId r) (revision r)"

definition published_status :: "published_catalog \<Rightarrow> string \<Rightarrow> string \<Rightarrow> CurrentAdvisoryStatus option" where
  "published_status loaded skill rv =
     map_option cs_currentAdvisoryStatus (map_of (map_last metadata_key (pc_metadata loaded)) (at_key skill rv))"

definition find_published ::
  "runtime \<Rightarrow> ('c, published_catalog) io \<Rightarrow> string \<Rightarrow> cache_mode \<Rightarrow> published_catalog \<Rightarrow> revision_cache \<Rightarrow>
     string \<Rightarrow> string \<Rightarrow> ('c, SkillRevision option) io" where
  "find_published rt load releaseId mode loaded cache skill rv =
     (let status = published_status loaded skill rv
      in if mode = Catalog_Cold then
           if status = Some Revoked \<or> status = Some Unavailable then done_with None
           else and_do load (\<lambda>reverified.
             done_with (find (\<lambda>entry. skillId entry = skill \<and> revision entry = rv) (pc_revisions reverified)))
         else case map_of (map_last revision_map_key (pc_revisions loaded)) (at_key skill rv) of
           None \<Rightarrow> done_with None
         | Some publishedRevision \<Rightarrow>
             if status = Some Revoked then done_with None
             else if status = Some Unavailable
               then from_res (get_cached rt releaseId skill rv (bundleSha256 publishedRevision) cache)
               else done_with (Some publishedRevision))"

definition published_provider ::
  "runtime \<Rightarrow> ('c, published_catalog) io \<Rightarrow> string \<Rightarrow> cache_mode \<Rightarrow> published_catalog \<Rightarrow> revision_cache \<Rightarrow>
     'c catalog_provider" where
  "published_provider rt load releaseId mode loaded cache =
     \<lparr>cp_listMetadata = (\<lambda>ex.
        if mode = Catalog_Cold then and_do load (\<lambda>again. done_with (pc_metadata again))
        else done_with (pc_metadata loaded)),
      cp_findRevision = (\<lambda>ex. find_published rt load releaseId mode loaded cache),
      cp_advisoryStatus = (\<lambda>ex skill rv. done_with (published_status loaded skill rv))\<rparr>"

definition loadVerifiedCatalogProvider ::
  "runtime \<Rightarrow> ('c, published_catalog) io \<Rightarrow> string \<Rightarrow> revision_cache \<Rightarrow> cache_mode \<Rightarrow>
     ('c, 'c catalog_provider \<times> revision_cache) io" where
  "loadVerifiedCatalogProvider rt load releaseId cache mode =
     and_do load (\<lambda>loaded.
     and_do (from_res (if mode = Catalog_Warm then admit_all rt releaseId (pc_revisions loaded) cache else Inr cache))
       (\<lambda>warm. done_with (published_provider rt load releaseId mode loaded warm, warm)))"

text \<open>The adapter checks that the request is still active before each call.\<close>

definition adaptStaticCatalogProvider :: "'c catalog_provider \<Rightarrow> 'c catalog_provider" where
  "adaptStaticCatalogProvider provider =
     \<lparr>cp_listMetadata = (\<lambda>ex. and_do (from_sum (assertRequestActive ex 0)) (\<lambda>_. cp_listMetadata provider ex)),
      cp_findRevision = (\<lambda>ex skill rv.
        and_do (from_sum (assertRequestActive ex 0)) (\<lambda>_. cp_findRevision provider ex skill rv)),
      cp_advisoryStatus = (\<lambda>ex skill rv.
        and_do (from_sum (assertRequestActive ex 0)) (\<lambda>_. cp_advisoryStatus provider ex skill rv))\<rparr>"

subsection \<open>The union of providers\<close>

definition originPriority :: "CatalogSkillMetadata \<Rightarrow> int" where
  "originPriority skill = (if cs_catalogOrigin skill = None then 0 else 1)"

definition nul_key :: "CatalogSkillMetadata \<Rightarrow> string" where
  "nul_key skill = memory_key (cs_id skill) (cs_revision skill)"

definition compare_union :: "runtime \<Rightarrow> CatalogSkillMetadata \<Rightarrow> CatalogSkillMetadata \<Rightarrow> int" where
  "compare_union rt left right =
     (let key = localeCompare rt (nul_key left) (nul_key right)
      in if key = 0 then originPriority left - originPriority right else key)"

fun first_by_key :: "CatalogSkillMetadata list \<Rightarrow> (string \<times> CatalogSkillMetadata) list \<Rightarrow> (string \<times> CatalogSkillMetadata) list" where
  "first_by_key [] selected = selected"
| "first_by_key (skill # skills) selected =
     first_by_key skills
       (if nul_key skill \<in> fst ` set selected then selected else selected @ [(nul_key skill, skill)])"

definition union_metadata :: "runtime \<Rightarrow> CatalogSkillMetadata list \<Rightarrow> CatalogSkillMetadata list" where
  "union_metadata rt values =
     js_sort (\<lambda>left right. localeCompare rt (nul_key left) (nul_key right))
       (map snd (first_by_key (js_sort (compare_union rt) values) []))"

fun list_all_metadata :: "'c catalog_provider list \<Rightarrow> RequestExecution \<Rightarrow> ('c, CatalogSkillMetadata list) io" where
  "list_all_metadata [] ex = done_with []"
| "list_all_metadata (provider # providers) ex =
     and_do (cp_listMetadata provider ex) (\<lambda>skills.
     and_do (list_all_metadata providers ex) (\<lambda>others. done_with (skills @ others)))"

fun first_found :: "(('c, 'a option) io) list \<Rightarrow> ('c, 'a option) io" where
  "first_found [] = done_with None"
| "first_found (ask # asks) =
     and_do ask (\<lambda>found. case found of Some x \<Rightarrow> done_with (Some x) | None \<Rightarrow> first_found asks)"

definition unifiedCatalogProvider :: "runtime \<Rightarrow> 'c catalog_provider list \<Rightarrow> 'c catalog_provider" where
  "unifiedCatalogProvider rt providers =
     \<lparr>cp_listMetadata = (\<lambda>ex. and_do (list_all_metadata providers ex) (\<lambda>values. done_with (union_metadata rt values))),
      cp_findRevision = (\<lambda>ex skill rv. first_found (map (\<lambda>provider. cp_findRevision provider ex skill rv) providers)),
      cp_advisoryStatus = (\<lambda>ex skill rv. first_found (map (\<lambda>provider. cp_advisoryStatus provider ex skill rv) providers))\<rparr>"

subsection \<open>The contract of a provider\<close>

text \<open>Every call keeps \<open>inv\<close>; a revision that is returned is acceptable and has the asked identity.\<close>

locale exact_provider =
  fixes provider :: "'c catalog_provider" and inv :: "'c \<Rightarrow> bool" and good :: "SkillRevision \<Rightarrow> bool"
  assumes find_inv: "inv c \<Longrightarrow> cp_findRevision provider ex skill rv c = (out, c') \<Longrightarrow> inv c'"
    and status_inv: "inv c \<Longrightarrow> cp_advisoryStatus provider ex skill rv c = (st, c') \<Longrightarrow> inv c'"
    and find_exact: "inv c \<Longrightarrow> cp_findRevision provider ex skill rv c = (Inr (Some r), c') \<Longrightarrow>
      good r \<and> skillId r = skill \<and> revision r = rv"
begin

lemma served_exact:
  assumes "inv c" and "find_served provider ex skill rv c = (Inr (status, r, finalStatus), c')"
  shows "inv c' \<and> good r \<and> skillId r = skill \<and> revision r = rv \<and> finalStatus \<noteq> Some Revoked"
proof -
  from assms(2) obtain c1 c2 where first: "cp_advisoryStatus provider ex skill rv c = (Inr status, c1)"
    and found: "cp_findRevision provider ex skill rv c1 = (Inr (Some r), c2)"
    and last: "cp_advisoryStatus provider ex skill rv c2 = (Inr finalStatus, c')" "finalStatus \<noteq> Some Revoked"
    unfolding find_served_def by (auto simp: io_run split: if_splits option.splits)
  have c1: "inv c1" by (rule status_inv [OF assms(1) first])
  then have "inv c2" by (rule find_inv [OF _ found])
  with status_inv [OF this last(1)] find_exact [OF c1 found] last(2) show ?thesis by simp
qed

end

text \<open>Asking a list in turn keeps what each answer keeps.\<close>

lemma first_found_keeps:
  "healthy c \<Longrightarrow> (\<And>ask d out d'. ask \<in> set asks \<Longrightarrow> healthy d \<Longrightarrow> ask d = (out, d') \<Longrightarrow>
     healthy d' \<and> (\<forall>x. out = Inr (Some x) \<longrightarrow> P x)) \<Longrightarrow>
   first_found asks c = (out, c') \<Longrightarrow> healthy c' \<and> (\<forall>x. out = Inr (Some x) \<longrightarrow> P x)"
proof (induction asks arbitrary: c)
  case (Cons ask asks)
  obtain q d where q: "ask c = (q, d)" by (cases "ask c")
  have d: "healthy d" "\<forall>x. q = Inr (Some x) \<longrightarrow> P x" using Cons.prems(2) [of ask c q d] Cons.prems(1) q by auto
  have rest: "healthy c' \<and> (\<forall>x. out = Inr (Some x) \<longrightarrow> P x)" if "first_found asks d = (out, c')"
  proof (rule Cons.IH [OF d(1) _ that])
    fix a e z e' assume "a \<in> set asks" "healthy e" "a e = (z, e')"
    then show "healthy e' \<and> (\<forall>x. z = Inr (Some x) \<longrightarrow> P x)" using Cons.prems(2) [of a e z e'] by simp
  qed
  show ?case
  proof (cases q)
    case (Inl e)
    with q Cons.prems(3) d show ?thesis by (simp add: and_do_def)
  next
    case (Inr found)
    with q Cons.prems(3) d rest show ?thesis by (cases found) (auto simp: and_do_def done_with_def)
  qed
qed (auto simp: done_with_def)

lemma union_find:
  assumes each: "\<forall>p \<in> set providers. exact_provider p healthy good" and healthy: "healthy c"
    and run: "cp_findRevision (unifiedCatalogProvider rt providers) ex skill rv c = (out, c')"
  shows "healthy c' \<and> (\<forall>r. out = Inr (Some r) \<longrightarrow> good r \<and> skillId r = skill \<and> revision r = rv)"
proof (rule first_found_keeps [of healthy, OF healthy])
  show "first_found (map (\<lambda>p. cp_findRevision p ex skill rv) providers) c = (out, c')"
    using run by (simp add: unifiedCatalogProvider_def)
  fix ask d q d' assume "ask \<in> set (map (\<lambda>p. cp_findRevision p ex skill rv) providers)" "healthy d" "ask d = (q, d')"
  then obtain p where p: "exact_provider p healthy good" and ask: "cp_findRevision p ex skill rv d = (q, d')"
    using each by auto
  show "healthy d' \<and> (\<forall>r. q = Inr (Some r) \<longrightarrow> good r \<and> skillId r = skill \<and> revision r = rv)"
  proof (rule conjI [OF exact_provider.find_inv [OF p \<open>healthy d\<close> ask]], intro allI impI)
    fix r assume "q = Inr (Some r)"
    with ask have "cp_findRevision p ex skill rv d = (Inr (Some r), d')" by simp
    then show "good r \<and> skillId r = skill \<and> revision r = rv"
      by (rule exact_provider.find_exact [OF p \<open>healthy d\<close>])
  qed
qed

lemma union_status:
  assumes each: "\<forall>p \<in> set providers. exact_provider p healthy good" and healthy: "healthy c"
    and run: "cp_advisoryStatus (unifiedCatalogProvider rt providers) ex skill rv c = (st, c')"
  shows "healthy c' \<and> (\<forall>x. st = Inr (Some x) \<longrightarrow> True)"
proof (rule first_found_keeps [of healthy, OF healthy])
  show "first_found (map (\<lambda>p. cp_advisoryStatus p ex skill rv) providers) c = (st, c')"
    using run by (simp add: unifiedCatalogProvider_def)
  fix ask d q d' assume "ask \<in> set (map (\<lambda>p. cp_advisoryStatus p ex skill rv) providers)" "healthy d" "ask d = (q, d')"
  then obtain p where p: "exact_provider p healthy good" and ask: "cp_advisoryStatus p ex skill rv d = (q, d')"
    using each by auto
  show "healthy d' \<and> (\<forall>x. q = Inr (Some x) \<longrightarrow> True)"
    using exact_provider.status_inv [OF p \<open>healthy d\<close> ask] by simp
qed

definition union_healthy ::
  "'c catalog_provider list \<Rightarrow> ('c \<Rightarrow> bool) \<Rightarrow> (SkillRevision \<Rightarrow> bool) \<Rightarrow> 'c \<Rightarrow> bool" where
  "union_healthy providers healthy good c \<longleftrightarrow> (\<forall>p \<in> set providers. exact_provider p healthy good) \<and> healthy c"

interpretation union: exact_provider "unifiedCatalogProvider rt providers" "union_healthy providers healthy good" good
  for rt :: runtime and providers :: "'c catalog_provider list" and healthy good
proof unfold_locales
  fix c ex skill rv out c'
  assume c: "union_healthy providers healthy good c"
    and run: "cp_findRevision (unifiedCatalogProvider rt providers) ex skill rv c = (out, c')"
  from c have all: "\<forall>p \<in> set providers. exact_provider p healthy good" and "healthy c"
    by (simp_all add: union_healthy_def)
  from union_find [OF this run] all show "union_healthy providers healthy good c'"
    by (simp add: union_healthy_def)
next
  fix c ex skill rv st c'
  assume c: "union_healthy providers healthy good c"
    and run: "cp_advisoryStatus (unifiedCatalogProvider rt providers) ex skill rv c = (st, c')"
  from c have all: "\<forall>p \<in> set providers. exact_provider p healthy good" and "healthy c"
    by (simp_all add: union_healthy_def)
  from union_status [OF this run] all show "union_healthy providers healthy good c'"
    by (simp add: union_healthy_def)
next
  fix c ex skill rv r c'
  assume c: "union_healthy providers healthy good c"
    and run: "cp_findRevision (unifiedCatalogProvider rt providers) ex skill rv c = (Inr (Some r), c')"
  from c have "\<forall>p \<in> set providers. exact_provider p healthy good" and "healthy c"
    by (simp_all add: union_healthy_def)
  from union_find [OF this run] show "good r \<and> skillId r = skill \<and> revision r = rv" by (elim conjE allE) (erule mp, rule refl)
qed

interpretation adapted: exact_provider "adaptStaticCatalogProvider provider" "union_healthy [provider] healthy good" good
  for provider :: "'c catalog_provider" and healthy good
proof unfold_locales
  fix c ex skill rv out c'
  assume c: "union_healthy [provider] healthy good c"
    and run: "cp_findRevision (adaptStaticCatalogProvider provider) ex skill rv c = (out, c')"
  have "(\<exists>e. out = Inl e \<and> c' = c) \<or> cp_findRevision provider ex skill rv c = (out, c')"
    using run by (auto simp: adaptStaticCatalogProvider_def and_do_def from_sum_def split: sum.splits)
  then show "union_healthy [provider] healthy good c'"
    using c unfolding union_healthy_def by (auto dest: exact_provider.find_inv)
next
  fix c ex skill rv st c'
  assume c: "union_healthy [provider] healthy good c"
    and run: "cp_advisoryStatus (adaptStaticCatalogProvider provider) ex skill rv c = (st, c')"
  have "(\<exists>e. st = Inl e \<and> c' = c) \<or> cp_advisoryStatus provider ex skill rv c = (st, c')"
    using run by (auto simp: adaptStaticCatalogProvider_def and_do_def from_sum_def split: sum.splits)
  then show "union_healthy [provider] healthy good c'"
    using c unfolding union_healthy_def by (auto dest: exact_provider.status_inv)
next
  fix c ex skill rv r c'
  assume c: "union_healthy [provider] healthy good c"
    and run: "cp_findRevision (adaptStaticCatalogProvider provider) ex skill rv c = (Inr (Some r), c')"
  have "cp_findRevision provider ex skill rv c = (Inr (Some r), c')"
    using run by (auto simp: adaptStaticCatalogProvider_def and_do_def from_sum_def split: sum.splits)
  then show "good r \<and> skillId r = skill \<and> revision r = rv"
    using c exact_provider.find_exact [of provider healthy good c] unfolding union_healthy_def by auto
qed

text \<open>The provider of a release whose revisions are verified and whose identifiers hold neither
  \<open>@\<close> nor NUL, with a cache that was filled from such releases.\<close>

definition sound_release :: "runtime \<Rightarrow> published_catalog \<Rightarrow> bool" where
  "sound_release rt loaded \<longleftrightarrow>
     (\<forall>r \<in> set (pc_revisions loaded). assertRevisionIntegrity rt r = Inr r \<and>
        CHR ''@'' \<notin> set (skillId r) \<and> CHR ''@'' \<notin> set (revision r) \<and>
        NUL \<notin> set (skillId r) \<and> NUL \<notin> set (revision r))"

definition cache_of_release :: "string \<Rightarrow> revision_cache \<Rightarrow> bool" where
  "cache_of_release releaseId cache \<longleftrightarrow>
     (\<forall>(key, r) \<in> set (rc_entries cache). key = revision_cache_key releaseId r \<and>
        NUL \<notin> set (skillId r) \<and> NUL \<notin> set (revision r))"

lemma sep_inj: "d \<notin> set a \<Longrightarrow> d \<notin> set b \<Longrightarrow> a @ d # x = b @ d # y \<longleftrightarrow> a = b \<and> x = y"
proof (induction a arbitrary: b)
  case Nil
  then show ?case by (cases b) auto
next
  case (Cons c a)
  then show ?case by (cases b) auto
qed

lemma admit_all_of_release:
  assumes "\<forall>r \<in> set rs. NUL \<notin> set (skillId r) \<and> NUL \<notin> set (revision r)"
    and "cache_of_release releaseId cache" and "admit_all rt releaseId rs cache = Inr cache'"
  shows "cache_of_release releaseId cache'"
  using assms
proof (induction rs arbitrary: cache)
  case (Cons r rs)
  then obtain cache1 where one: "admit rt releaseId r cache = Inr cache1"
    and rest: "admit_all rt releaseId rs cache1 = Inr cache'" by auto
  have sub: "set (rc_entries cache1) \<subseteq> insert (revision_cache_key releaseId r, r) (set (rc_entries cache))"
  proof -
    obtain m where "rc_entries cache1 = AList.update (revision_cache_key releaseId r) r m" "set m \<subseteq> set (rc_entries cache)"
      using one set_drop_subset [of 1 "rc_entries cache"] by (fastforce simp: admit_def Let_def)
    with set_update show ?thesis by fastforce
  qed
  have "cache_of_release releaseId cache1"
    using Cons.prems(1,2) sub unfolding cache_of_release_def by fastforce
  with Cons.IH rest Cons.prems(1) show ?case by auto
qed simp

lemma get_cached_identity:
  assumes "cache_of_release releaseId cache" and "NUL \<notin> set skill" "NUL \<notin> set rv"
    and "get_cached rt releaseId skill rv bundle cache = Inr (Some r)"
  shows "skillId r = skill \<and> revision r = rv"
proof -
  from assms(4) have "(cacheKey releaseId skill rv bundle, r) \<in> set (rc_entries cache)"
    by (auto simp: get_cached_def dest: map_of_SomeD split: option.splits)
  with assms(1) have "cacheKey releaseId skill rv bundle = revision_cache_key releaseId r"
    and "NUL \<notin> set (skillId r)" "NUL \<notin> set (revision r)" by (auto simp: cache_of_release_def)
  with assms(2,3) show ?thesis by (simp add: cacheKey_def revision_cache_key_def sep_inj)
qed

lemma at_key_inj:
  assumes "at_key a b = at_key s r" and "CHR ''@'' \<notin> set a" "CHR ''@'' \<notin> set b"
  shows "a = s \<and> b = r"
proof -
  have eq: "a @ CHR ''@'' # b = s @ CHR ''@'' # r" using assms(1) by (simp add: at_key_def)
  have "CHR ''@'' \<notin> set s"
  proof
    assume "CHR ''@'' \<in> set s"
    then obtain p q where s: "s = p @ CHR ''@'' # q" "CHR ''@'' \<notin> set p" using split_list_first by meson
    with eq assms(2) have "b = q @ CHR ''@'' # r" using sep_inj [of "CHR ''@''" a p b] by simp
    with assms(3) show False by simp
  qed
  with eq assms(2) show ?thesis by (simp add: sep_inj)
qed

definition release_reads_well :: "runtime \<Rightarrow> ('c, published_catalog) io \<Rightarrow> ('c \<Rightarrow> bool) \<Rightarrow> bool" where
  "release_reads_well rt load healthy \<longleftrightarrow>
     (\<forall>c out c'. healthy c \<longrightarrow> load c = (out, c') \<longrightarrow> healthy c' \<and> (\<forall>loaded. out = Inr loaded \<longrightarrow> sound_release rt loaded))"

lemma find_published_exact:
  assumes reads: "release_reads_well rt load healthy" and sound: "sound_release rt loaded"
    and cache: "cache_of_release releaseId cache"
    and inv: "healthy c" and run: "find_published rt load releaseId mode loaded cache skill rv c = (out, c')"
  shows "healthy c' \<and> (\<forall>r. out = Inr (Some r) \<longrightarrow> assertRevisionIntegrity rt r = Inr r \<and> skillId r = skill \<and> revision r = rv)"
proof (cases "mode = Catalog_Cold")
  case True
  have found: "assertRevisionIntegrity rt r = Inr r \<and> skillId r = skill \<and> revision r = rv"
    if "sound_release rt l" "find (\<lambda>entry. skillId entry = skill \<and> revision entry = rv) (pc_revisions l) = Some r" for l r
  proof -
    from that(2) have "r \<in> set (pc_revisions l)" "skillId r = skill" "revision r = rv"
      unfolding find_Some_iff by auto
    with that(1) show ?thesis unfolding sound_release_def by blast
  qed
  obtain q d where q: "load c = (q, d)" by (cases "load c")
  have d: "healthy d" "\<And>l. q = Inr l \<Longrightarrow> sound_release rt l"
    using reads inv q unfolding release_reads_well_def by blast+
  have "(out = Inr None \<and> c' = c) \<or> (\<exists>e. q = Inl e \<and> out = Inl e \<and> c' = d) \<or> (\<exists>l. q = Inr l \<and> c' = d \<and>
      out = Inr (find (\<lambda>entry. skillId entry = skill \<and> revision entry = rv) (pc_revisions l)))"
    using run True q
    by (cases q) (auto simp: find_published_def Let_def and_do_def done_with_def split: if_splits)
  then consider "out = Inr None" "c' = c" | e where "q = Inl e" "out = Inl e" "c' = d"
    | l where "q = Inr l" "c' = d" "out = Inr (find (\<lambda>entry. skillId entry = skill \<and> revision entry = rv) (pc_revisions l))"
    by blast
  then show ?thesis
  proof cases
    case (3 l)
    show ?thesis
    proof (rule conjI)
      show "healthy c'" using 3(2) d(1) by simp
      show "\<forall>r. out = Inr (Some r) \<longrightarrow> assertRevisionIntegrity rt r = Inr r \<and> skillId r = skill \<and> revision r = rv"
      proof (intro allI impI)
      fix r assume "out = Inr (Some r)"
      with 3(3) have "find (\<lambda>entry. skillId entry = skill \<and> revision entry = rv) (pc_revisions l) = Some r"
        by (metis Inr_inject)
      then show "assertRevisionIntegrity rt r = Inr r \<and> skillId r = skill \<and> revision r = rv"
        by (rule found [OF d(2) [OF 3(1)]])
      qed
    qed
  qed (use inv d(1) in simp_all)
next
  case False
  show ?thesis
  proof (cases "map_of (map_last revision_map_key (pc_revisions loaded)) (at_key skill rv)")
    case None
    with run False inv show ?thesis by (auto simp: find_published_def Let_def done_with_def)
  next
    case (Some r)
    from map_last_Some [OF this] have r: "r \<in> set (pc_revisions loaded)" "at_key (skillId r) (revision r) = at_key skill rv"
      by (auto simp: revision_map_key_def)
    then have here: "assertRevisionIntegrity rt r = Inr r" "skillId r = skill \<and> revision r = rv"
      "NUL \<notin> set skill" "NUL \<notin> set rv"
      using sound at_key_inj unfolding sound_release_def by metis+
    have cached: "assertRevisionIntegrity rt v = Inr v \<and> skillId v = skill \<and> revision v = rv"
      if "get_cached rt releaseId skill rv (bundleSha256 r) cache = Inr (Some v)" for v
      using get_cached_verified [OF that] get_cached_identity [OF cache here(3,4) that] by blast
    show ?thesis
      using run False Some inv here cached
      by (auto simp: find_published_def Let_def done_with_def from_res_def split: if_splits sum.splits error.splits)
  qed
qed

definition release_healthy ::
  "runtime \<Rightarrow> ('c, published_catalog) io \<Rightarrow> string \<Rightarrow> published_catalog \<Rightarrow> revision_cache \<Rightarrow> ('c \<Rightarrow> bool) \<Rightarrow> 'c \<Rightarrow> bool" where
  "release_healthy rt load releaseId loaded cache healthy c \<longleftrightarrow>
     release_reads_well rt load healthy \<and> sound_release rt loaded \<and> cache_of_release releaseId cache \<and> healthy c"

interpretation release: exact_provider "published_provider rt load releaseId mode loaded cache"
  "release_healthy rt load releaseId loaded cache healthy" "\<lambda>r. assertRevisionIntegrity rt r = Inr r"
  for rt and load :: "('c, published_catalog) io" and releaseId mode loaded cache healthy
proof unfold_locales
  fix c ex skill rv out c'
  assume c: "release_healthy rt load releaseId loaded cache healthy c"
    and run: "cp_findRevision (published_provider rt load releaseId mode loaded cache) ex skill rv c = (out, c')"
  then show "release_healthy rt load releaseId loaded cache healthy c'"
    using find_published_exact [of rt load healthy loaded releaseId cache c mode skill rv out c']
    by (auto simp: release_healthy_def published_provider_def)
next
  fix c ex skill rv r c'
  assume c: "release_healthy rt load releaseId loaded cache healthy c"
    and run: "cp_findRevision (published_provider rt load releaseId mode loaded cache) ex skill rv c = (Inr (Some r), c')"
  have "find_published rt load releaseId mode loaded cache skill rv c = (Inr (Some r), c')"
    using run by (simp add: published_provider_def)
  from find_published_exact [OF _ _ _ _ this] c
  show "assertRevisionIntegrity rt r = Inr r \<and> skillId r = skill \<and> revision r = rv"
    unfolding release_healthy_def by blast
qed (simp add: published_provider_def done_with_def)

subsection \<open>Properties\<close>

text \<open>The cache is first-in first-out, bounded and verified: after an admission the new revision is
  found under its key, every other key answers as before unless the cache was full and it was the
  oldest, the capacity holds, and all contents still verify.\<close>

theorem cache_admit_get:
  assumes inv: "cache_inv rt cache" and run: "admit rt releaseId r cache = Inr cache'"
  shows "cache_inv rt cache' \<and> length (rc_entries cache') \<le> rc_maximumEntries cache \<and>
    get_cached rt releaseId (skillId r) (revision r) (bundleSha256 r) cache' = Inr (Some r) \<and>
    (\<forall>key. key \<noteq> revision_cache_key releaseId r \<longrightarrow>
       map_of (rc_entries cache') key = map_of (rc_entries cache) key \<or>
       (length (rc_entries cache) = rc_maximumEntries cache \<and> key = fst (hd (rc_entries cache))))"
proof (intro conjI allI impI)
  show kept: "cache_inv rt cache'" by (rule admit_inv [OF assms])
  from run have shape: "rc_maximumEntries cache' = rc_maximumEntries cache" by (auto simp: admit_def Let_def)
  with kept show "length (rc_entries cache') \<le> rc_maximumEntries cache" by (simp add: cache_inv_def)
  have verified: "assertRevisionIntegrity rt r = Inr r"
    using run assertRevisionIntegrity_reconstructs by (auto simp: admit_def)
  from run obtain m where m: "rc_entries cache' = AList.update (revision_cache_key releaseId r) r m"
    "m = rc_entries cache \<or> (m = drop 1 (rc_entries cache) \<and> rc_maximumEntries cache \<le> length (rc_entries cache))"
    by (auto simp: admit_def Let_def)
  show "get_cached rt releaseId (skillId r) (revision r) (bundleSha256 r) cache' = Inr (Some r)"
    using m(1) verified by (simp add: get_cached_def revision_cache_key_def)
  fix key assume "key \<noteq> revision_cache_key releaseId r"
  then have here: "map_of (rc_entries cache') key = map_of m key" by (simp add: m(1))
  show "map_of (rc_entries cache') key = map_of (rc_entries cache) key \<or>
       (length (rc_entries cache) = rc_maximumEntries cache \<and> key = fst (hd (rc_entries cache)))"
    using here m(2) inv by (cases "rc_entries cache") (auto simp: cache_inv_def)
qed

theorem cache_admit_get_witness:
  "get_cached constant_runtime ''rel'' ''a'' ''1'' zeros64
     \<lparr>rc_maximumEntries = 1, rc_entries = [(revision_cache_key ''rel'' loaded_example, loaded_example)]\<rparr> =
   Inr (Some loaded_example)"
proof -
  have "new_cache 1 = Inr \<lparr>rc_maximumEntries = 1, rc_entries = []\<rparr>" by (simp add: new_cache_def)
  note inv = new_cache_inv [OF this, of constant_runtime]
  have "admit constant_runtime ''rel'' loaded_example \<lparr>rc_maximumEntries = 1, rc_entries = []\<rparr> =
      Inr \<lparr>rc_maximumEntries = 1, rc_entries = [(revision_cache_key ''rel'' loaded_example, loaded_example)]\<rparr>"
    using example_verified [OF plain_runtimes(2), of "''hi''"] by (simp add: admit_def)
  from cache_admit_get [OF inv this] show ?thesis by (simp add: loaded_example_fields)
qed



text \<open>The union's listing.\<close>

lemma first_by_key_spec:
  assumes "distinct (map fst sel)" and "\<forall>(k, v) \<in> set sel. nul_key v = k"
  shows "distinct (map fst (first_by_key skills sel)) \<and>
    (\<forall>(k, v) \<in> set (first_by_key skills sel). nul_key v = k) \<and>
    set sel \<subseteq> set (first_by_key skills sel) \<and>
    snd ` set (first_by_key skills sel) \<subseteq> snd ` set sel \<union> set skills \<and>
    fst ` set (first_by_key skills sel) = fst ` set sel \<union> nul_key ` set skills"
  using assms
proof (induction skills arbitrary: sel)
  case (Cons s skills)
  define sel' where "sel' = (if nul_key s \<in> fst ` set sel then sel else sel @ [(nul_key s, s)])"
  have "distinct (map fst sel')" "\<forall>(k, v) \<in> set sel'. nul_key v = k"
    using Cons.prems by (auto simp: sel'_def)
  from Cons.IH [OF this] show ?case by (auto simp: sel'_def split: if_splits)
qed auto

lemma first_by_key_first:
  assumes "distinct (map fst sel)" and "\<forall>(k, v) \<in> set sel. nul_key v = k"
    and "sorted_wrt R skills" and "\<forall>(k, v) \<in> set sel. \<forall>s \<in> set skills. nul_key s = k \<longrightarrow> R v s"
    and refl: "\<And>s. R s s"
    and "(k, v) \<in> set (first_by_key skills sel)" and "s \<in> set skills" and "nul_key s = k"
  shows "R v s"
  using assms(1-4,6-)
proof (induction skills arbitrary: sel)
  case (Cons t skills)
  define sel' where "sel' = (if nul_key t \<in> fst ` set sel then sel else sel @ [(nul_key t, t)])"
  have sel': "distinct (map fst sel')" "\<forall>(k, v) \<in> set sel'. nul_key v = k"
    using Cons.prems(1,2) by (auto simp: sel'_def)
  have before: "\<forall>(k, v) \<in> set sel'. \<forall>s \<in> set skills. nul_key s = k \<longrightarrow> R v s"
    using Cons.prems(3,4) by (auto simp: sel'_def)
  have kv: "(k, v) \<in> set (first_by_key skills sel')" using Cons.prems(5) by (simp add: sel'_def)
  show ?case
  proof (cases "s \<in> set skills")
    case True
    then show ?thesis using Cons.IH [OF sel' _ before kv] Cons.prems(3,7) by simp
  next
    case False
    with Cons.prems(6) have st: "s = t" by simp
    have "k \<in> fst ` set sel'" using Cons.prems(7) st by (auto simp: sel'_def)
    then obtain w where w: "(k, w) \<in> set sel'" by auto
    note spec = first_by_key_spec [OF sel', of skills]
    from w spec have "(k, w) \<in> set (first_by_key skills sel')" by blast
    with kv spec have "w = v" using eq_key_imp_eq_value by metis
    moreover have "R w t"
      using w Cons.prems(4,7) st refl by (auto simp: sel'_def split: if_splits)
    ultimately show ?thesis using st by simp
  qed
qed simp

lemma consistent_compare_union:
  assumes "consistent (localeCompare rt)"
  shows "consistent (compare_union rt)"
proof -
  have flip: "sgn (localeCompare rt a b) = - sgn (localeCompare rt b a)" for a b
    using assms unfolding consistent_def by blast
  have trans: "localeCompare rt a b \<le> 0 \<Longrightarrow> localeCompare rt b c \<le> 0 \<Longrightarrow> localeCompare rt a c \<le> 0" for a b c
    using assms unfolding consistent_def by blast
  have zero: "localeCompare rt a b = 0 \<longleftrightarrow> localeCompare rt b a = 0" for a b
    using flip [of a b] by (auto simp: sgn_if split: if_splits)
  show ?thesis unfolding consistent_def
  proof (intro conjI allI impI)
    fix x y show "sgn (compare_union rt x y) = - sgn (compare_union rt y x)"
      using flip [of "nul_key x" "nul_key y"] zero [of "nul_key x" "nul_key y"]
        sgn_minus_flip [of "originPriority x" "originPriority y"]
      by (simp add: compare_union_def Let_def)
  next
    fix x y z assume a: "compare_union rt x y \<le> 0" "compare_union rt y z \<le> 0"
    have le: "localeCompare rt (nul_key x) (nul_key y) \<le> 0" "localeCompare rt (nul_key y) (nul_key z) \<le> 0"
      using a by (auto simp: compare_union_def Let_def split: if_splits)
    have xz: "localeCompare rt (nul_key x) (nul_key z) \<le> 0" by (rule trans [OF le])
    have eq: "localeCompare rt (nul_key x) (nul_key y) = 0 \<and> localeCompare rt (nul_key y) (nul_key z) = 0"
      if "localeCompare rt (nul_key x) (nul_key z) = 0"
    proof -
      have zx: "localeCompare rt (nul_key z) (nul_key x) \<le> 0" using that zero by (metis order_refl)
      have "localeCompare rt (nul_key y) (nul_key x) \<le> 0" by (rule trans [OF le(2) zx])
      moreover have "localeCompare rt (nul_key z) (nul_key y) \<le> 0" by (rule trans [OF zx le(1)])
      ultimately show ?thesis using le consistent_flip [OF assms] by (metis dual_order.antisym)
    qed
    show "compare_union rt x z \<le> 0"
      using a xz eq by (auto simp: compare_union_def Let_def split: if_splits)
  qed
qed

text \<open>The union lists every skill revision once: each listed entry comes from a provider, every
  provided key is listed exactly once, a first-party entry wins over an imported one with the same
  skill and revision, and the listing is sorted by key.\<close>

theorem union_prefers_first_party:
  assumes cons: "consistent (localeCompare rt)"
  shows "set (union_metadata rt values) \<subseteq> set values \<and>
    nul_key ` set (union_metadata rt values) = nul_key ` set values \<and>
    distinct (map nul_key (union_metadata rt values)) \<and>
    (\<forall>m \<in> set (union_metadata rt values). \<forall>other \<in> set values. nul_key other = nul_key m \<longrightarrow>
       cs_catalogOrigin other = None \<longrightarrow> cs_catalogOrigin m = None) \<and>
    sorted_wrt (\<lambda>a b. localeCompare rt (nul_key a) (nul_key b) \<le> 0) (union_metadata rt values)"
proof -
  let ?sorted = "js_sort (compare_union rt) values"
  let ?picked = "first_by_key ?sorted []"
  note ccons = consistent_compare_union [OF cons]
  note spec = first_by_key_spec [of "[]" ?sorted, simplified]
  have zero: "localeCompare rt a a = 0" for a by (rule consistent_refl [OF cons])
  have keys: "map nul_key (map snd ?picked) = map fst ?picked" using spec by (auto intro!: map_cong)
  have best: "originPriority v \<le> originPriority other"
    if "(k, v) \<in> set ?picked" "other \<in> set values" "nul_key other = k" for k v other
  proof -
    have "compare_union rt v other \<le> 0"
      by (rule first_by_key_first [of "[]", OF _ _ sorted_js_sort [OF ccons] _ _ that(1)])
        (use that(2,3) consistent_refl [OF ccons] in auto)
    moreover have "nul_key v = nul_key other" using spec that(1,3) by auto
    ultimately show ?thesis using zero by (simp add: compare_union_def Let_def split: if_splits)
  qed
  have "sorted_wrt (\<lambda>a b. localeCompare rt (nul_key a) (nul_key b) \<le> 0) (union_metadata rt values)"
    unfolding union_metadata_def by (rule sorted_js_sort [OF consistent_key [OF cons]])
  moreover have "set (union_metadata rt values) \<subseteq> set values" using spec by (auto simp: union_metadata_def)
  moreover have "nul_key ` set (union_metadata rt values) = nul_key ` set values"
    using arg_cong [OF keys, of set] spec by (simp add: union_metadata_def image_image)
  moreover have "distinct (map nul_key (union_metadata rt values))"
    unfolding union_metadata_def distinct_map_js_sort keys using spec by blast
  moreover have "cs_catalogOrigin m = None"
    if m: "m \<in> set (union_metadata rt values)" and "other \<in> set values" "nul_key other = nul_key m"
      "cs_catalogOrigin other = None" for m other
  proof -
    from m obtain k where k: "(k, m) \<in> set ?picked" by (auto simp: union_metadata_def)
    then have "nul_key m = k" using spec by auto
    with best [OF k that(2)] that(3,4) show ?thesis by (simp add: originPriority_def split: if_splits)
  qed
  ultimately show ?thesis by blast
qed

theorem union_prefers_first_party_witness:
  "distinct (map nul_key (union_metadata (constant_runtime\<lparr>localeCompare := byte_compare\<rparr>)
     [example_skill ''a'' Available, example_skill ''a'' Revoked]))"
  using union_prefers_first_party [of "constant_runtime\<lparr>localeCompare := byte_compare\<rparr>"
      "[example_skill ''a'' Available, example_skill ''a'' Revoked]"]
  by (simp add: consistent_byte_compare)

end
