(* ===== verification/Candidate_Policy.thy ===== *)
theory Candidate_Policy
  imports External_Types
begin

text \<open>
  \<open>src/domain/external-catalog/candidate-policy.ts\<close>: the legal classification transitions of an
  import candidate and the stable, deduplicated order of validation findings. The lemmas show
  which classifications are reachable and by whose decision, and that the stable findings depend
  on the set of findings only.
\<close>

fun classification_text :: "CandidateClassification \<Rightarrow> string" where
  "classification_text Discovered = ''discovered''"
| "classification_text Verified = ''verified''"
| "classification_text Quarantined = ''quarantined''"
| "classification_text Curated = ''curated''"

fun actor_text :: "ClassificationActor \<Rightarrow> string" where
  "actor_text Discovery = ''discovery''"
| "actor_text Verifier = ''verifier''"
| "actor_text Administrator = ''administrator''"
| "actor_text Synchronization = ''synchronization''"

definition legalTransitions :: "string list" where
  "legalTransitions =
     [''absent:discovered:discovery'',
      ''absent:discovered:synchronization'',
      ''discovered:verified:verifier'',
      ''discovered:quarantined:verifier'',
      ''verified:quarantined:administrator'',
      ''curated:quarantined:administrator'',
      ''quarantined:verified:verifier'',
      ''verified:curated:administrator'']"

definition transition_key ::
  "CandidateClassification option \<Rightarrow> CandidateClassification \<Rightarrow> ClassificationActor \<Rightarrow> string" where
  "transition_key current next actor =
     (case current of None \<Rightarrow> ''absent'' | Some c \<Rightarrow> classification_text c)
       @ '':'' @ classification_text next @ '':'' @ actor_text actor"

definition applyCandidateTransition ::
  "CandidateClassification option \<Rightarrow> CandidateClassification \<Rightarrow> ClassificationActor
     \<Rightarrow> CandidateClassification res" where
  "applyCandidateTransition current next actor =
     (if current = Some next then Inr next
      else if transition_key current next actor \<notin> set legalTransitions
      then Inl (Error ''CLASSIFICATION_TRANSITION_INVALID'')
      else Inr next)"

lemma applyCandidateTransition_cases:
  "applyCandidateTransition current next actor = Inr c \<longleftrightarrow>
     c = next \<and>
     (current = Some next
      \<or> (current = None \<and> next = Discovered \<and> actor \<in> {Discovery, Synchronization})
      \<or> (current = Some Discovered \<and> next \<in> {Verified, Quarantined} \<and> actor = Verifier)
      \<or> (current = Some Verified \<and> next \<in> {Quarantined, Curated} \<and> actor = Administrator)
      \<or> (current = Some Curated \<and> next = Quarantined \<and> actor = Administrator)
      \<or> (current = Some Quarantined \<and> next = Verified \<and> actor = Verifier))"
proof (cases current)
  case None
  then show ?thesis
    by (cases "next"; cases actor;
        auto simp: applyCandidateTransition_def transition_key_def legalTransitions_def)
next
  case (Some d)
  then show ?thesis
    by (cases d; cases "next"; cases actor;
        auto simp: applyCandidateTransition_def transition_key_def legalTransitions_def)
qed

subsection \<open>Histories of a candidate\<close>

text \<open>A history is the list of decisions (next classification and actor) that were accepted, the
  latest first; \<open>classified\<close> is the classification it leads to.\<close>

inductive classified ::
  "CandidateClassification option \<Rightarrow> (CandidateClassification \<times> ClassificationActor) list \<Rightarrow> bool"
where
  absent: "classified None []"
| decide: "classified current h \<Longrightarrow> applyCandidateTransition current next actor = Inr c \<Longrightarrow>
     classified (Some c) ((next, actor) # h)"

inductive_cases classified_NoneE: "classified None h"
inductive_cases classified_ConsE: "classified (Some c) ((n, a) # h)"

text \<open>Every curated candidate was verified by the verifier and then curated by an administrator,
  and every classified one was discovered first.\<close>

lemma classified_history:
  "classified current h \<Longrightarrow>
     (current \<noteq> None \<longrightarrow> (\<exists>a. (Discovered, a) \<in> set h \<and> a \<in> {Discovery, Synchronization}))
     \<and> (current = Some Verified \<or> current = Some Curated \<longrightarrow> (Verified, Verifier) \<in> set h)
     \<and> (current = Some Curated \<longrightarrow> (Curated, Administrator) \<in> set h)"
proof (induction rule: classified.induct)
  case absent
  then show ?case by simp
next
  case (decide current h "next" actor c)
  then show ?case by (auto simp: applyCandidateTransition_cases)
qed

text \<open>Curation requires verification: whatever sequence of transitions the policy accepts, a
  candidate that ends up curated was discovered, was verified by the verifier, and was curated by
  an administrator; discovery and synchronization alone never make a candidate verified.\<close>

theorem curated_requires_verification:
  assumes "classified (Some Curated) h"
  shows "(Verified, Verifier) \<in> set h \<and> (Curated, Administrator) \<in> set h \<and>
    (\<exists>a. (Discovered, a) \<in> set h \<and> a \<in> {Discovery, Synchronization})"
  using classified_history [OF assms] by simp

theorem curated_requires_verification_witness:
  "(Verified, Verifier) \<in>
     set [(Curated, Administrator), (Verified, Verifier), (Discovered, Discovery)]"
proof -
  have "classified (Some Curated)
      [(Curated, Administrator), (Verified, Verifier), (Discovered, Discovery)]"
    by (rule decide [where current = "Some Verified"],
        rule decide [where current = "Some Discovered"],
        rule decide [where current = None], rule absent)
      (simp_all add: applyCandidateTransition_cases)
  from curated_requires_verification [OF this] show ?thesis by blast
qed

subsection \<open>Stable findings\<close>

definition finding_key :: "ExternalValidationFinding \<Rightarrow> string" where
  "finding_key f =
     join '':'' [code_text (fd_code f), severity_text (fd_severity f),
                 subject_text (fd_subjectKind f), fd_subjectId f]"

definition finding_sort_key :: "ExternalValidationFinding \<Rightarrow> string" where
  "finding_sort_key f =
     code_text (fd_code f) @ '':'' @ subject_text (fd_subjectKind f) @ '':'' @ fd_subjectId f
       @ '':'' @ severity_text (fd_severity f)"

definition unique_findings :: "ExternalValidationFinding list \<Rightarrow> (string \<times> ExternalValidationFinding) list" where
  "unique_findings findings =
     fold (\<lambda>finding unique. AList.update (finding_key finding) finding unique) findings []"

definition stableFindings ::
  "(string \<Rightarrow> string \<Rightarrow> int) \<Rightarrow> ExternalValidationFinding list \<Rightarrow> ExternalValidationFinding list" where
  "stableFindings localeCompare findings =
     js_sort (\<lambda>left right. localeCompare (finding_sort_key left) (finding_sort_key right))
       (map snd (unique_findings findings))"

text \<open>The key separates findings: the first three components have no colon.\<close>

lemma append_colon_inj:
  assumes "d \<notin> set a" "d \<notin> set b" "a @ d # x = b @ d # y"
  shows "a = b \<and> x = y"
proof -
  have "takeWhile (\<lambda>c. c \<noteq> d) (a @ d # x) = a" "takeWhile (\<lambda>c. c \<noteq> d) (b @ d # y) = b"
    using assms(1,2) by (auto simp: takeWhile_tail)
  with assms(3) show ?thesis by simp
qed

lemma finding_key_inj: "finding_key f = finding_key g \<longleftrightarrow> f = g"
proof
  assume "finding_key f = finding_key g"
  then have "code_text (fd_code f) @ CHR '':'' # (severity_text (fd_severity f) @ CHR '':''
        # (subject_text (fd_subjectKind f) @ CHR '':'' # fd_subjectId f))
      = code_text (fd_code g) @ CHR '':'' # (severity_text (fd_severity g) @ CHR '':''
        # (subject_text (fd_subjectKind g) @ CHR '':'' # fd_subjectId g))"
    by (simp add: finding_key_def)
  then show "f = g"
    by (auto dest!: append_colon_inj [rotated 2]
        simp: code_text_inj severity_text_inj subject_text_inj)
qed simp

lemma unique_findings_fold:
  assumes "distinct (map fst m)" "\<forall>p \<in> set m. fst p = finding_key (snd p)"
  shows "distinct (map fst (fold (\<lambda>f u. AList.update (finding_key f) f u) fs m)) \<and>
    set (fold (\<lambda>f u. AList.update (finding_key f) f u) fs m)
      = set m \<union> (\<lambda>f. (finding_key f, f)) ` set fs"
  using assms
proof (induction fs arbitrary: m)
  case Nil
  then show ?case by simp
next
  case (Cons f fs)
  let ?m = "AList.update (finding_key f) f m"
  have d: "distinct (map fst ?m)" using Cons.prems(1) by (rule distinct_update)
  have same: "p \<in> set m \<Longrightarrow> fst p = finding_key f \<Longrightarrow> p = (finding_key f, f)" for p
    using Cons.prems(2) by (metis finding_key_inj prod.collapse)
  have s: "set ?m = insert (finding_key f, f) (set m)"
  proof -
    have "p \<in> set ?m \<longleftrightarrow> p = (finding_key f, f) \<or> p \<in> set m" for p
    proof (cases p)
      case (Pair k v)
      have "p \<in> set ?m \<longleftrightarrow> map_of ?m k = Some v"
        using d Pair by (metis map_of_is_SomeI map_of_SomeD)
      also have "\<dots> \<longleftrightarrow> p = (finding_key f, f) \<or> (k \<noteq> finding_key f \<and> p \<in> set m)"
        using Cons.prems(1) Pair by (auto simp: map_of_eq_Some_iff)
      finally show ?thesis using same Pair by auto
    qed
    then show ?thesis by auto
  qed
  have "\<forall>p \<in> set ?m. fst p = finding_key (snd p)"
    using s Cons.prems(2) by auto
  from Cons.IH [OF d this] s show ?case by auto
qed

lemma unique_findings_spec:
  "distinct (map snd (unique_findings fs)) \<and> set (map snd (unique_findings fs)) = set fs"
proof -
  have u: "distinct (map fst (unique_findings fs))"
    "set (unique_findings fs) = (\<lambda>f. (finding_key f, f)) ` set fs"
    using unique_findings_fold [of "[]" fs] by (simp_all add: unique_findings_def)
  have "map fst (unique_findings fs) = map finding_key (map snd (unique_findings fs))"
    using u(2) by (auto simp: map_eq_conv)
  then have "distinct (map snd (unique_findings fs))"
    using u(1) by (metis distinct_map)
  then show ?thesis using u(2) by (force simp: image_image)
qed

lemma finding_sort_key_inj:
  assumes "finding_sort_key f = finding_sort_key g"
  shows "f = g"
proof -
  have "code_text (fd_code f) @ CHR '':'' # (subject_text (fd_subjectKind f) @ CHR '':''
        # (fd_subjectId f @ '':'' @ severity_text (fd_severity f)))
      = code_text (fd_code g) @ CHR '':'' # (subject_text (fd_subjectKind g) @ CHR '':''
        # (fd_subjectId g @ '':'' @ severity_text (fd_severity g)))"
    using assms by (simp add: finding_sort_key_def)
  then have a: "fd_code f = fd_code g" "fd_subjectKind f = fd_subjectKind g"
    and "fd_subjectId f @ '':'' @ severity_text (fd_severity f)
      = fd_subjectId g @ '':'' @ severity_text (fd_severity g)"
    by (auto dest!: append_colon_inj [rotated 2] simp: code_text_inj subject_text_inj)
  then have "rev (severity_text (fd_severity f)) @ CHR '':'' # rev (fd_subjectId f)
      = rev (severity_text (fd_severity g)) @ CHR '':'' # rev (fd_subjectId g)"
    by (metis append.assoc append_Cons append_Nil rev.simps(2) rev_append rev_singleton_conv rev_swap)
  then have "fd_severity f = fd_severity g" "fd_subjectId f = fd_subjectId g"
    by (auto dest!: append_colon_inj [rotated 2] simp: severity_text_inj)
  with a show ?thesis by simp
qed

text \<open>The published findings of a candidate are canonical: with a comparison that is a
  consistent order and tells the findings' different sort keys apart, \<open>stableFindings\<close> returns every finding
  exactly once, in an order that depends only on the set of findings, not on the order or the
  multiplicity in which validation produced them.\<close>

theorem stableFindings_canonical:
  assumes "consistent localeCompare"
    and "separates localeCompare (finding_sort_key ` set fs)"
    and "set fs = set gs"
  shows "stableFindings localeCompare fs = stableFindings localeCompare gs \<and>
    distinct (stableFindings localeCompare fs) \<and> set (stableFindings localeCompare fs) = set fs"
proof -
  have "mset (map snd (unique_findings fs)) = mset (map snd (unique_findings gs))"
    using unique_findings_spec [of fs] unique_findings_spec [of gs] assms(3)
    by (metis set_eq_iff_mset_eq_distinct)
  then have "stableFindings localeCompare fs = stableFindings localeCompare gs"
    unfolding stableFindings_def
    by (rule js_sort_mset_cong [OF consistent_key [OF assms(1)]])
      (use unique_findings_spec [of fs] separatesD [OF assms(2)] finding_sort_key_inj in \<open>auto 0 4\<close>)
  then show ?thesis
    using unique_findings_spec [of gs] assms(3) by (simp add: stableFindings_def)
qed

theorem stableFindings_canonical_witness:
  "stableFindings byte_compare
     [\<lparr>fd_code = PATH_UNSAFE, fd_severity = SevError, fd_subjectKind = SubjectResource, fd_subjectId = ''b''\<rparr>,
      \<lparr>fd_code = HASH_MISMATCH, fd_severity = SevError, fd_subjectKind = SubjectResource, fd_subjectId = ''a''\<rparr>,
      \<lparr>fd_code = PATH_UNSAFE, fd_severity = SevError, fd_subjectKind = SubjectResource, fd_subjectId = ''b''\<rparr>]
   = stableFindings byte_compare
     [\<lparr>fd_code = HASH_MISMATCH, fd_severity = SevError, fd_subjectKind = SubjectResource, fd_subjectId = ''a''\<rparr>,
      \<lparr>fd_code = PATH_UNSAFE, fd_severity = SevError, fd_subjectKind = SubjectResource, fd_subjectId = ''b''\<rparr>]"
  by (rule stableFindings_canonical [THEN conjunct1, OF consistent_byte_compare])
    auto

end
