(* ===== verification/Dependencies.thy ===== *)
theory Dependencies
  imports External_Types
begin

text \<open>
  \<open>src/domain/external-catalog/dependency-resolver.ts\<close>: resolution of a skill's dependency
  evidence against the names of its snapshot, and the depth-first search for members of
  dependency cycles.

  The search is a recursion bounded by fuel: one unit per nested call. Its state has the four
  mutable collections of the source (\<open>visiting\<close>, \<open>visited\<close>, \<open>cyclic\<close>, \<open>stack\<close>), each a list in
  insertion order. \<open>dfs_fuel\<close> counts the names a graph mentions; \<open>dependencyCycleMembers_returns\<close>
  shows that this is enough for every graph. The lemmas show that each reported name lies on a
  cycle, that every cycle has a reported name, and that not every name on a cycle is reported.
\<close>

subsection \<open>Resolution of evidence\<close>

record DependencyResolution =
  rs_dependencies :: "ExternalDependencyInput list"
  rs_findings :: "ExternalValidationFinding list"

definition name_counts :: "string list \<Rightarrow> (string \<times> nat) list" where
  "name_counts snapshotSkillNames =
     fold (\<lambda>name counts.
         AList.update name ((case map_of counts name of None \<Rightarrow> 0 | Some c \<Rightarrow> c) + 1) counts)
       snapshotSkillNames []"

definition dependency_finding ::
  "ExternalValidationReasonCode \<Rightarrow> string \<Rightarrow> ExternalDependencyInput \<Rightarrow> ExternalValidationFinding" where
  "dependency_finding code sourceSkillName candidate =
     \<lparr>fd_code = code, fd_severity = SevError, fd_subjectKind = SubjectCandidate,
      fd_subjectId = sourceSkillName @ '':'' @ dep_skillName candidate\<rparr>"

definition resolve_step ::
  "(string \<times> nat) list \<Rightarrow> string \<Rightarrow> ExternalDependencyInput \<Rightarrow> DependencyResolution
     \<Rightarrow> DependencyResolution" where
  "resolve_step counts sourceSkillName candidate r =
     (let count = (case map_of counts (dep_skillName candidate) of None \<Rightarrow> 0 | Some c \<Rightarrow> c);
          reported = dep_required candidate \<and> dep_evidenceKind candidate \<noteq> EvExplicitInvocation
      in if dep_skillName candidate = sourceSkillName \<or> 1 < count then
           (if reported
            then r\<lparr>rs_findings := rs_findings r
                     @ [dependency_finding DEPENDENCY_AMBIGUOUS sourceSkillName candidate]\<rparr>
            else r)
         else if count = 0 then
           (if reported
            then r\<lparr>rs_findings := rs_findings r
                     @ [dependency_finding DEPENDENCY_MISSING sourceSkillName candidate]\<rparr>
            else r)
         else r\<lparr>rs_dependencies := rs_dependencies r @ [candidate]\<rparr>)"

definition resolveInternalDependencies ::
  "(string \<Rightarrow> string \<Rightarrow> int) \<Rightarrow> string list \<Rightarrow> string \<Rightarrow> ExternalDependencyInput list
     \<Rightarrow> DependencyResolution" where
  "resolveInternalDependencies localeCompare snapshotSkillNames sourceSkillName evidence =
     (let r = fold (resolve_step (name_counts snapshotSkillNames) sourceSkillName) evidence
                \<lparr>rs_dependencies = [], rs_findings = []\<rparr>
      in \<lparr>rs_dependencies =
            js_sort (\<lambda>a b. localeCompare (dep_skillName a) (dep_skillName b)) (rs_dependencies r),
          rs_findings =
            js_sort (\<lambda>a b. localeCompare (fd_subjectId a) (fd_subjectId b)) (rs_findings r)\<rparr>)"

lemma map_of_name_counts_fold:
  "map_of (fold (\<lambda>name counts.
       AList.update name ((case map_of counts name of None \<Rightarrow> 0 | Some c \<Rightarrow> c) + 1) counts) names m) n
   = (if n \<in> set names
      then Some ((case map_of m n of None \<Rightarrow> 0 | Some c \<Rightarrow> c) + count_list names n) else map_of m n)"
  by (induction names arbitrary: m) (auto simp: count_notin)

lemma name_counts_count:
  "(case map_of (name_counts names) n of None \<Rightarrow> 0 | Some c \<Rightarrow> c) = count_list names n"
  using map_of_name_counts_fold [of names "[]" n]
  by (simp add: name_counts_def count_notin)

definition resolvable :: "string list \<Rightarrow> string \<Rightarrow> ExternalDependencyInput \<Rightarrow> bool" where
  "resolvable names self d \<longleftrightarrow>
     dep_skillName d \<noteq> self \<and> count_list names (dep_skillName d) = 1"

definition reportable :: "ExternalDependencyInput \<Rightarrow> bool" where
  "reportable d \<longleftrightarrow> dep_required d \<and> dep_evidenceKind d \<noteq> EvExplicitInvocation"

definition expected_finding ::
  "string list \<Rightarrow> string \<Rightarrow> ExternalDependencyInput \<Rightarrow> ExternalValidationFinding" where
  "expected_finding names self d =
     dependency_finding
       (if dep_skillName d \<noteq> self \<and> count_list names (dep_skillName d) = 0
        then DEPENDENCY_MISSING else DEPENDENCY_AMBIGUOUS) self d"

lemma resolve_fold:
  "fold (resolve_step (name_counts names) self) evidence r =
     \<lparr>rs_dependencies = rs_dependencies r @ filter (resolvable names self) evidence,
      rs_findings = rs_findings r
        @ map (expected_finding names self)
            (filter (\<lambda>d. \<not> resolvable names self d \<and> reportable d) evidence)\<rparr>"
proof (induction evidence arbitrary: r)
  case Nil
  then show ?case by simp
next
  case (Cons d ds)
  have "resolve_step (name_counts names) self d r =
    (if resolvable names self d then r\<lparr>rs_dependencies := rs_dependencies r @ [d]\<rparr>
     else if reportable d then r\<lparr>rs_findings := rs_findings r @ [expected_finding names self d]\<rparr>
     else r)"
    by (auto simp: resolve_step_def name_counts_count resolvable_def reportable_def
        expected_finding_def Let_def)
  with Cons show ?case by simp
qed

text \<open>Dependency resolution drops nothing silently: the resolved dependencies are exactly the
  evidence naming another skill that occurs once in the snapshot; every other piece of required,
  declared evidence becomes a finding (missing if the name does not occur, ambiguous if it is the
  skill itself or occurs more than once); only optional evidence and inferred invocations that do
  not resolve are dropped.\<close>

theorem resolveInternalDependencies_exact:
  "mset (rs_dependencies (resolveInternalDependencies lc names self evidence))
     = mset (filter (resolvable names self) evidence) \<and>
   mset (rs_findings (resolveInternalDependencies lc names self evidence))
     = mset (map (expected_finding names self)
         (filter (\<lambda>d. \<not> resolvable names self d \<and> reportable d) evidence))"
  by (simp add: resolveInternalDependencies_def resolve_fold Let_def)

subsection \<open>The search for cycles\<close>

type_synonym graph = "(string \<times> ExternalDependencyInput list) list"

definition graph_deps :: "graph \<Rightarrow> string \<Rightarrow> string list" where
  "graph_deps graph name =
     map dep_skillName (case map_of graph name of None \<Rightarrow> [] | Some ds \<Rightarrow> ds)"

record dfs =
  visiting :: "string list"
  visited :: "string list"
  cyclic :: "string list"
  stack :: "string list"

definition set_add :: "'a \<Rightarrow> 'a list \<Rightarrow> 'a list" where
  "set_add x s = (if x \<in> set s then s else s @ [x])"

fun index_of :: "'a \<Rightarrow> 'a list \<Rightarrow> nat" where
  "index_of x [] = 0"
| "index_of x (y # ys) = (if x = y then 0 else Suc (index_of x ys))"

definition mark_cycle :: "string \<Rightarrow> dfs \<Rightarrow> dfs" where
  "mark_cycle name st =
     st\<lparr>cyclic := fold set_add (drop (index_of name (stack st)) (stack st)) (cyclic st)\<rparr>"

definition enter :: "string \<Rightarrow> dfs \<Rightarrow> dfs" where
  "enter name st = st\<lparr>visiting := set_add name (visiting st), stack := stack st @ [name]\<rparr>"

definition leave :: "string \<Rightarrow> dfs \<Rightarrow> dfs" where
  "leave name st =
     st\<lparr>stack := butlast (stack st), visiting := removeAll name (visiting st),
        visited := set_add name (visited st)\<rparr>"

function (sequential) visit :: "nat \<Rightarrow> graph \<Rightarrow> string \<Rightarrow> dfs \<Rightarrow> dfs option"
  and visit_all :: "nat \<Rightarrow> graph \<Rightarrow> string list \<Rightarrow> dfs \<Rightarrow> dfs option" where
  "visit 0 graph name st = None"
| "visit (Suc fuel) graph name st =
     (if name \<in> set (visited st) then Some st
      else if name \<in> set (visiting st) then Some (mark_cycle name st)
      else map_option (leave name) (visit_all fuel graph (graph_deps graph name) (enter name st)))"
| "visit_all fuel graph [] st = Some st"
| "visit_all fuel graph (n # ns) st =
     (case visit fuel graph n st of None \<Rightarrow> None | Some st' \<Rightarrow> visit_all fuel graph ns st')"
  by pat_completeness auto
termination
  by (relation "measures
      [\<lambda>x. case x of Inl (k, _, _, _) \<Rightarrow> 2 * k | Inr (k, _, _, _) \<Rightarrow> 2 * k + 1,
       \<lambda>x. case x of Inl _ \<Rightarrow> 0 | Inr (_, _, ns, _) \<Rightarrow> length ns]") auto

definition dfs_start :: dfs where
  "dfs_start = \<lparr>visiting = [], visited = [], cyclic = [], stack = []\<rparr>"

definition graph_names :: "graph \<Rightarrow> string list" where
  "graph_names graph = concat (map (\<lambda>(n, ds). n # map dep_skillName ds) graph)"

definition dfs_fuel :: "graph \<Rightarrow> nat" where
  "dfs_fuel graph = Suc (length (graph_names graph))"

definition dependencyCycleMembers :: "graph \<Rightarrow> string list option" where
  "dependencyCycleMembers graph =
     map_option cyclic (visit_all (dfs_fuel graph) graph (map fst graph) dfs_start)"

definition edge :: "graph \<Rightarrow> string \<Rightarrow> string \<Rightarrow> bool" where
  "edge graph u v \<longleftrightarrow> v \<in> set (graph_deps graph u)"

text \<open>\<open>finished\<close>: every name that is done has each of its targets done before it, or both ends of
  the edge are reported.\<close>

definition finished :: "graph \<Rightarrow> string list \<Rightarrow> string set \<Rightarrow> bool" where
  "finished graph vs C \<longleftrightarrow>
     (\<forall>xs u ys v. vs = xs @ u # ys \<longrightarrow> edge graph u v \<longrightarrow> v \<in> set xs \<or> (u \<in> C \<and> v \<in> C))"

definition dfs_inv :: "graph \<Rightarrow> dfs \<Rightarrow> bool" where
  "dfs_inv graph st \<longleftrightarrow>
     set (visiting st) = set (stack st) \<and> distinct (stack st) \<and>
     set (visited st) \<inter> set (stack st) = {} \<and>
     successively (edge graph) (stack st) \<and>
     (\<forall>c \<in> set (cyclic st). (edge graph)\<^sup>+\<^sup>+ c c) \<and>
     finished graph (visited st) (set (cyclic st))"

definition reached_from :: "graph \<Rightarrow> dfs \<Rightarrow> string \<Rightarrow> bool" where
  "reached_from graph st n \<longleftrightarrow> stack st = [] \<or> edge graph (last (stack st)) n"

definition handled :: "dfs \<Rightarrow> dfs \<Rightarrow> string \<Rightarrow> bool" where
  "handled st st' n \<longleftrightarrow> n \<in> set (visited st') \<or>
     (stack st \<noteq> [] \<and> n \<in> set (cyclic st') \<and> last (stack st) \<in> set (cyclic st'))"

definition extends :: "dfs \<Rightarrow> dfs \<Rightarrow> bool" where
  "extends st st' \<longleftrightarrow> stack st' = stack st \<and> set (visited st) \<subseteq> set (visited st') \<and>
     set (cyclic st) \<subseteq> set (cyclic st')"

lemma extends_refl: "extends st st"
  by (simp add: extends_def)

lemma extends_trans: "extends a b \<Longrightarrow> extends b c \<Longrightarrow> extends a c"
  by (auto simp: extends_def)

lemma handled_mono: "handled st st' n \<Longrightarrow> extends st' st'' \<Longrightarrow> handled st st'' n"
  by (auto simp: handled_def extends_def)

lemma set_set_add [simp]: "set (set_add x s) = insert x (set s)"
  by (auto simp: set_add_def)

lemma set_fold_set_add [simp]: "set (fold set_add xs s) = set xs \<union> set s"
  by (induction xs arbitrary: s) auto

lemma finished_mono: "finished graph vs C \<Longrightarrow> C \<subseteq> D \<Longrightarrow> finished graph vs D"
  unfolding finished_def subset_iff by blast

lemma finished_snoc:
  assumes "finished graph vs C" and "\<And>v. edge graph u v \<Longrightarrow> v \<in> set vs \<or> (u \<in> C \<and> v \<in> C)"
  shows "finished graph (vs @ [u]) C"
  unfolding finished_def
proof (intro allI impI)
  fix xs w ys v
  assume eq: "vs @ [u] = xs @ w # ys" and e: "edge graph w v"
  show "v \<in> set xs \<or> (w \<in> C \<and> v \<in> C)"
  proof (cases ys rule: rev_cases)
    case Nil
    with eq have "vs = xs" "w = u" by simp_all
    with assms(2) e show ?thesis by blast
  next
    case (snoc zs z)
    with eq have "vs = xs @ w # zs" by simp
    with assms(1) e show ?thesis unfolding finished_def by blast
  qed
qed

lemma successively_path:
  "successively E (x # xs) \<Longrightarrow> y \<in> set (x # xs) \<Longrightarrow> E\<^sup>*\<^sup>* x y"
proof (induction xs arbitrary: x)
  case Nil
  then show ?case by simp
next
  case (Cons z zs)
  then show ?case by (auto intro: converse_rtranclp_into_rtranclp)
qed

lemma successively_to_last:
  "successively E xs \<Longrightarrow> y \<in> set xs \<Longrightarrow> E\<^sup>*\<^sup>* y (last xs)"
proof -
  assume suc: "successively E xs" and y: "y \<in> set xs"
  from y obtain ys zs where xs: "xs = ys @ y # zs" by (auto simp: in_set_conv_decomp)
  with suc have "successively E (y # zs)" by (simp add: successively_append_iff)
  then have "E\<^sup>*\<^sup>* y (last (y # zs))" by (rule successively_path) simp
  with xs show ?thesis by simp
qed

lemma drop_index_of:
  assumes "n \<in> set xs"
  shows "\<exists>ys zs. xs = ys @ n # zs \<and> drop (index_of n xs) xs = n # zs"
  using assms
proof (induction xs)
  case Nil
  then show ?case by simp
next
  case (Cons x xs)
  show ?case
  proof (cases "n = x")
    case True
    then show ?thesis by (intro exI [of _ "[]"] exI [of _ xs]) simp
  next
    case False
    with Cons obtain ys zs where "xs = ys @ n # zs" "drop (index_of n xs) xs = n # zs" by auto
    with False show ?thesis by (intro exI [of _ "x # ys"] exI [of _ zs]) auto
  qed
qed

lemma mark_cycle_step:
  assumes inv: "dfs_inv graph st" and r: "reached_from graph st n" and n: "n \<in> set (visiting st)"
  shows "dfs_inv graph (mark_cycle n st) \<and> extends st (mark_cycle n st) \<and>
    handled st (mark_cycle n st) n"
proof -
  from inv n have nst: "n \<in> set (stack st)" by (simp add: dfs_inv_def)
  then obtain ys zs where st: "stack st = ys @ n # zs"
    and dr: "drop (index_of n (stack st)) (stack st) = n # zs"
    using drop_index_of by metis
  have suc: "successively (edge graph) (n # zs)"
    using inv st by (simp add: dfs_inv_def successively_append_iff)
  have closes: "edge graph (last (n # zs)) n"
    using r st by (simp add: reached_from_def)
  have cyc: "(edge graph)\<^sup>+\<^sup>+ c c" if "c \<in> set (n # zs)" for c
  proof -
    have "(edge graph)\<^sup>*\<^sup>* c (last (n # zs))" by (rule successively_to_last [OF suc that])
    then have "(edge graph)\<^sup>+\<^sup>+ c n" using closes by (rule rtranclp_into_tranclp1)
    also have "(edge graph)\<^sup>*\<^sup>* n c" by (rule successively_path [OF suc that])
    finally show ?thesis .
  qed
  have c: "set (cyclic (mark_cycle n st)) = set (n # zs) \<union> set (cyclic st)"
    by (simp add: mark_cycle_def dr)
  have fin: "finished graph (visited st) (set (n # zs) \<union> set (cyclic st))"
    using inv by (auto simp: dfs_inv_def intro: finished_mono)
  have "dfs_inv graph (mark_cycle n st)"
    using inv cyc fin unfolding dfs_inv_def c by (auto simp: mark_cycle_def)
  moreover have "extends st (mark_cycle n st)"
    using c by (auto simp: extends_def mark_cycle_def)
  moreover have "handled st (mark_cycle n st) n"
    unfolding handled_def c using st by auto
  ultimately show ?thesis by blast
qed

lemma enter_step:
  assumes "dfs_inv graph st" "reached_from graph st n"
    "n \<notin> set (visited st)" "n \<notin> set (visiting st)"
  shows "dfs_inv graph (enter n st)"
  using assms
  by (auto simp: dfs_inv_def enter_def reached_from_def successively_append_iff)

lemma leave_step:
  assumes inv: "dfs_inv graph st'" and ext: "extends (enter n st) st'"
    and new: "n \<notin> set (visited st')"
    and targets: "\<And>v. v \<in> set (graph_deps graph n) \<Longrightarrow> handled (enter n st) st' v"
  shows "dfs_inv graph (leave n st') \<and> extends st (leave n st') \<and> handled st (leave n st') n"
proof -
  have st: "stack st' = stack st @ [n]" using ext by (simp add: extends_def enter_def)
  have vs: "visited (leave n st') = visited st' @ [n]"
    using new by (simp add: leave_def set_add_def)
  have "finished graph (visited st' @ [n]) (set (cyclic st'))"
  proof (rule finished_snoc)
    show "finished graph (visited st') (set (cyclic st'))" using inv by (simp add: dfs_inv_def)
    show "v \<in> set (visited st') \<or> (n \<in> set (cyclic st') \<and> v \<in> set (cyclic st'))"
      if "edge graph n v" for v
      using targets [of v] that by (auto simp: handled_def edge_def enter_def)
  qed
  then have "dfs_inv graph (leave n st')"
    using inv st vs by (auto simp: dfs_inv_def leave_def successively_append_iff)
  then show ?thesis
    using ext st vs by (auto simp: extends_def handled_def leave_def enter_def)
qed

lemma visit_correct:
  "visit fuel graph n st = Some st' \<Longrightarrow> dfs_inv graph st \<Longrightarrow> reached_from graph st n \<Longrightarrow>
     dfs_inv graph st' \<and> extends st st' \<and> handled st st' n"
  "visit_all fuel graph ns st = Some st' \<Longrightarrow> dfs_inv graph st \<Longrightarrow>
     (\<And>n. n \<in> set ns \<Longrightarrow> reached_from graph st n) \<Longrightarrow>
     dfs_inv graph st' \<and> extends st st' \<and> (\<forall>n \<in> set ns. handled st st' n)"
proof (induction fuel graph n st and fuel graph ns st arbitrary: st' and st'
    rule: visit_visit_all.induct)
  case (1 graph n st)
  then show ?case by simp
next
  case (2 fuel graph n st)
  consider (seen) "n \<in> set (visited st)" | (on_stack) "n \<notin> set (visited st)" "n \<in> set (visiting st)"
    | (new) "n \<notin> set (visited st)" "n \<notin> set (visiting st)" by blast
  then show ?case
  proof cases
    case seen
    with "2.prems" show ?thesis by (simp add: extends_refl handled_def)
  next
    case on_stack
    with "2.prems" have "st' = mark_cycle n st" by simp
    then show ?thesis using mark_cycle_step "2.prems"(2,3) on_stack(2) by simp
  next
    case new
    then obtain s where s: "visit_all fuel graph (graph_deps graph n) (enter n st) = Some s"
      and st': "st' = leave n s" using "2.prems"(1) by auto
    have inv: "dfs_inv graph (enter n st)" by (rule enter_step [OF "2.prems"(2,3) new])
    have after: "dfs_inv graph s \<and> extends (enter n st) s \<and>
        (\<forall>v \<in> set (graph_deps graph n). handled (enter n st) s v)"
      by (rule "2.IH" [OF new s inv]) (simp add: reached_from_def enter_def edge_def)
    then have "set (visited s) \<inter> set (stack s) = {}" by (simp only: dfs_inv_def)
    moreover have "n \<in> set (stack s)" using after by (simp add: extends_def enter_def)
    ultimately have "n \<notin> set (visited s)" by blast
    then show ?thesis unfolding st'
      by (rule leave_step [OF after [THEN conjunct1] after [THEN conjunct2, THEN conjunct1]])
        (rule after [THEN conjunct2, THEN conjunct2, rule_format])
  qed
next
  case (3 fuel graph st)
  then show ?case by (simp add: extends_refl)
next
  case (4 fuel graph n ns st)
  then obtain s where s: "visit fuel graph n st = Some s" "visit_all fuel graph ns s = Some st'"
    by (auto split: option.splits)
  have a: "dfs_inv graph s \<and> extends st s \<and> handled st s n"
    by (rule "4.IH"(1) [OF s(1) "4.prems"(2)]) (simp add: "4.prems"(3))
  have b: "dfs_inv graph st' \<and> extends s st' \<and> (\<forall>n \<in> set ns. handled s st' n)"
    by (rule "4.IH"(2) [OF s]) (use "4.prems"(3) a in \<open>auto simp: reached_from_def extends_def\<close>)
  have "handled st st' m" if "m \<in> set ns" for m
    using b a that by (auto simp: handled_def extends_def)
  with a b show ?case by (auto intro: extends_trans handled_mono)
qed

lemma graph_names_Cons:
  "graph_names ((n, ds) # graph) = n # map dep_skillName ds @ graph_names graph"
  by (simp add: graph_names_def)

lemma map_of_graph_names:
  "map_of graph n = Some ds \<Longrightarrow> dep_skillName ` set ds \<subseteq> set (graph_names graph)"
proof (induction graph)
  case (Cons p graph)
  then show ?case by (cases p) (auto simp: graph_names_Cons split: if_splits)
qed simp

lemma graph_deps_names: "set (graph_deps graph n) \<subseteq> set (graph_names graph)"
  using map_of_graph_names [of graph n] by (cases "map_of graph n") (simp_all add: graph_deps_def)

lemma visit_returns:
  "dfs_inv graph st \<Longrightarrow> reached_from graph st n \<Longrightarrow> insert n (set (stack st)) \<subseteq> set (graph_names graph) \<Longrightarrow>
     card (set (graph_names graph)) < fuel + length (stack st) \<Longrightarrow> visit fuel graph n st \<noteq> None"
  "dfs_inv graph st \<Longrightarrow> (\<And>n. n \<in> set ns \<Longrightarrow> reached_from graph st n) \<Longrightarrow>
     set ns \<union> set (stack st) \<subseteq> set (graph_names graph) \<Longrightarrow>
     card (set (graph_names graph)) < fuel + length (stack st) \<Longrightarrow> visit_all fuel graph ns st \<noteq> None"
proof (induction fuel graph n st and fuel graph ns st rule: visit_visit_all.induct)
  case (1 graph n st)
  then have "card (set (stack st)) \<le> card (set (graph_names graph))"
    by (intro card_mono) auto
  with 1 show ?case by (simp add: dfs_inv_def distinct_card)
next
  case (2 fuel graph n st)
  show ?case
  proof (cases "n \<in> set (visited st) \<or> n \<in> set (visiting st)")
    case True
    then show ?thesis by auto
  next
    case False
    then have new: "n \<notin> set (visited st)" "n \<notin> set (visiting st)" by simp_all
    then have inv: "dfs_inv graph (enter n st)" using enter_step "2.prems"(1,2) by blast
    have "visit_all fuel graph (graph_deps graph n) (enter n st) \<noteq> None"
      by (rule "2.IH" [OF new inv])
        (use "2.prems"(3,4) graph_deps_names [of graph n] in
          \<open>auto simp: reached_from_def enter_def edge_def\<close>)
    with False show ?thesis by simp
  qed
next
  case (3 fuel graph st)
  then show ?case by simp
next
  case (4 fuel graph n ns st)
  have "visit fuel graph n st \<noteq> None" by (rule "4.IH"(1)) (use "4.prems" in auto)
  then obtain s where s: "visit fuel graph n st = Some s" by auto
  have a: "dfs_inv graph s \<and> extends st s \<and> handled st s n"
    by (rule visit_correct(1) [OF s]) (use "4.prems" in auto)
  have "visit_all fuel graph ns s \<noteq> None"
    by (rule "4.IH"(2) [OF s]) (use "4.prems" a in \<open>auto simp: reached_from_def extends_def\<close>)
  with s show ?case by simp
qed

lemma dfs_inv_start: "dfs_inv graph dfs_start"
  by (simp add: dfs_inv_def dfs_start_def finished_def)

lemma keys_graph_names: "set (map fst graph) \<subseteq> set (graph_names graph)"
  by (induction graph) (auto simp: graph_names_def)

lemma dfs_run:
  obtains st where "visit_all (dfs_fuel graph) graph (map fst graph) dfs_start = Some st"
    "dfs_inv graph st" "set (map fst graph) \<subseteq> set (visited st)"
proof -
  have r: "reached_from graph dfs_start n" for n by (simp add: reached_from_def dfs_start_def)
  have "visit_all (dfs_fuel graph) graph (map fst graph) dfs_start \<noteq> None"
    by (rule visit_returns(2) [OF dfs_inv_start r])
      (use keys_graph_names [of graph] in
        \<open>auto simp: dfs_start_def dfs_fuel_def less_Suc_eq_le intro: card_length\<close>)
  then obtain st where st: "visit_all (dfs_fuel graph) graph (map fst graph) dfs_start = Some st"
    by auto
  from visit_correct(2) [OF st dfs_inv_start r] show ?thesis
    by (intro that [OF st]) (auto simp: handled_def dfs_start_def)
qed

definition plain_dep :: "string \<Rightarrow> ExternalDependencyInput" where
  "plain_dep n = \<lparr>dep_skillName = n, dep_targetSkillId = None, dep_targetRevision = None,
     dep_required = True, dep_evidenceKind = EvFrontmatter, dep_evidenceLocator = ''frontmatter''\<rparr>"

text \<open>The cycle search is total and sound: for every graph it returns, and each name it returns
  lies on a dependency cycle.\<close>

theorem dependencyCycleMembers_sound:
  "\<exists>members. dependencyCycleMembers graph = Some members \<and>
     (\<forall>m \<in> set members. (edge graph)\<^sup>+\<^sup>+ m m)"
  by (rule dfs_run [of graph]) (auto simp: dependencyCycleMembers_def dfs_inv_def)

lemma two_cycle:
  "dependencyCycleMembers [(''a'', [plain_dep ''b'']), (''b'', [plain_dep ''a''])] = Some [''a'', ''b'']"
  by (simp add: dependencyCycleMembers_def dfs_fuel_def graph_names_def graph_deps_def
      plain_dep_def dfs_start_def enter_def leave_def mark_cycle_def set_add_def)

theorem dependencyCycleMembers_sound_witness:
  "(edge [(''a'', [plain_dep ''b'']), (''b'', [plain_dep ''a''])])\<^sup>+\<^sup>+ ''a'' ''a''"
  using dependencyCycleMembers_sound [of "[(''a'', [plain_dep ''b'']), (''b'', [plain_dep ''a''])]"]
  by (simp add: two_cycle)

lemma cycle_search_hits:
  assumes "dependencyCycleMembers graph = Some members"
    and "C \<noteq> {}" and "\<And>u. u \<in> C \<Longrightarrow> \<exists>v \<in> C. edge graph u v"
  shows "C \<inter> set members \<noteq> {}"
proof -
  obtain st where st: "visit_all (dfs_fuel graph) graph (map fst graph) dfs_start = Some st"
    "dfs_inv graph st" "set (map fst graph) \<subseteq> set (visited st)" by (rule dfs_run)
  then have m: "members = cyclic st" using assms(1) by (simp add: dependencyCycleMembers_def)
  have keys: "u \<in> set (map fst graph)" if "edge graph u v" for u v
    using that by (cases "map_of graph u") (auto simp: edge_def graph_deps_def dest: map_of_SomeD
        intro: rev_image_eqI)
  have "C \<subseteq> set (visited st)" using assms(3) keys st(3) by blast
  moreover obtain c where "c \<in> C" using assms(2) by blast
  ultimately obtain xs u ys where split: "visited st = xs @ u # ys" "u \<in> C" "\<forall>x \<in> set xs. x \<notin> C"
    using split_list_first_prop [of "visited st" "\<lambda>x. x \<in> C"] by blast
  from assms(3) [OF split(2)] obtain v where v: "v \<in> C" "edge graph u v" by blast
  with st(2) split have "u \<in> set (cyclic st)"
    unfolding dfs_inv_def finished_def by blast
  with m split(2) show ?thesis by blast
qed

text \<open>C37. No cycle escapes: every nonempty finite set of names in which each name depends on
  another one of the set (each cycle is such a set) has a member that the search returns, so the
  dependency relation without the returned names has no cycle.\<close>

theorem dependencyCycleMembers_hits_every_cycle:
  assumes "dependencyCycleMembers graph = Some members"
    and "C \<noteq> {}" and "\<And>u. u \<in> C \<Longrightarrow> \<exists>v \<in> C. edge graph u v"
  shows "C \<inter> set members \<noteq> {}"
  using assms by (rule cycle_search_hits)

theorem dependencyCycleMembers_hits_every_cycle_witness:
  "{''a'', ''b''} \<inter> set [''a'', ''b''] \<noteq> {}"
proof (rule dependencyCycleMembers_hits_every_cycle)
  show "dependencyCycleMembers [(''a'', [plain_dep ''b'']), (''b'', [plain_dep ''a''])]
      = Some [''a'', ''b'']" by (rule two_cycle)
qed (auto simp: edge_def graph_deps_def plain_dep_def)

text \<open>The search does not return every name that lies on a cycle: with \<open>a\<close> depending on \<open>b\<close>
  and \<open>c\<close>, \<open>b\<close> on \<open>a\<close>, and \<open>c\<close> on \<open>b\<close>, the name \<open>c\<close> lies on the cycle \<open>a\<close>, \<open>c\<close>, \<open>b\<close> but is not
  returned, because \<open>b\<close> is already done when \<open>c\<close> is searched.\<close>

theorem dependencyCycleMembers_incomplete:
  "\<exists>graph members. dependencyCycleMembers graph = Some members \<and>
     (\<exists>c. (edge graph)\<^sup>+\<^sup>+ c c \<and> c \<notin> set members)"
proof (intro exI conjI)
  let ?g = "[(''a'', [plain_dep ''b'', plain_dep ''c'']), (''b'', [plain_dep ''a'']),
    (''c'', [plain_dep ''b''])]"
  show "dependencyCycleMembers ?g = Some [''a'', ''b'']"
    by (simp add: dependencyCycleMembers_def dfs_fuel_def graph_names_def graph_deps_def
        plain_dep_def dfs_start_def enter_def leave_def mark_cycle_def set_add_def)
  have "edge ?g ''c'' ''b''" "edge ?g ''b'' ''a''" "edge ?g ''a'' ''c''"
    by (simp_all add: edge_def graph_deps_def plain_dep_def)
  then show "(edge ?g)\<^sup>+\<^sup>+ ''c'' ''c''"
    by (meson tranclp.trancl_into_trancl tranclp.r_into_trancl)
  show "''c'' \<notin> set [''a'', ''b'']" by simp
qed

end
