(* ===== verification/External_Revision.thy ===== *)
theory External_Revision
  imports Revision External_Types
begin

text \<open>
  Imported revisions (\<open>src/domain/external-catalog/canonical-revision-v2.ts\<close>): construction from an
  imported skill and its provenance, the content identity, the bundle hash, and the integrity check.
  An optional field that is undefined is absent. The record is first built with empty hashes; the two
  payloads that are hashed are read from it, as the source reads them from the same values.
\<close>

subsection \<open>Data\<close>

record ExternalPublishedProvenance =
  ep_repositoryId :: int
  ep_owner :: string
  ep_repository :: string
  ep_commitSha :: string
  ep_skillPath :: string
  ep_sourceOwner :: string
  ep_spdxLicenseId :: string
  ep_licenseText :: string
  ep_licenseEvidencePath :: "string option"
  ep_licenseBlobSha :: "string option"
  ep_skillDeclaredSpdxId :: "string option"
  ep_noticeText :: "string option"
  ep_noticeEvidencePath :: "string option"
  ep_noticeBlobSha :: "string option"

record ImportedSkillInput =
  im_name :: string
  im_description :: string
  im_skillPath :: string
  im_instructions :: string
  im_invocationMode :: InvocationMode
  im_resources :: "ExternalResourceInput list"
  im_dependencies :: "ExternalDependencyInput list"

record CreateExternalRevisionInput =
  ce_skillId :: string
  ce_provenance :: ExternalPublishedProvenance
  ce_skill :: ImportedSkillInput

record ExternalSkillRevision =
  es_trustAtPublication :: TrustAtPublication
  es_skillId :: string
  es_revision :: string
  es_name :: string
  es_description :: string
  es_provenance :: ExternalPublishedProvenance
  es_invocationMode :: InvocationMode
  es_instructions :: string
  es_instructionsSha256 :: string
  es_resources :: "VerifiedResource list"
  es_dependencies :: "ExternalDependencyInput list"
  es_contentIdentitySha256 :: string
  es_bundleSha256 :: string
  es_canonicalBytes :: string

subsection \<open>JSON forms\<close>

definition opt_str :: "string \<Rightarrow> string option \<Rightarrow> (string \<times> json) list" where
  "opt_str key v = opt_field key (map_option JStr v)"

definition external_dependency_members :: "ExternalDependencyInput \<Rightarrow> (string \<times> json) list" where
  "external_dependency_members d =
     (''skillName'', JStr (dep_skillName d)) #
     opt_str ''targetSkillId'' (dep_targetSkillId d) @ opt_str ''targetRevision'' (dep_targetRevision d) @
     [(''required'', JBool (dep_required d)), (''evidenceKind'', JStr (evidence_text (dep_evidenceKind d))),
      (''evidenceLocator'', JStr (dep_evidenceLocator d))]"

definition external_dependency_json :: "ExternalDependencyInput \<Rightarrow> json" where
  "external_dependency_json d = JObj (external_dependency_members d)"

definition source_members :: "runtime \<Rightarrow> ExternalPublishedProvenance \<Rightarrow> (string \<times> json) list" where
  "source_members rt p =
     [(''provider'', JStr ''github''), (''repositoryId'', JNum (ep_repositoryId p)),
      (''skillPath'', JStr (ep_skillPath p)), (''sourceOwner'', JStr (ep_sourceOwner p)),
      (''spdxLicenseId'', JStr (ep_spdxLicenseId p)), (''licenseSha256'', JStr (sha256 rt (ep_licenseText p)))] @
     opt_str ''licenseEvidencePath'' (ep_licenseEvidencePath p) @
     opt_str ''licenseBlobSha'' (ep_licenseBlobSha p) @
     opt_str ''skillDeclaredSpdxId'' (ep_skillDeclaredSpdxId p) @
     opt_str ''noticeSha256'' (map_option (sha256 rt) (ep_noticeText p)) @
     opt_str ''noticeEvidencePath'' (ep_noticeEvidencePath p) @
     opt_str ''noticeBlobSha'' (ep_noticeBlobSha p)"

definition payload_members :: "(string \<times> json) list \<Rightarrow> ExternalSkillRevision \<Rightarrow> (string \<times> json) list" where
  "payload_members source r =
     [(''schemaVersion'', JNum 2), (''trustAtPublication'', JStr ''structurally-verified''),
      (''skillId'', JStr (es_skillId r)), (''name'', JStr (es_name r)), (''description'', JStr (es_description r)),
      (''source'', JObj source), (''invocationMode'', JStr (invocation_text (es_invocationMode r))),
      (''instructions'', JStr (es_instructions r)), (''resources'', JArr (map resource_json (es_resources r))),
      (''dependencies'', JArr (map external_dependency_json (es_dependencies r)))]"

definition immutableContent :: "runtime \<Rightarrow> ExternalSkillRevision \<Rightarrow> json" where
  "immutableContent rt r = JObj (payload_members (source_members rt (es_provenance r)) r)"

definition bundle_source_members :: "runtime \<Rightarrow> ExternalPublishedProvenance \<Rightarrow> (string \<times> json) list" where
  "bundle_source_members rt p =
     source_members rt p @
     [(''owner'', JStr (ep_owner p)), (''repository'', JStr (ep_repository p)), (''commitSha'', JStr (ep_commitSha p))]"

definition bundlePayload :: "runtime \<Rightarrow> ExternalSkillRevision \<Rightarrow> json" where
  "bundlePayload rt r =
     JObj (payload_members (bundle_source_members rt (es_provenance r)) r @
       [(''licenseText'', JStr (ep_licenseText (es_provenance r)))] @
       opt_str ''noticeText'' (ep_noticeText (es_provenance r)))"

definition external_provenance_members :: "ExternalPublishedProvenance \<Rightarrow> (string \<times> json) list" where
  "external_provenance_members p =
     [(''provider'', JStr ''github''), (''repositoryId'', JNum (ep_repositoryId p)), (''owner'', JStr (ep_owner p)),
      (''repository'', JStr (ep_repository p)), (''commitSha'', JStr (ep_commitSha p)),
      (''skillPath'', JStr (ep_skillPath p)), (''sourceOwner'', JStr (ep_sourceOwner p)),
      (''spdxLicenseId'', JStr (ep_spdxLicenseId p)), (''licenseText'', JStr (ep_licenseText p))] @
     opt_str ''licenseEvidencePath'' (ep_licenseEvidencePath p) @
     opt_str ''licenseBlobSha'' (ep_licenseBlobSha p) @
     opt_str ''skillDeclaredSpdxId'' (ep_skillDeclaredSpdxId p) @
     opt_str ''noticeText'' (ep_noticeText p) @
     opt_str ''noticeEvidencePath'' (ep_noticeEvidencePath p) @
     opt_str ''noticeBlobSha'' (ep_noticeBlobSha p)"

definition external_revision_json :: "ExternalSkillRevision \<Rightarrow> json" where
  "external_revision_json r = JObj
     [(''schemaVersion'', JNum 2), (''trustAtPublication'', JStr (trust_text (es_trustAtPublication r))),
      (''skillId'', JStr (es_skillId r)), (''revision'', JStr (es_revision r)), (''name'', JStr (es_name r)),
      (''description'', JStr (es_description r)),
      (''provenance'', JObj (external_provenance_members (es_provenance r))),
      (''invocationMode'', JStr (invocation_text (es_invocationMode r))),
      (''instructions'', JStr (es_instructions r)), (''instructionsSha256'', JStr (es_instructionsSha256 r)),
      (''resources'', JArr (map resource_json (es_resources r))),
      (''dependencies'', JArr (map external_dependency_json (es_dependencies r))),
      (''contentIdentitySha256'', JStr (es_contentIdentitySha256 r)), (''bundleSha256'', JStr (es_bundleSha256 r)),
      (''canonicalBytes'', JStr (es_canonicalBytes r))]"

subsection \<open>Construction\<close>

definition MAX_DEPENDENCIES :: nat where
  "MAX_DEPENDENCIES = 32"

definition MAX_BUNDLE_BYTES :: nat where
  "MAX_BUNDLE_BYTES = 2 * 1024 * 1024"

definition normalizedText :: "runtime \<Rightarrow> string \<Rightarrow> NormalizedText res" where
  "normalizedText rt v =
     and_then (normalizeUtf8 rt v MAX_TEXT_BYTES) (\<lambda>normalized.
       if 256 * 1024 < nt_byteLength normalized then Inl (Error ''TEXT_OVERSIZED'') else Inr normalized)"

definition optional_text :: "runtime \<Rightarrow> string option \<Rightarrow> string option res" where
  "optional_text rt v =
     (case v of None \<Rightarrow> Inr None | Some t \<Rightarrow> and_then (normalizedText rt t) (\<lambda>n. Inr (Some (nt_text n))))"

definition optional_sha :: "string option \<Rightarrow> unit res" where
  "optional_sha v = (case v of None \<Rightarrow> Inr () | Some sha \<Rightarrow> and_then (assertGitSha sha) (\<lambda>_. Inr ()))"

definition external_resource :: "runtime \<Rightarrow> ExternalResourceInput \<Rightarrow> VerifiedResource res" where
  "external_resource rt resource =
     and_then (assertSafeResourcePath (xr_path resource)) (\<lambda>_.
     and_then (normalizedText rt (xr_content resource)) (\<lambda>content.
       Inr \<lparr>rm_path = xr_path resource, rm_mediaType = xr_mediaType resource, rm_byteLength = nt_byteLength content,
            rm_sha256 = sha256 rt (nt_text content), vr_content = nt_text content\<rparr>))"

definition by_skill_name :: "runtime \<Rightarrow> ExternalDependencyInput \<Rightarrow> ExternalDependencyInput \<Rightarrow> int" where
  "by_skill_name rt left right = localeCompare rt (dep_skillName left) (dep_skillName right)"

definition external_draft ::
  "runtime \<Rightarrow> CreateExternalRevisionInput \<Rightarrow> string \<Rightarrow> string \<Rightarrow> string option \<Rightarrow> VerifiedResource list \<Rightarrow>
     ExternalDependencyInput list \<Rightarrow> ExternalSkillRevision" where
  "external_draft rt input instr license notice files deps =
     \<lparr>es_trustAtPublication = StructurallyVerified, es_skillId = ce_skillId input, es_revision = '''',
      es_name = im_name (ce_skill input), es_description = im_description (ce_skill input),
      es_provenance = (ce_provenance input)\<lparr>ep_licenseText := license, ep_noticeText := notice\<rparr>,
      es_invocationMode = im_invocationMode (ce_skill input), es_instructions = instr,
      es_instructionsSha256 = sha256 rt instr, es_resources = files, es_dependencies = deps,
      es_contentIdentitySha256 = '''', es_bundleSha256 = '''', es_canonicalBytes = ''''\<rparr>"

definition finish_external :: "runtime \<Rightarrow> ExternalSkillRevision \<Rightarrow> ExternalSkillRevision res" where
  "finish_external rt draft =
     and_then (canonicalJson (immutableContent rt draft)) (\<lambda>content.
     and_then (canonicalJson (bundlePayload rt draft)) (\<lambda>canonicalBytes.
       if MAX_BUNDLE_BYTES < length canonicalBytes then Inl (Error ''BUNDLE_OVERSIZED'')
       else Inr (draft\<lparr>es_revision := ''gh-'' @ sha256 rt canonicalBytes,
                       es_contentIdentitySha256 := sha256 rt content,
                       es_bundleSha256 := sha256 rt canonicalBytes, es_canonicalBytes := canonicalBytes\<rparr>)))"

definition createExternalSkillRevision ::
  "runtime \<Rightarrow> CreateExternalRevisionInput \<Rightarrow> ExternalSkillRevision res" where
  "createExternalSkillRevision rt input =
     (let provenance = ce_provenance input; skill = ce_skill input
      in and_then (assertGitSha (ep_commitSha provenance)) (\<lambda>_.
      and_then (ensure (0 < ep_repositoryId provenance) (Error ''INVALID_REPOSITORY_ID'')) (\<lambda>_.
      and_then (ensure (js_length (ep_spdxLicenseId provenance) \<noteq> 0) (Error ''LICENSE_MISSING'')) (\<lambda>_.
      and_then (ensure (length (im_resources skill) \<le> MAX_RESOURCES) (Error ''RESOURCE_OVERSIZED'')) (\<lambda>_.
      and_then (ensure (length (im_dependencies skill) \<le> MAX_DEPENDENCIES) (Error ''DEPENDENCY_OVERSIZED'')) (\<lambda>_.
      and_then (normalizedText rt (im_instructions skill)) (\<lambda>instr.
      and_then (normalizedText rt (ep_licenseText provenance)) (\<lambda>license.
      and_then (optional_text rt (ep_noticeText provenance)) (\<lambda>notice.
      and_then (traverse (external_resource rt) (im_resources skill)) (\<lambda>unsorted.
      let resources = js_sort (by_path rt) unsorted;
          dependencies = js_sort (by_skill_name rt) (im_dependencies skill)
      in and_then (ensure (length (uniq (map rm_path resources)) = length resources) (Error ''DUPLICATE_RESOURCE'')) (\<lambda>_.
      and_then (ensure (length (uniq (map dep_skillName dependencies)) = length dependencies)
          (Error ''DUPLICATE_DEPENDENCY'')) (\<lambda>_.
      and_then (optional_sha (ep_licenseBlobSha provenance)) (\<lambda>_.
      and_then (optional_sha (ep_noticeBlobSha provenance)) (\<lambda>_.
      finish_external rt (external_draft rt input (nt_text instr) (nt_text license) notice resources dependencies)
      ))))))))))))))"

definition external_input :: "ExternalSkillRevision \<Rightarrow> CreateExternalRevisionInput" where
  "external_input r =
     \<lparr>ce_skillId = es_skillId r, ce_provenance = es_provenance r,
      ce_skill = \<lparr>im_name = es_name r, im_description = es_description r, im_skillPath = ep_skillPath (es_provenance r),
        im_instructions = es_instructions r, im_invocationMode = es_invocationMode r,
        im_resources = map (\<lambda>resource. \<lparr>xr_path = rm_path resource, xr_mediaType = rm_mediaType resource,
          xr_content = vr_content resource\<rparr>) (es_resources r),
        im_dependencies = es_dependencies r\<rparr>\<rparr>"

definition assertExternalRevisionIntegrity :: "runtime \<Rightarrow> ExternalSkillRevision \<Rightarrow> ExternalSkillRevision res" where
  "assertExternalRevisionIntegrity rt r =
     and_then (createExternalSkillRevision rt (external_input r)) (\<lambda>reconstructed.
     and_then (canonicalJson (external_revision_json reconstructed)) (\<lambda>expected.
     and_then (canonicalJson (external_revision_json r)) (\<lambda>actual.
       if expected \<noteq> actual then Inl (Error ''REVISION_INTEGRITY_FAILED'') else Inr r)))"

subsection \<open>The JSON forms are faithful\<close>

lemma lookup_opt_str [simp]: "map_of (opt_str key v) k = (if k = key then map_option JStr v else None)"
  by (simp add: opt_str_def)

lemma keys_opt_str [simp]: "fst ` set (opt_str key v) = (if v = None then {} else {key})"
  by (cases v) (simp_all add: opt_str_def)

lemma distinct_opt_str [simp]: "distinct (map fst (opt_str key v))"
  by (simp add: opt_str_def)

lemma distinct_external_members:
  "distinct (map fst (external_dependency_members d))"
  "distinct (map fst (source_members rt p))"
  "distinct (map fst (bundle_source_members rt p))"
  "distinct (map fst (external_provenance_members p))"
  unfolding external_dependency_members_def source_members_def bundle_source_members_def
    external_provenance_members_def map_append distinct_append set_append set_map list.map
  by (simp_all add: Int_Un_distrib Int_Un_distrib2)

lemmas member_lookup = lookup_append option.case_eq_if

lemma external_dependency_lookup:
  "map_of (external_dependency_members d) ''skillName'' = Some (JStr (dep_skillName d))"
  "map_of (external_dependency_members d) ''targetSkillId'' = map_option JStr (dep_targetSkillId d)"
  "map_of (external_dependency_members d) ''targetRevision'' = map_option JStr (dep_targetRevision d)"
  "map_of (external_dependency_members d) ''required'' = Some (JBool (dep_required d))"
  "map_of (external_dependency_members d) ''evidenceKind'' = Some (JStr (evidence_text (dep_evidenceKind d)))"
  "map_of (external_dependency_members d) ''evidenceLocator'' = Some (JStr (dep_evidenceLocator d))"
  by (simp_all add: external_dependency_members_def member_lookup del: map_of_append)

lemma external_dependency_json_inj:
  assumes "norm (external_dependency_json m) = norm (external_dependency_json n)"
  shows "m = n"
proof -
  note l = norm_lookup [OF assms [unfolded external_dependency_json_def] distinct_external_members(1) distinct_external_members(1)]
  have "dep_targetSkillId m = dep_targetSkillId n" "dep_targetRevision m = dep_targetRevision n"
    using l [of "''targetSkillId''"] l [of "''targetRevision''"]
    by (simp_all only: external_dependency_lookup option_JStr_inj)
  moreover have "dep_skillName m = dep_skillName n" "dep_required m = dep_required n"
    "dep_evidenceKind m = dep_evidenceKind n" "dep_evidenceLocator m = dep_evidenceLocator n"
    using l [of "''skillName''"] l [of "''required''"] l [of "''evidenceKind''"] l [of "''evidenceLocator''"]
    by (simp_all add: external_dependency_lookup text_injs)
  ultimately show "m = n" by (cases m; cases n) simp
qed

lemma external_provenance_lookup:
  "map_of (external_provenance_members p) ''repositoryId'' = Some (JNum (ep_repositoryId p))"
  "map_of (external_provenance_members p) ''owner'' = Some (JStr (ep_owner p))"
  "map_of (external_provenance_members p) ''repository'' = Some (JStr (ep_repository p))"
  "map_of (external_provenance_members p) ''commitSha'' = Some (JStr (ep_commitSha p))"
  "map_of (external_provenance_members p) ''skillPath'' = Some (JStr (ep_skillPath p))"
  "map_of (external_provenance_members p) ''sourceOwner'' = Some (JStr (ep_sourceOwner p))"
  "map_of (external_provenance_members p) ''spdxLicenseId'' = Some (JStr (ep_spdxLicenseId p))"
  "map_of (external_provenance_members p) ''licenseText'' = Some (JStr (ep_licenseText p))"
  "map_of (external_provenance_members p) ''licenseEvidencePath'' = map_option JStr (ep_licenseEvidencePath p)"
  "map_of (external_provenance_members p) ''licenseBlobSha'' = map_option JStr (ep_licenseBlobSha p)"
  "map_of (external_provenance_members p) ''skillDeclaredSpdxId'' = map_option JStr (ep_skillDeclaredSpdxId p)"
  "map_of (external_provenance_members p) ''noticeText'' = map_option JStr (ep_noticeText p)"
  "map_of (external_provenance_members p) ''noticeEvidencePath'' = map_option JStr (ep_noticeEvidencePath p)"
  "map_of (external_provenance_members p) ''noticeBlobSha'' = map_option JStr (ep_noticeBlobSha p)"
  by (simp_all add: external_provenance_members_def member_lookup del: map_of_append)

lemma external_provenance_inj:
  assumes "norm (JObj (external_provenance_members p)) = norm (JObj (external_provenance_members q))"
  shows "p = q"
proof -
  note l = norm_lookup [OF assms distinct_external_members(4) distinct_external_members(4)]
  have "ep_licenseEvidencePath p = ep_licenseEvidencePath q" "ep_licenseBlobSha p = ep_licenseBlobSha q"
    "ep_skillDeclaredSpdxId p = ep_skillDeclaredSpdxId q" "ep_noticeText p = ep_noticeText q"
    "ep_noticeEvidencePath p = ep_noticeEvidencePath q" "ep_noticeBlobSha p = ep_noticeBlobSha q"
    using l [of "''licenseEvidencePath''"] l [of "''licenseBlobSha''"] l [of "''skillDeclaredSpdxId''"]
      l [of "''noticeText''"] l [of "''noticeEvidencePath''"] l [of "''noticeBlobSha''"]
    by (simp_all only: external_provenance_lookup option_JStr_inj)
  moreover have "ep_repositoryId p = ep_repositoryId q" "ep_owner p = ep_owner q" "ep_repository p = ep_repository q"
    "ep_commitSha p = ep_commitSha q" "ep_skillPath p = ep_skillPath q" "ep_sourceOwner p = ep_sourceOwner q"
    "ep_spdxLicenseId p = ep_spdxLicenseId q" "ep_licenseText p = ep_licenseText q"
    using l [of "''repositoryId''"] l [of "''owner''"] l [of "''repository''"] l [of "''commitSha''"]
      l [of "''skillPath''"] l [of "''sourceOwner''"] l [of "''spdxLicenseId''"] l [of "''licenseText''"]
    by (simp_all add: external_provenance_lookup)
  ultimately show ?thesis by (cases p; cases q) simp
qed

lemma external_revision_json_inj:
  assumes "norm (external_revision_json m) = norm (external_revision_json n)"
  shows "m = n"
proof -
  note l = norm_lookup [OF assms [unfolded external_revision_json_def]]
  have "es_skillId m = es_skillId n" "es_revision m = es_revision n" "es_name m = es_name n"
    "es_description m = es_description n" "es_instructions m = es_instructions n"
    "es_instructionsSha256 m = es_instructionsSha256 n"
    using l [of "''skillId''"] l [of "''revision''"] l [of "''name''"] l [of "''description''"]
      l [of "''instructions''"] l [of "''instructionsSha256''"] by simp_all
  moreover have "es_contentIdentitySha256 m = es_contentIdentitySha256 n" "es_bundleSha256 m = es_bundleSha256 n"
    "es_canonicalBytes m = es_canonicalBytes n" "es_trustAtPublication m = es_trustAtPublication n"
    "es_invocationMode m = es_invocationMode n"
    using l [of "''contentIdentitySha256''"] l [of "''bundleSha256''"] l [of "''canonicalBytes''"]
      l [of "''trustAtPublication''"] l [of "''invocationMode''"] by (simp_all add: text_injs)
  moreover have "es_provenance m = es_provenance n"
    by (rule external_provenance_inj) (use l [of "''provenance''"] in \<open>simp del: norm.simps\<close>)
  moreover have "es_resources m = es_resources n"
    by (rule map_list_norm_inj [OF resource_json_inj]) (use l [of "''resources''"] in \<open>simp_all del: norm.simps\<close>)
  moreover have "es_dependencies m = es_dependencies n"
    by (rule map_list_norm_inj [OF external_dependency_json_inj])
      (use l [of "''dependencies''"] in \<open>simp_all del: norm.simps\<close>)
  ultimately show ?thesis by (cases m; cases n) simp
qed

lemma bundle_source_lookup:
  "map_of (bundle_source_members rt p) ''repositoryId'' = Some (JNum (ep_repositoryId p))"
  "map_of (bundle_source_members rt p) ''owner'' = Some (JStr (ep_owner p))"
  "map_of (bundle_source_members rt p) ''repository'' = Some (JStr (ep_repository p))"
  "map_of (bundle_source_members rt p) ''commitSha'' = Some (JStr (ep_commitSha p))"
  "map_of (bundle_source_members rt p) ''skillPath'' = Some (JStr (ep_skillPath p))"
  "map_of (bundle_source_members rt p) ''sourceOwner'' = Some (JStr (ep_sourceOwner p))"
  "map_of (bundle_source_members rt p) ''spdxLicenseId'' = Some (JStr (ep_spdxLicenseId p))"
  "map_of (bundle_source_members rt p) ''licenseEvidencePath'' = map_option JStr (ep_licenseEvidencePath p)"
  "map_of (bundle_source_members rt p) ''licenseBlobSha'' = map_option JStr (ep_licenseBlobSha p)"
  "map_of (bundle_source_members rt p) ''skillDeclaredSpdxId'' = map_option JStr (ep_skillDeclaredSpdxId p)"
  "map_of (bundle_source_members rt p) ''noticeEvidencePath'' = map_option JStr (ep_noticeEvidencePath p)"
  "map_of (bundle_source_members rt p) ''noticeBlobSha'' = map_option JStr (ep_noticeBlobSha p)"
  by (simp_all add: bundle_source_members_def source_members_def member_lookup del: map_of_append)

lemma distinct_bundle_members:
  "distinct (map fst (payload_members src r @ [(''licenseText'', JStr t)] @ opt_str ''noticeText'' v))"
  unfolding payload_members_def map_append distinct_append set_append set_map by (simp add: Int_Un_distrib)

definition same_core :: "ExternalSkillRevision \<Rightarrow> ExternalSkillRevision \<Rightarrow> bool" where
  "same_core r s \<longleftrightarrow>
     es_skillId r = es_skillId s \<and> es_name r = es_name s \<and> es_description r = es_description s \<and>
     es_provenance r = es_provenance s \<and> es_invocationMode r = es_invocationMode s \<and>
     es_instructions r = es_instructions s \<and> es_resources r = es_resources s \<and> es_dependencies r = es_dependencies s"

lemma bundlePayload_inj:
  assumes "norm (bundlePayload rt r) = norm (bundlePayload rt s)"
  shows "same_core r s"
proof -
  note top = norm_lookup [OF assms [unfolded bundlePayload_def] distinct_bundle_members distinct_bundle_members]
  note tops = payload_members_def member_lookup
  have src: "norm (JObj (bundle_source_members rt (es_provenance r))) =
      norm (JObj (bundle_source_members rt (es_provenance s)))"
    using top [of "''source''"] by (simp add: tops del: norm.simps map_of_append)
  note l = norm_lookup [OF src distinct_external_members(3) distinct_external_members(3)]
  let ?p = "es_provenance r" and ?q = "es_provenance s"
  have notice: "ep_noticeText ?p = ep_noticeText ?q"
    by (rule option_JStr_inj) (use top [of "''noticeText''"] in \<open>simp add: tops del: map_of_append\<close>)
  have "ep_licenseEvidencePath ?p = ep_licenseEvidencePath ?q" "ep_licenseBlobSha ?p = ep_licenseBlobSha ?q"
    "ep_skillDeclaredSpdxId ?p = ep_skillDeclaredSpdxId ?q" "ep_noticeEvidencePath ?p = ep_noticeEvidencePath ?q"
    "ep_noticeBlobSha ?p = ep_noticeBlobSha ?q"
    using l [of "''licenseEvidencePath''"] l [of "''licenseBlobSha''"] l [of "''skillDeclaredSpdxId''"]
      l [of "''noticeEvidencePath''"] l [of "''noticeBlobSha''"]
    by (simp_all only: bundle_source_lookup option_JStr_inj)
  moreover have "ep_repositoryId ?p = ep_repositoryId ?q" "ep_owner ?p = ep_owner ?q"
    "ep_repository ?p = ep_repository ?q" "ep_commitSha ?p = ep_commitSha ?q" "ep_skillPath ?p = ep_skillPath ?q"
    "ep_sourceOwner ?p = ep_sourceOwner ?q" "ep_spdxLicenseId ?p = ep_spdxLicenseId ?q"
    using l [of "''repositoryId''"] l [of "''owner''"] l [of "''repository''"] l [of "''commitSha''"]
      l [of "''skillPath''"] l [of "''sourceOwner''"] l [of "''spdxLicenseId''"]
    by (simp_all add: bundle_source_lookup)
  moreover have "ep_licenseText ?p = ep_licenseText ?q"
    using top [of "''licenseText''"] by (simp add: tops del: map_of_append)
  ultimately have "?p = ?q" using notice by (cases ?p; cases ?q) simp
  moreover have "es_skillId r = es_skillId s" "es_name r = es_name s" "es_description r = es_description s"
    "es_invocationMode r = es_invocationMode s" "es_instructions r = es_instructions s"
    using top [of "''skillId''"] top [of "''name''"] top [of "''description''"] top [of "''invocationMode''"]
      top [of "''instructions''"] by (simp_all add: tops text_injs del: map_of_append)
  moreover have "es_resources r = es_resources s"
    by (rule map_list_norm_inj [OF resource_json_inj])
      (use top [of "''resources''"] in \<open>simp_all add: tops del: norm.simps map_of_append\<close>)
  moreover have "es_dependencies r = es_dependencies s"
    by (rule map_list_norm_inj [OF external_dependency_json_inj])
      (use top [of "''dependencies''"] in \<open>simp_all add: tops del: norm.simps map_of_append\<close>)
  ultimately show ?thesis by (simp add: same_core_def)
qed

subsection \<open>What construction determines\<close>

lemma payload_core:
  assumes "same_core r s"
  shows "immutableContent rt r = immutableContent rt s" "bundlePayload rt r = bundlePayload rt s"
  using assms by (simp_all add: same_core_def immutableContent_def bundlePayload_def payload_members_def)

lemma finish_external_parts:
  assumes "finish_external rt draft = Inr r"
  shows "same_core r draft \<and> es_trustAtPublication r = es_trustAtPublication draft \<and>
    es_instructionsSha256 r = es_instructionsSha256 draft \<and>
    canonicalJson (bundlePayload rt r) = Inr (es_canonicalBytes r) \<and>
    es_bundleSha256 r = sha256 rt (es_canonicalBytes r) \<and> es_revision r = ''gh-'' @ es_bundleSha256 r \<and>
    length (es_canonicalBytes r) \<le> MAX_BUNDLE_BYTES \<and>
    (\<exists>content. canonicalJson (immutableContent rt r) = Inr content \<and> es_contentIdentitySha256 r = sha256 rt content)"
proof -
  from assms obtain content bytes where c: "canonicalJson (immutableContent rt draft) = Inr content"
    and b: "canonicalJson (bundlePayload rt draft) = Inr bytes" "length bytes \<le> MAX_BUNDLE_BYTES"
    and r: "r = draft\<lparr>es_revision := ''gh-'' @ sha256 rt bytes, es_contentIdentitySha256 := sha256 rt content,
      es_bundleSha256 := sha256 rt bytes, es_canonicalBytes := bytes\<rparr>"
    by (auto simp: finish_external_def split: if_splits)
  have core: "same_core r draft" by (simp add: r same_core_def)
  with payload_core [OF core, of rt] c b show ?thesis by (simp add: r)
qed

definition created_external :: "runtime \<Rightarrow> ExternalSkillRevision \<Rightarrow> bool" where
  "created_external rt r \<longleftrightarrow>
     es_trustAtPublication r = StructurallyVerified \<and> hex_string 40 (ep_commitSha (es_provenance r)) \<and>
     0 < ep_repositoryId (es_provenance r) \<and>
     es_instructionsSha256 r = sha256 rt (es_instructions r) \<and>
     length (es_resources r) \<le> MAX_RESOURCES \<and> distinct (map rm_path (es_resources r)) \<and>
     length (es_dependencies r) \<le> MAX_DEPENDENCIES \<and> distinct (map dep_skillName (es_dependencies r)) \<and>
     list_all (\<lambda>v. assertSafeResourcePath (rm_path v) = Inr () \<and> rm_sha256 v = sha256 rt (vr_content v)) (es_resources r) \<and>
     canonicalJson (bundlePayload rt r) = Inr (es_canonicalBytes r) \<and>
     es_bundleSha256 r = sha256 rt (es_canonicalBytes r) \<and> es_revision r = ''gh-'' @ es_bundleSha256 r \<and>
     length (es_canonicalBytes r) \<le> MAX_BUNDLE_BYTES \<and>
     (\<exists>content. canonicalJson (immutableContent rt r) = Inr content \<and> es_contentIdentitySha256 r = sha256 rt content)"

lemma createExternal_cases:
  assumes "createExternalSkillRevision rt input = Inr r"
  obtains instr license :: NormalizedText and notice unsorted where
    "hex_string 40 (ep_commitSha (ce_provenance input))" "0 < ep_repositoryId (ce_provenance input)"
    "length (im_resources (ce_skill input)) \<le> MAX_RESOURCES"
    "length (im_dependencies (ce_skill input)) \<le> MAX_DEPENDENCIES"
    "normalizedText rt (im_instructions (ce_skill input)) = Inr instr"
    "normalizedText rt (ep_licenseText (ce_provenance input)) = Inr license"
    "optional_text rt (ep_noticeText (ce_provenance input)) = Inr notice"
    "traverse (external_resource rt) (im_resources (ce_skill input)) = Inr unsorted"
    "distinct (map rm_path unsorted)" "distinct (map dep_skillName (im_dependencies (ce_skill input)))"
    "finish_external rt (external_draft rt input (nt_text instr) (nt_text license) notice
       (js_sort (by_path rt) unsorted) (js_sort (by_skill_name rt) (im_dependencies (ce_skill input)))) = Inr r"
proof -
  have paths: "length (uniq (map rm_path (js_sort c xs))) = length (js_sort c xs) \<longleftrightarrow> distinct (map rm_path xs)" for c xs
    using length_uniq_distinct [of "map rm_path (js_sort c xs)"] by simp
  have names: "length (uniq (map dep_skillName (js_sort c xs))) = length (js_sort c xs) \<longleftrightarrow> distinct (map dep_skillName xs)"
    for c and xs :: "ExternalDependencyInput list"
    using length_uniq_distinct [of "map dep_skillName (js_sort c xs)"] by simp
  from assms show thesis
    unfolding createExternalSkillRevision_def Let_def and_then_Inr ensure_Inr
    by (elim exE conjE) (rule that; simp_all only: paths names; auto simp: assertGitSha_def split: if_splits)
qed

lemma createExternal_created:
  assumes "createExternalSkillRevision rt input = Inr r"
  shows "created_external rt r"
proof (rule createExternal_cases [OF assms])
  fix instr license :: NormalizedText and notice unsorted
  assume a: "hex_string 40 (ep_commitSha (ce_provenance input))" "0 < ep_repositoryId (ce_provenance input)"
    "length (im_resources (ce_skill input)) \<le> MAX_RESOURCES"
    "length (im_dependencies (ce_skill input)) \<le> MAX_DEPENDENCIES"
    "distinct (map rm_path unsorted)" "distinct (map dep_skillName (im_dependencies (ce_skill input)))"
    and each: "traverse (external_resource rt) (im_resources (ce_skill input)) = Inr unsorted"
    and fin: "finish_external rt (external_draft rt input (nt_text instr) (nt_text license) notice
       (js_sort (by_path rt) unsorted) (js_sort (by_skill_name rt) (im_dependencies (ce_skill input)))) = Inr r"
  have all2: "list_all2 (\<lambda>x y. external_resource rt x = Inr y) (im_resources (ce_skill input)) unsorted"
    using each by (simp add: traverse_Inr)
  then have res: "list_all (\<lambda>v. assertSafeResourcePath (rm_path v) = Inr () \<and> rm_sha256 v = sha256 rt (vr_content v)) unsorted"
    by (induction rule: list_all2_induct) (auto simp: external_resource_def)
  have len: "length unsorted = length (im_resources (ce_skill input))" using all2 by (simp add: list_all2_lengthD)
  note parts = finish_external_parts [OF fin]
  have core: "same_core r (external_draft rt input (nt_text instr) (nt_text license) notice
       (js_sort (by_path rt) unsorted) (js_sort (by_skill_name rt) (im_dependencies (ce_skill input))))"
    using parts by blast
  show ?thesis
    using a res len core parts
    by (simp add: created_external_def same_core_def external_draft_def list_all_iff)
qed

subsection \<open>Length and contents of canonical texts\<close>

lemma writable_of_canonicalize: "canonicalize v = Inr t \<Longrightarrow> writable v"
proof (induction v arbitrary: t rule: canonicalize.induct)
  case (6 entries)
  then show ?case by (fastforce simp: traverse_Inr list_all2_conv_all_nth list_all_length in_set_conv_nth)
next
  case (9 members)
  let ?f = "\<lambda>(key, entry). if entry = JUndefined then Inl (Error ''Canonical JSON does not allow undefined'')
       else and_then (canonicalize entry) (\<lambda>text. Inr (quote key @ '':'' @ text))"
  from "9.prems" obtain parts where parts: "list_all2 (\<lambda>x y. ?f x = Inr y) (sort_key fst members) parts"
    by (auto simp: traverse_Inr)
  have "writable (snd m)" if m: "m \<in> set members" for m
  proof -
    from m have "m \<in> set (sort_key fst members)" by simp
    with parts obtain part where "?f m = Inr part"
      unfolding list_all2_conv_all_nth in_set_conv_nth by blast
    then obtain s where "snd m \<noteq> JUndefined" "canonicalize (snd m) = Inr s"
      by (auto split: prod.splits if_splits)
    with "9.IH" [of m "fst m" "snd m"] m show ?thesis by simp
  qed
  then show ?case by (auto simp: list_all_iff)
qed (auto split: if_splits)

fun weight :: "json \<Rightarrow> nat" where
  "weight (JStr s) = 6 * length s + 2"
| "weight (JNum n) = length (show_int n)"
| "weight (JArr entries) = 2 + sum_list (map (\<lambda>v. weight v + 1) entries)"
| "weight (JObj members) = 2 + sum_list (map (\<lambda>(key, v). 6 * length key + 4 + weight v) members)"
| "weight _ = 5"

lemma length_esc: "length (esc c) \<le> 6"
  by (simp add: esc_def)

lemma length_quote: "length (quote s) \<le> 6 * length s + 2"
proof -
  have "length (concat (map esc s)) \<le> 6 * length s"
  proof (induction s)
    case (Cons c s)
    then show ?case using length_esc [of c] by simp
  qed simp
  then show ?thesis by (simp add: quote_def)
qed

lemma length_join: "length (join '','' parts) \<le> sum_list (map (\<lambda>p. length p + 1) parts)"
  by (induction "'',''" parts rule: join.induct) auto

lemma sum_list_all2_le:
  "list_all2 (\<lambda>x y. g y \<le> (h x :: nat)) xs ys \<Longrightarrow> sum_list (map g ys) \<le> sum_list (map h xs)"
  by (induction rule: list_all2_induct) auto

lemma sum_list_sort_key: "sum_list (map f (sort_key k xs)) = sum_list (map f xs)" for f :: "_ \<Rightarrow> nat"
proof -
  have "mset (map f (sort_key k xs)) = mset (map f xs)" by simp
  then have "sum_mset (mset (map f (sort_key k xs))) = sum_mset (mset (map f xs))" by (rule arg_cong)
  then show ?thesis unfolding sum_mset_sum_list .
qed

lemma length_canonicalize: "canonicalize v = Inr t \<Longrightarrow> length t \<le> weight v"
proof (induction v arbitrary: t rule: canonicalize.induct)
  case (3 s)
  then show ?case using length_quote [of s] by auto
next
  case (6 entries)
  then obtain parts where t: "t = CHR ''['' # join '','' parts @ '']''"
    and parts: "list_all2 (\<lambda>x y. canonicalize x = Inr y) entries parts" by (auto simp: traverse_Inr)
  from parts have "list_all2 (\<lambda>x y. length y + 1 \<le> weight x + 1) entries parts"
    by (rule list.rel_mono_strong) (use "6.IH" in auto)
  from sum_list_all2_le [OF this] length_join [of parts] t show ?case by simp
next
  case (9 members)
  let ?f = "\<lambda>(key, entry). if entry = JUndefined then Inl (Error ''Canonical JSON does not allow undefined'')
       else and_then (canonicalize entry) (\<lambda>text. Inr (quote key @ '':'' @ text))"
  from "9.prems" obtain parts where t: "t = CHR ''{'' # join '','' parts @ ''}''"
    and parts: "list_all2 (\<lambda>x y. ?f x = Inr y) (sort_key fst members) parts"
    by (auto simp: traverse_Inr)
  have one: "length part + 1 \<le> (case m of (key, v) \<Rightarrow> 6 * length key + 4 + weight v)"
    if m: "m \<in> set (sort_key fst members)" and "?f m = Inr part" for m part
  proof -
    from that(2) obtain s where s: "snd m \<noteq> JUndefined" "canonicalize (snd m) = Inr s"
      "part = quote (fst m) @ '':'' @ s" by (auto split: prod.splits if_splits)
    have "length s \<le> weight (snd m)" using "9.IH" [of m "fst m" "snd m" s] m s by simp
    with length_quote [of "fst m"] s(3) show ?thesis by (simp add: case_prod_beta)
  qed
  from parts have "list_all2 (\<lambda>x y. length y + 1 \<le> (case x of (key, v) \<Rightarrow> 6 * length key + 4 + weight v)) (sort_key fst members) parts"
    by (rule list.rel_mono_strong) (use one in auto)
  from sum_list_all2_le [OF this]
  have "sum_list (map (\<lambda>p. length p + 1) parts) \<le> sum_list (map (\<lambda>(key, v). 6 * length key + 4 + weight v) (sort_key fst members))" .
  also have "\<dots> = sum_list (map (\<lambda>(key, v). 6 * length key + 4 + weight v) members)"
    by (rule sum_list_sort_key)
  finally show ?case using length_join [of parts] t by simp
qed (auto split: if_splits)

subsection \<open>Properties\<close>

lemma created_external_pinned:
  assumes "created_external rt r" and "created_external rt s" and "es_canonicalBytes r = es_canonicalBytes s"
  shows "r = s"
proof -
  have b: "canonicalJson (bundlePayload rt r) = Inr (es_canonicalBytes r)"
    "canonicalJson (bundlePayload rt s) = Inr (es_canonicalBytes r)"
    using assms by (simp_all add: created_external_def)
  have core: "same_core r s" by (rule bundlePayload_inj [OF canonicalJson_norm_eq [OF b]])
  then have "es_contentIdentitySha256 r = es_contentIdentitySha256 s"
    using assms(1,2) payload_core(1) [OF core, of rt] by (auto simp: created_external_def)
  with core assms show ?thesis
    by (cases r; cases s) (simp add: created_external_def same_core_def)
qed

lemma created_external_json:
  assumes "created_external rt r"
  shows "\<exists>t. canonicalJson (external_revision_json r) = Inr t"
proof -
  have w: "writable (bundlePayload rt r)"
    using assms writable_of_canonicalize by (auto simp: created_external_def canonicalJson_def)
  then have parts: "list_all (\<lambda>v. writable (resource_json v)) (es_resources r)"
    "list_all (\<lambda>d. writable (external_dependency_json d)) (es_dependencies r)"
    "\<bar>ep_repositoryId (es_provenance r)\<bar> \<le> MAX_SAFE_INTEGER"
    by (auto simp: bundlePayload_def payload_members_def bundle_source_members_def source_members_def list_all_iff)
  have opt: "writable entry" if "(key, entry) \<in> set (opt_str k v)" for key entry k v
    using that by (cases v) (simp_all add: opt_str_def opt_field_def)
  have "writable (external_revision_json r)"
    using parts opt by (auto simp: external_revision_json_def external_provenance_members_def list_all_iff MAX_SAFE_INTEGER_def
        dest: opt)
  then show ?thesis unfolding canonicalJson_def by (rule canonicalize_total)
qed

lemma assertExternal_reconstructs:
  assumes "assertExternalRevisionIntegrity rt r = Inr r'"
  shows "r' = r \<and> createExternalSkillRevision rt (external_input r) = Inr r"
proof -
  from assms obtain q t where q: "createExternalSkillRevision rt (external_input r) = Inr q"
    "canonicalJson (external_revision_json q) = Inr t" "canonicalJson (external_revision_json r) = Inr t" "r' = r"
    unfolding assertExternalRevisionIntegrity_def and_then_Inr by (metis Inl_Inr_False Inr_inject)
  have "q = r" by (rule external_revision_json_inj [OF canonicalJson_norm_eq [OF q(2,3)]])
  with q(1,4) show ?thesis by simp
qed

text \<open>Verification of imported revisions is exact: a stored revision passes if and only if building it
  again from its own contents gives the identical record, with its hashes, canonical bytes and order.\<close>

theorem external_integrity_iff:
  "assertExternalRevisionIntegrity rt r = Inr r \<longleftrightarrow> createExternalSkillRevision rt (external_input r) = Inr r"
proof
  assume c: "createExternalSkillRevision rt (external_input r) = Inr r"
  with created_external_json [OF createExternal_created [OF c]]
  show "assertExternalRevisionIntegrity rt r = Inr r" by (auto simp: assertExternalRevisionIntegrity_def)
qed (use assertExternal_reconstructs in blast)

definition example_external :: "string \<Rightarrow> CreateExternalRevisionInput" where
  "example_external owner =
     \<lparr>ce_skillId = ''a'',
      ce_provenance = \<lparr>ep_repositoryId = 1, ep_owner = owner, ep_repository = ''r'',
        ep_commitSha = replicate 40 (CHR ''0''), ep_skillPath = ''s'', ep_sourceOwner = ''o'', ep_spdxLicenseId = ''MIT'',
        ep_licenseText = ''x'', ep_licenseEvidencePath = None, ep_licenseBlobSha = None,
        ep_skillDeclaredSpdxId = None, ep_noticeText = None, ep_noticeEvidencePath = None, ep_noticeBlobSha = None\<rparr>,
      ce_skill = \<lparr>im_name = ''n'', im_description = ''d'', im_skillPath = ''s'', im_instructions = ''hi'',
        im_invocationMode = Automatic, im_resources = [], im_dependencies = []\<rparr>\<rparr>"

lemma example_external_created:
  assumes "length owner = 1"
  shows "\<exists>r. createExternalSkillRevision constant_runtime (example_external owner) = Inr r \<and>
    ep_owner (es_provenance r) = owner \<and> es_bundleSha256 r = zeros64 \<and> external_input r = example_external owner"
proof -
  let ?d = "external_draft constant_runtime (example_external owner) ''hi'' ''x'' None [] []"
  note plain = example_plain [OF plain_runtimes(2)]
  have "writable (immutableContent constant_runtime ?d)" "writable (bundlePayload constant_runtime ?d)"
    by (simp_all add: immutableContent_def bundlePayload_def payload_members_def bundle_source_members_def
        source_members_def external_draft_def example_external_def opt_str_def opt_field_def MAX_SAFE_INTEGER_def)
  then obtain content bytes where c: "canonicalJson (immutableContent constant_runtime ?d) = Inr content"
    "canonicalJson (bundlePayload constant_runtime ?d) = Inr bytes"
    unfolding canonicalJson_def using canonicalize_total by blast
  have "weight (bundlePayload constant_runtime ?d) \<le> 4000"
    using assms by (simp add: bundlePayload_def payload_members_def bundle_source_members_def source_members_def
        external_draft_def example_external_def opt_str_def opt_field_def constant_sha zeros64_def show_int_def
        show_nat.simps)
  then have len: "length bytes \<le> MAX_BUNDLE_BYTES"
    using length_canonicalize [OF c(2) [unfolded canonicalJson_def]] by (simp add: MAX_BUNDLE_BYTES_def)
  have texts: "normalizedText constant_runtime ''hi'' = Inr \<lparr>nt_text = ''hi'', nt_byteLength = 2\<rparr>"
    "normalizedText constant_runtime ''x'' = Inr \<lparr>nt_text = ''x'', nt_byteLength = 1\<rparr>"
    using plain [of "''hi''"] plain [of "''x''"] by (simp_all add: normalizedText_def)
  have sha: "hex_string 40 (replicate 40 (CHR ''0''))" by code_simp
  have create: "createExternalSkillRevision constant_runtime (example_external owner) = finish_external constant_runtime ?d"
    using sha by (simp add: createExternalSkillRevision_def assertGitSha_def Let_def example_external_def texts
        optional_text_def optional_sha_def js_length_def code_of_def ensure_def)
  show ?thesis
    unfolding create using c len
    by (simp add: finish_external_def constant_sha) (simp add: external_draft_def example_external_def external_input_def)
qed

text \<open>C26. The bundle hash of an imported revision pins all of it: two verified revisions with one bundle
  hash, or with one revision name, are identical, provenance and license texts included, or their
  canonical bytes are a collision of the hash function.\<close>

theorem external_bundle_pins:
  assumes "assertExternalRevisionIntegrity rt r = Inr r" and "assertExternalRevisionIntegrity rt s = Inr s"
    and "es_bundleSha256 r = es_bundleSha256 s \<or> es_revision r = es_revision s"
  shows "r = s \<or> (es_canonicalBytes r \<noteq> es_canonicalBytes s \<and>
    sha256 rt (es_canonicalBytes r) = sha256 rt (es_canonicalBytes s))"
proof -
  have c: "created_external rt r" "created_external rt s"
    using assms(1,2) assertExternal_reconstructs createExternal_created by blast+
  with assms(3) have "sha256 rt (es_canonicalBytes r) = sha256 rt (es_canonicalBytes s)"
    by (auto simp: created_external_def)
  with created_external_pinned [OF c] show ?thesis by blast
qed

theorem external_bundle_pins_witness:
  "\<exists>r s. r \<noteq> s \<and> assertExternalRevisionIntegrity constant_runtime r = Inr r \<and>
     sha256 constant_runtime (es_canonicalBytes r) = sha256 constant_runtime (es_canonicalBytes s)"
proof -
  obtain r s where r: "createExternalSkillRevision constant_runtime (example_external ''x'') = Inr r"
      "ep_owner (es_provenance r) = ''x''" "es_bundleSha256 r = zeros64" "external_input r = example_external ''x''"
    and s: "createExternalSkillRevision constant_runtime (example_external ''y'') = Inr s"
      "ep_owner (es_provenance s) = ''y''" "es_bundleSha256 s = zeros64" "external_input s = example_external ''y''"
    using example_external_created [of "''x''"] example_external_created [of "''y''"] by auto
  have v: "assertExternalRevisionIntegrity constant_runtime r = Inr r"
    "assertExternalRevisionIntegrity constant_runtime s = Inr s"
    using r s created_external_json [OF createExternal_created [OF r(1)]]
      created_external_json [OF createExternal_created [OF s(1)]]
    by (auto simp: assertExternalRevisionIntegrity_def)
  have "r \<noteq> s" using r(2) s(2) by auto
  with external_bundle_pins [OF v] v r(3) s(3) show ?thesis by auto
qed

text \<open>The content identity does not depend on where content is published: two imports that differ at
  most in owner, repository name and commit have one content identity, while their bundle hashes agree
  only if those coordinates agree too or the hash collides.\<close>

theorem content_identity_location_free:
  assumes "createExternalSkillRevision rt input = Inr r"
    and "createExternalSkillRevision rt (input\<lparr>ce_provenance :=
      (ce_provenance input)\<lparr>ep_owner := owner, ep_repository := name, ep_commitSha := commit\<rparr>\<rparr>) = Inr s"
  shows "es_contentIdentitySha256 r = es_contentIdentitySha256 s \<and>
    (es_bundleSha256 r = es_bundleSha256 s \<longrightarrow> es_provenance r = es_provenance s \<or>
      (es_canonicalBytes r \<noteq> es_canonicalBytes s \<and>
       sha256 rt (es_canonicalBytes r) = sha256 rt (es_canonicalBytes s)))"
proof (rule createExternal_cases [OF assms(1)], rule createExternal_cases [OF assms(2)])
  let ?input = "input\<lparr>ce_provenance :=
      (ce_provenance input)\<lparr>ep_owner := owner, ep_repository := name, ep_commitSha := commit\<rparr>\<rparr>"
  fix i l :: NormalizedText and n u and i' l' :: NormalizedText and n' u'
  assume a: "normalizedText rt (im_instructions (ce_skill input)) = Inr i"
      "normalizedText rt (ep_licenseText (ce_provenance input)) = Inr l"
      "optional_text rt (ep_noticeText (ce_provenance input)) = Inr n"
      "traverse (external_resource rt) (im_resources (ce_skill input)) = Inr u"
    and a': "normalizedText rt (im_instructions (ce_skill ?input)) = Inr i'"
      "normalizedText rt (ep_licenseText (ce_provenance ?input)) = Inr l'"
      "optional_text rt (ep_noticeText (ce_provenance ?input)) = Inr n'"
      "traverse (external_resource rt) (im_resources (ce_skill ?input)) = Inr u'"
    and f: "finish_external rt (external_draft rt input (nt_text i) (nt_text l) n
       (js_sort (by_path rt) u) (js_sort (by_skill_name rt) (im_dependencies (ce_skill input)))) = Inr r"
    and f': "finish_external rt (external_draft rt ?input (nt_text i') (nt_text l') n'
       (js_sort (by_path rt) u') (js_sort (by_skill_name rt) (im_dependencies (ce_skill ?input)))) = Inr s"
  have eq: "i' = i" "l' = l" "n' = n" "u' = u" using a a' by simp_all
  let ?d = "external_draft rt input (nt_text i) (nt_text l) n
       (js_sort (by_path rt) u) (js_sort (by_skill_name rt) (im_dependencies (ce_skill input)))"
  let ?d' = "external_draft rt ?input (nt_text i) (nt_text l) n
       (js_sort (by_path rt) u) (js_sort (by_skill_name rt) (im_dependencies (ce_skill input)))"
  have "immutableContent rt ?d = immutableContent rt ?d'"
    by (simp add: immutableContent_def payload_members_def source_members_def external_draft_def)
  then have "es_contentIdentitySha256 r = es_contentIdentitySha256 s"
    using f f' unfolding eq by (auto simp: finish_external_def split: if_splits)
  moreover have c: "created_external rt r" "created_external rt s" using assms createExternal_created by blast+
  have "sha256 rt (es_canonicalBytes r) = sha256 rt (es_canonicalBytes s)" if "es_bundleSha256 r = es_bundleSha256 s"
    using c that by (simp add: created_external_def)
  then have "es_bundleSha256 r = es_bundleSha256 s \<longrightarrow> r = s \<or> (es_canonicalBytes r \<noteq> es_canonicalBytes s \<and>
       sha256 rt (es_canonicalBytes r) = sha256 rt (es_canonicalBytes s))"
    using created_external_pinned [OF c] by blast
  ultimately show ?thesis by auto
qed

theorem content_identity_location_free_witness:
  "\<exists>(r :: ExternalSkillRevision) (s :: ExternalSkillRevision). es_provenance r \<noteq> es_provenance s \<and>
     es_contentIdentitySha256 r = es_contentIdentitySha256 s"
proof -
  obtain r s where r: "createExternalSkillRevision constant_runtime (example_external ''x'') = Inr r"
      "ep_owner (es_provenance r) = ''x''"
    and s: "createExternalSkillRevision constant_runtime (example_external ''y'') = Inr s"
      "ep_owner (es_provenance s) = ''y''"
    using example_external_created [of "''x''"] example_external_created [of "''y''"] by auto
  have "example_external ''y'' = (example_external ''x'')\<lparr>ce_provenance := (ce_provenance (example_external ''x''))
      \<lparr>ep_owner := ''y'', ep_repository := ''r'', ep_commitSha := replicate 40 (CHR ''0'')\<rparr>\<rparr>"
    by (simp add: example_external_def)
  from content_identity_location_free [OF r(1) s(1) [unfolded this]]
  have "es_contentIdentitySha256 r = es_contentIdentitySha256 s" by (rule conjunct1)
  moreover have "es_provenance r \<noteq> es_provenance s" using r(2) s(2) by auto
  ultimately show ?thesis by blast
qed

end
