(* ===== verification/License.thy ===== *)
theory License
  imports Text_Normalization Js_Text
begin

text \<open>
  The license check of an import (\<open>src/domain/external-catalog/license-validator.ts\<close>). Unicode case
  folding is an operation of the runtime and a parameter; a phrase is looked for by \<open>has_sub\<close>, and the
  regular expression of \<open>detectAttribution\<close> is the list of its alternatives in the order of
  backtracking.
\<close>

record text_operations =
  toLowerCase :: "string \<Rightarrow> string"

definition SUPPORTED_SPDX_IDS :: "string list" where
  "SUPPORTED_SPDX_IDS = [''MIT'', ''Apache-2.0'', ''BSD-2-Clause'', ''BSD-3-Clause'', ''ISC'', ''MPL-2.0'']"

record PinnedLicenseEvidence =
  le_declaredSpdxId :: "string option"
  le_detectedSpdxId :: "string option"
  le_licenseText :: "string option"
  le_noticeText :: "string option"
  le_attribution :: string

record ValidatedPinnedLicense =
  vl_spdxId :: string
  vl_licenseText :: string
  vl_licenseSha256 :: string
  vl_noticeText :: "string option"
  vl_noticeSha256 :: "string option"
  vl_attribution :: string

definition license_normal :: "runtime \<Rightarrow> string \<Rightarrow> string" where
  "license_normal rt s = nfc rt (replace_crlf s)"

definition validatePinnedLicense ::
  "runtime \<Rightarrow> text_operations \<Rightarrow> PinnedLicenseEvidence \<Rightarrow> ValidatedPinnedLicense res" where
  "validatePinnedLicense rt ops evidence =
     (let declared = le_declaredSpdxId evidence; detected = le_detectedSpdxId evidence
      in case ((case declared of Some d \<Rightarrow> Some d | None \<Rightarrow> detected), le_licenseText evidence) of
        (Some spdxId, Some rawLicense) \<Rightarrow>
          if spdxId \<notin> set SUPPORTED_SPDX_IDS then Inl (Error ''LICENSE_UNSUPPORTED'')
          else if declared \<noteq> None \<and> detected \<noteq> None \<and> declared \<noteq> detected then Inl (Error ''LICENSE_CONFLICT'')
          else
            let attribution = trim (le_attribution evidence)
            in if js_length attribution = 0 \<or> 200 < js_length attribution then Inl (Error ''ATTRIBUTION_MISSING'')
               else
                 let licenseText = license_normal rt rawLicense
                 in if NUL \<in> set licenseText \<or> js_length licenseText = 0 then Inl (Error ''LICENSE_MISSING'')
                    else
                      let noticeText = map_option (license_normal rt) (le_noticeText evidence)
                      in (case noticeText of
                            Some notice \<Rightarrow>
                              if js_length notice = 0 \<or> NUL \<in> set notice then Inl (Error ''LICENSE_MISSING'')
                              else Inr \<lparr>vl_spdxId = spdxId, vl_licenseText = licenseText,
                                vl_licenseSha256 = sha256 rt licenseText, vl_noticeText = Some notice,
                                vl_noticeSha256 = Some (sha256 rt notice), vl_attribution = attribution\<rparr>
                          | None \<Rightarrow> Inr \<lparr>vl_spdxId = spdxId, vl_licenseText = licenseText,
                                vl_licenseSha256 = sha256 rt licenseText, vl_noticeText = None,
                                vl_noticeSha256 = None, vl_attribution = attribution\<rparr>)
      | _ \<Rightarrow> Inl (Error ''LICENSE_MISSING''))"

definition detectSpdxLicense :: "text_operations \<Rightarrow> string \<Rightarrow> string option" where
  "detectSpdxLicense ops licenseText =
     (let normalized = toLowerCase ops licenseText
      in if has_sub ''mit license'' normalized \<and> has_sub ''permission is hereby granted'' normalized then Some ''MIT''
         else if has_sub ''apache license'' normalized \<and> has_sub ''version 2.0'' normalized then Some ''Apache-2.0''
         else if has_sub ''mozilla public license'' normalized \<and> has_sub ''2.0'' normalized then Some ''MPL-2.0''
         else if has_sub ''redistribution and use in source and binary forms'' normalized \<and>
                 has_sub ''neither the name'' normalized then Some ''BSD-3-Clause''
         else if has_sub ''redistribution and use in source and binary forms'' normalized \<and>
                 has_sub ''this list of conditions'' normalized then Some ''BSD-2-Clause''
         else if has_sub ''gnu general public license'' normalized \<and> has_sub ''version 3'' normalized
           then Some ''GPL-3.0-only''
         else if has_sub ''isc license'' normalized \<or> has_sub ''permission to use, copy, modify'' normalized then Some ''ISC''
         else None)"

text \<open>The suffixes after one or more white space characters, the longest run first.\<close>

function spaces_alts :: "string \<Rightarrow> string list" where
  "spaces_alts s = (if space_at s = 0 then [] else (let rest = drop (space_at s) s in spaces_alts rest @ [rest]))"
  by auto
termination
  by (relation "measure length") (auto simp: space_at_def split: list.splits if_splits option.splits)

declare spaces_alts.simps [simp del]

definition digits_at :: "nat \<Rightarrow> string \<Rightarrow> bool" where
  "digits_at n s \<longleftrightarrow> n \<le> length s \<and> list_all digit_char (take n s)"

definition year_alts :: "string \<Rightarrow> string list" where
  "year_alts s =
     (if \<not> digits_at 4 s then []
      else (if starts_with ''-'' (drop 4 s) \<and> digits_at 4 (drop 5 s) then [drop 9 s] else []) @ [drop 4 s])"

text \<open>The bytes of a line terminator at the head of a string (the \<open>.\<close> of a pattern is any other character).\<close>

definition terminator_at :: "string \<Rightarrow> nat" where
  "terminator_at s =
     (if s \<noteq> [] \<and> code_of (hd s) \<in> {10, 13} then 1
      else if starts_with [byte 0xE2, byte 0x80, byte 0xA8] s \<or> starts_with [byte 0xE2, byte 0x80, byte 0xA9] s then 3 else 0)"

fun line_run :: "string \<Rightarrow> string" where
  "line_run [] = []"
| "line_run (c # s) = (if 0 < terminator_at (c # s) then [] else c # line_run s)"

definition copyright_here :: "string \<Rightarrow> string option" where
  "copyright_here s =
     (if \<not> starts_with ''copyright'' (lower s) then None
      else let r = drop 9 s;
               marks = concat (map (\<lambda>x. if starts_with ''(c)'' (lower x) then [drop 3 x] else []) (spaces_alts r)) @ [r];
               spaced = concat (map spaces_alts marks);
               years = concat (map (\<lambda>x. concat (map spaces_alts (year_alts x)) @ [x]) spaced)
           in map_option line_run (find (\<lambda>x. line_run x \<noteq> []) years))"

text \<open>The first line that matches; the flag says that the position is the start of a line.\<close>

function copyright_from :: "bool \<Rightarrow> string \<Rightarrow> string option" where
  "copyright_from line_start s =
     (if s = [] then None
      else case (if line_start then copyright_here s else None) of
             Some m \<Rightarrow> Some m
           | None \<Rightarrow> copyright_from (0 < terminator_at s) (drop (max 1 (terminator_at s)) s))"
  by auto
termination
  by (relation "measure (\<lambda>(_, s). length s)") auto

declare copyright_from.simps [simp del]

definition detectAttribution :: "string \<Rightarrow> string option" where
  "detectAttribution licenseText = map_option trim (copyright_from True licenseText)"

lemma detectAttribution_example:
  "detectAttribution ''MIT License

Copyright (c) 2025-2026  Jane Roe 
more'' = Some ''Jane Roe''" by code_simp

subsection \<open>Properties\<close>

lemma validate_cases:
  assumes "validatePinnedLicense rt ops evidence = Inr v"
  shows "vl_spdxId v \<in> set SUPPORTED_SPDX_IDS"
    "le_declaredSpdxId evidence = Some (vl_spdxId v) \<or>
       (le_declaredSpdxId evidence = None \<and> le_detectedSpdxId evidence = Some (vl_spdxId v))"
    "le_detectedSpdxId evidence = None \<or> le_detectedSpdxId evidence = Some (vl_spdxId v)"
    "vl_attribution v = trim (le_attribution evidence)" "0 < js_length (vl_attribution v)"
    "js_length (vl_attribution v) \<le> 200"
    "\<exists>raw. le_licenseText evidence = Some raw \<and> vl_licenseText v = license_normal rt raw"
    "NUL \<notin> set (vl_licenseText v)" "vl_licenseText v \<noteq> []" "vl_licenseSha256 v = sha256 rt (vl_licenseText v)"
    "vl_noticeText v = map_option (license_normal rt) (le_noticeText evidence)"
    "vl_noticeSha256 v = map_option (sha256 rt) (vl_noticeText v)"
  using assms
  by (auto simp: validatePinnedLicense_def Let_def js_length_0 split: option.splits if_splits)

lemma validate_total:
  assumes "validatePinnedLicense rt ops evidence = Inl e"
  shows "e \<in> {Error ''LICENSE_MISSING'', Error ''LICENSE_UNSUPPORTED'', Error ''LICENSE_CONFLICT'', Error ''ATTRIBUTION_MISSING''}"
  using assms by (auto simp: validatePinnedLicense_def Let_def split: option.splits if_splits)

text \<open>C40. A license is accepted only with agreeing evidence: its identifier is one of the six supported,
  equals every identifier that was declared or detected, comes with an attribution of 1 to 200 units,
  and the recorded hashes are those of the normalized texts. A text in which the GNU GPL is detected is
  rejected whatever the skill declares, and every rejection is one of the four documented codes.\<close>

theorem license_evidence_agrees:
  "(\<forall>v. validatePinnedLicense rt ops evidence = Inr v \<longrightarrow>
      vl_spdxId v \<in> set SUPPORTED_SPDX_IDS \<and>
      (\<forall>i. le_declaredSpdxId evidence = Some i \<or> le_detectedSpdxId evidence = Some i \<longrightarrow> i = vl_spdxId v) \<and>
      0 < js_length (vl_attribution v) \<and> js_length (vl_attribution v) \<le> 200 \<and>
      NUL \<notin> set (vl_licenseText v) \<and> vl_licenseSha256 v = sha256 rt (vl_licenseText v) \<and>
      vl_noticeSha256 v = map_option (sha256 rt) (vl_noticeText v)) \<and>
   (le_detectedSpdxId evidence = Some ''GPL-3.0-only'' \<longrightarrow> \<not> ok (validatePinnedLicense rt ops evidence)) \<and>
   (\<forall>e. validatePinnedLicense rt ops evidence = Inl e \<longrightarrow> e \<in> {Error ''LICENSE_MISSING'',
      Error ''LICENSE_UNSUPPORTED'', Error ''LICENSE_CONFLICT'', Error ''ATTRIBUTION_MISSING''})"
proof (intro conjI allI impI)
  fix v assume v: "validatePinnedLicense rt ops evidence = Inr v"
  note c = validate_cases [OF v]
  show "vl_spdxId v \<in> set SUPPORTED_SPDX_IDS" "0 < js_length (vl_attribution v)" "js_length (vl_attribution v) \<le> 200"
    "NUL \<notin> set (vl_licenseText v)" "vl_licenseSha256 v = sha256 rt (vl_licenseText v)"
    "vl_noticeSha256 v = map_option (sha256 rt) (vl_noticeText v)"
    using c by blast+
  fix i assume "le_declaredSpdxId evidence = Some i \<or> le_detectedSpdxId evidence = Some i"
  with c(2,3) show "i = vl_spdxId v" by auto
next
  assume gpl: "le_detectedSpdxId evidence = Some ''GPL-3.0-only''"
  show "\<not> ok (validatePinnedLicense rt ops evidence)"
  proof
    assume "ok (validatePinnedLicense rt ops evidence)"
    then obtain v where v: "validatePinnedLicense rt ops evidence = Inr v" by (auto simp: ok_iff)
    from validate_cases(1,3) [OF v] gpl show False by (auto simp: SUPPORTED_SPDX_IDS_def)
  qed
next
  fix e assume "validatePinnedLicense rt ops evidence = Inl e"
  then show "e \<in> {Error ''LICENSE_MISSING'', Error ''LICENSE_UNSUPPORTED'', Error ''LICENSE_CONFLICT'',
      Error ''ATTRIBUTION_MISSING''}" by (rule validate_total)
qed

theorem license_evidence_agrees_witness:
  "\<not> ok (validatePinnedLicense ascii_runtime \<lparr>toLowerCase = (\<lambda>s. s)\<rparr>
     \<lparr>le_declaredSpdxId = Some ''MIT'', le_detectedSpdxId = detectSpdxLicense \<lparr>toLowerCase = (\<lambda>s. s)\<rparr>
        ''gnu general public license, version 3'', le_licenseText = Some ''x'', le_noticeText = None,
      le_attribution = ''o''\<rparr>)"
proof -
  have "detectSpdxLicense \<lparr>toLowerCase = (\<lambda>s. s)\<rparr> ''gnu general public license, version 3'' =
      Some ''GPL-3.0-only''" by code_simp
  then show ?thesis
    using license_evidence_agrees [of ascii_runtime "\<lparr>toLowerCase = (\<lambda>s. s)\<rparr>"
      "\<lparr>le_declaredSpdxId = Some ''MIT'', le_detectedSpdxId = Some ''GPL-3.0-only'', le_licenseText = Some ''x'',
        le_noticeText = None, le_attribution = ''o''\<rparr>"] by simp
qed

end
