(* ===== verification/Effects.thy ===== *)
theory Effects
  imports Prelude
begin

text \<open>
  Sequencing of asynchronous code that changes a world and may throw: \<open>await\<close> in a row is \<open>bind_eff\<close>,
  \<open>throw\<close> is \<open>raise_eff\<close>, \<open>try ... catch\<close> is \<open>catch_eff\<close>. The world after a throw is the world at the
  throw. The lemmas in \<open>eff_run\<close> turn a run of a composed operation into runs of its parts.
\<close>

type_synonym ('e, 'w, 'a) eff = "'w \<Rightarrow> ('e + 'a) \<times> 'w"

definition give :: "'a \<Rightarrow> ('e, 'w, 'a) eff" where
  "give x w = (Inr x, w)"

definition raise_eff :: "'e \<Rightarrow> ('e, 'w, 'a) eff" where
  "raise_eff e w = (Inl e, w)"

definition bind_eff :: "('e, 'w, 'a) eff \<Rightarrow> ('a \<Rightarrow> ('e, 'w, 'b) eff) \<Rightarrow> ('e, 'w, 'b) eff" where
  "bind_eff m f w = (case m w of (Inl e, w') \<Rightarrow> (Inl e, w') | (Inr x, w') \<Rightarrow> f x w')"

definition catch_eff :: "('e, 'w, 'a) eff \<Rightarrow> ('e \<Rightarrow> ('e2, 'w, 'a) eff) \<Rightarrow> ('e2, 'w, 'a) eff" where
  "catch_eff m h w = (case m w of (Inl e, w') \<Rightarrow> h e w' | (Inr x, w') \<Rightarrow> (Inr x, w'))"

text \<open>A read of the world that may throw, and a change of the world.\<close>

definition read_eff :: "('w \<Rightarrow> 'e + 'a) \<Rightarrow> ('e, 'w, 'a) eff" where
  "read_eff f w = (f w, w)"

definition change_eff :: "('w \<Rightarrow> 'w) \<Rightarrow> ('e, 'w, unit) eff" where
  "change_eff f w = (Inr (), f w)"

definition of_sum :: "'e + 'a \<Rightarrow> ('e, 'w, 'a) eff" where
  "of_sum r w = (r, w)"

definition guard_eff :: "bool \<Rightarrow> 'e \<Rightarrow> ('e, 'w, unit) eff" where
  "guard_eff b e w = ((if b then Inr () else Inl e), w)"

text \<open>A loop over a list, the first throw ends it.\<close>

fun each_eff :: "('a \<Rightarrow> ('e, 'w, 'b) eff) \<Rightarrow> 'a list \<Rightarrow> ('e, 'w, 'b list) eff" where
  "each_eff f [] = give []"
| "each_eff f (x # xs) = bind_eff (f x) (\<lambda>y. bind_eff (each_eff f xs) (\<lambda>ys. give (y # ys)))"

named_theorems eff_run

lemma give_run [eff_run]: "give x w = (r, w2) \<longleftrightarrow> r = Inr x \<and> w2 = w"
  by (auto simp: give_def)

lemma raise_run [eff_run]: "raise_eff e w = (r, w2) \<longleftrightarrow> r = Inl e \<and> w2 = w"
  by (auto simp: raise_eff_def)

lemma read_run [eff_run]: "read_eff f w = (r, w2) \<longleftrightarrow> r = f w \<and> w2 = w"
  by (auto simp: read_eff_def)

lemma change_run [eff_run]: "change_eff f w = (r, w2) \<longleftrightarrow> r = Inr () \<and> w2 = f w"
  by (auto simp: change_eff_def)

lemma of_sum_run [eff_run]: "of_sum q w = (r, w2) \<longleftrightarrow> r = q \<and> w2 = w"
  by (auto simp: of_sum_def)

lemma guard_run [eff_run]: "guard_eff b e w = (r, w2) \<longleftrightarrow> r = (if b then Inr () else Inl e) \<and> w2 = w"
  by (auto simp: guard_eff_def)

lemma bind_Inr [eff_run]:
  "bind_eff m f w = (Inr y, w2) \<longleftrightarrow> (\<exists>x w1. m w = (Inr x, w1) \<and> f x w1 = (Inr y, w2))"
  by (auto simp: bind_eff_def split: prod.splits sum.splits)

lemma bind_Inl [eff_run]:
  "bind_eff m f w = (Inl e, w2) \<longleftrightarrow>
     m w = (Inl e, w2) \<or> (\<exists>x w1. m w = (Inr x, w1) \<and> f x w1 = (Inl e, w2))"
  by (auto simp: bind_eff_def split: prod.splits sum.splits)

lemma catch_Inr [eff_run]:
  "catch_eff m h w = (Inr y, w2) \<longleftrightarrow>
     m w = (Inr y, w2) \<or> (\<exists>e w1. m w = (Inl e, w1) \<and> h e w1 = (Inr y, w2))"
  by (auto simp: catch_eff_def split: prod.splits sum.splits)

lemma catch_Inl [eff_run]:
  "catch_eff m h w = (Inl e2, w2) \<longleftrightarrow> (\<exists>e w1. m w = (Inl e, w1) \<and> h e w1 = (Inl e2, w2))"
  by (auto simp: catch_eff_def split: prod.splits sum.splits)

lemma bind_eff_cases:
  assumes "bind_eff m f w = (r, w2)"
  obtains (throws) e where "m w = (Inl e, w2)" and "r = Inl e"
  | (goes_on) x w1 where "m w = (Inr x, w1)" and "f x w1 = (r, w2)"
  using assms by (auto simp: bind_eff_def split: prod.splits sum.splits)

lemma catch_eff_cases:
  assumes "catch_eff m h w = (r, w2)"
  obtains (fine) x where "m w = (Inr x, w2)" and "r = Inr x"
  | (caught) e w1 where "m w = (Inl e, w1)" and "h e w1 = (r, w2)"
  using assms by (auto simp: catch_eff_def split: prod.splits sum.splits)

text \<open>One step of a sequence whose first operation only looks at the world or changes it.\<close>

named_theorems eff_step

lemma bind_read_step [eff_step]:
  "bind_eff (read_eff f) g w = (case f w of Inl e \<Rightarrow> (Inl e, w) | Inr x \<Rightarrow> g x w)"
  by (simp add: bind_eff_def read_eff_def split: sum.splits)

lemma bind_of_sum_step [eff_step]: "bind_eff (of_sum q) g w = (case q of Inl e \<Rightarrow> (Inl e, w) | Inr x \<Rightarrow> g x w)"
  by (simp add: bind_eff_def of_sum_def split: sum.splits)

lemma bind_guard_step [eff_step]: "bind_eff (guard_eff b e) g w = (if b then g () w else (Inl e, w))"
  by (simp add: bind_eff_def guard_eff_def)

lemma bind_give_step [eff_step]: "bind_eff (give x) g w = g x w"
  by (simp add: bind_eff_def give_def)

lemma bind_raise_step [eff_step]: "bind_eff (raise_eff e) g w = (Inl e, w)"
  by (simp add: bind_eff_def raise_eff_def)

lemma bind_change_step [eff_step]: "bind_eff (change_eff f) g w = g () (f w)"
  by (simp add: bind_eff_def change_eff_def)

lemma bind_bind_step [eff_step]: "bind_eff (bind_eff m f) g w = bind_eff m (\<lambda>x. bind_eff (f x) g) w"
  by (simp add: bind_eff_def split: prod.splits sum.splits)

subsection \<open>What an operation leaves alone\<close>

text \<open>\<open>preserves P m\<close>: from a world with \<open>P\<close> the operation leads to one with \<open>P\<close>, however it ends.\<close>

definition preserves :: "('w \<Rightarrow> bool) \<Rightarrow> ('e, 'w, 'a) eff \<Rightarrow> bool" where
  "preserves P m \<longleftrightarrow> (\<forall>w r w'. P w \<longrightarrow> m w = (r, w') \<longrightarrow> P w')"

lemma preservesD: "preserves P m \<Longrightarrow> P w \<Longrightarrow> m w = (r, w') \<Longrightarrow> P w'"
  unfolding preserves_def by blast

lemma preserves_give [simp, intro]: "preserves P (give x)"
  and preserves_raise [simp, intro]: "preserves P (raise_eff e)"
  and preserves_read [simp, intro]: "preserves P (read_eff f)"
  and preserves_of_sum [simp, intro]: "preserves P (of_sum q)"
  and preserves_guard [simp, intro]: "preserves P (guard_eff b e)"
  by (simp_all add: preserves_def eff_run)

lemma preserves_change [intro]: "(\<And>w. P w \<Longrightarrow> P (f w)) \<Longrightarrow> preserves P (change_eff f)"
  by (simp add: preserves_def eff_run)

lemma preserves_bind [intro]: "preserves P m \<Longrightarrow> (\<And>x. preserves P (f x)) \<Longrightarrow> preserves P (bind_eff m f)"
  unfolding preserves_def by (metis bind_eff_cases)

text \<open>The continuation only for results the first operation can give.\<close>

lemma preserves_bind_of:
  "preserves P m \<Longrightarrow> (\<And>w x w'. m w = (Inr x, w') \<Longrightarrow> preserves P (f x)) \<Longrightarrow> preserves P (bind_eff m f)"
  unfolding preserves_def by (metis bind_eff_cases)

lemma preserves_catch [intro]: "preserves P m \<Longrightarrow> (\<And>e. preserves P (h e)) \<Longrightarrow> preserves P (catch_eff m h)"
  unfolding preserves_def by (metis catch_eff_cases)

lemma preserves_each [intro]: "(\<And>x. x \<in> set xs \<Longrightarrow> preserves P (f x)) \<Longrightarrow> preserves P (each_eff f xs)"
  by (induction xs) auto

lemma preserves_if [intro]: "(b \<Longrightarrow> preserves P m) \<Longrightarrow> (\<not> b \<Longrightarrow> preserves P n) \<Longrightarrow> preserves P (if b then m else n)"
  by simp

text \<open>A loop of reads changes nothing.\<close>

lemma each_read: "each_eff (\<lambda>x. read_eff (f x)) xs w = (traverse (\<lambda>x. f x w) xs, w)"
  by (induction xs) (simp_all add: give_def bind_eff_def read_eff_def split: sum.splits)

lemma bind_each_read_step [eff_step]:
  "bind_eff (each_eff (\<lambda>x. read_eff (f x)) xs) g w =
     (case traverse (\<lambda>x. f x w) xs of Inl e \<Rightarrow> (Inl e, w) | Inr ys \<Rightarrow> g ys w)"
  by (simp add: bind_eff_def each_read split: sum.splits)

subsection \<open>Operations that do not throw\<close>

definition returns :: "('e, 'w, 'a) eff \<Rightarrow> bool" where
  "returns m \<longleftrightarrow> (\<forall>w. \<exists>x w'. m w = (Inr x, w'))"

lemma returns_give [intro]: "returns (give x)"
  and returns_change [intro]: "returns (change_eff f)"
  by (simp_all add: returns_def give_def change_eff_def)

lemma returns_bind [intro]: "returns m \<Longrightarrow> (\<And>x. returns (f x)) \<Longrightarrow> returns (bind_eff m f)"
  unfolding returns_def
proof
  fix w
  assume m: "\<forall>w. \<exists>x w'. m w = (Inr x, w')" and f: "\<And>x. \<forall>w. \<exists>y w'. f x w = (Inr y, w')"
  obtain x w1 where "m w = (Inr x, w1)" using m by blast
  moreover obtain y w2 where "f x w1 = (Inr y, w2)" using f by blast
  ultimately show "\<exists>y w'. bind_eff m f w = (Inr y, w')" by (simp add: bind_eff_def)
qed

lemma returns_catch [intro]: "(\<And>e. returns (h e)) \<Longrightarrow> returns (catch_eff m h)"
  unfolding returns_def
proof
  fix w
  assume h: "\<And>e. \<forall>w. \<exists>x w'. h e w = (Inr x, w')"
  show "\<exists>x w'. catch_eff m h w = (Inr x, w')"
    using h by (cases "m w"; cases "fst (m w)") (auto simp: catch_eff_def)
qed

lemma returns_if [intro]: "returns m \<Longrightarrow> returns n \<Longrightarrow> returns (if b then m else n)"
  by simp

subsection \<open>Operations that agree\<close>

text \<open>\<open>same_on P m n\<close>: the two operations do the same in every world with \<open>P\<close>.\<close>

definition same_on :: "('w \<Rightarrow> bool) \<Rightarrow> ('e, 'w, 'a) eff \<Rightarrow> ('e, 'w, 'a) eff \<Rightarrow> bool" where
  "same_on P m n \<longleftrightarrow> (\<forall>w. P w \<longrightarrow> m w = n w)"

lemma same_onD: "same_on P m n \<Longrightarrow> P w \<Longrightarrow> m w = n w"
  by (simp add: same_on_def)

lemma same_on_refl [simp]: "same_on P m m"
  by (simp add: same_on_def)

lemma same_on_bind:
  assumes "same_on P m m'" and "preserves P m" and "\<And>x. same_on P (f x) (f' x)"
  shows "same_on P (bind_eff m f) (bind_eff m' f')"
  unfolding same_on_def
proof (intro allI impI)
  fix w
  assume w: "P w"
  obtain r w1 where m: "m w = (r, w1)" by (cases "m w")
  then have "P w1" using preservesD [OF assms(2) w] by blast
  then show "bind_eff m f w = bind_eff m' f' w"
    using m same_onD [OF assms(1) w] same_onD [OF assms(3)] by (cases r) (simp_all add: bind_eff_def)
qed

lemma same_on_catch:
  assumes "same_on P m m'" and "preserves P m" and "\<And>e. same_on P (h e) (h' e)"
  shows "same_on P (catch_eff m h) (catch_eff m' h')"
  unfolding same_on_def
proof (intro allI impI)
  fix w
  assume w: "P w"
  obtain r w1 where m: "m w = (r, w1)" by (cases "m w")
  then have "P w1" using preservesD [OF assms(2) w] by blast
  then show "catch_eff m h w = catch_eff m' h' w"
    using m same_onD [OF assms(1) w] same_onD [OF assms(3)] by (cases r) (simp_all add: catch_eff_def)
qed

end
