(* ===== verification/Skill_Parsing.thy ===== *)
theory Skill_Parsing
  imports License Dependencies Canonical_JSON
begin

text \<open>
  What the importer reads out of a repository (\<open>src/ingestion/parsing\<close>): inert text, the front matter
  and the invocations of a skill document, the plugin manifest, the resource links of an instruction
  text, and the nested skill layout. The YAML and Markdown parsers (packages) and the runtime's
  \<open>JSON.parse\<close>, URL check and Unicode foldings are fields of \<open>importer\<close>; a parsed document is a tree. A
  run is modelled without an abort signal.
\<close>

subsection \<open>Parsed trees\<close>

text \<open>A YAML node; the flag says that it carries an anchor or a tag. An alias is \<open>YOther\<close>.\<close>

datatype yaml =
  YNull
| YText bool string
| YScalar bool
| YMap bool "(yaml \<times> yaml) list"
| YSeq bool "yaml list"
| YOther bool

record yaml_document =
  yd_problems :: bool
  yd_contents :: yaml
  yd_value :: "json option"

datatype markdown = MdNode (md_type: string) (md_value: "string option") (md_url: "string option")
  (md_identifier: "string option") (md_children: "markdown list")

record importer = text_operations +
  parse_json :: "string \<Rightarrow> json option"
  parse_yaml :: "string \<Rightarrow> yaml_document option"
  parse_markdown :: "string \<Rightarrow> markdown"
  valid_url :: "string \<Rightarrow> bool"
  nfkc :: "string \<Rightarrow> string"

definition Fail :: "string \<Rightarrow> error + 'a" where
  "Fail code = Inl (Error code)"

subsection \<open>Inert text\<close>

text \<open>No NUL, no control character but tab, line feed and carriage return, no DEL, no C1 control
  (C2 80 to C2 9F), and neither U+FFFE nor U+FFFF.\<close>

fun inert_bytes :: "string \<Rightarrow> bool" where
  "inert_bytes [] = True"
| "inert_bytes (c # s) =
     (\<not> (code_of c < 32 \<and> code_of c \<noteq> 9 \<and> code_of c \<noteq> 10 \<and> code_of c \<noteq> 13) \<and> code_of c \<noteq> 127 \<and>
      \<not> (code_of c = 0xC2 \<and> s \<noteq> [] \<and> code_of (hd s) \<le> 0x9F) \<and>
      \<not> (starts_with [byte 0xEF, byte 0xBF, byte 0xBE] (c # s) \<or> starts_with [byte 0xEF, byte 0xBF, byte 0xBF] (c # s)) \<and>
      inert_bytes s)"

definition decodeInertText :: "runtime \<Rightarrow> string \<Rightarrow> string \<Rightarrow> string res" where
  "decodeInertText rt errorCode bytes =
     (case text_decode bytes of
        None \<Rightarrow> Fail errorCode
      | Some text \<Rightarrow>
          if \<not> inert_bytes text then Fail errorCode
          else let normalized = nfc rt (replace_crlf text)
               in if normalized \<noteq> replace_crlf text then Fail errorCode else Inr normalized)"

subsection \<open>Front matter\<close>

text \<open>The text before and after the first occurrence.\<close>

fun break_at :: "string \<Rightarrow> string \<Rightarrow> (string \<times> string) option" where
  "break_at p [] = (if p = [] then Some ([], []) else None)"
| "break_at p (c # s) =
     (if starts_with p (c # s) then Some ([], drop (length p) (c # s))
      else map_option (\<lambda>(a, b). (c # a, b)) (break_at p s))"

definition splitFrontmatter :: "string \<Rightarrow> (string \<times> string) res" where
  "splitFrontmatter source =
     (let normalized = replace_crlf source
      in if \<not> starts_with ''---
'' normalized then Fail ''SKILL_SCHEMA_INVALID''
         else case break_at ''
---
'' (drop 4 normalized) of
                None \<Rightarrow> Fail ''SKILL_SCHEMA_INVALID''
              | Some (yaml, body) \<Rightarrow>
                  if 16 * 1024 < int (js_length yaml) + 4 then Fail ''SKILL_SCHEMA_INVALID'' else Inr (yaml, body))"

text \<open>\<open>/[&*!][A-Za-z0-9_-]+|<<\s*:|%(?:YAML|TAG)/\<close>\<close>

definition yaml_feature :: "char option \<Rightarrow> string \<Rightarrow> bool" where
  "yaml_feature before s \<longleftrightarrow>
     (case s of
        c # d # _ \<Rightarrow> c \<in> set ''&*!'' \<and> (alnum_char d \<or> d = CHR ''_'' \<or> d = CHR ''-'') | _ \<Rightarrow> False) \<or>
     (starts_with ''<<'' s \<and> starts_with '':'' (skip_spaces (drop 2 s))) \<or>
     starts_with ''%YAML'' s \<or> starts_with ''%TAG'' s"

text \<open>The bounded walk: counters of nodes and keys, and the depth.\<close>

fun decorated :: "yaml \<Rightarrow> bool" where
  "decorated (YText d _) = d"
| "decorated (YScalar d) = d"
| "decorated (YMap d _) = d"
| "decorated (YSeq d _) = d"
| "decorated (YOther d) = d"
| "decorated YNull = False"

definition good_key :: "yaml \<Rightarrow> bool" where
  "good_key k = (case k of
     YText _ name \<Rightarrow> name \<notin> {''__proto__'', ''prototype'', ''constructor''} \<and> int (length name) \<le> 1024
   | _ \<Rightarrow> False)"

definition yaml_leaf :: "yaml \<Rightarrow> int \<times> int \<Rightarrow> (int \<times> int) res" where
  "yaml_leaf v st =
     (case v of
        YText _ text \<Rightarrow> if 16 * 1024 < int (length text) then Fail ''SKILL_SCHEMA_INVALID'' else Inr st
      | YScalar _ \<Rightarrow> Inr st
      | YNull \<Rightarrow> Inr st
      | _ \<Rightarrow> Fail ''SKILL_SCHEMA_INVALID'')"

fun yaml_visit :: "int \<Rightarrow> yaml \<Rightarrow> int \<times> int \<Rightarrow> (int \<times> int) res"
  and yaml_pairs :: "int \<Rightarrow> (yaml \<times> yaml) list \<Rightarrow> int \<times> int \<Rightarrow> (int \<times> int) res"
  and yaml_items :: "int \<Rightarrow> yaml list \<Rightarrow> int \<times> int \<Rightarrow> (int \<times> int) res" where
  "yaml_visit depth v st =
     (if 2048 < fst st + 1 \<or> 32 < depth \<or> decorated v then Fail ''SKILL_SCHEMA_INVALID''
      else case v of
             YMap _ items \<Rightarrow>
               if 128 < snd st + int (length items) then Fail ''SKILL_SCHEMA_INVALID''
               else yaml_pairs (depth + 1) items (fst st + 1, snd st + int (length items))
           | YSeq _ items \<Rightarrow> yaml_items (depth + 1) items (fst st + 1, snd st)
           | _ \<Rightarrow> yaml_leaf v (fst st + 1, snd st))"
| "yaml_pairs depth [] st = Inr st"
| "yaml_pairs depth ((k, v) # ps) st =
     (if \<not> good_key k then Fail ''SKILL_SCHEMA_INVALID''
      else and_then (yaml_visit depth v st) (yaml_pairs depth ps))"
| "yaml_items depth [] st = Inr st"
| "yaml_items depth (v # vs) st = and_then (yaml_visit depth v st) (yaml_items depth vs)"

definition validateYamlStructure :: "yaml \<Rightarrow> unit res" where
  "validateYamlStructure contents = and_then (yaml_visit 0 contents (0, 0)) (\<lambda>_. Inr ())"

subsection \<open>Metadata\<close>

definition bounded_text :: "int \<Rightarrow> int \<Rightarrow> string \<Rightarrow> bool" where
  "bounded_text low high s \<longleftrightarrow> low \<le> int (js_length s) \<and> int (js_length s) \<le> high"

definition str_member :: "(string \<times> json) list \<Rightarrow> string \<Rightarrow> (string \<Rightarrow> bool) \<Rightarrow> bool" where
  "str_member es k P \<longleftrightarrow> (case map_of es k of Some (JStr s) \<Rightarrow> P s | _ \<Rightarrow> False)"

definition opt_str_member :: "(string \<times> json) list \<Rightarrow> string \<Rightarrow> (string \<Rightarrow> bool) \<Rightarrow> bool" where
  "opt_str_member es k P \<longleftrightarrow> (case map_of es k of None \<Rightarrow> True | Some JUndefined \<Rightarrow> True | Some (JStr s) \<Rightarrow> P s | _ \<Rightarrow> False)"

definition opt_member :: "(string \<times> json) list \<Rightarrow> string \<Rightarrow> (json \<Rightarrow> bool) \<Rightarrow> bool" where
  "opt_member es k P \<longleftrightarrow> (case map_of es k of None \<Rightarrow> True | Some JUndefined \<Rightarrow> True | Some v \<Rightarrow> P v)"

definition str_list :: "nat \<Rightarrow> nat \<Rightarrow> (string \<Rightarrow> bool) \<Rightarrow> json \<Rightarrow> bool" where
  "str_list low high P v \<longleftrightarrow>
     (case v of JArr vs \<Rightarrow> low \<le> length vs \<and> length vs \<le> high \<and> list_all (\<lambda>x. case x of JStr s \<Rightarrow> P s | _ \<Rightarrow> False) vs
      | _ \<Rightarrow> False)"

definition get_str :: "(string \<times> json) list \<Rightarrow> string \<Rightarrow> string option" where
  "get_str es k = (case map_of es k of Some (JStr s) \<Rightarrow> Some s | _ \<Rightarrow> None)"

definition get_strs :: "(string \<times> json) list \<Rightarrow> string \<Rightarrow> string list" where
  "get_strs es k =
     (case map_of es k of Some (JArr vs) \<Rightarrow> concat (map (\<lambda>v. case v of JStr s \<Rightarrow> [s] | _ \<Rightarrow> []) vs) | _ \<Rightarrow> [])"

definition skill_name_ok :: "string \<Rightarrow> bool" where
  "skill_name_ok s \<longleftrightarrow> kebab s \<and> int (js_length s) \<le> 120"

definition metadataSchema :: "(string \<times> json) list \<Rightarrow> bool" where
  "metadataSchema es \<longleftrightarrow>
     set (map fst es) \<subseteq> {''name'', ''description'', ''disable-model-invocation'', ''argument-hint'', ''license'', ''dependencies''} \<and>
     str_member es ''name'' skill_name_ok \<and> str_member es ''description'' (bounded_text 1 1024) \<and>
     opt_member es ''disable-model-invocation'' (\<lambda>v. case v of JBool _ \<Rightarrow> True | _ \<Rightarrow> False) \<and>
     opt_str_member es ''argument-hint'' (bounded_text 1 1024) \<and> opt_str_member es ''license'' (bounded_text 1 64) \<and>
     opt_member es ''dependencies'' (str_list 0 32 skill_name_ok)"

subsection \<open>Invocations in the instructions\<close>

text \<open>The walk of a Markdown tree: what may be searched, with the node counter.\<close>

fun md_collect :: "int \<Rightarrow> markdown \<Rightarrow> int \<times> string list \<Rightarrow> (int \<times> string list) res"
  and md_collect_all :: "int \<Rightarrow> markdown list \<Rightarrow> int \<times> string list \<Rightarrow> (int \<times> string list) res" where
  "md_collect depth (MdNode type content url ident children) (nodes, found) =
     (if 20000 < nodes + 1 \<or> 64 < depth then Fail ''SKILL_SCHEMA_INVALID''
      else if type = ''code'' \<or> type = ''html'' then Inr (nodes + 1, found)
      else md_collect_all (depth + 1) children
             (nodes + 1, found @
                (case content of None \<Rightarrow> [] | Some v \<Rightarrow>
                   (if type = ''text'' then [v]
                    else if type = ''inlineCode'' \<and> starts_with ''/'' v \<and> kebab (drop 1 v) then [v] else []))))"
| "md_collect_all depth [] st = Inr st"
| "md_collect_all depth (n # ns) st = and_then (md_collect depth n st) (md_collect_all depth ns)"

text \<open>\<open>([a-z0-9]+(?:-[a-z0-9]+)*)\b\<close>, the longest match: the length of the name at the head.\<close>

definition name_length :: "string \<Rightarrow> nat option" where
  "name_length s = find (\<lambda>n. kebab (take n s) \<and> (case drop n s of [] \<Rightarrow> True | c # _ \<Rightarrow> \<not> word_char c)) (rev [1..<Suc (length s)])"

text \<open>\<open>/(?:^|[\s(])\/([a-z0-9]+(?:-[a-z0-9]+)*)\b/g\<close>: the names, left to right, without overlap.\<close>

function invocations :: "bool \<Rightarrow> string \<Rightarrow> string list" where
  "invocations at_start s =
     (if s = [] then []
      else
        let lead = (if at_start \<and> starts_with ''/'' s then Some 0
                    else if 0 < space_at s then Some (space_at s) else if hd s = CHR ''('' then Some 1 else None)
        in case lead of
             Some k \<Rightarrow>
               (if starts_with ''/'' (drop k s)
                then (case name_length (drop (k + 1) s) of
                        Some n \<Rightarrow> take n (drop (k + 1) s) # invocations False (drop (k + 1 + n) s)
                      | None \<Rightarrow> invocations False (drop 1 s))
                else invocations False (drop 1 s))
           | None \<Rightarrow> invocations False (drop 1 s))"
  by auto
termination
  by (relation "measure (\<lambda>(_, s). length s)") auto

declare invocations.simps [simp del]

text \<open>\<open>body.indexOf(needle)\<close> as text.\<close>

definition index_text :: "string \<Rightarrow> string \<Rightarrow> string" where
  "index_text needle body = (case break_at needle body of None \<Rightarrow> ''-1'' | Some (before, _) \<Rightarrow> show_nat (js_length before))"

definition dependency_evidence :: "EvidenceKind \<Rightarrow> string \<Rightarrow> string \<Rightarrow> ExternalDependencyInput" where
  "dependency_evidence kind name locator =
     \<lparr>dep_skillName = name, dep_targetSkillId = None, dep_targetRevision = None, dep_required = True,
      dep_evidenceKind = kind, dep_evidenceLocator = locator\<rparr>"

definition invoked_dependencies :: "importer \<Rightarrow> string \<Rightarrow> ExternalDependencyInput list res" where
  "invoked_dependencies io body =
     and_then (md_collect 0 (parse_markdown io body) (0, [])) (\<lambda>(_, searchable).
       Inr (map (\<lambda>name. dependency_evidence EvExplicitInvocation name (''instructions:'' @ index_text (''/'' @ name) body))
         (js_sort byte_compare (uniq (concat (map (invocations True) searchable))))))"

subsection \<open>Skill documents\<close>

record ParsedSkillDocument =
  sd_name :: string
  sd_description :: string
  sd_invocationMode :: InvocationMode
  sd_instructions :: string
  sd_dependencyEvidence :: "ExternalDependencyInput list"
  sd_declaredSpdxId :: "string option"

text \<open>The first entry for each name is kept.\<close>

fun first_by_name :: "ExternalDependencyInput list \<Rightarrow> ExternalDependencyInput list" where
  "first_by_name [] = []"
| "first_by_name (d # ds) = d # filter (\<lambda>e. dep_skillName e \<noteq> dep_skillName d) (first_by_name ds)"

definition document_of :: "runtime \<Rightarrow> importer \<Rightarrow> string \<Rightarrow> (string \<times> json) list \<Rightarrow> ParsedSkillDocument res" where
  "document_of rt io body es =
     (if 256 * 1024 < int (length body) then Fail ''SKILL_OVERSIZED''
      else and_then (invoked_dependencies io body) (\<lambda>invoked.
        Inr \<lparr>sd_name = (case get_str es ''name'' of None \<Rightarrow> [] | Some n \<Rightarrow> n),
             sd_description = (case get_str es ''description'' of None \<Rightarrow> [] | Some d \<Rightarrow> d),
             sd_invocationMode = (if map_of es ''disable-model-invocation'' = Some (JBool True) then UserOnly else Automatic),
             sd_instructions = nfc rt body,
             sd_dependencyEvidence = first_by_name
               (map (\<lambda>(i, name). dependency_evidence EvFrontmatter name (''frontmatter:dependencies:'' @ show_nat i))
                  (enumerate 0 (get_strs es ''dependencies'')) @ invoked),
             sd_declaredSpdxId = get_str es ''license''\<rparr>))"

definition parseSkillDocument :: "runtime \<Rightarrow> importer \<Rightarrow> string \<Rightarrow> ParsedSkillDocument res" where
  "parseSkillDocument rt io bytes =
     (if 256 * 1024 < int (length bytes) then Fail ''SKILL_OVERSIZED''
      else and_then (decodeInertText rt ''SKILL_NON_TEXT'' bytes) (\<lambda>source.
      and_then (splitFrontmatter source) (\<lambda>(yaml, body).
      if anywhere yaml_feature None yaml then Fail ''SKILL_SCHEMA_INVALID''
      else case parse_yaml io yaml of
             None \<Rightarrow> Fail ''SKILL_SCHEMA_INVALID''
           | Some doc \<Rightarrow>
               if yd_problems doc then Fail ''SKILL_SCHEMA_INVALID''
               else and_then (validateYamlStructure (yd_contents doc)) (\<lambda>_.
                 case yd_value doc of
                   Some (JObj es) \<Rightarrow>
                     if metadataSchema es then document_of rt io body es else Fail ''SKILL_SCHEMA_INVALID''
                 | _ \<Rightarrow> Fail ''SKILL_SCHEMA_INVALID''))))"

subsection \<open>POSIX paths\<close>

text \<open>\<open>posix.normalize\<close>, \<open>posix.join\<close> of two parts, \<open>posix.dirname\<close> and \<open>posix.basename\<close> (Node).\<close>

fun normal_segments :: "bool \<Rightarrow> string list \<Rightarrow> string list \<Rightarrow> string list" where
  "normal_segments rooted acc [] = acc"
| "normal_segments rooted acc (s # ss) =
     normal_segments rooted
       (if s = [] \<or> s = ''.'' then acc
        else if s = ''..'' then
          (if acc \<noteq> [] \<and> last acc \<noteq> ''..'' then butlast acc else if rooted then acc else acc @ [s])
        else acc @ [s]) ss"

definition posix_normalize :: "string \<Rightarrow> string" where
  "posix_normalize p =
     (if p = [] then ''.''
      else let rooted = starts_with ''/'' p; trailing = ends_with ''/'' p;
               body = join ''/'' (normal_segments rooted [] (split_on (CHR ''/'') p))
           in if body = [] then (if rooted then ''/'' else if trailing then ''./'' else ''.'')
              else (if rooted then ''/'' else []) @ body @ (if trailing then ''/'' else []))"

definition posix_join :: "string \<Rightarrow> string \<Rightarrow> string" where
  "posix_join a b = posix_normalize (if a = [] then b else if b = [] then a else a @ ''/'' @ b)"

definition strip_trailing :: "string \<Rightarrow> string" where
  "strip_trailing p = rev (dropWhile (\<lambda>c. c = CHR ''/'') (rev p))"

definition posix_dirname :: "string \<Rightarrow> string" where
  "posix_dirname p =
     (let q = strip_trailing p; up = rev (dropWhile (\<lambda>c. c \<noteq> CHR ''/'') (rev q))
      in if up = [] then (if starts_with ''/'' p then ''/'' else ''.'')
         else if up = ''/'' then ''/'' else butlast up)"

definition posix_basename :: "string \<Rightarrow> string" where
  "posix_basename p = rev (takeWhile (\<lambda>c. c \<noteq> CHR ''/'') (rev (strip_trailing p)))"

subsection \<open>Plugin manifests\<close>

record ClaudePluginManifest =
  pm_name :: string
  pm_version :: string
  pm_author :: string
  pm_license :: string
  pm_skillRoots :: "string list"

datatype InspectedClaudePluginManifest = MetadataOnly | Authoritative ClaudePluginManifest

text \<open>\<open>/^\d+\.\d+\.\d+$/\<close>\<close>

definition version_pattern :: "string \<Rightarrow> bool" where
  "version_pattern s \<longleftrightarrow>
     (let parts = split_on (CHR ''.'') s in length parts = 3 \<and> list_all (\<lambda>p. p \<noteq> [] \<and> list_all digit_char p) parts)"

definition author_ok :: "importer \<Rightarrow> bool \<Rightarrow> json \<Rightarrow> bool" where
  "author_ok io strict v =
     (case v of JObj es \<Rightarrow> (strict \<longrightarrow> set (map fst es) \<subseteq> {''name'', ''url''}) \<and>
        str_member es ''name'' (bounded_text 1 200) \<and> opt_str_member es ''url'' (valid_url io)
      | _ \<Rightarrow> False)"

definition manifest_common :: "importer \<Rightarrow> bool \<Rightarrow> (string \<times> json) list \<Rightarrow> bool" where
  "manifest_common io strict es \<longleftrightarrow>
     str_member es ''name'' (bounded_text 1 120) \<and> str_member es ''version'' version_pattern \<and>
     str_member es ''description'' (bounded_text 1 2048) \<and>
     (case map_of es ''author'' of Some a \<Rightarrow> author_ok io strict a | None \<Rightarrow> False) \<and>
     opt_str_member es ''homepage'' (valid_url io) \<and> opt_str_member es ''repository'' (valid_url io) \<and>
     str_member es ''license'' (bounded_text 1 64) \<and> opt_member es ''keywords'' (str_list 0 64 (bounded_text 1 80))"

definition metadataOnlyManifestSchema :: "importer \<Rightarrow> (string \<times> json) list \<Rightarrow> bool" where
  "metadataOnlyManifestSchema io es \<longleftrightarrow> manifest_common io False es"

definition manifestSchema :: "importer \<Rightarrow> (string \<times> json) list \<Rightarrow> bool" where
  "manifestSchema io es \<longleftrightarrow>
     set (map fst es) \<subseteq> {''name'', ''version'', ''description'', ''author'', ''homepage'', ''repository'', ''license'',
       ''keywords'', ''skills''} \<and> manifest_common io True es \<and>
     (case map_of es ''skills'' of Some v \<Rightarrow> str_list 1 256 (bounded_text 1 512) v | None \<Rightarrow> False)"

definition skill_root :: "runtime \<Rightarrow> string \<Rightarrow> string res" where
  "skill_root rt entry =
     (if \<not> starts_with ''./'' entry \<or> CHR 0x5C \<in> set entry \<or> CHR '':'' \<in> set entry \<or> CHR ''%'' \<in> set entry \<or> nfc rt entry \<noteq> entry \<or>
         list_ex (\<lambda>s. s = [] \<or> s = ''.'' \<or> s = ''..'') (split_on (CHR ''/'') (drop 2 entry))
      then Fail ''PATH_UNSAFE''
      else let normalized = posix_normalize (drop 2 entry)
           in if starts_with ''../'' normalized \<or> normalized = ''.'' \<or> normalized = ''..'' then Fail ''PATH_UNSAFE''
              else Inr normalized)"

definition roots_clash :: "string list \<Rightarrow> bool" where
  "roots_clash folded \<longleftrightarrow> length (uniq folded) \<noteq> length folded \<or>
     list_ex (\<lambda>(i, a). list_ex (\<lambda>(j, b). i \<noteq> j \<and> (starts_with (a @ ''/'') b \<or> starts_with (b @ ''/'') a))
       (enumerate 0 folded)) (enumerate 0 folded)"

definition parseAuthoritativeManifest :: "runtime \<Rightarrow> importer \<Rightarrow> (string \<times> json) list \<Rightarrow> ClaudePluginManifest res" where
  "parseAuthoritativeManifest rt io es =
     (if \<not> manifestSchema io es then Fail ''MANIFEST_INVALID''
      else and_then (traverse (skill_root rt) (get_strs es ''skills'')) (\<lambda>roots.
        if roots_clash (map (\<lambda>r. toLowerCase io (nfkc io r)) roots) then Fail ''MANIFEST_DUPLICATE_SKILL''
        else Inr \<lparr>pm_name = (case get_str es ''name'' of None \<Rightarrow> [] | Some n \<Rightarrow> n),
                  pm_version = (case get_str es ''version'' of None \<Rightarrow> [] | Some v \<Rightarrow> v),
                  pm_author = (case map_of es ''author'' of Some (JObj a) \<Rightarrow> (case get_str a ''name'' of None \<Rightarrow> [] | Some n \<Rightarrow> n) | _ \<Rightarrow> []),
                  pm_license = (case get_str es ''license'' of None \<Rightarrow> [] | Some l \<Rightarrow> l),
                  pm_skillRoots = roots\<rparr>))"

definition inspectClaudePluginManifest :: "runtime \<Rightarrow> importer \<Rightarrow> string \<Rightarrow> InspectedClaudePluginManifest res" where
  "inspectClaudePluginManifest rt io bytes =
     (if 256 * 1024 < int (length bytes) then Fail ''MANIFEST_OVERSIZED''
      else and_then (decodeInertText rt ''MANIFEST_INVALID'' bytes) (\<lambda>source.
        case parse_json io source of
          Some (JObj es) \<Rightarrow>
            if ''skills'' \<notin> set (map fst es)
            then (if metadataOnlyManifestSchema io es then Inr MetadataOnly else Fail ''MANIFEST_INVALID'')
            else and_then (parseAuthoritativeManifest rt io es) (\<lambda>manifest. Inr (Authoritative manifest))
        | _ \<Rightarrow> Fail ''MANIFEST_INVALID''))"

subsection \<open>Resource links\<close>

record ResourceReference =
  rf_manifestPath :: string
  rf_repositoryPath :: string
  rf_mediaType :: MediaType

definition md_or_txt :: "string \<Rightarrow> bool" where
  "md_or_txt s \<longleftrightarrow> ends_with ''.md'' (lower s) \<or> ends_with ''.txt'' (lower s)"

definition safeReference :: "runtime \<Rightarrow> string \<Rightarrow> bool" where
  "safeReference rt url \<longleftrightarrow>
     \<not> starts_with ''/'' url \<and> set url \<inter> {CHR 0x5C, CHR ''%'', CHR ''?'', CHR ''#'', CHR '':''} = {} \<and> nfc rt url = url \<and>
     list_all (\<lambda>(i, s). s \<noteq> [] \<and> s \<noteq> ''..'' \<and> (s \<noteq> ''.'' \<or> i = 0)) (enumerate 0 (split_on (CHR ''/'') url)) \<and> md_or_txt url"

text \<open>\<open>/^(?:[a-z][a-z0-9+.-]*:|#)/i\<close> and \<open>/\.(?:md|txt)(?:[?#]|$)/i\<close>\<close>

definition has_scheme :: "string \<Rightarrow> bool" where
  "has_scheme s \<longleftrightarrow> starts_with ''#'' s \<or>
     (s \<noteq> [] \<and> (lower_char (hd s) \<or> upper_char (hd s)) \<and>
      starts_with '':'' (dropWhile (\<lambda>c. alnum_char c \<or> c \<in> set ''+.-'') (drop 1 s)))"

definition text_file_at :: "char option \<Rightarrow> string \<Rightarrow> bool" where
  "text_file_at before s \<longleftrightarrow>
     (starts_with ''.md'' (lower s) \<and> (drop 3 s = [] \<or> hd (drop 3 s) \<in> {CHR ''?'', CHR ''#''})) \<or>
     (starts_with ''.txt'' (lower s) \<and> (drop 4 s = [] \<or> hd (drop 4 s) \<in> {CHR ''?'', CHR ''#''}))"

definition recordReference :: "runtime \<Rightarrow> string \<Rightarrow> string list \<Rightarrow> string list res" where
  "recordReference rt url urls =
     (if has_scheme url then Inr urls
      else if \<not> anywhere text_file_at None url then Inr urls
      else if \<not> safeReference rt url then Fail ''PATH_UNSAFE''
      else Inr (urls @ [url]))"

record link_state =
  lk_nodes :: int
  lk_urls :: "string list"
  lk_definitions :: "(string \<times> string) list"
  lk_references :: "string list"

text \<open>What a visited node leaves in the state, once its own link is recorded.\<close>

definition link_noted :: "string \<Rightarrow> string option \<Rightarrow> string option \<Rightarrow> string list \<Rightarrow> link_state \<Rightarrow> link_state" where
  "link_noted type url ident urls st =
     st\<lparr>lk_nodes := lk_nodes st + 1, lk_urls := urls,
        lk_definitions := (case (url, ident) of
           (Some u, Some i) \<Rightarrow> if type = ''definition'' then AList.update i u (lk_definitions st) else lk_definitions st
         | _ \<Rightarrow> lk_definitions st),
        lk_references := (case ident of Some i \<Rightarrow> if type = ''linkReference'' then lk_references st @ [i] else lk_references st
         | None \<Rightarrow> lk_references st)\<rparr>"

definition link_url :: "runtime \<Rightarrow> string \<Rightarrow> string option \<Rightarrow> string list \<Rightarrow> string list res" where
  "link_url rt type url urls =
     (case url of Some u \<Rightarrow> (if type = ''link'' then recordReference rt u urls else Inr urls) | None \<Rightarrow> Inr urls)"

fun link_visit :: "runtime \<Rightarrow> int \<Rightarrow> markdown \<Rightarrow> link_state \<Rightarrow> link_state res"
  and link_visit_all :: "runtime \<Rightarrow> int \<Rightarrow> markdown list \<Rightarrow> link_state \<Rightarrow> link_state res" where
  "link_visit rt depth (MdNode type content url ident children) st =
     (if 20000 < lk_nodes st + 1 \<or> 64 < depth then Fail ''MARKDOWN_OVERSIZED''
      else and_then (link_url rt type url (lk_urls st)) (\<lambda>urls.
        if type = ''code'' \<or> type = ''inlineCode'' \<or> type = ''html'' then Inr (link_noted type url ident urls st)
        else link_visit_all rt (depth + 1) children (link_noted type url ident urls st)))"
| "link_visit_all rt depth [] st = Inr st"
| "link_visit_all rt depth (n # ns) st = and_then (link_visit rt depth n st) (link_visit_all rt depth ns)"

fun record_definitions :: "runtime \<Rightarrow> (string \<times> string) list \<Rightarrow> string list \<Rightarrow> string list \<Rightarrow> string list res" where
  "record_definitions rt defs [] urls = Inr urls"
| "record_definitions rt defs (i # is) urls =
     (case map_of defs i of
        None \<Rightarrow> record_definitions rt defs is urls
      | Some u \<Rightarrow> and_then (recordReference rt u urls) (record_definitions rt defs is))"

definition resource_reference :: "string \<Rightarrow> string \<Rightarrow> ResourceReference res" where
  "resource_reference dir url =
     (let manifestPath = posix_normalize url; repositoryPath = posix_normalize (posix_join dir manifestPath)
      in if starts_with ''../'' manifestPath \<or> manifestPath = ''..'' \<or> starts_with ''../'' repositoryPath \<or> has_sub ''/../'' repositoryPath
         then Fail ''PATH_UNSAFE''
         else Inr \<lparr>rf_manifestPath = manifestPath, rf_repositoryPath = repositoryPath,
                   rf_mediaType = (if ends_with ''.md'' (lower url) then Markdown else PlainText)\<rparr>)"

definition extractTextualResourceReferences ::
  "runtime \<Rightarrow> importer \<Rightarrow> string \<Rightarrow> string \<Rightarrow> ResourceReference list res" where
  "extractTextualResourceReferences rt io markdown skillDocumentPath =
     and_then (link_visit rt 0 (parse_markdown io markdown)
        \<lparr>lk_nodes = 0, lk_urls = [], lk_definitions = [], lk_references = []\<rparr>) (\<lambda>st.
     and_then (record_definitions rt (lk_definitions st) (lk_references st) (lk_urls st)) (\<lambda>urls.
     and_then (traverse (resource_reference (posix_dirname skillDocumentPath)) (uniq urls)) (\<lambda>references.
     Inr (js_sort (\<lambda>a b. localeCompare rt (rf_manifestPath a) (rf_manifestPath b)) references))))"

subsection \<open>Nested layout\<close>

definition excluded_roots :: "string list" where
  "excluded_roots = [''.git'', ''node_modules'', ''vendor'', ''fixture'', ''fixtures'', ''deprecated'']"

definition nested_candidate :: "importer \<Rightarrow> GitTreeEntry \<Rightarrow> bool" where
  "nested_candidate io e \<longleftrightarrow>
     te_type e = Blob \<and> te_mode e = Mode100644 \<and> te_size e \<noteq> None \<and>
     (te_path e = ''SKILL.md'' \<or> ends_with ''/SKILL.md'' (te_path e)) \<and>
     list_all (\<lambda>s. \<not> starts_with ''.'' s \<and> toLowerCase io s \<notin> set excluded_roots) (split_on (CHR ''/'') (te_path e))"

definition discoverNestedSkillDocuments ::
  "runtime \<Rightarrow> importer \<Rightarrow> nat \<Rightarrow> GitTreeEntry list \<Rightarrow> GitTreeEntry list res" where
  "discoverNestedSkillDocuments rt io maximumCandidates tree =
     (let candidates = js_sort (\<lambda>a b. localeCompare rt (te_path a) (te_path b)) (filter (nested_candidate io) tree)
      in if candidates = [] then Fail ''MANIFEST_INVALID''
         else if maximumCandidates < length candidates then Fail ''TREE_OVERSIZED''
         else Inr candidates)"

subsection \<open>Clean paths\<close>

text \<open>A relative path without empty, \<open>.\<close> and \<open>..\<close> segments.\<close>

definition clean_segment :: "string \<Rightarrow> bool" where
  "clean_segment s \<longleftrightarrow> s \<noteq> [] \<and> s \<noteq> ''.'' \<and> s \<noteq> ''..''"

definition clean_path :: "string \<Rightarrow> bool" where
  "clean_path p \<longleftrightarrow> list_all clean_segment (split_on (CHR ''/'') p)"

lemma split_on_append: "split_on d (p @ d # q) = split_on d p @ split_on d q"
proof (induction p)
  case (Cons c p)
  obtain x xs where "split_on d p = x # xs" using split_on_nonempty by (cases "split_on d p") blast+
  with Cons show ?case by simp
qed simp

lemma join_parts_append: "xs \<noteq> [] \<Longrightarrow> ys \<noteq> [] \<Longrightarrow> join d (xs @ ys) = join d xs @ d @ join d ys"
proof (induction d xs rule: join.induct)
  case (2 d p) then show ?case by (cases ys) simp_all
qed simp_all

lemma normal_segments_plain:
  "''..'' \<notin> set ss \<Longrightarrow> normal_segments rooted acc ss = acc @ filter (\<lambda>s. s \<noteq> [] \<and> s \<noteq> ''.'') ss"
  by (induction ss arbitrary: acc) auto

lemma slash_edges:
  assumes "starts_with ''/'' p \<or> ends_with ''/'' p"
  shows "[] \<in> set (split_on (CHR ''/'') p)"
proof -
  from assms consider q where "p = CHR ''/'' # q" | q where "p = q @ ''/''"
  proof (cases "starts_with ''/'' p")
    case True then show thesis using that(1) by (cases p) (auto simp: starts_with_def)
  next
    case False
    with assms have "ends_with ''/'' p" by blast
    then show thesis using that(2) by (cases p rule: rev_cases) (auto simp: ends_with_def)
  qed
  then show ?thesis
  proof cases
    case 2
    then have "split_on (CHR ''/'') p = split_on (CHR ''/'') q @ [[]]" using split_on_append [of "CHR ''/''" q "[]"] by simp
    then show ?thesis by simp
  qed simp
qed

lemma clean_path_edges:
  assumes "clean_path p"
  shows "\<not> starts_with ''/'' p" "\<not> ends_with ''/'' p" "p \<noteq> []"
proof -
  have "[] \<notin> set (split_on (CHR ''/'') p)" using assms by (auto simp: clean_path_def list_all_iff clean_segment_def)
  with slash_edges show "\<not> starts_with ''/'' p" "\<not> ends_with ''/'' p" by blast+
  show "p \<noteq> []" using \<open>[] \<notin> set (split_on (CHR ''/'') p)\<close> by auto
qed

lemma clean_filter:
  "list_all clean_segment ss \<Longrightarrow> filter (\<lambda>s. s \<noteq> [] \<and> s \<noteq> ''.'') ss = ss" "list_all clean_segment ss \<Longrightarrow> ''..'' \<notin> set ss"
  by (auto simp: list_all_iff clean_segment_def intro: filter_True)

text \<open>A path whose segments are clean but for leading dots is normalized to the clean ones.\<close>

lemma normalize_plain:
  assumes "''..'' \<notin> set (split_on (CHR ''/'') p)" and "\<not> starts_with ''/'' p" and "\<not> ends_with ''/'' p"
    and "filter (\<lambda>s. s \<noteq> [] \<and> s \<noteq> ''.'') (split_on (CHR ''/'') p) = split_on (CHR ''/'') q" and "clean_path q"
  shows "posix_normalize p = q"
proof -
  have "p \<noteq> []"
  proof
    assume "p = []"
    with assms(4) have "split_on (CHR ''/'') q = []" by simp
    then show False by simp
  qed
  moreover have "join ''/'' (split_on (CHR ''/'') q) = q" by (rule join_split_on)
  moreover have "q \<noteq> []" using clean_path_edges [OF assms(5)] by blast
  ultimately show ?thesis
    using assms by (simp add: posix_normalize_def Let_def normal_segments_plain)
qed

lemma normalize_clean:
  assumes "clean_path p"
  shows "posix_normalize p = p"
proof (rule normalize_plain)
  show "filter (\<lambda>s. s \<noteq> [] \<and> s \<noteq> ''.'') (split_on (CHR ''/'') p) = split_on (CHR ''/'') p"
    using assms by (simp add: clean_path_def clean_filter)
  show "''..'' \<notin> set (split_on (CHR ''/'') p)" using assms by (simp add: clean_path_def clean_filter)
qed (use assms clean_path_edges in blast)+

lemma normalize_dot_clean:
  assumes "clean_path p"
  shows "posix_normalize (''./'' @ p) = p"
proof (rule normalize_plain)
  have split: "split_on (CHR ''/'') (''./'' @ p) = ''.'' # split_on (CHR ''/'') p"
    using split_on_append [of "CHR ''/''" "''.''" p] by simp
  show "filter (\<lambda>s. s \<noteq> [] \<and> s \<noteq> ''.'') (split_on (CHR ''/'') (''./'' @ p)) = split_on (CHR ''/'') p"
    unfolding split using assms by (simp add: clean_path_def clean_filter)
  show "''..'' \<notin> set (split_on (CHR ''/'') (''./'' @ p))"
    unfolding split using assms clean_filter(2) [of "split_on (CHR ''/'') p"] by (simp add: clean_path_def)
  show "\<not> starts_with ''/'' (''./'' @ p)" by (simp add: starts_with_def)
  show "\<not> ends_with ''/'' (''./'' @ p)"
    using clean_path_edges(2,3) [OF assms] by (cases p rule: rev_cases) (auto simp: ends_with_def)
qed (rule assms)

lemma clean_path_append: "clean_path (a @ CHR ''/'' # b) \<longleftrightarrow> clean_path a \<and> clean_path b"
  by (simp add: clean_path_def split_on_append)

lemma posix_join_clean:
  assumes "clean_path d \<or> d = ''.''" and "clean_path p"
  shows "posix_join d p = (if d = ''.'' then p else d @ ''/'' @ p)" "clean_path (posix_join d p)"
proof -
  have d: "d \<noteq> []" and p: "p \<noteq> []" using assms clean_path_edges(3) by auto
  have dot: "\<not> clean_path ''.''" by (simp add: clean_path_def clean_segment_def)
  show "posix_join d p = (if d = ''.'' then p else d @ ''/'' @ p)"
  proof (cases "d = ''.''")
    case True then show ?thesis using normalize_dot_clean [OF assms(2)] p by (simp add: posix_join_def)
  next
    case False
    with assms have "clean_path (d @ ''/'' @ p)" by (simp add: clean_path_append)
    from normalize_clean [OF this] False d p show ?thesis by (simp add: posix_join_def)
  qed
  then show "clean_path (posix_join d p)"
    using assms dot by (auto simp: clean_path_append)
qed

lemma posix_dirname_clean:
  assumes "clean_path p"
  shows "posix_dirname p = ''.'' \<and> CHR ''/'' \<notin> set p \<or>
    clean_path (posix_dirname p) \<and> (\<exists>b. p = posix_dirname p @ ''/'' @ b \<and> CHR ''/'' \<notin> set b)"
proof -
  have edges: "\<not> starts_with ''/'' p" "\<not> ends_with ''/'' p" "p \<noteq> []" using clean_path_edges [OF assms] by blast+
  obtain q c where p: "p = q @ [c]" using edges(3) by (cases p rule: rev_cases) auto
  have strip: "strip_trailing p = p" using edges(2) p by (simp add: strip_trailing_def ends_with_def)
  show ?thesis
  proof (cases "CHR ''/'' \<in> set p")
    case False
    then have "dropWhile (\<lambda>c. c \<noteq> CHR ''/'') (rev p) = []" by (auto simp: dropWhile_eq_Nil_conv)
    then have "posix_dirname p = ''.''" using edges(1) by (simp add: posix_dirname_def strip)
    with False show ?thesis by blast
  next
    case True
    then obtain d b where split: "p = d @ CHR ''/'' # b" "CHR ''/'' \<notin> set b" by (metis split_list_last)
    have "dropWhile (\<lambda>c. c \<noteq> CHR ''/'') (rev p) = CHR ''/'' # rev d"
      using split by (simp add: dropWhile_append3 dropWhile_append)
    moreover have "d \<noteq> []" using split(1) edges(1) by (auto simp: starts_with_def)
    ultimately have "posix_dirname p = d" using True by (auto simp: posix_dirname_def Let_def strip)
    moreover have "clean_path d" using assms split(1) by (simp add: clean_path_append)
    ultimately show ?thesis using split by auto
  qed
qed

subsection \<open>Links stay inside the skill\<close>

lemma enumerate_clean:
  "list_all (\<lambda>(i, s). s \<noteq> [] \<and> s \<noteq> ''..'' \<and> (s \<noteq> ''.'' \<or> i = 0)) (enumerate (Suc n) ss) \<Longrightarrow> list_all clean_segment ss"
  by (induction ss arbitrary: n) (auto simp: clean_segment_def)

lemma safeReference_clean:
  assumes "safeReference rt url"
  shows "clean_path (posix_normalize url)"
proof -
  let ?segs = "split_on (CHR ''/'') url"
  obtain s ss where segs: "?segs = s # ss" using split_on_nonempty by (cases ?segs) blast+
  from assms have all: "list_all (\<lambda>(i, s). s \<noteq> [] \<and> s \<noteq> ''..'' \<and> (s \<noteq> ''.'' \<or> i = 0)) (enumerate 0 ?segs)"
    and ext: "md_or_txt url" and slash: "\<not> starts_with ''/'' url" by (auto simp: safeReference_def)
  have tail: "list_all clean_segment ss"
    using all unfolding segs by (intro enumerate_clean [of 0]) simp
  have head: "s \<noteq> [] \<and> s \<noteq> ''..''" using all unfolding segs by simp
  show ?thesis
  proof (cases "s = ''.''")
    case False
    with head tail segs have "clean_path url" by (simp add: clean_path_def clean_segment_def)
    then show ?thesis using normalize_clean by simp
  next
    case True
    have "ss \<noteq> []"
    proof
      assume "ss = []"
      with True segs have "url = ''.''" using join_split_on [of "CHR ''/''" url] by simp
      with ext show False by (simp add: md_or_txt_def ends_with_def lower_def lower_ascii_def)
    qed
    then have split: "split_on (CHR ''/'') (join ''/'' ss) = ss"
      using segs split_on_parts_no_sep [of _ "CHR ''/''" url] by (intro split_on_join) auto
    then have clean: "clean_path (join ''/'' ss)" using tail by (simp add: clean_path_def)
    have "url = ''.'' @ ''/'' @ join ''/'' ss"
      using join_split_on [of "CHR ''/''" url] True segs \<open>ss \<noteq> []\<close> by (cases ss) simp_all
    with normalize_dot_clean [OF clean] clean show ?thesis by simp
  qed
qed

lemma recordReference_safe:
  "recordReference rt url urls = Inr urls' \<Longrightarrow> \<forall>u \<in> set urls. safeReference rt u \<Longrightarrow> \<forall>u \<in> set urls'. safeReference rt u"
  by (auto simp: recordReference_def Fail_def split: if_splits)

lemma link_url_safe:
  "link_url rt type url urls = Inr urls' \<Longrightarrow> \<forall>u \<in> set urls. safeReference rt u \<Longrightarrow> \<forall>u \<in> set urls'. safeReference rt u"
  by (cases url) (auto simp: link_url_def dest: recordReference_safe split: if_splits)

lemma link_noted_urls [simp]: "lk_urls (link_noted type url ident urls st) = urls"
  by (simp add: link_noted_def)

lemma link_visit_safe:
  "link_visit rt depth n st = Inr st' \<Longrightarrow> \<forall>u \<in> set (lk_urls st). safeReference rt u \<Longrightarrow> \<forall>u \<in> set (lk_urls st'). safeReference rt u"
  "link_visit_all rt depth ns st = Inr st' \<Longrightarrow> \<forall>u \<in> set (lk_urls st). safeReference rt u \<Longrightarrow> \<forall>u \<in> set (lk_urls st'). safeReference rt u"
proof (induction rt depth n st and rt depth ns st arbitrary: st' and st' rule: link_visit_link_visit_all.induct)
  case (1 rt depth type content url ident children st)
  from 1(2) have small: "\<not> (20000 < lk_nodes st + 1 \<or> 64 < depth)" by (auto simp: Fail_def)
  with 1(2) obtain urls where urls: "link_url rt type url (lk_urls st) = Inr urls"
    by (cases "link_url rt type url (lk_urls st)") simp_all
  have safe: "\<forall>u \<in> set (lk_urls (link_noted type url ident urls st)). safeReference rt u"
    using link_url_safe [OF urls 1(3)] by simp
  show ?case
  proof (cases "type = ''code'' \<or> type = ''inlineCode'' \<or> type = ''html''")
    case True
    with 1(2) small urls safe show ?thesis by auto
  next
    case False
    with 1(2) small urls have "link_visit_all rt (depth + 1) children (link_noted type url ident urls st) = Inr st'" by simp
    from 1(1) [OF small False this safe] show ?thesis .
  qed
next
  case (3 rt depth n ns st)
  from 3(3) obtain st1 where first: "link_visit rt depth n st = Inr st1" and rest: "link_visit_all rt depth ns st1 = Inr st'"
    by (auto simp del: link_visit.simps)
  from 3(2) [OF rest 3(1) [OF first 3(4)]] show ?case .
qed simp

lemma traverse_mem: "traverse f xs = Inr ys \<Longrightarrow> y \<in> set ys \<Longrightarrow> \<exists>x \<in> set xs. f x = Inr y"
  by (induction xs arbitrary: ys) auto

lemma record_definitions_safe:
  "record_definitions rt defs is urls = Inr urls' \<Longrightarrow> \<forall>u \<in> set urls. safeReference rt u \<Longrightarrow> \<forall>u \<in> set urls'. safeReference rt u"
proof (induction "is" arbitrary: urls)
  case (Cons i "is")
  show ?case
  proof (cases "map_of defs i")
    case None with Cons show ?thesis by simp
  next
    case (Some u)
    with Cons.prems(1) obtain urls1 where first: "recordReference rt u urls = Inr urls1"
      and rest: "record_definitions rt defs is urls1 = Inr urls'" by auto
    from Cons.IH [OF rest recordReference_safe [OF first Cons.prems(2)]] show ?thesis .
  qed
qed simp

lemma extracted_reference:
  assumes "extractTextualResourceReferences rt io markdown skill = Inr refs" and "r \<in> set refs"
  obtains url where "safeReference rt url" and "resource_reference (posix_dirname skill) url = Inr r"
proof -
  let ?st0 = "\<lparr>lk_nodes = 0, lk_urls = [], lk_definitions = [], lk_references = []\<rparr> :: link_state"
  from assms(1) obtain st urls rs where visit: "link_visit rt 0 (parse_markdown io markdown) ?st0 = Inr st"
    and defs: "record_definitions rt (lk_definitions st) (lk_references st) (lk_urls st) = Inr urls"
    and rs: "traverse (resource_reference (posix_dirname skill)) (uniq urls) = Inr rs"
    and refs: "refs = js_sort (\<lambda>a b. localeCompare rt (rf_manifestPath a) (rf_manifestPath b)) rs"
    unfolding extractTextualResourceReferences_def and_then_Inr by blast
  have "\<forall>u \<in> set (lk_urls ?st0). safeReference rt u" by simp
  then have safe: "\<forall>u \<in> set urls. safeReference rt u"
    using record_definitions_safe [OF defs link_visit_safe(1) [OF visit]] by blast
  from assms(2) refs have "r \<in> set rs" by simp
  with traverse_mem [OF rs] obtain u where "u \<in> set urls" "resource_reference (posix_dirname skill) u = Inr r" by auto
  with safe that show thesis by blast
qed

lemma resource_reference_clean:
  assumes "safeReference rt url" and "clean_path skill" and "resource_reference (posix_dirname skill) url = Inr r"
  shows "clean_path (rf_manifestPath r)" "clean_path (rf_repositoryPath r)"
    "rf_repositoryPath r = (if posix_dirname skill = ''.'' then rf_manifestPath r else posix_dirname skill @ ''/'' @ rf_manifestPath r)"
proof -
  let ?m = "posix_normalize url" and ?d = "posix_dirname skill"
  have m: "clean_path ?m" using safeReference_clean [OF assms(1)] .
  have d: "clean_path ?d \<or> ?d = ''.''" using posix_dirname_clean [OF assms(2)] by blast
  note joined = posix_join_clean [OF d m]
  have fields: "rf_manifestPath r = ?m" "rf_repositoryPath r = posix_normalize (posix_join ?d ?m)"
    using assms(3) by (auto simp: resource_reference_def Let_def Fail_def split: if_splits)
  then have "rf_repositoryPath r = posix_join ?d ?m" using normalize_clean [OF joined(2)] by simp
  with fields m joined show "clean_path (rf_manifestPath r)" "clean_path (rf_repositoryPath r)"
    "rf_repositoryPath r = (if ?d = ''.'' then rf_manifestPath r else ?d @ ''/'' @ rf_manifestPath r)" by simp_all
qed

text \<open>C29. Every resource reference that is extracted from a skill document stays inside the directory of
  that document: for a document at a clean relative path, the manifest path has no empty, \<open>.\<close> or
  \<open>..\<close> segment, and the repository path is the directory of the document followed by the manifest
  path, so it has none either.
\<close>

theorem resource_links_inside:
  assumes "extractTextualResourceReferences rt io markdown skill = Inr refs" and "clean_path skill" and "r \<in> set refs"
  shows "clean_path (rf_manifestPath r) \<and> clean_path (rf_repositoryPath r) \<and>
    rf_repositoryPath r = (if posix_dirname skill = ''.'' then rf_manifestPath r else posix_dirname skill @ ''/'' @ rf_manifestPath r)"
proof -
  from extracted_reference [OF assms(1,3)] obtain url where
    "safeReference rt url" "resource_reference (posix_dirname skill) url = Inr r" by blast
  with resource_reference_clean [of rt url skill r] assms(2) show ?thesis by blast
qed

subsection \<open>Roots of a manifest\<close>

lemma skill_root_clean:
  assumes "skill_root rt e = Inr r"
  shows "clean_path r \<and> e = ''./'' @ r"
proof -
  from assms have start: "starts_with ''./'' e"
    and segs: "\<not> list_ex (\<lambda>s. s = [] \<or> s = ''.'' \<or> s = ''..'') (split_on (CHR ''/'') (drop 2 e))"
    and r: "r = posix_normalize (drop 2 e)"
    by (auto simp: skill_root_def Let_def Fail_def split: if_splits)
  from segs have clean: "clean_path (drop 2 e)"
    by (auto simp: clean_path_def clean_segment_def list_all_iff list_ex_iff)
  from start have "e = ''./'' @ drop 2 e" by (cases e; cases "tl e") (auto simp: starts_with_def)
  with clean r normalize_clean show ?thesis by simp
qed

lemma roots_apart:
  assumes "\<not> roots_clash folded" and "i < length folded" "j < length folded" "i \<noteq> j"
  shows "folded ! i \<noteq> folded ! j" "\<not> starts_with (folded ! i @ ''/'') (folded ! j)"
proof -
  from assms(1) have dist: "distinct folded"
    and apart: "\<not> list_ex (\<lambda>(i, a). list_ex (\<lambda>(j, b). i \<noteq> j \<and> (starts_with (a @ ''/'') b \<or> starts_with (b @ ''/'') a))
       (enumerate 0 folded)) (enumerate 0 folded)"
    by (simp_all add: roots_clash_def length_uniq_distinct)
  from dist assms show "folded ! i \<noteq> folded ! j" by (simp add: nth_eq_iff_index_eq)
  have mem: "k < length folded \<Longrightarrow> (k, folded ! k) \<in> set (enumerate 0 folded)" for k
    by (simp add: in_set_enumerate_eq)
  show "\<not> starts_with (folded ! i @ ''/'') (folded ! j)"
  proof
    assume "starts_with (folded ! i @ ''/'') (folded ! j)"
    with mem [OF assms(3)] assms(4)
    have "list_ex (\<lambda>(j, b). i \<noteq> j \<and> (starts_with (folded ! i @ ''/'') b \<or> starts_with (b @ ''/'') (folded ! i))) (enumerate 0 folded)"
      by (auto simp: list_ex_iff intro!: bexI)
    with mem [OF assms(2)] apart show False by (auto simp: list_ex_iff)
  qed
qed

lemma inspected_authoritative:
  assumes "inspectClaudePluginManifest rt io bytes = Inr (Authoritative m)"
  shows "\<exists>es. parseAuthoritativeManifest rt io es = Inr m"
proof -
  from assms have "\<not> 256 * 1024 < int (length bytes)" by (auto simp: inspectClaudePluginManifest_def Fail_def)
  with assms obtain source where
    decoded: "(case parse_json io source of
          Some (JObj es) \<Rightarrow>
            if ''skills'' \<notin> set (map fst es)
            then (if metadataOnlyManifestSchema io es then Inr MetadataOnly else Fail ''MANIFEST_INVALID'')
            else and_then (parseAuthoritativeManifest rt io es) (\<lambda>manifest. Inr (Authoritative manifest))
        | _ \<Rightarrow> Fail ''MANIFEST_INVALID'') = Inr (Authoritative m)"
    unfolding inspectClaudePluginManifest_def if_not_P by (simp only: if_False and_then_Inr) blast
  obtain es where es: "parse_json io source = Some (JObj es)"
  proof (cases "parse_json io source")
    case (Some v) with decoded that show thesis by (cases v) (simp_all add: Fail_def)
  qed (use decoded in \<open>simp add: Fail_def\<close>)
  show ?thesis
  proof (cases "''skills'' \<notin> set (map fst es)")
    case True
    with decoded es show ?thesis by (cases "metadataOnlyManifestSchema io es") (simp_all add: Fail_def)
  next
    case False
    with decoded es have "and_then (parseAuthoritativeManifest rt io es) (\<lambda>manifest. Inr (Authoritative manifest)) =
        Inr (Authoritative m)" by (simp only: option.case json.case if_False)
    then show ?thesis by (intro exI [of _ es]) (cases "parseAuthoritativeManifest rt io es", simp_all)
  qed
qed

text \<open>C30. The skill roots of an accepted manifest are clean relative paths, and they are apart: when case
  folding respects path segments, no two of them are equal up to folding and none lies inside another.
\<close>

theorem manifest_roots_apart:
  assumes "inspectClaudePluginManifest rt io bytes = Inr (Authoritative m)"
    and "\<forall>a b. toLowerCase io (nfkc io (a @ ''/'' @ b)) = toLowerCase io (nfkc io a) @ ''/'' @ toLowerCase io (nfkc io b)"
  shows "list_all clean_path (pm_skillRoots m) \<and> distinct (map (\<lambda>r. toLowerCase io (nfkc io r)) (pm_skillRoots m)) \<and>
    (\<forall>i < length (pm_skillRoots m). \<forall>j < length (pm_skillRoots m). \<forall>rest.
       i \<noteq> j \<longrightarrow> pm_skillRoots m ! j \<noteq> pm_skillRoots m ! i @ ''/'' @ rest)"
proof -
  let ?fold = "\<lambda>r. toLowerCase io (nfkc io r)"
  obtain es where "parseAuthoritativeManifest rt io es = Inr m" using inspected_authoritative [OF assms(1)] by blast
  then obtain names where roots: "traverse (skill_root rt) names = Inr (pm_skillRoots m)"
    and apart: "\<not> roots_clash (map ?fold (pm_skillRoots m))"
    by (auto simp: parseAuthoritativeManifest_def Fail_def split: if_splits)
  have clean: "list_all clean_path (pm_skillRoots m)"
    unfolding list_all_iff using traverse_mem [OF roots] skill_root_clean by blast
  have dist: "distinct (map ?fold (pm_skillRoots m))"
    using apart unfolding roots_clash_def de_Morgan_disj not_not length_uniq_distinct by (rule conjunct1)
  have "pm_skillRoots m ! j \<noteq> pm_skillRoots m ! i @ ''/'' @ rest"
    if "i < length (pm_skillRoots m)" "j < length (pm_skillRoots m)" "i \<noteq> j" for i j rest
  proof
    assume "pm_skillRoots m ! j = pm_skillRoots m ! i @ ''/'' @ rest"
    then have "?fold (pm_skillRoots m ! j) = ?fold (pm_skillRoots m ! i) @ ''/'' @ ?fold rest" using assms(2) by simp
    then have "starts_with (map ?fold (pm_skillRoots m) ! i @ ''/'') (map ?fold (pm_skillRoots m) ! j)"
      using that by (simp add: starts_with_def)
    with roots_apart(2) [OF apart] that show False by simp
  qed
  with clean dist show ?thesis by blast
qed

subsection \<open>What a parsed document is\<close>

definition printable_byte :: "char \<Rightarrow> bool" where
  "printable_byte c \<longleftrightarrow> (32 \<le> code_of c \<and> code_of c \<noteq> 127) \<or> code_of c \<in> {9, 10, 13}"

lemma inert_printable: "inert_bytes s \<Longrightarrow> list_all printable_byte s"
  by (induction s) (auto simp: printable_byte_def)

lemma printable_crlf: "list_all printable_byte s \<Longrightarrow> list_all printable_byte (replace_crlf s)"
  by (induction s rule: replace_crlf.induct) (auto simp: printable_byte_def code_of_def)

lemma break_at_parts: "break_at p s = Some (a, b) \<Longrightarrow> s = a @ p @ b"
proof (induction p s arbitrary: a rule: break_at.induct)
  case (2 p c s)
  show ?case
  proof (cases "starts_with p (c # s)")
    case True
    with 2 show ?thesis by (auto simp: starts_with_def) (metis append_take_drop_id)
  next
    case False
    with 2 show ?thesis by auto
  qed
qed (simp split: if_splits)

lemma decodeInertText_printable:
  assumes "decodeInertText rt code bytes = Inr s"
  shows "list_all printable_byte s"
proof (cases "text_decode bytes")
  case (Some t)
  with assms have "inert_bytes t" "s = replace_crlf t" by (auto simp: decodeInertText_def Fail_def Let_def split: if_splits)
  then show ?thesis using inert_printable printable_crlf by blast
qed (use assms in \<open>simp add: decodeInertText_def Fail_def\<close>)

lemma splitFrontmatter_body:
  assumes "splitFrontmatter s = Inr (yaml, body)" and "list_all printable_byte s"
  shows "list_all printable_byte body"
proof -
  let ?n = "drop 4 (replace_crlf s)" and ?fence = "''
---
''"
  from assms(1) have "break_at ?fence ?n = Some (yaml, body)"
    by (cases "break_at ?fence ?n") (auto simp: splitFrontmatter_def Fail_def Let_def split: if_splits)
  then have "?n = yaml @ ?fence @ body" by (rule break_at_parts)
  moreover have "list_all printable_byte ?n"
    using printable_crlf [OF assms(2)] by (auto simp: list_all_iff dest: in_set_dropD)
  ultimately show ?thesis by simp
qed

lemma first_by_name_subset: "set (first_by_name ds) \<subseteq> set ds"
  by (induction ds) auto

lemma first_by_name_distinct: "distinct (map dep_skillName (first_by_name ds))"
proof (induction ds)
  case (Cons d ds)
  then show ?case by (auto simp: distinct_map_filter)
qed simp

lemma first_by_name_names: "dep_skillName ` set (first_by_name ds) = dep_skillName ` set ds"
proof (induction ds)
  case (Cons d ds)
  have "dep_skillName ` {x \<in> set (first_by_name ds). dep_skillName x \<noteq> dep_skillName d} =
      dep_skillName ` set (first_by_name ds) - {dep_skillName d}" by auto
  with Cons show ?case by simp
qed simp

lemma name_length_kebab: "name_length s = Some n \<Longrightarrow> kebab (take n s)"
  unfolding name_length_def by (auto simp: find_Some_iff)

lemma invocations_kebab: "x \<in> set (invocations b s) \<Longrightarrow> kebab x"
proof (induction b s rule: invocations.induct)
  case (1 b s)
  then show ?case
    by (subst (asm) (3) invocations.simps)
       (auto simp: Let_def dest: name_length_kebab split: if_splits option.splits)
qed

lemma invoked_dependencies_names:
  assumes "invoked_dependencies io body = Inr ds" and "d \<in> set ds"
  shows "kebab (dep_skillName d) \<and> dep_required d \<and> dep_targetSkillId d = None"
proof -
  from assms(1) obtain searchable where "ds = map (\<lambda>name. dependency_evidence EvExplicitInvocation name
      (''instructions:'' @ index_text (''/'' @ name) body))
      (js_sort byte_compare (uniq (concat (map (invocations True) searchable))))"
    unfolding invoked_dependencies_def by auto
  with assms(2) obtain name where name: "name \<in> set (concat (map (invocations True) searchable))"
    and d: "d = dependency_evidence EvExplicitInvocation name (''instructions:'' @ index_text (''/'' @ name) body)" by auto
  from name have "kebab name" using invocations_kebab by fastforce
  with d show ?thesis by (simp add: dependency_evidence_def)
qed

lemma parsed_document_metadata:
  assumes "parseSkillDocument rt io bytes = Inr doc"
  obtains es body where "metadataSchema es" and "document_of rt io body es = Inr doc" and "list_all printable_byte body"
proof -
  from assms have size: "(256 * 1024 < int (length bytes)) = False"
    by (cases "256 * 1024 < int (length bytes)") (simp_all add: parseSkillDocument_def Fail_def)
  from assms obtain source yaml body where
    source: "decodeInertText rt ''SKILL_NON_TEXT'' bytes = Inr source" and split: "splitFrontmatter source = Inr (yaml, body)"
    and parsed: "(if anywhere yaml_feature None yaml then Fail ''SKILL_SCHEMA_INVALID''
      else case parse_yaml io yaml of
             None \<Rightarrow> Fail ''SKILL_SCHEMA_INVALID''
           | Some doc \<Rightarrow>
               if yd_problems doc then Fail ''SKILL_SCHEMA_INVALID''
               else and_then (validateYamlStructure (yd_contents doc)) (\<lambda>_.
                 case yd_value doc of
                   Some (JObj es) \<Rightarrow>
                     if metadataSchema es then document_of rt io body es else Fail ''SKILL_SCHEMA_INVALID''
                 | _ \<Rightarrow> Fail ''SKILL_SCHEMA_INVALID'')) = Inr doc"
    unfolding parseSkillDocument_def size if_False and_then_Inr split_paired_Ex prod.case by blast
  from parsed have feature: "anywhere yaml_feature None yaml = False"
    by (cases "anywhere yaml_feature None yaml") (simp_all add: Fail_def)
  note parsed = parsed [unfolded feature if_False]
  then obtain ydoc where ydoc: "parse_yaml io yaml = Some ydoc" by (cases "parse_yaml io yaml") (simp_all add: Fail_def)
  note parsed = parsed [unfolded ydoc option.case]
  then have problems: "yd_problems ydoc = False" by (cases "yd_problems ydoc") (simp_all add: Fail_def)
  note parsed = parsed [unfolded problems if_False and_then_Inr]
  then obtain es where es: "yd_value ydoc = Some (JObj es)"
    by (cases "yd_value ydoc") (auto simp: Fail_def split: json.splits)
  with parsed have "metadataSchema es \<and> document_of rt io body es = Inr doc"
    by (cases "metadataSchema es") (auto simp: Fail_def)
  moreover have "list_all printable_byte body"
    using splitFrontmatter_body [OF split decodeInertText_printable [OF source]] .
  ultimately show thesis using that by blast
qed

lemma metadata_names:
  assumes "metadataSchema es"
  shows "\<exists>n. get_str es ''name'' = Some n \<and> skill_name_ok n" "\<exists>d. get_str es ''description'' = Some d \<and> bounded_text 1 1024 d"
    "\<forall>l. get_str es ''license'' = Some l \<longrightarrow> bounded_text 1 64 l" "\<forall>n \<in> set (get_strs es ''dependencies''). skill_name_ok n"
    "length (get_strs es ''dependencies'') \<le> 32"
proof -
  show "\<exists>n. get_str es ''name'' = Some n \<and> skill_name_ok n" "\<exists>d. get_str es ''description'' = Some d \<and> bounded_text 1 1024 d"
    "\<forall>l. get_str es ''license'' = Some l \<longrightarrow> bounded_text 1 64 l"
    using assms unfolding metadataSchema_def str_member_def opt_str_member_def get_str_def
    by (simp_all split: option.splits json.splits)
  have deps: "opt_member es ''dependencies'' (str_list 0 32 skill_name_ok)" using assms by (simp add: metadataSchema_def)
  have "(\<forall>n \<in> set (get_strs es ''dependencies''). skill_name_ok n) \<and> length (get_strs es ''dependencies'') \<le> 32"
  proof (cases "\<exists>vs. map_of es ''dependencies'' = Some (JArr vs)")
    case True
    then obtain vs where vs: "map_of es ''dependencies'' = Some (JArr vs)" by blast
    with deps have "length vs \<le> 32" and strs: "list_all (\<lambda>x. case x of JStr s \<Rightarrow> skill_name_ok s | _ \<Rightarrow> False) vs"
      by (simp_all add: opt_member_def str_list_def)
    moreover have "length (concat (map (\<lambda>v. case v of JStr s \<Rightarrow> [s] | _ \<Rightarrow> []) vs)) \<le> length vs"
      by (induction vs) (auto split: json.splits)
    moreover have "\<forall>n \<in> set (concat (map (\<lambda>v. case v of JStr s \<Rightarrow> [s] | _ \<Rightarrow> []) vs)). skill_name_ok n"
      using strs by (induction vs) (auto split: json.splits)
    ultimately show ?thesis using vs by (simp add: get_strs_def)
  next
    case False
    then have "get_strs es ''dependencies'' = []" by (auto simp: get_strs_def split: option.splits json.splits)
    then show ?thesis by simp
  qed
  then show "\<forall>n \<in> set (get_strs es ''dependencies''). skill_name_ok n" "length (get_strs es ''dependencies'') \<le> 32" by blast+
qed

lemma document_of_fields:
  assumes "document_of rt io body es = Inr doc"
  obtains invoked where "invoked_dependencies io body = Inr invoked" and "length body \<le> 256 * 1024"
    and "sd_name doc = (case get_str es ''name'' of None \<Rightarrow> [] | Some n \<Rightarrow> n)"
    and "sd_description doc = (case get_str es ''description'' of None \<Rightarrow> [] | Some d \<Rightarrow> d)"
    and "sd_instructions doc = nfc rt body" and "sd_declaredSpdxId doc = get_str es ''license''"
    and "sd_dependencyEvidence doc = first_by_name
               (map (\<lambda>(i, name). dependency_evidence EvFrontmatter name (''frontmatter:dependencies:'' @ show_nat i))
                  (enumerate 0 (get_strs es ''dependencies'')) @ invoked)"
proof -
  from assms have size: "(256 * 1024 < int (length body)) = False"
    by (cases "256 * 1024 < int (length body)") (simp_all add: document_of_def Fail_def)
  from assms obtain invoked where inv: "invoked_dependencies io body = Inr invoked"
    unfolding document_of_def size if_False and_then_Inr by blast
  note doc = assms [unfolded document_of_def size if_False inv and_then.simps sum.inject]
  have "length body \<le> 256 * 1024" using size by simp
  from that [OF inv this] doc show thesis by (metis ParsedSkillDocument.select_convs)
qed

text \<open>C31. What a parsed skill document is: its name is a kebab-case name of at most 120 units, its
  description has 1 to 1,024 units and a declared license 1 to 64; the dependencies have distinct
  kebab-case names, are required and have no resolved target; the instructions are the normal form of
  at most 256 KiB of text without control characters other than tab, line feed and carriage return.
\<close>

theorem parsed_document_type:
  assumes "parseSkillDocument rt io bytes = Inr doc"
  shows "skill_name_ok (sd_name doc) \<and> bounded_text 1 1024 (sd_description doc) \<and>
    (\<forall>l. sd_declaredSpdxId doc = Some l \<longrightarrow> bounded_text 1 64 l) \<and>
    distinct (map dep_skillName (sd_dependencyEvidence doc)) \<and>
    (\<forall>d \<in> set (sd_dependencyEvidence doc). kebab (dep_skillName d) \<and> dep_required d \<and> dep_targetSkillId d = None) \<and>
    (\<exists>body. sd_instructions doc = nfc rt body \<and> length body \<le> 256 * 1024 \<and> list_all printable_byte body)"
proof -
  obtain es body where meta: "metadataSchema es" and doc: "document_of rt io body es = Inr doc"
    and chars: "list_all printable_byte body" using parsed_document_metadata [OF assms] .
  obtain invoked where inv: "invoked_dependencies io body = Inr invoked" and size: "length body \<le> 256 * 1024"
    and name: "sd_name doc = (case get_str es ''name'' of None \<Rightarrow> [] | Some n \<Rightarrow> n)"
    and desc: "sd_description doc = (case get_str es ''description'' of None \<Rightarrow> [] | Some d \<Rightarrow> d)"
    and instr: "sd_instructions doc = nfc rt body" and lic: "sd_declaredSpdxId doc = get_str es ''license''"
    and deps: "sd_dependencyEvidence doc = first_by_name
               (map (\<lambda>(i, name). dependency_evidence EvFrontmatter name (''frontmatter:dependencies:'' @ show_nat i))
                  (enumerate 0 (get_strs es ''dependencies'')) @ invoked)"
    using document_of_fields [OF doc] .
  note names = metadata_names [OF meta]
  have "kebab (dep_skillName d) \<and> dep_required d \<and> dep_targetSkillId d = None" if "d \<in> set (sd_dependencyEvidence doc)" for d
  proof -
    from that deps first_by_name_subset consider
        i n where "(i, n) \<in> set (enumerate 0 (get_strs es ''dependencies''))"
          "d = dependency_evidence EvFrontmatter n (''frontmatter:dependencies:'' @ show_nat i)"
      | "d \<in> set invoked" by fastforce
    then show ?thesis
    proof cases
      case 1
      from 1(1) have "n \<in> set (get_strs es ''dependencies'')" by (auto simp: in_set_enumerate_eq)
      with names(4) 1(2) show ?thesis by (simp add: skill_name_ok_def dependency_evidence_def)
    next
      case 2 with invoked_dependencies_names [OF inv] show ?thesis by blast
    qed
  qed
  moreover have "skill_name_ok (sd_name doc)" "bounded_text 1 1024 (sd_description doc)" using names(1,2) name desc by auto
  moreover have "\<forall>l. sd_declaredSpdxId doc = Some l \<longrightarrow> bounded_text 1 64 l" using names(3) lic by simp
  moreover have "distinct (map dep_skillName (sd_dependencyEvidence doc))" unfolding deps by (rule first_by_name_distinct)
  moreover have "\<exists>body. sd_instructions doc = nfc rt body \<and> length body \<le> 256 * 1024 \<and> list_all printable_byte body"
    using instr size chars by blast
  ultimately show ?thesis by blast
qed

subsection \<open>Examples\<close>

definition sample_document :: string where
  "sample_document = ''---
n:
---
go /b''"

text \<open>A text node, a paragraph of nodes and a link.\<close>

definition md_text :: "string \<Rightarrow> markdown" where
  "md_text s = MdNode ''text'' (Some s) None None []"

definition md_root :: "markdown list \<Rightarrow> markdown" where
  "md_root ns = MdNode ''root'' None None None ns"

definition md_link :: "string \<Rightarrow> markdown" where
  "md_link url = MdNode ''link'' None (Some url) None []"

definition sample_metadata :: "(string \<times> json) list" where
  "sample_metadata = [(''name'', JStr ''a''), (''description'', JStr ''d''), (''dependencies'', JArr [JStr ''c''])]"

definition sample_manifest :: "(string \<times> json) list" where
  "sample_manifest = [(''name'', JStr ''p''), (''version'', JStr ''1.0.0''), (''description'', JStr ''d''),
     (''author'', JObj [(''name'', JStr ''n'')]), (''license'', JStr ''MIT''), (''skills'', JArr [JStr ''./a'', JStr ''./b/c''])]"

definition sample_importer :: "markdown \<Rightarrow> importer" where
  "sample_importer tree = \<lparr>toLowerCase = (\<lambda>s. s), parse_json = (\<lambda>s. Some (JObj sample_manifest)),
     parse_yaml = (\<lambda>s. Some \<lparr>yd_problems = False, yd_contents = YMap False [(YText False ''name'', YText False ''a'')],
       yd_value = Some (JObj sample_metadata)\<rparr>),
     parse_markdown = (\<lambda>s. tree), valid_url = (\<lambda>s. True), nfkc = (\<lambda>s. s)\<rparr>"

lemma resource_links_inside_witness:
  "\<exists>refs r. extractTextualResourceReferences ascii_runtime (sample_importer (md_root [md_link ''./doc/a.md''])) [] ''s/SKILL.md'' = Inr refs \<and>
     r \<in> set refs \<and> clean_path (rf_repositoryPath r) \<and> rf_repositoryPath r = ''s/doc/a.md''"
proof -
  let ?r = "\<lparr>rf_manifestPath = ''doc/a.md'', rf_repositoryPath = ''s/doc/a.md'', rf_mediaType = Markdown\<rparr> :: ResourceReference"
  have run: "extractTextualResourceReferences ascii_runtime (sample_importer (md_root [md_link ''./doc/a.md''])) [] ''s/SKILL.md'' = Inr [?r]"
    by code_simp
  have "clean_path ''s/SKILL.md''" by code_simp
  from resource_links_inside [OF run this, of ?r] run show ?thesis by auto
qed

lemma manifest_roots_apart_witness:
  "\<exists>m. inspectClaudePluginManifest ascii_runtime (sample_importer (md_root [])) ''x'' = Inr (Authoritative m) \<and>
     pm_skillRoots m = [''a'', ''b/c''] \<and> list_all clean_path (pm_skillRoots m)"
proof -
  let ?m = "\<lparr>pm_name = ''p'', pm_version = ''1.0.0'', pm_author = ''n'', pm_license = ''MIT'', pm_skillRoots = [''a'', ''b/c'']\<rparr>
      :: ClaudePluginManifest"
  have run: "inspectClaudePluginManifest ascii_runtime (sample_importer (md_root [])) ''x'' = Inr (Authoritative ?m)"
    by code_simp
  have "\<forall>a b. toLowerCase (sample_importer (md_root [])) (nfkc (sample_importer (md_root [])) (a @ ''/'' @ b)) =
      toLowerCase (sample_importer (md_root [])) (nfkc (sample_importer (md_root [])) a) @ ''/'' @
      toLowerCase (sample_importer (md_root [])) (nfkc (sample_importer (md_root [])) b)"
    by (simp add: sample_importer_def)
  from manifest_roots_apart [OF run this] run show ?thesis by auto
qed

lemma sample_body:
  "decodeInertText ascii_runtime ''SKILL_NON_TEXT'' sample_document = Inr sample_document"
  "splitFrontmatter sample_document = Inr (''n:'', ''go /b'')" "\<not> anywhere yaml_feature None ''n:''"
  "invocations True ''go /b'' = [''b'']" "index_text ''/b'' ''go /b'' = ''3''" "metadataSchema sample_metadata"
  "ok (validateYamlStructure (YMap False [(YText False ''name'', YText False ''a'')]))" "length sample_document = 16"
  by code_simp+

lemma sample_invocations:
  "invoked_dependencies (sample_importer (md_root [md_text ''go /b''])) ''go /b'' =
     Inr [dependency_evidence EvExplicitInvocation ''b'' ''instructions:3'']"
  using sample_body(4,5) by (simp add: invoked_dependencies_def sample_importer_def md_root_def md_text_def js_sort_Cons)

lemma sample_document_of:
  "\<exists>doc. document_of ascii_runtime (sample_importer (md_root [md_text ''go /b''])) ''go /b'' sample_metadata = Inr doc \<and>
     map dep_skillName (sd_dependencyEvidence doc) = [''c'', ''b'']"
proof -
  have "get_strs sample_metadata ''dependencies'' = [''c'']" by code_simp
  then show ?thesis by (simp add: document_of_def sample_invocations dependency_evidence_def)
qed

lemma sample_parse:
  "parseSkillDocument ascii_runtime (sample_importer tree) sample_document =
     document_of ascii_runtime (sample_importer tree) ''go /b'' sample_metadata"
proof -
  obtain u where "validateYamlStructure (YMap False [(YText False ''name'', YText False ''a'')]) = Inr u"
    using sample_body(7) unfolding ok_iff by blast
  moreover have "parse_yaml (sample_importer tree) ''n:'' = Some \<lparr>yd_problems = False,
      yd_contents = YMap False [(YText False ''name'', YText False ''a'')], yd_value = Some (JObj sample_metadata)\<rparr>"
    by (simp add: sample_importer_def)
  ultimately show ?thesis using sample_body by (simp add: parseSkillDocument_def)
qed

lemma parsed_document_type_witness:
  "\<exists>doc. parseSkillDocument ascii_runtime (sample_importer (md_root [md_text ''go /b''])) sample_document = Inr doc \<and>
     skill_name_ok (sd_name doc) \<and> map dep_skillName (sd_dependencyEvidence doc) = [''c'', ''b'']"
proof -
  obtain doc where made: "document_of ascii_runtime (sample_importer (md_root [md_text ''go /b''])) ''go /b'' sample_metadata = Inr doc"
    and names: "map dep_skillName (sd_dependencyEvidence doc) = [''c'', ''b'']"
    using sample_document_of by (elim exE conjE)
  have run: "parseSkillDocument ascii_runtime (sample_importer (md_root [md_text ''go /b''])) sample_document = Inr doc"
    by (rule trans [OF sample_parse made])
  have "skill_name_ok (sd_name doc)" using parsed_document_type [OF run] by (rule conjunct1)
  with run names show ?thesis by (intro exI [of _ doc] conjI)
qed

text \<open>
  C0. Links that differ in a leading \<open>./\<close> only are one file, yet they are extracted as two references
  with the same manifest path: duplicates are removed before the paths are normalized.
\<close>

theorem link_aliases_duplicate:
  "map_sum id (map rf_manifestPath) (extractTextualResourceReferences ascii_runtime
     (sample_importer (md_root [md_link ''./a.md'', md_link ''a.md''])) [] ''s/SKILL.md'') = Inr [''a.md'', ''a.md'']"
  by code_simp

end
