(* ===== verification/Sync_Lease.thy ===== *)
theory Sync_Lease
  imports Service_Errors
begin

text \<open>
  The leases of the synchronization jobs: the PostgreSQL store
  (\<open>src/persistence/postgres/sync-lease-store.ts\<close>) and the fencing check that every write of a job
  makes (\<open>lease-fencing.ts\<close>). The table has one row per key; a statement reads the clock once.
  \<open>lease_step\<close> is one operation of any worker at a time that never decreases, and the theorems are about
  every run of such steps: tokens of a key only grow, at most one lease of a key is held at a time, and
  a lease that was taken over is never accepted again.
\<close>

subsection \<open>Data\<close>

record SyncLease =
  sl_key :: string
  sl_holderId :: string
  sl_fencingToken :: nat
  sl_expiresAt :: nat

record lease_row =
  ls_key :: string
  ls_holder :: string
  ls_token :: nat
  ls_acquired :: nat
  ls_renewed :: int
  ls_expires :: nat

type_synonym lease_db = "lease_row list"

definition hex_insensitive :: "char \<Rightarrow> bool" where
  "hex_insensitive c \<longleftrightarrow> hex_char c \<or> (65 \<le> code_of c \<and> code_of c \<le> 70)"

definition hex_part :: "nat \<Rightarrow> string \<Rightarrow> bool" where
  "hex_part n s \<longleftrightarrow> length s = n \<and> list_all hex_insensitive s"

definition uuid_text :: "string \<Rightarrow> bool" where
  "uuid_text s \<longleftrightarrow>
     (case split_on (CHR ''-'') s of
        [a, b, c, d, e] \<Rightarrow> hex_part 8 a \<and> hex_part 4 b \<and> hex_part 4 c \<and> hd c \<in> set ''12345'' \<and>
          hex_part 4 d \<and> hd d \<in> set ''89abAB'' \<and> hex_part 12 e
      | _ \<Rightarrow> False)"

text \<open>The pattern of a key is matched without regard to case, its prefix included.\<close>

definition sync_prefix :: "string \<Rightarrow> bool" where
  "sync_prefix s \<longleftrightarrow> length s = 5 \<and>
     s ! 0 \<in> set ''sS'' \<and> s ! 1 \<in> set ''yY'' \<and> s ! 2 \<in> set ''nN'' \<and> s ! 3 \<in> set ''cC'' \<and> s ! 4 = CHR ''/''"

definition validateLeaseInput :: "string \<Rightarrow> string \<Rightarrow> int \<Rightarrow> service_error + unit" where
  "validateLeaseInput key holderId durationMs =
     (if \<not> (key = ''discovery'' \<or> (sync_prefix (take 5 key) \<and> uuid_text (drop 5 key))) \<or>
         \<not> uuid_text holderId \<or> durationMs < 100 \<or> 3600000 < durationMs
      then Inl (OtherError ''INVALID_LEASE_INPUT'') else Inr ())"

text \<open>A \<open>uuid\<close> column holds the value, so texts that differ in case are equal; it is read back in lower
  case. The table's \<open>CHECK\<close> (\<open>migrations/006\<close>) allows lower-case keys only, and the token is a \<open>bigint\<close>.\<close>

definition lower_hex :: "string \<Rightarrow> string" where
  "lower_hex s = map (\<lambda>c. if 65 \<le> code_of c \<and> code_of c \<le> 90 then char_of (code_of c + 32) else c) s"

definition stored_key :: "string \<Rightarrow> bool" where
  "stored_key key \<longleftrightarrow> key = ''discovery'' \<or>
     (take 5 key = ''sync/'' \<and> length (drop 5 key) = 36 \<and> list_all (\<lambda>c. hex_char c \<or> c = CHR ''-'') (drop 5 key))"

definition max_bigint :: nat where
  "max_bigint = 9223372036854775807"

definition toLease :: "lease_row \<Rightarrow> SyncLease" where
  "toLease row = \<lparr>sl_key = ls_key row, sl_holderId = ls_holder row, sl_fencingToken = ls_token row,
     sl_expiresAt = ls_expires row\<rparr>"

subsection \<open>Statements\<close>

definition upsert_lease ::
  "nat \<Rightarrow> string \<Rightarrow> string \<Rightarrow> int \<Rightarrow> lease_db \<Rightarrow> (service_error + SyncLease option) \<times> lease_db" where
  "upsert_lease now key holderId durationMs db =
     (if \<not> stored_key key then (Inl (OtherError ''check constraint''), db)
      else case find (\<lambda>row. ls_key row = key) db of
        None \<Rightarrow>
          let fresh = \<lparr>ls_key = key, ls_holder = lower_hex holderId, ls_token = 1, ls_acquired = now,
                ls_renewed = int now, ls_expires = now + nat durationMs\<rparr>
          in (Inr (Some (toLease fresh)), db @ [fresh])
      | Some row \<Rightarrow>
          if ls_expires row \<le> now then
            if max_bigint \<le> ls_token row then (Inl (OtherError ''bigint out of range''), db)
            else
              let taken = row\<lparr>ls_holder := lower_hex holderId, ls_token := ls_token row + 1, ls_acquired := now,
                    ls_renewed := int now, ls_expires := now + nat durationMs\<rparr>
              in (Inr (Some (toLease taken)), map (\<lambda>r. if ls_key r = key then taken else r) db)
          else (Inr None, db))"

definition acquire ::
  "RequestExecution \<Rightarrow> string \<Rightarrow> string \<Rightarrow> int \<Rightarrow> lease_db \<Rightarrow> (service_error + SyncLease option) \<times> lease_db" where
  "acquire ex key holderId durationMs db =
     (case validateLeaseInput key holderId durationMs of
        Inl e \<Rightarrow> (Inl e, db)
      | Inr _ \<Rightarrow> requestTransaction ex (upsert_lease (ex_now ex) key holderId durationMs) db)"

definition lease_matches :: "SyncLease \<Rightarrow> lease_row \<Rightarrow> bool" where
  "lease_matches lease row \<longleftrightarrow>
     ls_key row = sl_key lease \<and> ls_holder row = lower_hex (sl_holderId lease) \<and> ls_token row = sl_fencingToken lease"

definition renew ::
  "RequestExecution \<Rightarrow> SyncLease \<Rightarrow> int \<Rightarrow> lease_db \<Rightarrow> (service_error + SyncLease option) \<times> lease_db" where
  "renew ex lease durationMs db =
     (case validateLeaseInput (sl_key lease) (sl_holderId lease) durationMs of
        Inl e \<Rightarrow> (Inl e, db)
      | Inr _ \<Rightarrow> requestTransaction ex (\<lambda>db.
          let hit = (\<lambda>row. lease_matches lease row \<and> ex_now ex < ls_expires row);
              renewed = (\<lambda>row. row\<lparr>ls_renewed := int (ex_now ex), ls_expires := ex_now ex + nat durationMs\<rparr>)
          in (Inr (map_option (\<lambda>row. toLease (renewed row)) (find hit db)),
              map (\<lambda>row. if hit row then renewed row else row) db)) db)"

definition release ::
  "RequestExecution \<Rightarrow> SyncLease \<Rightarrow> lease_db \<Rightarrow> (service_error + unit) \<times> lease_db" where
  "release ex lease db =
     requestTransaction ex (\<lambda>db.
       (Inr (), map (\<lambda>row. if lease_matches lease row
          then row\<lparr>ls_renewed := int (ex_now ex) - 1, ls_expires := ex_now ex\<rparr> else row) db)) db"

definition assertLeaseHeld :: "nat \<Rightarrow> SyncLease \<Rightarrow> lease_db \<Rightarrow> unit res" where
  "assertLeaseHeld now lease db =
     (if length (filter (\<lambda>row. lease_matches lease row \<and> now < ls_expires row) db) \<noteq> 1
      then Inl (Error ''LEASE_LOST'') else Inr ())"

subsection \<open>Runs of operations\<close>

datatype lease_action =
  Acquire string string int
| Renew SyncLease int
| Release SyncLease

fun lease_run :: "RequestExecution \<Rightarrow> lease_action \<Rightarrow> lease_db \<Rightarrow> lease_db" where
  "lease_run ex (Acquire key holderId d) db = snd (acquire ex key holderId d db)"
| "lease_run ex (Renew lease d) db = snd (renew ex lease d db)"
| "lease_run ex (Release lease) db = snd (release ex lease db)"

text \<open>A state is the time and the table.\<close>

inductive lease_step :: "nat \<times> lease_db \<Rightarrow> nat \<times> lease_db \<Rightarrow> bool" where
  operate: "now \<le> ex_now ex \<Longrightarrow> lease_step (now, db) (ex_now ex, lease_run ex action db)"
| wait: "now \<le> later \<Longrightarrow> lease_step (now, db) (later, db)"

inductive lease_steps :: "nat \<times> lease_db \<Rightarrow> nat \<times> lease_db \<Rightarrow> bool" where
  refl: "lease_steps s s"
| step: "lease_steps s t \<Longrightarrow> lease_step t u \<Longrightarrow> lease_steps s u"

inductive_cases lease_stepE: "lease_step (now, db) s"
inductive_simps lease_step_pair: "lease_step (now, db) (later, db')"

definition lease_inv :: "lease_db \<Rightarrow> bool" where
  "lease_inv db \<longleftrightarrow> distinct (map ls_key db) \<and> list_all (\<lambda>row. 0 < ls_token row) db"

definition token_of :: "lease_db \<Rightarrow> string \<Rightarrow> nat" where
  "token_of db key = (case find (\<lambda>row. ls_key row = key) db of None \<Rightarrow> 0 | Some row \<Rightarrow> ls_token row)"

text \<open>What an earlier lease sees of a later table: the token has passed it, or its own row stands.\<close>

definition fenced :: "SyncLease \<Rightarrow> lease_db \<Rightarrow> bool" where
  "fenced lease db \<longleftrightarrow> sl_fencingToken lease < token_of db (sl_key lease)"

lemma find_key_unique:
  "distinct (map ls_key db) \<Longrightarrow> row \<in> set db \<Longrightarrow> find (\<lambda>r. ls_key r = ls_key row) db = Some row"
  by (induction db) auto

lemma token_of_row: "lease_inv db \<Longrightarrow> row \<in> set db \<Longrightarrow> token_of db (ls_key row) = ls_token row"
  by (simp add: token_of_def lease_inv_def find_key_unique)

lemma map_keys: "(\<And>r. ls_key (f r) = ls_key r) \<Longrightarrow> map ls_key (map f db) = map ls_key db"
  by simp

text \<open>The effect of an operation on the table.\<close>

lemma acquire_effect:
  assumes "acquire ex key holderId d db = (out, db')"
  obtains (none) "db' = db" "\<And>lease. out \<noteq> Inr (Some lease)"
  | (fresh) row where "out = Inr (Some (toLease row))" "db' = db @ [row]" "ls_key row = key" "ls_token row = 1"
      "key \<notin> ls_key ` set db"
  | (taken) row old where "out = Inr (Some (toLease row))" "old \<in> set db" "ls_key old = key" "ls_expires old \<le> ex_now ex"
      "ls_key row = key" "ls_token row = ls_token old + 1" "db' = map (\<lambda>r. if ls_key r = key then row else r) db"
proof -
  from assms consider e where "out = Inl e" "db' = db"
    | r where "out = Inr r" "upsert_lease (ex_now ex) key holderId d db = (Inr r, db')"
    unfolding acquire_def by (auto split: sum.splits dest!: requestTransaction_cases)
  then show thesis
  proof cases
    case (1 e)
    then show thesis using none by simp
  next
    case (2 r)
    show thesis
    proof (cases "find (\<lambda>row. ls_key row = key) db")
      case None
      then have new: "key \<notin> ls_key ` set db" by (auto simp: find_None_iff)
      from 2 None show thesis
        by (auto simp: upsert_lease_def Let_def split: if_splits intro!: fresh new)
    next
      case (Some old)
      then have old: "old \<in> set db" "ls_key old = key" by (auto simp: find_Some_iff)
      with 2 Some show thesis
        by (auto simp: upsert_lease_def Let_def split: if_splits intro: none taken [OF _ old])
    qed
  qed
qed

lemma renew_effect:
  assumes "renew ex lease d db = (out, db')"
  shows "db' = db \<or>
    db' = map (\<lambda>row. if lease_matches lease row \<and> ex_now ex < ls_expires row
      then row\<lparr>ls_renewed := int (ex_now ex), ls_expires := ex_now ex + nat d\<rparr> else row) db"
  using assms unfolding renew_def
  by (auto split: sum.splits dest!: requestTransaction_cases simp: Let_def)

lemma release_effect:
  assumes "release ex lease db = (out, db')"
  shows "db' = db \<or> db' = map (\<lambda>row. if lease_matches lease row
      then row\<lparr>ls_renewed := int (ex_now ex) - 1, ls_expires := ex_now ex\<rparr> else row) db"
  using assms unfolding release_def by (auto dest!: requestTransaction_cases)

text \<open>Renewing and releasing touch no key, holder or token.\<close>

definition same_owner :: "lease_row \<Rightarrow> lease_row \<Rightarrow> bool" where
  "same_owner a b \<longleftrightarrow> ls_key a = ls_key b \<and> ls_holder a = ls_holder b \<and> ls_token a = ls_token b"

lemma token_of_Cons [simp]:
  "token_of (row # db) key = (if ls_key row = key then ls_token row else token_of db key)"
  by (simp add: token_of_def)

lemma token_of_Nil [simp]: "token_of [] key = 0"
  by (simp add: token_of_def)

lemma token_of_absent: "key \<notin> ls_key ` set db \<Longrightarrow> token_of db key = 0"
  by (induction db) auto

lemma token_of_snoc:
  "token_of (db @ [row]) key = (if key \<in> ls_key ` set db then token_of db key else token_of [row] key)"
  by (induction db) auto

lemma token_of_map:
  "(\<And>r. same_owner (f r) r) \<Longrightarrow> token_of (map f db) key = token_of db key"
  by (induction db) (auto simp: same_owner_def)

lemma token_of_taken:
  "ls_key row = k \<Longrightarrow> k \<in> ls_key ` set db \<Longrightarrow>
     token_of (map (\<lambda>r. if ls_key r = k then row else r) db) key = (if key = k then ls_token row else token_of db key)"
proof (induction db)
  case (Cons r db)
  have "token_of (map (\<lambda>r. if ls_key r = k then row else r) ws) key = token_of ws key" if "key \<noteq> k" for ws
    using that Cons.prems(1) by (induction ws) auto
  with Cons show ?case by auto
qed simp

lemma lease_inv_map: "(\<And>r. same_owner (f r) r) \<Longrightarrow> lease_inv db \<Longrightarrow> lease_inv (map f db)"
proof -
  assume f: "\<And>r. same_owner (f r) r" and inv: "lease_inv db"
  have "map ls_key (map f db) = map ls_key db" using f by (simp add: same_owner_def)
  moreover have "list_all (\<lambda>row. 0 < ls_token row) (map f db)"
    using f inv by (auto simp: same_owner_def lease_inv_def list_all_iff)
  ultimately show ?thesis using inv unfolding lease_inv_def by metis
qed

lemma lease_run_cases:
  obtains (owners) f where "lease_run ex action db = map f db" "\<And>r. same_owner (f r) r"
  | (fresh) row where "lease_run ex action db = db @ [row]" "ls_token row = 1" "ls_key row \<notin> ls_key ` set db"
  | (taken) row old where "lease_run ex action db = map (\<lambda>r. if ls_key r = ls_key row then row else r) db"
      "old \<in> set db" "ls_key old = ls_key row" "ls_token row = ls_token old + 1"
proof (cases action)
  case (Acquire key holderId d)
  obtain out db' where run: "acquire ex key holderId d db = (out, db')" by (cases "acquire ex key holderId d db")
  have result: "lease_run ex action db = db'" using Acquire run by simp
  show thesis
  proof (rule acquire_effect [OF run])
    assume "db' = db"
    with result show thesis using owners [of "\<lambda>r. r"] by (simp add: same_owner_def)
  next
    fix row assume "db' = db @ [row]" "ls_key row = key" "ls_token row = 1" "key \<notin> ls_key ` set db"
    with result show thesis by (intro fresh [of row]) simp_all
  next
    fix row old assume "old \<in> set db" "ls_key old = key" "ls_key row = key" "ls_token row = ls_token old + 1"
      "db' = map (\<lambda>r. if ls_key r = key then row else r) db"
    with result show thesis by (intro taken [of row old]) simp_all
  qed
next
  case (Renew lease d)
  obtain out db' where run: "renew ex lease d db = (out, db')" by (cases "renew ex lease d db")
  from renew_effect [OF run] show thesis
    using Renew run owners [of "\<lambda>r. r"] owners [of "\<lambda>row. if lease_matches lease row \<and> ex_now ex < ls_expires row
      then row\<lparr>ls_renewed := int (ex_now ex), ls_expires := ex_now ex + nat d\<rparr> else row"]
    by (auto simp: same_owner_def)
next
  case (Release lease)
  obtain out db' where run: "release ex lease db = (out, db')" by (cases "release ex lease db")
  from release_effect [OF run] show thesis
    using Release run owners [of "\<lambda>r. r"] owners [of "\<lambda>row. if lease_matches lease row
      then row\<lparr>ls_renewed := int (ex_now ex) - 1, ls_expires := ex_now ex\<rparr> else row"]
    by (auto simp: same_owner_def)
qed

lemma lease_run_keeps:
  assumes "lease_inv db"
  shows "lease_inv (lease_run ex action db) \<and> token_of db key \<le> token_of (lease_run ex action db) key"
proof (rule lease_run_cases [of ex action db])
  fix f assume "lease_run ex action db = map f db" "\<And>r. same_owner (f r) r"
  with assms show ?thesis by (simp add: lease_inv_map token_of_map)
next
  fix row assume "lease_run ex action db = db @ [row]" "ls_token row = 1" "ls_key row \<notin> ls_key ` set db"
  with assms show ?thesis by (auto simp: lease_inv_def token_of_snoc token_of_absent)
next
  fix row old assume run: "lease_run ex action db = map (\<lambda>r. if ls_key r = ls_key row then row else r) db"
    and old: "old \<in> set db" "ls_key old = ls_key row" "ls_token row = ls_token old + 1"
  have keys: "map ls_key (map (\<lambda>r. if ls_key r = ls_key row then row else r) db) = map ls_key db" by simp
  have "lease_inv (lease_run ex action db)"
    using assms old(3) keys unfolding run lease_inv_def by (auto simp: list_all_iff simp del: map_map)
  moreover have "token_of db (ls_key row) = ls_token old" using token_of_row [OF assms old(1)] old(2) by simp
  moreover have "ls_key row \<in> ls_key ` set db" using old by (metis image_eqI)
  ultimately show ?thesis using old unfolding run by (subst token_of_taken) auto
qed

lemma lease_step_keeps:
  "lease_step (now, db) (later, db') \<Longrightarrow> lease_inv db \<Longrightarrow>
     now \<le> later \<and> lease_inv db' \<and> token_of db key \<le> token_of db' key"
  by (auto simp: lease_step_pair lease_run_keeps)

lemma lease_steps_keep:
  "lease_steps s t \<Longrightarrow> lease_inv (snd s) \<Longrightarrow>
     fst s \<le> fst t \<and> lease_inv (snd t) \<and> token_of (snd s) key \<le> token_of (snd t) key"
proof (induction rule: lease_steps.induct)
  case (step s t u)
  obtain now db later db' where tu: "t = (now, db)" "u = (later, db')" by (cases t; cases u)
  with step lease_step_keeps [of now db later db' key] show ?case by auto
qed simp

lemma held_row:
  assumes "assertLeaseHeld now lease db = Inr ()"
  obtains row where "row \<in> set db" "lease_matches lease row" "now < ls_expires row"
proof -
  have "length (filter (\<lambda>row. lease_matches lease row \<and> now < ls_expires row) db) = 1"
    using assms by (simp add: assertLeaseHeld_def split: if_splits)
  then obtain row where "row \<in> set (filter (\<lambda>row. lease_matches lease row \<and> now < ls_expires row) db)"
    by (metis length_0_conv last_in_set zero_neq_one)
  then show thesis by (intro that [of row]) simp_all
qed

lemma held_token: "lease_inv db \<Longrightarrow> assertLeaseHeld now lease db = Inr () \<Longrightarrow> token_of db (sl_key lease) = sl_fencingToken lease"
  by (metis held_row lease_matches_def token_of_row)

lemma fenced_lost:
  assumes inv: "lease_inv db" and fenced: "sl_fencingToken lease < token_of db (sl_key lease)"
  shows "\<forall>row \<in> set db. \<not> lease_matches lease row"
proof (intro ballI notI)
  fix row assume row: "row \<in> set db" "lease_matches lease row"
  from token_of_row [OF inv row(1)] row(2) fenced show False by (simp add: lease_matches_def)
qed

subsection \<open>Properties\<close>

text \<open>At any time at most one worker holds a lease: in every state that operations reach from an empty
  table, two leases of one key that both pass the fencing check have the same holder and token.\<close>

theorem one_lease_holder:
  assumes "lease_steps (start, []) (now, db)"
    and "assertLeaseHeld now a db = Inr ()" and "assertLeaseHeld now b db = Inr ()" and "sl_key a = sl_key b"
  shows "sl_fencingToken a = sl_fencingToken b \<and> lower_hex (sl_holderId a) = lower_hex (sl_holderId b)"
proof -
  have inv: "lease_inv db" using lease_steps_keep [OF assms(1)] by (simp add: lease_inv_def)
  obtain r where r: "r \<in> set db" "lease_matches a r" by (rule held_row [OF assms(2)])
  obtain s where s: "s \<in> set db" "lease_matches b s" by (rule held_row [OF assms(3)])
  have "ls_key r = ls_key s" using r s assms(4) by (simp add: lease_matches_def)
  then have "r = s" using r(1) s(1) inv find_key_unique unfolding lease_inv_def by (metis option.inject)
  with r s show ?thesis by (simp add: lease_matches_def)
qed

definition example_uuid :: string where
  "example_uuid = ''00000000-0000-1000-8000-000000000000''"

lemma example_acquire:
  "acquire (live 1) ''discovery'' example_uuid 100 [] =
     (Inr (Some \<lparr>sl_key = ''discovery'', sl_holderId = example_uuid, sl_fencingToken = 1, sl_expiresAt = 101\<rparr>),
      [\<lparr>ls_key = ''discovery'', ls_holder = example_uuid, ls_token = 1, ls_acquired = 1, ls_renewed = 1, ls_expires = 101\<rparr>])"
proof -
  have "uuid_text example_uuid" "lower_hex example_uuid = example_uuid" by code_simp+
  then show ?thesis
    by (simp add: acquire_def validateLeaseInput_def upsert_lease_def stored_key_def toLease_def)
qed

lemma example_reacquire:
  "acquire (live 200) ''discovery'' example_uuid 100
      [\<lparr>ls_key = ''discovery'', ls_holder = example_uuid, ls_token = 1, ls_acquired = 1, ls_renewed = 1, ls_expires = 101\<rparr>] =
     (Inr (Some \<lparr>sl_key = ''discovery'', sl_holderId = example_uuid, sl_fencingToken = 2, sl_expiresAt = 300\<rparr>),
      [\<lparr>ls_key = ''discovery'', ls_holder = example_uuid, ls_token = 2, ls_acquired = 200, ls_renewed = 200, ls_expires = 300\<rparr>])"
proof -
  have "uuid_text example_uuid" "lower_hex example_uuid = example_uuid" by code_simp+
  then show ?thesis
    by (simp add: acquire_def validateLeaseInput_def upsert_lease_def stored_key_def toLease_def max_bigint_def)
qed

definition example_lease :: SyncLease where
  "example_lease = \<lparr>sl_key = ''discovery'', sl_holderId = example_uuid, sl_fencingToken = 1, sl_expiresAt = 101\<rparr>"

lemma example_held: "assertLeaseHeld 1 example_lease
   [\<lparr>ls_key = ''discovery'', ls_holder = example_uuid, ls_token = 1, ls_acquired = 1, ls_renewed = 1, ls_expires = 101\<rparr>] = Inr ()"
proof -
  have "lower_hex example_uuid = example_uuid" by code_simp
  then show ?thesis by (simp add: assertLeaseHeld_def lease_matches_def example_lease_def)
qed

theorem one_lease_holder_witness:
  "lower_hex (sl_holderId example_lease) = lower_hex example_uuid"
proof -
  have "lease_steps (0, []) (1, lease_run (live 1) (Acquire ''discovery'' example_uuid 100) [])"
    by (rule lease_steps.step [OF lease_steps.refl])
      (use lease_step.operate [of 0 "live 1" "[]" "Acquire ''discovery'' example_uuid 100"] in simp)
  then have "lease_steps (0, []) (1, [\<lparr>ls_key = ''discovery'', ls_holder = example_uuid, ls_token = 1, ls_acquired = 1,
      ls_renewed = 1, ls_expires = 101\<rparr>])"
    unfolding lease_run.simps example_acquire snd_conv .
  from one_lease_holder [OF this example_held example_held] show ?thesis by (simp add: example_lease_def)
qed

text \<open>C21. Fencing: once another worker has acquired the key of a lease that was held before, that lease was
  no longer held at the moment of the acquisition, and from then on, through any further operations of
  any workers, it never passes the fencing check again, and renewing or releasing it changes nothing.\<close>

theorem lost_lease_stays_lost:
  assumes inv: "lease_inv db0" and held: "assertLeaseHeld now0 old db0 = Inr ()"
    and between: "lease_steps (now0, db0) (now1, db1)" and later: "now1 \<le> ex_now ex"
    and acquired: "acquire ex (sl_key old) holderId d db1 = (Inr (Some new), db2)"
    and after: "lease_steps (ex_now ex, db2) (now3, db3)"
  shows "\<not> ok (assertLeaseHeld (ex_now ex) old db1) \<and> sl_fencingToken old < sl_fencingToken new \<and>
    (\<forall>t. \<not> ok (assertLeaseHeld t old db3)) \<and>
    (\<forall>ex' d'. snd (renew ex' old d' db3) = db3 \<and> (\<forall>l. fst (renew ex' old d' db3) \<noteq> Inr (Some l))) \<and>
    (\<forall>ex'. snd (release ex' old db3) = db3)"
proof -
  have inv1: "lease_inv db1" and grown: "sl_fencingToken old \<le> token_of db1 (sl_key old)"
    using lease_steps_keep [OF between, of "sl_key old"] inv held_token [OF inv held] by simp_all
  have positive: "0 < sl_fencingToken old"
    using held_row [OF held] inv by (metis lease_inv_def lease_matches_def list_all_iff)
  have run: "db2 = lease_run ex (Acquire (sl_key old) holderId d) db1" using acquired by simp
  have taken: "sl_fencingToken old < token_of db2 (sl_key old) \<and> sl_fencingToken new = token_of db2 (sl_key old) \<and>
      \<not> ok (assertLeaseHeld (ex_now ex) old db1)"
  proof (rule acquire_effect [OF acquired])
    fix row assume "sl_key old \<notin> ls_key ` set db1"
    then have "token_of db1 (sl_key old) = 0" by (rule token_of_absent)
    with grown positive show ?thesis by simp
  next
    fix row o1 assume new: "Inr (Some new) = (Inr (Some (toLease row)) :: service_error + SyncLease option)"
      and o1: "o1 \<in> set db1" "ls_key o1 = sl_key old" "ls_expires o1 \<le> ex_now ex"
      and row: "ls_key row = sl_key old" "ls_token row = ls_token o1 + 1"
      and db2: "db2 = map (\<lambda>r. if ls_key r = sl_key old then row else r) db1"
    have t1: "token_of db1 (sl_key old) = ls_token o1" using token_of_row [OF inv1 o1(1)] o1(2) by simp
    have t2: "token_of db2 (sl_key old) = ls_token row"
      unfolding db2 by (subst token_of_taken [OF row(1)]) (use o1 in \<open>metis image_eqI\<close>, simp)
    have "\<not> ok (assertLeaseHeld (ex_now ex) old db1)"
    proof
      assume "ok (assertLeaseHeld (ex_now ex) old db1)"
      then obtain r where r: "r \<in> set db1" "lease_matches old r" "ex_now ex < ls_expires r"
        using held_row by (metis ok_iff old.unit.exhaust)
      then have "r = o1" using o1 inv1 find_key_unique unfolding lease_inv_def lease_matches_def by (metis option.inject)
      with r(3) o1(3) show False by simp
    qed
    with t1 t2 grown row(2) new show ?thesis by (simp add: toLease_def)
  qed blast
  have inv2: "lease_inv db2" using lease_run_keeps [OF inv1] run by blast
  have inv3: "lease_inv db3" and gone: "sl_fencingToken old < token_of db3 (sl_key old)"
    using lease_steps_keep [OF after, of "sl_key old"] inv2 taken by simp_all
  note none = fenced_lost [OF inv3 gone]
  have lost: "\<not> ok (assertLeaseHeld t old db3)" for t
    using none by (auto simp: assertLeaseHeld_def filter_False)
  have same: "map (\<lambda>row. if lease_matches old row \<and> P row then f row else row) db3 = db3" for P f
    using none by (intro map_idI) auto
  have find: "find (\<lambda>row. lease_matches old row \<and> P row) db3 = None" for P
    using none by (auto simp: find_None_iff)
  have renewed: "snd (renew ex' old d' db3) = db3 \<and> (\<forall>l. fst (renew ex' old d' db3) \<noteq> Inr (Some l))" for ex' d'
    by (auto simp: renew_def Let_def same find requestTransaction_def split: sum.splits)
  have "snd (release ex' old db3) = db3" for ex'
    using same [of "\<lambda>_. True"] by (auto simp: release_def requestTransaction_def split: sum.splits)
  with lost taken renewed show ?thesis by simp
qed

theorem lost_lease_stays_lost_witness:
  "\<not> ok (assertLeaseHeld 250 example_lease
     [\<lparr>ls_key = ''discovery'', ls_holder = example_uuid, ls_token = 2, ls_acquired = 200, ls_renewed = 200, ls_expires = 300\<rparr>])"
proof -
  let ?db = "[\<lparr>ls_key = ''discovery'', ls_holder = example_uuid, ls_token = 1, ls_acquired = 1, ls_renewed = 1, ls_expires = 101\<rparr>]"
  have inv: "lease_inv ?db" by (simp add: lease_inv_def)
  have key: "sl_key example_lease = ''discovery''" by (simp add: example_lease_def)
  from lost_lease_stays_lost [OF inv example_held lease_steps.refl, of "live 200"]
    example_reacquire lease_steps.refl
  show ?thesis unfolding key by (metis live_now numeral_One one_le_numeral)
qed

end
