(* ===== verification/Source_Staging.thy ===== *)
theory Source_Staging
  imports Skill_Parsing External_Revision Effects
begin

text \<open>
  The first half of a synchronization
  (\<open>src/application/services/source-synchronization-service.ts\<close>): reading the license evidence and the
  declared skills of a snapshot into staged candidates, their dependencies and resources, and the
  propagation of failures along dependencies.

  The provider is a parameter whose reads change a world and may fail; the world of the staging is the
  count of decoded bytes (\<open>decodedRepositoryBytes\<close>) with that world. An exception is an \<open>Error\<close> with its
  message or a cancellation (a \<open>DOMException\<close> named \<open>AbortError\<close> or \<open>TimeoutError\<close>), which
  \<open>rethrowCancellation\<close> lets through; runs are modelled without an abort signal of the caller.
\<close>

subsection \<open>Errors and findings\<close>

datatype sync_error = Thrown string | Cancellation

definition of_res :: "'a res \<Rightarrow> (sync_error, 'w, 'a) eff" where
  "of_res r = of_sum (case r of Inl (Error m) \<Rightarrow> Inl (Thrown m) | Inr x \<Rightarrow> Inr x)"

text \<open>\<open>try { m } catch (error) { rethrowCancellation(error, context); h }\<close>\<close>

definition catch_failure :: "(sync_error, 'w, 'a) eff \<Rightarrow> (string \<Rightarrow> (sync_error, 'w, 'a) eff) \<Rightarrow> (sync_error, 'w, 'a) eff" where
  "catch_failure m h = catch_eff m (\<lambda>e. case e of Cancellation \<Rightarrow> raise_eff Cancellation | Thrown message \<Rightarrow> h message)"

definition reason_mapping :: "(string \<times> ExternalValidationReasonCode) list" where
  "reason_mapping =
     [(''MANIFEST_INVALID'', MANIFEST_INVALID), (''MANIFEST_OVERSIZED'', MANIFEST_INVALID),
      (''MANIFEST_DUPLICATE_SKILL'', MANIFEST_DUPLICATE_SKILL), (''SKILL_SCHEMA_INVALID'', SKILL_SCHEMA_INVALID),
      (''SKILL_OVERSIZED'', RESOURCE_OVERSIZED), (''SKILL_NON_TEXT'', RESOURCE_NON_TEXT),
      (''SKILL_DUPLICATE_IDENTITY'', SKILL_DUPLICATE_IDENTITY), (''OBJECT_UNSUPPORTED'', OBJECT_UNSUPPORTED),
      (''PATH_UNSAFE'', PATH_UNSAFE), (''RESOURCE_MISSING'', RESOURCE_MISSING), (''RESOURCE_NON_TEXT'', RESOURCE_NON_TEXT),
      (''RESOURCE_OVERSIZED'', RESOURCE_OVERSIZED), (''LICENSE_MISSING'', LICENSE_MISSING),
      (''LICENSE_UNSUPPORTED'', LICENSE_UNSUPPORTED), (''LICENSE_CONFLICT'', LICENSE_CONFLICT),
      (''ATTRIBUTION_MISSING'', ATTRIBUTION_MISSING), (''HASH_MISMATCH'', HASH_MISMATCH),
      (''DEPENDENCY_AMBIGUOUS'', DEPENDENCY_AMBIGUOUS), (''TREE_TRUNCATED'', TREE_TRUNCATED),
      (''TREE_OVERSIZED'', TREE_OVERSIZED), (''TREE_AMBIGUOUS'', TREE_AMBIGUOUS),
      (''RESPONSE_BUDGET_EXCEEDED'', RESOURCE_OVERSIZED), (''BUNDLE_OVERSIZED'', RESOURCE_OVERSIZED),
      (''TEXT_OVERSIZED'', RESOURCE_OVERSIZED)]"

definition findingFromError :: "string \<Rightarrow> string \<Rightarrow> SubjectKind \<Rightarrow> ExternalValidationFinding" where
  "findingFromError message subjectId subjectKind =
     \<lparr>fd_code = (case map_of reason_mapping message of None \<Rightarrow> SKILL_SCHEMA_INVALID | Some code \<Rightarrow> code),
      fd_severity = SevError, fd_subjectKind = subjectKind, fd_subjectId = subjectId\<rparr>"

subsection \<open>Budgets, provider and snapshot\<close>

record IngestionBudgets =
  maximumCandidates :: nat
  maximumResourcesPerSkill :: nat
  maximumDependenciesPerSkill :: nat
  maximumTextBytes :: nat
  maximumBundleBytes :: nat
  maximumRepositoryBytes :: nat

record GitHubRepositoryIdentity =
  gr_owner :: string
  gr_repository :: string
  gr_repositoryId :: int
  gr_defaultBranch :: string

record GitHubRepositorySnapshot =
  sn_repository :: GitHubRepositoryIdentity
  sn_commitSha :: string
  sn_treeSha :: string
  sn_tree :: "GitTreeEntry list"

type_synonym 'w blob_reader = "string \<Rightarrow> nat \<Rightarrow> (sync_error, 'w, string) eff"

type_synonym ('w, 'a) staging = "(sync_error, nat \<times> 'w, 'a) eff"

definition outer_eff :: "(sync_error, 'w, 'a) eff \<Rightarrow> ('w, 'a) staging" where
  "outer_eff m = (\<lambda>(n, w). (fst (m w), (n, snd (m w))))"

definition requiredBlob :: "GitTreeEntry list \<Rightarrow> string \<Rightarrow> nat \<Rightarrow> GitTreeEntry res" where
  "requiredBlob tree path maximumBytes =
     (case find (\<lambda>c. te_path c = path) tree of
        None \<Rightarrow> Fail ''RESOURCE_MISSING''
      | Some entry \<Rightarrow>
          (case te_size entry of
             None \<Rightarrow> Fail ''OBJECT_UNSUPPORTED''
           | Some k \<Rightarrow>
               if te_type entry \<noteq> Blob \<or> te_mode entry \<noteq> Mode100644 then Fail ''OBJECT_UNSUPPORTED''
               else if maximumBytes < k then Fail ''RESOURCE_OVERSIZED'' else Inr entry))"

definition readText :: "runtime \<Rightarrow> IngestionBudgets \<Rightarrow> 'w blob_reader \<Rightarrow> GitTreeEntry \<Rightarrow> ('w, string) staging" where
  "readText rt budgets readBlob entry =
     (case te_size entry of
        None \<Rightarrow> raise_eff (Thrown ''RESOURCE_OVERSIZED'')
      | Some k \<Rightarrow>
          bind_eff (guard_eff (k \<le> maximumTextBytes budgets) (Thrown ''RESOURCE_OVERSIZED'')) (\<lambda>_.
          bind_eff (change_eff (\<lambda>(decoded, w). (decoded + k, w))) (\<lambda>_.
          bind_eff (read_eff (\<lambda>(decoded, w).
            if maximumRepositoryBytes budgets < decoded then Inl (Thrown ''RESPONSE_BUDGET_EXCEEDED'') else Inr ())) (\<lambda>_.
          bind_eff (outer_eff (readBlob (te_sha entry) k)) (\<lambda>bytes.
          of_res (decodeInertText rt ''RESOURCE_NON_TEXT'' bytes))))))"

text \<open>The texts of some entries of the tree, each looked up again by its path.\<close>

definition read_entries ::
  "runtime \<Rightarrow> IngestionBudgets \<Rightarrow> 'w blob_reader \<Rightarrow> GitTreeEntry list \<Rightarrow> GitTreeEntry list \<Rightarrow> ('w, string list) staging" where
  "read_entries rt budgets readBlob tree entries =
     each_eff (\<lambda>e. bind_eff (of_res (requiredBlob tree (te_path e) (maximumTextBytes budgets))) (readText rt budgets readBlob)) entries"

subsection \<open>License evidence\<close>

definition LICENSE_NAMES :: "string list" where
  "LICENSE_NAMES = [''license'', ''license.md'', ''license.txt'', ''copying'']"

definition NOTICE_NAMES :: "string list" where
  "NOTICE_NAMES = [''notice'', ''notice.md'', ''notice.txt'']"

definition by_te_path :: "runtime \<Rightarrow> GitTreeEntry \<Rightarrow> GitTreeEntry \<Rightarrow> int" where
  "by_te_path rt a b = localeCompare rt (te_path a) (te_path b)"

definition root_entries :: "runtime \<Rightarrow> importer \<Rightarrow> string list \<Rightarrow> GitTreeEntry list \<Rightarrow> GitTreeEntry list" where
  "root_entries rt io names tree =
     js_sort (by_te_path rt) (filter (\<lambda>e. CHR ''/'' \<notin> set (te_path e) \<and> toLowerCase io (te_path e) \<in> set names) tree)"

definition sibling_entries :: "runtime \<Rightarrow> importer \<Rightarrow> string list \<Rightarrow> string \<Rightarrow> GitTreeEntry list \<Rightarrow> GitTreeEntry list" where
  "sibling_entries rt io names directory tree =
     js_sort (by_te_path rt)
       (filter (\<lambda>e. posix_dirname (te_path e) = directory \<and> toLowerCase io (posix_basename (te_path e)) \<in> set names) tree)"

record legal =
  lg_spdxLicenseId :: string
  lg_licenseText :: string
  lg_attribution :: string
  lg_licenseEvidencePath :: string
  lg_licenseBlobSha :: string
  lg_skillDeclaredSpdxId :: "string option"
  lg_noticeText :: "string option"
  lg_noticeEvidencePath :: "string option"
  lg_noticeBlobSha :: "string option"

text \<open>The one text of several entries that must agree, with the first entry.\<close>

definition agreed_text ::
  "runtime \<Rightarrow> IngestionBudgets \<Rightarrow> 'w blob_reader \<Rightarrow> GitTreeEntry list \<Rightarrow> GitTreeEntry \<Rightarrow> GitTreeEntry list \<Rightarrow>
     ('w, string) staging" where
  "agreed_text rt budgets readBlob tree first others =
     bind_eff (read_entries rt budgets readBlob tree (first # others)) (\<lambda>texts.
     bind_eff (guard_eff (length (uniq texts) \<le> 1) (Thrown ''LICENSE_CONFLICT'')) (\<lambda>_. give (hd texts)))"

definition folded :: "importer \<Rightarrow> string \<Rightarrow> string" where
  "folded io s = toLowerCase io (nfkc io s)"

definition source_legal ::
  "runtime \<Rightarrow> importer \<Rightarrow> IngestionBudgets \<Rightarrow> 'w blob_reader \<Rightarrow> GitTreeEntry list \<Rightarrow> string option \<Rightarrow> string \<Rightarrow> ('w, legal) staging" where
  "source_legal rt io budgets readBlob tree declaredLicense attribution =
     (case root_entries rt io LICENSE_NAMES tree of
        [] \<Rightarrow> raise_eff (Thrown ''LICENSE_MISSING'')
      | licenseEntry # others \<Rightarrow>
          bind_eff (agreed_text rt budgets readBlob tree licenseEntry others) (\<lambda>licenseText.
          bind_eff (case root_entries rt io NOTICE_NAMES tree of
                      [] \<Rightarrow> give (None, None, None)
                    | noticeEntry # alsoNotices \<Rightarrow>
                        bind_eff (agreed_text rt budgets readBlob tree noticeEntry alsoNotices) (\<lambda>notice.
                          give (Some notice, Some (te_path noticeEntry), Some (te_sha noticeEntry)))) (\<lambda>(notice, noticePath, noticeSha).
          bind_eff (guard_eff (\<not> (attribution \<noteq> [] \<and>
              (case detectAttribution licenseText of None \<Rightarrow> False | Some d \<Rightarrow> folded io attribution \<noteq> folded io d)))
              (Thrown ''LICENSE_CONFLICT'')) (\<lambda>_.
          bind_eff (of_res (validatePinnedLicense rt \<lparr>toLowerCase = toLowerCase io\<rparr>
              \<lparr>le_declaredSpdxId = declaredLicense,
               le_detectedSpdxId = detectSpdxLicense \<lparr>toLowerCase = toLowerCase io\<rparr> licenseText,
               le_licenseText = Some licenseText, le_noticeText = notice,
               le_attribution = (if attribution \<noteq> [] then attribution
                 else case detectAttribution licenseText of None \<Rightarrow> [] | Some d \<Rightarrow> d)\<rparr>)) (\<lambda>validated.
          give \<lparr>lg_spdxLicenseId = vl_spdxId validated, lg_licenseText = licenseText, lg_attribution = vl_attribution validated,
            lg_licenseEvidencePath = te_path licenseEntry, lg_licenseBlobSha = te_sha licenseEntry, lg_skillDeclaredSpdxId = None,
            lg_noticeText = notice, lg_noticeEvidencePath = noticePath, lg_noticeBlobSha = noticeSha\<rparr>)))))"

text \<open>The license of the source, or the finding every candidate gets.\<close>

definition read_license ::
  "runtime \<Rightarrow> importer \<Rightarrow> IngestionBudgets \<Rightarrow> 'w blob_reader \<Rightarrow> GitTreeEntry list \<Rightarrow> string option \<Rightarrow> string \<Rightarrow>
     ('w, ExternalValidationFinding + legal) staging" where
  "read_license rt io budgets readBlob tree declaredLicense attribution =
     catch_failure (bind_eff (source_legal rt io budgets readBlob tree declaredLicense attribution) (\<lambda>l. give (Inr l)))
       (\<lambda>message. give (Inl (findingFromError message ''source-license'' SubjectCandidate)))"

subsection \<open>Staged candidates\<close>

record staged =
  st_root :: string
  st_skillPath :: string
  st_document :: "ParsedSkillDocument option"
  st_resources :: "ExternalResourceInput list"
  st_dependencies :: "ExternalDependencyInput list"
  st_findings :: "ExternalValidationFinding list"
  st_legal :: "legal option"

record SkillDeclaration =
  dc_root :: string
  dc_skillPath :: string
  dc_entry :: "GitTreeEntry option"
  dc_findings :: "ExternalValidationFinding list"

definition add_findings :: "ExternalValidationFinding list \<Rightarrow> staged \<Rightarrow> staged" where
  "add_findings fs c = c\<lparr>st_findings := st_findings c @ fs\<rparr>"

text \<open>A \<open>try\<close> block whose statements update the candidate one after another: what an earlier statement
  wrote stays when a later one throws, and the throw becomes a finding.\<close>

fun attempt_steps :: "string \<Rightarrow> SubjectKind \<Rightarrow> (staged \<Rightarrow> ('w, staged) staging) list \<Rightarrow> staged \<Rightarrow> ('w, staged) staging" where
  "attempt_steps subject kind [] c = give c"
| "attempt_steps subject kind (step # steps) c =
     bind_eff (catch_failure (bind_eff (step c) (\<lambda>c'. give (Inr c')))
         (\<lambda>message. give (Inl (add_findings [findingFromError message subject kind] c)))) (\<lambda>r.
       case r of Inl stopped \<Rightarrow> give stopped | Inr c' \<Rightarrow> attempt_steps subject kind steps c')"

definition initial_candidate :: "ExternalValidationFinding + legal \<Rightarrow> SkillDeclaration \<Rightarrow> staged" where
  "initial_candidate license declaration =
     \<lparr>st_root = dc_root declaration, st_skillPath = dc_skillPath declaration, st_document = None, st_resources = [],
      st_dependencies = [],
      st_findings = dc_findings declaration @ (case license of Inl failure \<Rightarrow> [failure] | Inr _ \<Rightarrow> []),
      st_legal = (case license of Inl _ \<Rightarrow> None | Inr l \<Rightarrow> Some l)\<rparr>"

definition document_step ::
  "runtime \<Rightarrow> importer \<Rightarrow> IngestionBudgets \<Rightarrow> 'w blob_reader \<Rightarrow> GitTreeEntry \<Rightarrow> staged \<Rightarrow> ('w, staged) staging" where
  "document_step rt io budgets readBlob entry c =
     bind_eff (readText rt budgets readBlob entry) (\<lambda>source.
     bind_eff (of_res (parseSkillDocument rt io source)) (\<lambda>document. give (c\<lparr>st_document := Some document\<rparr>)))"

definition notice_step ::
  "runtime \<Rightarrow> importer \<Rightarrow> IngestionBudgets \<Rightarrow> 'w blob_reader \<Rightarrow> GitTreeEntry list \<Rightarrow> staged \<Rightarrow> ('w, staged) staging" where
  "notice_step rt io budgets readBlob tree c =
     (case (sibling_entries rt io NOTICE_NAMES (posix_dirname (st_skillPath c)) tree, st_legal c) of
        (noticeEntry # others, Some l) \<Rightarrow>
          bind_eff (agreed_text rt budgets readBlob tree noticeEntry others) (\<lambda>notice.
            give (c\<lparr>st_legal := Some (l\<lparr>lg_noticeText := Some notice, lg_noticeEvidencePath := Some (te_path noticeEntry),
              lg_noticeBlobSha := Some (te_sha noticeEntry)\<rparr>)\<rparr>))
      | _ \<Rightarrow> give c)"

text \<open>A license the skill declares itself: the one of the source, or one with a text beside the skill.\<close>

definition license_step ::
  "runtime \<Rightarrow> importer \<Rightarrow> IngestionBudgets \<Rightarrow> 'w blob_reader \<Rightarrow> GitTreeEntry list \<Rightarrow> string \<Rightarrow> staged \<Rightarrow> ('w, staged) staging" where
  "license_step rt io budgets readBlob tree spdxLicenseId c =
     (case st_document c of
        None \<Rightarrow> give c
      | Some document \<Rightarrow>
          (case sd_declaredSpdxId document of
             None \<Rightarrow> give c
           | Some declared \<Rightarrow>
               if declared = spdxLicenseId
               then give (c\<lparr>st_legal := map_option (\<lambda>l. l\<lparr>lg_skillDeclaredSpdxId := Some declared\<rparr>) (st_legal c)\<rparr>)
               else
                 (case sibling_entries rt io LICENSE_NAMES (posix_dirname (st_skillPath c)) tree of
                    [] \<Rightarrow> raise_eff (Thrown ''LICENSE_CONFLICT'')
                  | licenseEntry # _ \<Rightarrow>
                      bind_eff (of_res (requiredBlob tree (te_path licenseEntry) (maximumTextBytes budgets))) (\<lambda>entry.
                      bind_eff (readText rt budgets readBlob entry) (\<lambda>licenseText.
                      bind_eff (of_res (validatePinnedLicense rt \<lparr>toLowerCase = toLowerCase io\<rparr>
                          \<lparr>le_declaredSpdxId = Some declared,
                           le_detectedSpdxId = detectSpdxLicense \<lparr>toLowerCase = toLowerCase io\<rparr> licenseText,
                           le_licenseText = Some licenseText,
                           le_noticeText = (case st_legal c of None \<Rightarrow> None | Some l \<Rightarrow> lg_noticeText l),
                           le_attribution = (case detectAttribution licenseText of None \<Rightarrow> [] | Some d \<Rightarrow> d)\<rparr>)) (\<lambda>validated.
                      give (c\<lparr>st_legal := Some
                        \<lparr>lg_spdxLicenseId = vl_spdxId validated, lg_licenseText = vl_licenseText validated,
                         lg_attribution = vl_attribution validated, lg_licenseEvidencePath = te_path licenseEntry,
                         lg_licenseBlobSha = te_sha licenseEntry, lg_skillDeclaredSpdxId = Some declared,
                         lg_noticeText = (case st_legal c of None \<Rightarrow> None | Some l \<Rightarrow> lg_noticeText l),
                         lg_noticeEvidencePath = (case st_legal c of None \<Rightarrow> None | Some l \<Rightarrow> lg_noticeEvidencePath l),
                         lg_noticeBlobSha = (case st_legal c of None \<Rightarrow> None | Some l \<Rightarrow> lg_noticeBlobSha l)\<rparr>\<rparr>)))))))"

definition stage_declaration ::
  "runtime \<Rightarrow> importer \<Rightarrow> IngestionBudgets \<Rightarrow> 'w blob_reader \<Rightarrow> GitTreeEntry list \<Rightarrow> ExternalValidationFinding + legal \<Rightarrow>
     SkillDeclaration \<Rightarrow> ('w, staged) staging" where
  "stage_declaration rt io budgets readBlob tree license declaration =
     (case dc_entry declaration of
        None \<Rightarrow> give (initial_candidate license declaration)
      | Some entry \<Rightarrow>
          attempt_steps (dc_skillPath declaration) SubjectCandidate
            [document_step rt io budgets readBlob entry, notice_step rt io budgets readBlob tree,
             license_step rt io budgets readBlob tree (case license of Inl _ \<Rightarrow> [] | Inr l \<Rightarrow> lg_spdxLicenseId l)]
            (initial_candidate license declaration))"

subsection \<open>Dependencies and resources\<close>

definition staged_names :: "staged list \<Rightarrow> string list" where
  "staged_names cs = concat (map (\<lambda>c. case st_document c of None \<Rightarrow> [] | Some d \<Rightarrow> [sd_name d]) cs)"

definition duplicateNames :: "string list \<Rightarrow> string list" where
  "duplicateNames names = map fst (filter (\<lambda>(n, count). 1 < count) (name_counts names))"

definition candidate_finding :: "ExternalValidationReasonCode \<Rightarrow> string \<Rightarrow> ExternalValidationFinding" where
  "candidate_finding code subject = \<lparr>fd_code = code, fd_severity = SevError, fd_subjectKind = SubjectCandidate, fd_subjectId = subject\<rparr>"

definition resolve_candidate :: "runtime \<Rightarrow> IngestionBudgets \<Rightarrow> string list \<Rightarrow> ParsedSkillDocument \<Rightarrow> staged \<Rightarrow> staged" where
  "resolve_candidate rt budgets names document c =
     (let resolution = resolveInternalDependencies (localeCompare rt) names (sd_name document) (sd_dependencyEvidence document)
      in c\<lparr>st_dependencies := rs_dependencies resolution,
           st_findings := st_findings c @
             (if sd_name document \<in> set (duplicateNames names)
              then [candidate_finding SKILL_DUPLICATE_IDENTITY (sd_name document)] else []) @
             rs_findings resolution @
             (if maximumDependenciesPerSkill budgets < length (rs_dependencies resolution)
              then [candidate_finding DEPENDENCY_AMBIGUOUS (st_skillPath c)] else [])\<rparr>)"

definition resource_step ::
  "runtime \<Rightarrow> IngestionBudgets \<Rightarrow> 'w blob_reader \<Rightarrow> GitTreeEntry list \<Rightarrow> ResourceReference \<Rightarrow> staged \<Rightarrow> ('w, staged) staging" where
  "resource_step rt budgets readBlob tree reference c =
     bind_eff (of_res (requiredBlob tree (rf_repositoryPath reference) (maximumTextBytes budgets))) (\<lambda>entry.
     bind_eff (readText rt budgets readBlob entry) (\<lambda>content.
       give (c\<lparr>st_resources := st_resources c @
         [\<lparr>xr_path = rf_manifestPath reference, xr_mediaType = rf_mediaType reference, xr_content = content\<rparr>]\<rparr>)))"

definition bundle_bytes :: "ParsedSkillDocument \<Rightarrow> staged \<Rightarrow> nat" where
  "bundle_bytes document c =
     length (sd_instructions document) + sum_list (map (\<lambda>r. length (xr_content r)) (st_resources c)) +
     (case st_legal c of None \<Rightarrow> 0 | Some l \<Rightarrow> length (lg_licenseText l) + (case lg_noticeText l of None \<Rightarrow> 0 | Some t \<Rightarrow> length t))"

definition bundle_step :: "IngestionBudgets \<Rightarrow> ParsedSkillDocument \<Rightarrow> staged \<Rightarrow> ('w, staged) staging" where
  "bundle_step budgets document c =
     bind_eff (guard_eff (bundle_bytes document c \<le> maximumBundleBytes budgets) (Thrown ''RESOURCE_OVERSIZED'')) (\<lambda>_. give c)"

definition stage_resources ::
  "runtime \<Rightarrow> importer \<Rightarrow> IngestionBudgets \<Rightarrow> 'w blob_reader \<Rightarrow> GitTreeEntry list \<Rightarrow> string list \<Rightarrow> staged \<Rightarrow> ('w, staged) staging" where
  "stage_resources rt io budgets readBlob tree names c =
     (case st_document c of
        None \<Rightarrow> give c
      | Some document \<Rightarrow>
          let resolved = resolve_candidate rt budgets names document c
          in (case extractTextualResourceReferences rt io (sd_instructions document) (st_skillPath c) of
                Inl (Error message) \<Rightarrow> give (add_findings [findingFromError message (st_skillPath c) SubjectResource] resolved)
              | Inr references \<Rightarrow>
                  if maximumResourcesPerSkill budgets < length references
                  then give (add_findings [findingFromError ''RESOURCE_OVERSIZED'' (st_skillPath c) SubjectResource] resolved)
                  else attempt_steps (st_skillPath c) SubjectResource
                         (map (resource_step rt budgets readBlob tree) references @ [bundle_step budgets document]) resolved))"

end
