(* ===== verification/Source_Propagation.thy ===== *)
theory Source_Propagation
  imports Source_Staging
begin

text \<open>
  Failures spread along dependencies
  (\<open>src/application/services/source-synchronization-service.ts\<close>): the graph of the staged candidates,
  the findings of dependency cycles, and the loop that rejects a candidate while one of its targets is
  missing or rejected. The loop is shown to end and to reject exactly the candidates from which a
  failure can be reached.
\<close>

definition has_name :: "string \<Rightarrow> staged \<Rightarrow> bool" where
  "has_name n c \<longleftrightarrow> (case st_document c of None \<Rightarrow> False | Some d \<Rightarrow> sd_name d = n)"

definition graph_of :: "staged list \<Rightarrow> graph" where
  "graph_of cs =
     fold (\<lambda>c m. case st_document c of None \<Rightarrow> m | Some d \<Rightarrow> AList.update (sd_name d) (st_dependencies c) m) cs []"

fun update_first :: "('a \<Rightarrow> bool) \<Rightarrow> ('a \<Rightarrow> 'a) \<Rightarrow> 'a list \<Rightarrow> 'a list" where
  "update_first p f [] = []"
| "update_first p f (x # xs) = (if p x then f x # xs else x # update_first p f xs)"

definition report_cycle :: "string \<Rightarrow> staged list \<Rightarrow> staged list" where
  "report_cycle name = update_first (has_name name) (add_findings [candidate_finding DEPENDENCY_CYCLE name])"

definition report_cycles :: "staged list \<Rightarrow> staged list" where
  "report_cycles cs = fold report_cycle (case dependencyCycleMembers (graph_of cs) of None \<Rightarrow> [] | Some names \<Rightarrow> names) cs"

subsection \<open>The loop\<close>

text \<open>The first dependency whose target is missing or has findings, of a candidate that has none.\<close>

definition unavailableTarget :: "staged list \<Rightarrow> staged \<Rightarrow> ExternalDependencyInput option" where
  "unavailableTarget cs c =
     (if st_document c = None \<or> st_findings c \<noteq> [] then None
      else find (\<lambda>d. case find (has_name (dep_skillName d)) cs of None \<Rightarrow> True | Some target \<Rightarrow> st_findings target \<noteq> [])
             (st_dependencies c))"

definition document_name :: "staged \<Rightarrow> string" where
  "document_name c = (case st_document c of None \<Rightarrow> [] | Some d \<Rightarrow> sd_name d)"

definition propagate_at :: "nat \<Rightarrow> staged list \<times> bool \<Rightarrow> staged list \<times> bool" where
  "propagate_at i s =
     (case unavailableTarget (fst s) (fst s ! i) of
        None \<Rightarrow> s
      | Some d \<Rightarrow>
          ((fst s)[i := add_findings [candidate_finding DEPENDENCY_MISSING
             (document_name (fst s ! i) @ '':'' @ dep_skillName d)] (fst s ! i)], True))"

definition propagate_pass :: "staged list \<Rightarrow> staged list \<times> bool" where
  "propagate_pass cs = fold propagate_at [0..<length cs] (cs, False)"

definition clean_count :: "staged list \<Rightarrow> nat" where
  "clean_count cs = length (filter (\<lambda>c. st_findings c = []) cs)"

lemma add_findings_fields [simp]:
  "st_document (add_findings fs c) = st_document c" "st_dependencies (add_findings fs c) = st_dependencies c"
  "st_skillPath (add_findings fs c) = st_skillPath c" "st_root (add_findings fs c) = st_root c"
  "st_legal (add_findings fs c) = st_legal c" "st_resources (add_findings fs c) = st_resources c"
  "st_findings (add_findings fs c) = st_findings c @ fs" "has_name n (add_findings fs c) = has_name n c"
  by (simp_all add: add_findings_def has_name_def)

lemma add_findings_Nil [simp]: "add_findings [] c = c"
  by (simp add: add_findings_def)

lemma unavailableTarget_clean: "unavailableTarget cs c = Some d \<Longrightarrow> st_findings c = [] \<and> st_document c \<noteq> None"
  by (simp add: unavailableTarget_def split: if_splits)

lemma clean_count_update:
  assumes "i < length cs" and "st_findings (cs ! i) = []" and "st_findings c \<noteq> []"
  shows "clean_count (cs[i := c]) < clean_count cs"
proof -
  have split: "cs = take i cs @ cs ! i # drop (Suc i) cs" using assms(1) by (rule id_take_nth_drop)
  have "clean_count cs = clean_count (take i cs) + 1 + clean_count (drop (Suc i) cs)"
    by (subst split) (simp add: clean_count_def assms(2))
  moreover have "cs[i := c] = take i cs @ c # drop (Suc i) cs" using assms(1) by (rule upd_conv_take_nth_drop)
  then have "clean_count (cs[i := c]) = clean_count (take i cs) + clean_count (drop (Suc i) cs)"
    using assms(3) by (simp add: clean_count_def)
  ultimately show ?thesis by simp
qed

lemma propagate_at_progress:
  assumes "i < length (fst s)"
  shows "length (fst (propagate_at i s)) = length (fst s) \<and>
    (propagate_at i s = s \<or> (snd (propagate_at i s) \<and> clean_count (fst (propagate_at i s)) < clean_count (fst s)))"
proof (cases "unavailableTarget (fst s) (fst s ! i)")
  case None then show ?thesis by (simp add: propagate_at_def)
next
  case (Some d)
  with clean_count_update [OF assms] unavailableTarget_clean [OF Some] show ?thesis by (simp add: propagate_at_def)
qed

lemma propagate_fold_progress:
  assumes "\<forall>i \<in> set is. i < length (fst s)"
  shows "length (fst (fold propagate_at is s)) = length (fst s) \<and>
    (fold propagate_at is s = s \<or> (snd (fold propagate_at is s) \<and> clean_count (fst (fold propagate_at is s)) < clean_count (fst s)))"
  using assms
proof (induction "is" arbitrary: s)
  case (Cons i "is")
  from Cons.prems have i: "i < length (fst s)" by simp
  note one = propagate_at_progress [OF i]
  then have "\<forall>j \<in> set is. j < length (fst (propagate_at i s))" using Cons.prems by simp
  note rest = Cons.IH [OF this]
  show ?case
  proof (cases "propagate_at i s = s")
    case True with rest show ?thesis by simp
  next
    case False
    with one rest show ?thesis by auto
  qed
qed simp

lemma propagate_pass_progress:
  "length (fst (propagate_pass cs)) = length cs"
  "propagate_pass cs = (cs, False) \<or> (snd (propagate_pass cs) \<and> clean_count (fst (propagate_pass cs)) < clean_count cs)"
  using propagate_fold_progress [of "[0..<length cs]" "(cs, False)"] by (auto simp: propagate_pass_def)

function propagate :: "staged list \<Rightarrow> staged list" where
  "propagate cs = (if snd (propagate_pass cs) then propagate (fst (propagate_pass cs)) else fst (propagate_pass cs))"
  by auto
termination
proof (relation "measure clean_count")
  fix cs assume "snd (propagate_pass cs)"
  with propagate_pass_progress(2) [of cs] show "(fst (propagate_pass cs), cs) \<in> measure clean_count" by auto
qed simp

declare propagate.simps [simp del]

subsection \<open>What the loop computes\<close>

text \<open>\<open>grown cs cs'\<close>: the same candidates with further findings.\<close>

definition grown :: "staged list \<Rightarrow> staged list \<Rightarrow> bool" where
  "grown cs cs' \<longleftrightarrow> list_all2 (\<lambda>c c'. \<exists>fs. c' = add_findings fs c) cs cs'"

lemma grown_refl [simp]: "grown cs cs"
  unfolding grown_def by (rule list_all2_refl) (metis add_findings_Nil)

lemma add_findings_add [simp]: "add_findings fs (add_findings gs c) = add_findings (gs @ fs) c"
  by (simp add: add_findings_def)

lemma grown_update: "grown cs cs' \<Longrightarrow> i < length cs' \<Longrightarrow> grown cs (cs'[i := add_findings fs (cs' ! i)])"
  unfolding grown_def list_all2_conv_all_nth by (auto simp: nth_list_update) (metis add_findings_add)

lemma grown_length: "grown cs cs' \<Longrightarrow> length cs' = length cs"
  unfolding grown_def by (simp add: list_all2_lengthD)

lemma grown_nth:
  "grown cs cs' \<Longrightarrow> i < length cs \<Longrightarrow> \<exists>fs. cs' ! i = add_findings fs (cs ! i)"
  unfolding grown_def by (simp add: list_all2_conv_all_nth)

text \<open>The position of the candidate a name stands for.\<close>

definition target_of :: "staged list \<Rightarrow> string \<Rightarrow> nat option" where
  "target_of cs n = find (\<lambda>i. has_name n (cs ! i)) [0..<length cs]"

lemma find_nth: "find P cs = map_option (nth cs) (find (\<lambda>i. P (cs ! i)) [0..<length cs])"
proof (induction cs)
  case (Cons c cs)
  have "find Q (map Suc is) = map_option Suc (find (\<lambda>i. Q (Suc i)) is)" for Q and "is" :: "nat list"
    by (induction "is") simp_all
  moreover have "[0..<length (c # cs)] = 0 # map Suc [0..<length cs]" by (simp add: upt_conv_Cons map_Suc_upt del: upt_Suc)
  ultimately show ?case using Cons by (simp add: option.map_comp comp_def del: upt_Suc)
qed simp

lemma find_target: "find (has_name n) cs = map_option (nth cs) (target_of cs n)"
  unfolding target_of_def by (rule find_nth)

lemma target_of_less: "target_of cs n = Some j \<Longrightarrow> j < length cs"
  unfolding target_of_def by (auto simp: find_Some_iff)

lemma target_of_grown:
  assumes "grown cs cs'"
  shows "target_of cs' n = target_of cs n"
  unfolding target_of_def grown_length [OF assms]
proof (rule find_cong)
  fix i assume "i \<in> set [0..<length cs]"
  then show "has_name n (cs' ! i) = has_name n (cs ! i)" using grown_nth [OF assms, of i] by auto
qed simp

inductive unavailable :: "staged list \<Rightarrow> nat \<Rightarrow> bool" for cs where
  failed: "i < length cs \<Longrightarrow> st_findings (cs ! i) \<noteq> [] \<Longrightarrow> unavailable cs i"
| missing: "i < length cs \<Longrightarrow> st_document (cs ! i) \<noteq> None \<Longrightarrow> d \<in> set (st_dependencies (cs ! i)) \<Longrightarrow>
    target_of cs (dep_skillName d) = None \<Longrightarrow> unavailable cs i"
| spread: "i < length cs \<Longrightarrow> st_document (cs ! i) \<noteq> None \<Longrightarrow> d \<in> set (st_dependencies (cs ! i)) \<Longrightarrow>
    target_of cs (dep_skillName d) = Some j \<Longrightarrow> unavailable cs j \<Longrightarrow> unavailable cs i"

definition sound_for :: "staged list \<Rightarrow> staged list \<Rightarrow> bool" where
  "sound_for cs cs' \<longleftrightarrow> grown cs cs' \<and> (\<forall>i < length cs. st_findings (cs' ! i) \<noteq> [] \<longrightarrow> unavailable cs i)"

lemma unavailableTarget_unavailable:
  assumes "sound_for cs cs'" and "i < length cs" and "unavailableTarget cs' (cs' ! i) = Some d"
  shows "unavailable cs i"
proof -
  have g: "grown cs cs'" using assms(1) by (simp add: sound_for_def)
  from assms(3) have doc: "st_document (cs' ! i) \<noteq> None"
    and found: "find (\<lambda>d. case find (has_name (dep_skillName d)) cs' of None \<Rightarrow> True | Some target \<Rightarrow> st_findings target \<noteq> [])
      (st_dependencies (cs' ! i)) = Some d"
    by (simp_all add: unavailableTarget_def split: if_splits)
  from found have d: "d \<in> set (st_dependencies (cs' ! i))"
    and bad: "case find (has_name (dep_skillName d)) cs' of None \<Rightarrow> True | Some target \<Rightarrow> st_findings target \<noteq> []"
    by (auto simp: find_Some_iff)
  obtain fs where "cs' ! i = add_findings fs (cs ! i)" using grown_nth [OF g assms(2)] by blast
  then have same: "st_document (cs ! i) \<noteq> None" "d \<in> set (st_dependencies (cs ! i))" using doc d by simp_all
  show ?thesis
  proof (cases "target_of cs (dep_skillName d)")
    case None
    with assms(2) same show ?thesis by (rule unavailable.missing)
  next
    case (Some j)
    with bad have "st_findings (cs' ! j) \<noteq> []" by (simp add: find_target target_of_grown [OF g])
    moreover have "j < length cs" using Some by (rule target_of_less)
    ultimately have "unavailable cs j" using assms(1) by (simp add: sound_for_def)
    from unavailable.spread [OF assms(2) same Some this] show ?thesis .
  qed
qed

lemma propagate_at_sound:
  assumes "sound_for cs (fst s)" and "i < length cs"
  shows "sound_for cs (fst (propagate_at i s))"
proof (cases "unavailableTarget (fst s) (fst s ! i)")
  case None with assms show ?thesis by (simp add: propagate_at_def)
next
  case (Some d)
  have g: "grown cs (fst s)" using assms(1) by (simp add: sound_for_def)
  have len: "i < length (fst s)" using grown_length [OF g] assms(2) by simp
  from unavailableTarget_unavailable [OF assms Some] grown_update [OF g len] assms(1) Some len
  show ?thesis by (auto simp: propagate_at_def sound_for_def nth_list_update split: if_split_asm)
qed

lemma propagate_fold_sound:
  "\<forall>i \<in> set is. i < length cs \<Longrightarrow> sound_for cs (fst s) \<Longrightarrow> sound_for cs (fst (fold propagate_at is s))"
proof (induction "is" arbitrary: s)
  case (Cons i "is")
  then have "sound_for cs (fst (propagate_at i s))" by (intro propagate_at_sound) simp_all
  with Cons show ?case by simp
qed simp

lemma propagate_pass_sound: "sound_for cs cs' \<Longrightarrow> sound_for cs (fst (propagate_pass cs'))"
  unfolding propagate_pass_def by (rule propagate_fold_sound) (auto simp: sound_for_def dest: grown_length)

lemma propagate_sound: "sound_for cs cs' \<Longrightarrow> sound_for cs (propagate cs')"
proof (induction cs' rule: propagate.induct)
  case (1 cs')
  show ?case
  proof (cases "snd (propagate_pass cs')")
    case True
    from 1(1) [OF True propagate_pass_sound [OF 1(2)]] True show ?thesis by (simp add: propagate.simps [of cs'])
  next
    case False
    then show ?thesis using propagate_pass_sound [OF 1(2)] by (simp add: propagate.simps [of cs'])
  qed
qed

text \<open>A pass without a change means that no candidate is blocked.\<close>

lemma propagate_fold_changed: "snd s \<Longrightarrow> snd (fold propagate_at is s)"
  by (induction "is" arbitrary: s) (auto simp: propagate_at_def split: option.split)

lemma propagate_fold_stable:
  "\<not> snd (fold propagate_at is s) \<Longrightarrow> fold propagate_at is s = s \<and> (\<forall>i \<in> set is. unavailableTarget (fst s) (fst s ! i) = None)"
proof (induction "is" arbitrary: s)
  case (Cons i "is")
  show ?case
  proof (cases "unavailableTarget (fst s) (fst s ! i)")
    case None
    then have "propagate_at i s = s" by (simp add: propagate_at_def)
    with Cons None show ?thesis by simp
  next
    case (Some d)
    then have "snd (propagate_at i s)" by (simp add: propagate_at_def)
    with Cons.prems propagate_fold_changed [of "propagate_at i s" "is"] show ?thesis by simp
  qed
qed simp

lemma propagate_stable: "i < length (propagate cs) \<Longrightarrow> unavailableTarget (propagate cs) (propagate cs ! i) = None"
proof (induction cs rule: propagate.induct)
  case (1 cs)
  show ?case
  proof (cases "snd (propagate_pass cs)")
    case True
    with 1 show ?thesis by (simp add: propagate.simps [of cs])
  next
    case False
    then have "propagate_pass cs = (cs, False)" using propagate_pass_progress(2) [of cs] by auto
    moreover have "\<forall>i \<in> set [0..<length cs]. unavailableTarget cs (cs ! i) = None"
      using propagate_fold_stable [of "[0..<length cs]" "(cs, False)"] False by (simp add: propagate_pass_def)
    ultimately show ?thesis using 1(2) by (simp add: propagate.simps [of cs])
  qed
qed

lemma stable_complete:
  assumes "grown cs cs'" and "\<forall>i < length cs'. unavailableTarget cs' (cs' ! i) = None" and "unavailable cs i"
  shows "st_findings (cs' ! i) \<noteq> []"
  using assms(3)
proof (induction rule: unavailable.induct)
  case (failed i)
  then show ?case using grown_nth [OF assms(1), of i] by auto
next
  case (missing i d)
  then show ?case
  proof -
    have i: "i < length cs'" using missing(1) grown_length [OF assms(1)] by simp
    obtain fs where fs: "cs' ! i = add_findings fs (cs ! i)" using grown_nth [OF assms(1) missing(1)] by blast
    show ?thesis
    proof
      assume clean: "st_findings (cs' ! i) = []"
      with assms(2) i fs missing(2) have "find (\<lambda>d. case find (has_name (dep_skillName d)) cs' of None \<Rightarrow> True
        | Some target \<Rightarrow> st_findings target \<noteq> []) (st_dependencies (cs ! i)) = None"
        by (auto simp: unavailableTarget_def)
      with missing(3,4) show False by (auto simp: find_None_iff find_target target_of_grown [OF assms(1)])
    qed
  qed
next
  case (spread i d j)
  have i: "i < length cs'" using spread(1) grown_length [OF assms(1)] by simp
  obtain fs where fs: "cs' ! i = add_findings fs (cs ! i)" using grown_nth [OF assms(1) spread(1)] by blast
  show ?case
  proof
    assume clean: "st_findings (cs' ! i) = []"
    with assms(2) i fs spread(2) have "find (\<lambda>d. case find (has_name (dep_skillName d)) cs' of None \<Rightarrow> True
      | Some target \<Rightarrow> st_findings target \<noteq> []) (st_dependencies (cs ! i)) = None"
      by (auto simp: unavailableTarget_def)
    with spread(3,4,6) show False by (auto simp: find_None_iff find_target target_of_grown [OF assms(1)])
  qed
qed

lemma propagate_grown: "grown cs (propagate cs)"
  and propagate_unavailable: "i < length cs \<Longrightarrow> st_findings (propagate cs ! i) \<noteq> [] \<Longrightarrow> unavailable cs i"
proof -
  have "sound_for cs cs" by (auto simp: sound_for_def intro: unavailable.failed)
  then have "sound_for cs (propagate cs)" by (rule propagate_sound)
  then show "grown cs (propagate cs)" "i < length cs \<Longrightarrow> st_findings (propagate cs ! i) \<noteq> [] \<Longrightarrow> unavailable cs i"
    by (simp_all add: sound_for_def)
qed

text \<open>C27. The propagation loop ends, keeps the candidates and their order, and rejects exactly those from
  which a failure can be reached along dependencies: a candidate has findings afterwards if and only if
  it had some before, depends on a name no candidate has, or depends on a candidate that is rejected.
\<close>

theorem propagate_exact:
  "map (\<lambda>c. st_findings c \<noteq> []) (propagate cs) = map (unavailable cs) [0..<length cs]"
proof (rule nth_equalityI)
  have stable: "\<forall>i < length (propagate cs). unavailableTarget (propagate cs) (propagate cs ! i) = None"
    using propagate_stable by blast
  show same: "length (map (\<lambda>c. st_findings c \<noteq> []) (propagate cs)) = length (map (unavailable cs) [0..<length cs])"
    using grown_length [OF propagate_grown] by simp
  fix i assume "i < length (map (\<lambda>c. st_findings c \<noteq> []) (propagate cs))"
  then have "i < length cs" using grown_length [OF propagate_grown] by simp
  then show "map (\<lambda>c. st_findings c \<noteq> []) (propagate cs) ! i = map (unavailable cs) [0..<length cs] ! i"
    using same stable_complete [OF propagate_grown stable] propagate_unavailable by auto
qed

subsection \<open>Names, cycles and the graph\<close>

lemma has_name_iff: "has_name n c \<longleftrightarrow> st_document c \<noteq> None \<and> document_name c = n"
  by (auto simp: has_name_def document_name_def split: option.splits)

lemma map_of_graph_of: "map_of (graph_of cs) n = map_option st_dependencies (find (has_name n) (rev cs))"
proof (induction cs rule: rev_induct)
  case (snoc c cs)
  have "graph_of (cs @ [c]) = (case st_document c of None \<Rightarrow> graph_of cs | Some d \<Rightarrow> AList.update (sd_name d) (st_dependencies c) (graph_of cs))"
    unfolding graph_of_def by simp
  with snoc show ?case by (auto simp: has_name_def split: option.splits)
qed (simp add: graph_of_def)

text \<open>Candidates that share a name are rejected.\<close>

definition uniq_names :: "staged list \<Rightarrow> bool" where
  "uniq_names cs \<longleftrightarrow> (\<forall>i < length cs. \<forall>j < length cs. \<forall>n.
     i \<noteq> j \<longrightarrow> has_name n (cs ! i) \<longrightarrow> has_name n (cs ! j) \<longrightarrow> st_findings (cs ! i) \<noteq> [])"

lemma grown_trans: "grown a b \<Longrightarrow> grown b c \<Longrightarrow> grown a c"
  unfolding grown_def list_all2_conv_all_nth by auto (metis add_findings_add)

lemma grown_findings: "grown cs cs' \<Longrightarrow> i < length cs \<Longrightarrow> st_findings (cs ! i) \<noteq> [] \<Longrightarrow> st_findings (cs' ! i) \<noteq> []"
  using grown_nth by fastforce

lemma grown_has_name: "grown cs cs' \<Longrightarrow> i < length cs \<Longrightarrow> has_name n (cs' ! i) = has_name n (cs ! i)"
  using grown_nth [of cs cs' i] by auto

lemma uniq_names_grown: "uniq_names cs \<Longrightarrow> grown cs cs' \<Longrightarrow> uniq_names cs'"
  unfolding uniq_names_def using grown_findings grown_has_name [of cs cs'] grown_length [of cs cs'] by simp

lemma update_first_nth:
  "update_first p f xs = (case find (\<lambda>i. p (xs ! i)) [0..<length xs] of None \<Rightarrow> xs | Some i \<Rightarrow> xs[i := f (xs ! i)])"
proof (induction xs)
  case (Cons x xs)
  have "find Q (map Suc is) = map_option Suc (find (\<lambda>i. Q (Suc i)) is)" for Q and "is" :: "nat list"
    by (induction "is") simp_all
  moreover have "[0..<length (x # xs)] = 0 # map Suc [0..<length xs]" by (simp add: upt_conv_Cons map_Suc_upt del: upt_Suc)
  ultimately show ?case using Cons by (simp split: option.split del: upt_Suc)
qed simp

lemma report_cycle_at:
  "report_cycle n cs = (case target_of cs n of None \<Rightarrow> cs
     | Some i \<Rightarrow> cs[i := add_findings [candidate_finding DEPENDENCY_CYCLE n] (cs ! i)])"
  unfolding report_cycle_def target_of_def by (rule update_first_nth)

lemma report_cycle_grown: "grown cs (report_cycle n cs)"
  by (auto simp: report_cycle_at grown_update dest: target_of_less split: option.split)

lemma report_fold_grown: "grown cs (fold report_cycle ns cs)"
proof (induction ns arbitrary: cs)
  case (Cons n ns)
  from grown_trans [OF report_cycle_grown Cons.IH] show ?case by simp
qed simp

lemma report_fold_reports:
  assumes "n \<in> set ns" and "target_of cs n = Some i"
  shows "st_findings (fold report_cycle ns cs ! i) \<noteq> []"
  using assms
proof (induction ns arbitrary: cs)
  case (Cons m ns)
  have i: "i < length cs" using Cons.prems(2) by (rule target_of_less)
  have target: "target_of (report_cycle m cs) n = Some i"
    using target_of_grown [OF report_cycle_grown] Cons.prems(2) by simp
  show ?case
  proof (cases "n \<in> set ns")
    case True with Cons.IH [OF True target] show ?thesis by simp
  next
    case False
    with Cons.prems have "st_findings (report_cycle m cs ! i) \<noteq> []" using i by (simp add: report_cycle_at)
    moreover have "i < length (report_cycle m cs)" using grown_length [OF report_cycle_grown] i by simp
    ultimately show ?thesis using grown_findings [OF report_fold_grown] by simp
  qed
qed simp

lemma report_cycles_grown: "grown cs (report_cycles cs)"
  unfolding report_cycles_def by (rule report_fold_grown)

end
