(* ===== verification/Source_Revisions.thy ===== *)
theory Source_Revisions
  imports Source_Propagation
begin

text \<open>
  From staged candidates to revisions
  (\<open>src/application/services/source-synchronization-service.ts\<close>): the public identifier of a skill, the
  memoised construction of a revision after those of its dependencies, and the candidates that are
  published. The recursion of \<open>buildRevision\<close> takes fuel; for the candidates a synchronization stages it
  is proved that one unit more than their number is enough.
\<close>

subsection \<open>Public identifiers\<close>

text \<open>\<open>replaceAll(/[^a-z0-9]+/g, "-")\<close>: a run becomes one hyphen. The flag says that a run has begun.\<close>

fun squeeze :: "bool \<Rightarrow> string \<Rightarrow> string" where
  "squeeze run [] = []"
| "squeeze run (c # s) =
     (if lower_char c \<or> digit_char c then c # squeeze False s
      else if run then squeeze True s else CHR ''-'' # squeeze True s)"

definition strip_edges :: "string \<Rightarrow> string" where
  "strip_edges s =
     (let a = (if starts_with ''-'' s then drop 1 s else s) in if ends_with ''-'' a then butlast a else a)"

definition strip_hyphens :: "string \<Rightarrow> string" where
  "strip_hyphens s = rev (dropWhile (\<lambda>c. c = CHR ''-'') (rev s))"

definition or_else :: "string \<Rightarrow> string \<Rightarrow> string" where
  "or_else s fallback = (if s = [] then fallback else s)"

definition publicSkillId :: "runtime \<Rightarrow> importer \<Rightarrow> int \<Rightarrow> string \<Rightarrow> string \<Rightarrow> string res" where
  "publicSkillId rt io repositoryId name skillPath =
     (let safeName = or_else (strip_edges (squeeze False (toLowerCase io (nfkc io name)))) ''skill'';
          prefix = ''gh-'' @ show_int repositoryId @ ''-'';
          suffix = ''-'' @ take 16 (sha256 rt (nfc rt skillPath));
          readableLength = 80 - int (js_length prefix) - int (js_length suffix)
      in if readableLength < 1 then Fail ''PUBLICATION_CONFLICT''
         else Inr (prefix @ or_else (strip_hyphens (take (nat readableLength) safeName)) ''s'' @ suffix))"

subsection \<open>Revisions\<close>

definition eligibleByName :: "staged list \<Rightarrow> (string \<times> staged) list" where
  "eligibleByName cs =
     fold (\<lambda>c m. if st_document c = None \<or> st_findings c \<noteq> [] then m else AList.update (document_name c) c m) cs []"

definition imported_revision_input ::
  "runtime \<Rightarrow> GitHubRepositoryIdentity \<Rightarrow> string \<Rightarrow> string \<Rightarrow> ParsedSkillDocument \<Rightarrow> legal \<Rightarrow> staged \<Rightarrow>
     ExternalDependencyInput list \<Rightarrow> CreateExternalRevisionInput" where
  "imported_revision_input rt repository commitSha publicId document l c targets =
     \<lparr>ce_skillId = publicId,
      ce_provenance = \<lparr>ep_repositoryId = gr_repositoryId repository, ep_owner = gr_owner repository,
        ep_repository = gr_repository repository, ep_commitSha = commitSha, ep_skillPath = st_skillPath c,
        ep_sourceOwner = lg_attribution l, ep_spdxLicenseId = lg_spdxLicenseId l, ep_licenseText = lg_licenseText l,
        ep_licenseEvidencePath = Some (lg_licenseEvidencePath l), ep_licenseBlobSha = Some (lg_licenseBlobSha l),
        ep_skillDeclaredSpdxId = lg_skillDeclaredSpdxId l, ep_noticeText = lg_noticeText l,
        ep_noticeEvidencePath = lg_noticeEvidencePath l, ep_noticeBlobSha = lg_noticeBlobSha l\<rparr>,
      ce_skill = \<lparr>im_name = sd_name document, im_description = sd_description document, im_skillPath = st_skillPath c,
        im_instructions = sd_instructions document, im_invocationMode = sd_invocationMode document,
        im_resources = st_resources c, im_dependencies = targets\<rparr>\<rparr>"

text \<open>The end of \<open>buildRevision\<close>, once the revisions of its targets are known.\<close>

definition make_revision ::
  "runtime \<Rightarrow> importer \<Rightarrow> GitHubRepositoryIdentity \<Rightarrow> string \<Rightarrow> ParsedSkillDocument \<Rightarrow> legal \<Rightarrow> staged \<Rightarrow>
     ExternalDependencyInput list \<Rightarrow> ExternalSkillRevision res" where
  "make_revision rt io repository commitSha document l c targets =
     and_then (publicSkillId rt io (gr_repositoryId repository) (sd_name document) (st_skillPath c)) (\<lambda>publicId.
       createExternalSkillRevision rt (imported_revision_input rt repository commitSha publicId document l c targets))"

definition resolved_dependency :: "ExternalDependencyInput \<Rightarrow> ExternalSkillRevision \<Rightarrow> ExternalDependencyInput" where
  "resolved_dependency d r = d\<lparr>dep_targetSkillId := Some (es_skillId r), dep_targetRevision := Some (es_revision r)\<rparr>"

type_synonym memo = "(string \<times> ExternalSkillRevision) list"

type_synonym maker = "ParsedSkillDocument \<Rightarrow> legal \<Rightarrow> staged \<Rightarrow> ExternalDependencyInput list \<Rightarrow> ExternalSkillRevision res"

function (sequential)
  buildRevision :: "nat \<Rightarrow> maker \<Rightarrow> (string \<times> staged) list \<Rightarrow> staged \<Rightarrow> memo \<Rightarrow> (ExternalSkillRevision res \<times> memo) option"
  and build_targets :: "nat \<Rightarrow> maker \<Rightarrow> (string \<times> staged) list \<Rightarrow> ExternalDependencyInput list \<Rightarrow> memo \<Rightarrow>
     (ExternalDependencyInput list res \<times> memo) option" where
  "buildRevision 0 mk eligible c m = None"
| "buildRevision (Suc fuel) mk eligible c m =
     (case (st_document c, st_legal c) of
        (Some document, Some l) \<Rightarrow>
          (case map_of m (sd_name document) of
             Some existing \<Rightarrow> Some (Inr existing, m)
           | None \<Rightarrow>
               (case build_targets fuel mk eligible (st_dependencies c) m of
                  None \<Rightarrow> None
                | Some (Inl e, m') \<Rightarrow> Some (Inl e, m')
                | Some (Inr targets, m') \<Rightarrow>
                    (case mk document l c targets of
                       Inl e \<Rightarrow> Some (Inl e, m')
                     | Inr r \<Rightarrow> Some (Inr r, AList.update (sd_name document) r m'))))
      | _ \<Rightarrow> Some (Fail ''SKILL_SCHEMA_INVALID'', m))"
| "build_targets fuel mk eligible [] m = Some (Inr [], m)"
| "build_targets fuel mk eligible (d # ds) m =
     (case map_of eligible (dep_skillName d) of
        None \<Rightarrow> Some (Fail ''DEPENDENCY_MISSING'', m)
      | Some target \<Rightarrow>
          (case buildRevision fuel mk eligible target m of
             None \<Rightarrow> None
           | Some (Inl e, m') \<Rightarrow> Some (Inl e, m')
           | Some (Inr r, m') \<Rightarrow>
               (case build_targets fuel mk eligible ds m' of
                  None \<Rightarrow> None
                | Some (Inl e, m'') \<Rightarrow> Some (Inl e, m'')
                | Some (Inr rest, m'') \<Rightarrow> Some (Inr (resolved_dependency d r # rest), m''))))"
  by pat_completeness auto
termination
  by (relation "measures
      [\<lambda>x. case x of Inl (k, _, _, _, _) \<Rightarrow> 2 * k | Inr (k, _, _, _, _) \<Rightarrow> 2 * k + 1,
       \<lambda>x. case x of Inl _ \<Rightarrow> 0 | Inr (_, _, _, ds, _) \<Rightarrow> length ds]") auto

subsection \<open>Candidates\<close>

datatype AdapterKind = ClaudePlugin | NestedSkill

record ExternalCandidateInput =
  ci_skillPath :: string
  ci_name :: string
  ci_description :: string
  ci_adapterKind :: AdapterKind
  ci_classification :: CandidateClassification
  ci_findings :: "ExternalValidationFinding list"
  ci_revision :: "ExternalSkillRevision option"

definition candidate_input ::
  "runtime \<Rightarrow> AdapterKind \<Rightarrow> staged \<Rightarrow> ExternalValidationFinding list \<Rightarrow> ExternalSkillRevision option \<Rightarrow> ExternalCandidateInput" where
  "candidate_input rt adapterKind c fnds made =
     \<lparr>ci_skillPath = st_skillPath c,
      ci_name = (case st_document c of None \<Rightarrow> ''invalid-'' @ take 12 (sha256 rt (st_skillPath c)) | Some d \<Rightarrow> sd_name d),
      ci_description = (case st_document c of None \<Rightarrow> ''Candidate failed structural validation.'' | Some d \<Rightarrow> sd_description d),
      ci_adapterKind = adapterKind, ci_classification = (if made = None then Quarantined else Verified),
      ci_findings = fnds, ci_revision = made\<rparr>"

definition candidate_of ::
  "nat \<Rightarrow> maker \<Rightarrow> runtime \<Rightarrow> AdapterKind \<Rightarrow> (string \<times> staged) list \<Rightarrow> staged \<Rightarrow> memo \<Rightarrow> (ExternalCandidateInput \<times> memo) option" where
  "candidate_of fuel mk rt adapterKind eligible c m =
     (if st_document c = None \<or> st_findings c \<noteq> []
      then Some (candidate_input rt adapterKind c
             (if st_findings c = [] then [findingFromError ''SKILL_SCHEMA_INVALID'' (st_skillPath c) SubjectCandidate]
              else st_findings c) None, m)
      else case buildRevision fuel mk eligible c m of
             None \<Rightarrow> None
           | Some (Inr r, m') \<Rightarrow> Some (candidate_input rt adapterKind c [] (Some r), m')
           | Some (Inl (Error message), m') \<Rightarrow>
               Some (candidate_input rt adapterKind c [findingFromError message (st_skillPath c) SubjectCandidate] None, m'))"

fun candidates_of ::
  "nat \<Rightarrow> maker \<Rightarrow> runtime \<Rightarrow> AdapterKind \<Rightarrow> (string \<times> staged) list \<Rightarrow> staged list \<Rightarrow> memo \<Rightarrow> ExternalCandidateInput list option" where
  "candidates_of fuel mk rt adapterKind eligible [] m = Some []"
| "candidates_of fuel mk rt adapterKind eligible (c # cs) m =
     (case candidate_of fuel mk rt adapterKind eligible c m of
        None \<Rightarrow> None
      | Some (candidate, m') \<Rightarrow> map_option ((#) candidate) (candidates_of fuel mk rt adapterKind eligible cs m'))"

definition snapshot_candidates ::
  "runtime \<Rightarrow> importer \<Rightarrow> GitHubRepositoryIdentity \<Rightarrow> string \<Rightarrow> AdapterKind \<Rightarrow> staged list \<Rightarrow> ExternalCandidateInput list option" where
  "snapshot_candidates rt io repository commitSha adapterKind cs =
     candidates_of (Suc (length cs)) (make_revision rt io repository commitSha) rt adapterKind (eligibleByName cs) cs []"

definition snapshot_revisions :: "ExternalCandidateInput list \<Rightarrow> ExternalSkillRevision list" where
  "snapshot_revisions candidates = concat (map (\<lambda>c. case ci_revision c of None \<Rightarrow> [] | Some r \<Rightarrow> [r]) candidates)"

subsection \<open>The construction without a memo\<close>

text \<open>The specification of \<open>buildRevision\<close>: every revision is made anew from its targets.\<close>

function (sequential)
  plain :: "nat \<Rightarrow> maker \<Rightarrow> (string \<times> staged) list \<Rightarrow> staged \<Rightarrow> ExternalSkillRevision res option"
  and plain_targets :: "nat \<Rightarrow> maker \<Rightarrow> (string \<times> staged) list \<Rightarrow> ExternalDependencyInput list \<Rightarrow>
     ExternalDependencyInput list res option" where
  "plain 0 mk eligible c = None"
| "plain (Suc fuel) mk eligible c =
     (case (st_document c, st_legal c) of
        (Some document, Some l) \<Rightarrow>
          (case plain_targets fuel mk eligible (st_dependencies c) of
             None \<Rightarrow> None
           | Some (Inl e) \<Rightarrow> Some (Inl e)
           | Some (Inr targets) \<Rightarrow> Some (mk document l c targets))
      | _ \<Rightarrow> Some (Fail ''SKILL_SCHEMA_INVALID''))"
| "plain_targets fuel mk eligible [] = Some (Inr [])"
| "plain_targets fuel mk eligible (d # ds) =
     (case map_of eligible (dep_skillName d) of
        None \<Rightarrow> Some (Fail ''DEPENDENCY_MISSING'')
      | Some target \<Rightarrow>
          (case plain fuel mk eligible target of
             None \<Rightarrow> None
           | Some (Inl e) \<Rightarrow> Some (Inl e)
           | Some (Inr r) \<Rightarrow>
               (case plain_targets fuel mk eligible ds of
                  None \<Rightarrow> None
                | Some (Inl e) \<Rightarrow> Some (Inl e)
                | Some (Inr rest) \<Rightarrow> Some (Inr (resolved_dependency d r # rest)))))"
  by pat_completeness auto
termination
  by (relation "measures
      [\<lambda>x. case x of Inl (k, _, _, _) \<Rightarrow> 2 * k | Inr (k, _, _, _) \<Rightarrow> 2 * k + 1,
       \<lambda>x. case x of Inl _ \<Rightarrow> 0 | Inr (_, _, _, ds) \<Rightarrow> length ds]") auto

lemma plain_Suc:
  "plain k mk el c = Some x \<Longrightarrow> plain (Suc k) mk el c = Some x"
  "plain_targets k mk el ds = Some y \<Longrightarrow> plain_targets (Suc k) mk el ds = Some y"
proof (induction k mk el c and k mk el ds arbitrary: x and y rule: plain_plain_targets.induct)
  case (2 fuel mk el c)
  show ?case
  proof (cases "st_document c = None \<or> st_legal c = None")
    case True with 2(2) show ?thesis by (auto split: option.splits)
  next
    case False
    then obtain document l where dl: "st_document c = Some document" "st_legal c = Some l" by auto
    with 2(2) obtain ts where ts: "plain_targets fuel mk el (st_dependencies c) = Some ts" by (auto split: option.splits)
    have "plain_targets (Suc fuel) mk el (st_dependencies c) = Some ts" using 2(1) dl ts by blast
    with 2(2) dl ts show ?thesis by (simp del: plain_targets.simps)
  qed
next
  case (4 fuel mk el d ds)
  show ?case
  proof (cases "map_of el (dep_skillName d)")
    case None with 4 show ?thesis by simp
  next
    case (Some target)
    with 4(3) obtain r where r: "plain fuel mk el target = Some r" by (auto split: option.splits)
    have r2: "plain (Suc fuel) mk el target = Some r" using 4(1) Some r by blast
    show ?thesis
    proof (cases r)
      case (Inl e) with 4(3) Some r r2 show ?thesis by (simp del: plain.simps)
    next
      case (Inr a)
      with 4(3) Some r obtain ts where ts: "plain_targets fuel mk el ds = Some ts" by (auto split: option.splits)
      have "plain_targets (Suc fuel) mk el ds = Some ts" using 4(2) Some r Inr ts by blast
      with 4(3) Some r r2 Inr ts show ?thesis by (simp del: plain.simps)
    qed
  qed
qed simp_all

lemma plain_more: "k \<le> k' \<Longrightarrow> plain k mk el c = Some x \<Longrightarrow> plain k' mk el c = Some x"
  by (induction k' rule: dec_induct) (auto dest: plain_Suc(1) simp del: plain.simps)

lemma plain_unique: "plain k mk el c = Some x \<Longrightarrow> plain k' mk el c = Some y \<Longrightarrow> x = y"
  using plain_more [of k "max k k'" mk el c x] plain_more [of k' "max k k'" mk el c y] by simp

definition named_ok :: "(string \<times> staged) list \<Rightarrow> bool" where
  "named_ok el \<longleftrightarrow> (\<forall>n c. map_of el n = Some c \<longrightarrow> document_name c = n \<and> st_document c \<noteq> None)"

definition memo_ok :: "maker \<Rightarrow> (string \<times> staged) list \<Rightarrow> memo \<Rightarrow> bool" where
  "memo_ok mk el m \<longleftrightarrow>
     (\<forall>n r. map_of m n = Some r \<longrightarrow> (\<exists>c k. map_of el n = Some c \<and> plain k mk el c = Some (Inr r)))"

lemma memo_okD: "memo_ok mk el m \<Longrightarrow> map_of m n = Some r \<Longrightarrow> \<exists>c k. map_of el n = Some c \<and> plain k mk el c = Some (Inr r)"
  unfolding memo_ok_def by blast

lemma memo_ok_update:
  "memo_ok mk el m \<Longrightarrow> map_of el n = Some c \<Longrightarrow> plain k mk el c = Some (Inr r) \<Longrightarrow> memo_ok mk el (AList.update n r m)"
  unfolding memo_ok_def by (auto simp del: plain.simps)

lemma build_plain:
  "named_ok el \<Longrightarrow> memo_ok mk el m \<Longrightarrow> map_of el (document_name c) = Some c \<Longrightarrow> plain k mk el c = Some x \<Longrightarrow>
     \<exists>m'. buildRevision k mk el c m = Some (x, m') \<and> memo_ok mk el m'"
  "named_ok el \<Longrightarrow> memo_ok mk el m \<Longrightarrow> plain_targets k mk el ds = Some y \<Longrightarrow>
     \<exists>m'. build_targets k mk el ds m = Some (y, m') \<and> memo_ok mk el m'"
proof (induction k mk el c and k mk el ds arbitrary: m x and m y rule: plain_plain_targets.induct)
  case (2 fuel mk el c)
  show ?case
  proof (cases "st_document c = None \<or> st_legal c = None")
    case True with 2(3,5) show ?thesis by (auto split: option.splits)
  next
    case False
    then obtain document l where dl: "st_document c = Some document" "st_legal c = Some l" by auto
    then have name: "document_name c = sd_name document" by (simp add: document_name_def)
    show ?thesis
    proof (cases "map_of m (sd_name document)")
      case (Some r)
      from memo_okD [OF 2(3) Some] 2(4) name obtain k where "plain k mk el c = Some (Inr r)" by auto
      then have "x = Inr r" using plain_unique [OF 2(5)] by blast
      with Some dl 2(3) show ?thesis by simp
    next
      case None
      from 2(5) dl obtain ts where ts: "plain_targets fuel mk el (st_dependencies c) = Some ts" by (auto split: option.splits)
      from 2(1) [OF _ _ _ 2(2,3) ts] dl obtain m' where built: "build_targets fuel mk el (st_dependencies c) m = Some (ts, m')"
        and ok: "memo_ok mk el m'" by blast
      show ?thesis
      proof (cases ts)
        case (Inl e)
        with None dl built ok ts 2(5) show ?thesis by simp
      next
        case (Inr targets)
        with ts dl 2(5) have x: "x = mk document l c targets" by simp
        show ?thesis
        proof (cases "mk document l c targets")
          case (Inl e) with None dl built ok Inr x show ?thesis by simp
        next
          case (Inr r)
          have "memo_ok mk el (AList.update (sd_name document) r m')"
            by (rule memo_ok_update [OF ok]) (use 2(4,5) name x Inr in \<open>simp_all del: plain.simps\<close>)
          with None dl built \<open>ts = Inr targets\<close> x Inr show ?thesis by simp
        qed
      qed
    qed
  qed
next
  case (4 fuel mk el d ds)
  show ?case
  proof (cases "map_of el (dep_skillName d)")
    case None with 4(4,5) show ?thesis by simp
  next
    case (Some target)
    with 4(5) obtain r where r: "plain fuel mk el target = Some r" by (auto split: option.splits)
    have "map_of el (document_name target) = Some target" using 4(3) Some by (auto simp: named_ok_def)
    from 4(1) [OF Some 4(3,4) this r] obtain m' where built: "buildRevision fuel mk el target m = Some (r, m')"
      and ok: "memo_ok mk el m'" by blast
    show ?thesis
    proof (cases r)
      case (Inl e) with 4(5) Some r built ok show ?thesis by simp
    next
      case (Inr a)
      with 4(5) Some r obtain ts where ts: "plain_targets fuel mk el ds = Some ts" by (auto split: option.splits)
      have "\<exists>m''. build_targets fuel mk el ds m' = Some (ts, m'') \<and> memo_ok mk el m''"
        using 4(2) Some r Inr 4(3) ok ts by blast
      with 4(5) Some r built Inr ts show ?thesis by (cases ts) auto
    qed
  qed
qed simp_all

subsection \<open>Termination on candidates without cycles\<close>

definition el_edge :: "(string \<times> staged) list \<Rightarrow> string \<Rightarrow> string \<Rightarrow> bool" where
  "el_edge el n n' \<longleftrightarrow> (\<exists>c. map_of el n = Some c \<and> n' \<in> dep_skillName ` set (st_dependencies c)) \<and> map_of el n' \<noteq> None"

definition reach_below :: "(string \<times> staged) list \<Rightarrow> string \<Rightarrow> string set" where
  "reach_below el n = {n'. (el_edge el)\<^sup>+\<^sup>+ n n'}"

lemma below_dom: "reach_below el n \<subseteq> dom (map_of el)"
proof
  fix n' assume "n' \<in> reach_below el n"
  then have "(el_edge el)\<^sup>+\<^sup>+ n n'" by (simp add: reach_below_def)
  then show "n' \<in> dom (map_of el)" by (induction rule: tranclp_induct) (auto simp: el_edge_def)
qed

lemma finite_below [simp]: "finite (reach_below el n)"
  using below_dom by (rule finite_subset) (rule finite_dom_map_of)

lemma below_smaller:
  assumes "el_edge el n n'" and "\<not> (el_edge el)\<^sup>+\<^sup>+ n' n'"
  shows "card (reach_below el n') < card (reach_below el n)"
proof (rule psubset_card_mono)
  have "reach_below el n' \<subseteq> reach_below el n" unfolding reach_below_def using assms(1) by (auto intro: tranclp_into_tranclp2)
  moreover have "n' \<in> reach_below el n" "n' \<notin> reach_below el n'" unfolding reach_below_def using assms by auto
  ultimately show "reach_below el n' \<subset> reach_below el n" by blast
qed simp

lemma plain_returns:
  assumes "\<forall>n. \<not> (el_edge el)\<^sup>+\<^sup>+ n n" and "map_of el n = Some c" and "card (reach_below el n) < k"
  shows "plain k mk el c \<noteq> None"
  using assms(2,3)
proof (induction k arbitrary: n c)
  case (Suc k)
  have "plain_targets k mk el ds \<noteq> None" if "set ds \<subseteq> set (st_dependencies c)" for ds
    using that
  proof (induction ds)
    case (Cons d ds)
    show ?case
    proof (cases "map_of el (dep_skillName d)")
      case (Some target)
      have "el_edge el n (dep_skillName d)" using Suc.prems(1) Cons.prems Some by (auto simp: el_edge_def)
      then have "card (reach_below el (dep_skillName d)) < k" using below_smaller assms(1) Suc.prems(2) by fastforce
      from Suc.IH [OF Some this] obtain r where "plain k mk el target = Some r" by blast
      with Cons Some show ?thesis by (auto split: sum.split)
    qed simp
  qed simp
  then have "plain_targets k mk el (st_dependencies c) \<noteq> None" by simp
  then show ?case by (auto split: option.split sum.split)
qed simp

subsection \<open>Eligible candidates\<close>

definition eligible_as :: "string \<Rightarrow> staged \<Rightarrow> bool" where
  "eligible_as n c \<longleftrightarrow> has_name n c \<and> st_findings c = []"

lemma map_of_eligible: "map_of (eligibleByName cs) n = find (eligible_as n) (rev cs)"
proof (induction cs rule: rev_induct)
  case (snoc c cs)
  have "eligibleByName (cs @ [c]) = (if st_document c = None \<or> st_findings c \<noteq> [] then eligibleByName cs
      else AList.update (document_name c) c (eligibleByName cs))"
    unfolding eligibleByName_def by simp
  with snoc show ?case by (auto simp: eligible_as_def has_name_iff)
qed (simp add: eligibleByName_def)

lemma find_member: "find P xs = Some x \<Longrightarrow> x \<in> set xs \<and> P x"
  by (induction xs) (auto split: if_splits)

lemma eligible_lookup_member:
  "map_of (eligibleByName cs) n = Some c \<Longrightarrow> c \<in> set cs \<and> has_name n c \<and> st_findings c = []"
  using find_member [of "eligible_as n" "rev cs" c] by (simp add: map_of_eligible eligible_as_def)

lemma named_eligible: "named_ok (eligibleByName cs)"
  unfolding named_ok_def using eligible_lookup_member has_name_iff by blast

lemma same_name_same:
  assumes "uniq_names cs" and "c \<in> set cs" "c' \<in> set cs" and "has_name n c" "has_name n c'" and "st_findings c = []"
  shows "c' = c"
proof (rule ccontr)
  assume differ: "c' \<noteq> c"
  from assms(2,3) obtain i j where "i < length cs" "cs ! i = c" "j < length cs" "cs ! j = c'" by (metis in_set_conv_nth)
  with assms differ show False unfolding uniq_names_def by blast
qed

lemma eligible_lookup:
  assumes "uniq_names cs" and "c \<in> set cs" and "has_name n c" and "st_findings c = []"
  shows "map_of (eligibleByName cs) n = Some c"
proof (cases "find (eligible_as n) (rev cs)")
  case None
  with assms(2-4) show ?thesis by (auto simp: find_None_iff eligible_as_def)
next
  case (Some c')
  with find_member have "c' \<in> set cs" "has_name n c'" by (force simp: eligible_as_def)+
  from same_name_same [OF assms(1,2) this(1) assms(3) this(2) assms(4)] Some show ?thesis by (simp add: map_of_eligible)
qed

lemma card_below: "card (reach_below (eligibleByName cs) n) < Suc (length cs)"
proof -
  have "dom (map_of (eligibleByName cs)) \<subseteq> document_name ` set cs"
    using eligible_lookup_member has_name_iff by fastforce
  with below_dom have "reach_below (eligibleByName cs) n \<subseteq> document_name ` set cs" by blast
  then have "card (reach_below (eligibleByName cs) n) \<le> card (document_name ` set cs)" by (simp add: card_mono)
  also have "\<dots> \<le> length cs" using card_image_le [of "set cs" document_name] card_length [of cs] by simp
  finally show ?thesis by simp
qed

subsection \<open>No cycles among the eligible\<close>

lemma el_edge_edge:
  assumes "uniq_names cs" and "grown cs cs'" and "el_edge (eligibleByName cs') u v"
  shows "edge (graph_of cs) u v"
proof -
  from assms(3) obtain c where c: "map_of (eligibleByName cs') u = Some c" and v: "v \<in> dep_skillName ` set (st_dependencies c)"
    by (auto simp: el_edge_def)
  from eligible_lookup_member [OF c] have member: "c \<in> set cs'" "has_name u c" "st_findings c = []" by simp_all
  then obtain i where i: "i < length cs" "cs' ! i = c" using grown_length [OF assms(2)] by (metis in_set_conv_nth)
  then obtain fs where fs: "c = add_findings fs (cs ! i)" using grown_nth [OF assms(2)] by blast
  then have here: "has_name u (cs ! i)" "st_findings (cs ! i) = []" using member by simp_all
  have "find (has_name u) (rev cs) = Some (cs ! i)"
  proof (cases "find (has_name u) (rev cs)")
    case None with i here show ?thesis by (auto simp: find_None_iff)
  next
    case (Some c')
    with find_member have "c' \<in> set cs" "has_name u c'" by force+
    with same_name_same [OF assms(1) nth_mem [OF i(1)] _ here(1) _ here(2)] Some show ?thesis by blast
  qed
  then have "map_of (graph_of cs) u = Some (st_dependencies c)" using fs by (simp add: map_of_graph_of)
  with v show ?thesis by (simp add: edge_def graph_deps_def)
qed

lemma eligible_acyclic:
  assumes uniq: "uniq_names cs" and grown: "grown (report_cycles cs) cs'"
  shows "\<not> (el_edge (eligibleByName cs'))\<^sup>+\<^sup>+ n n"
proof
  let ?E = "el_edge (eligibleByName cs')"
  assume cyc: "?E\<^sup>+\<^sup>+ n n"
  have g: "grown cs cs'" using grown_trans [OF report_cycles_grown grown] .
  let ?C = "{m. ?E\<^sup>*\<^sup>* n m \<and> ?E\<^sup>+\<^sup>+ m n}"
  have next_el: "\<exists>v \<in> ?C. ?E u v" if "u \<in> ?C" for u
  proof -
    from that have from_n: "?E\<^sup>*\<^sup>* n u" and to_n: "?E\<^sup>+\<^sup>+ u n" by simp_all
    from to_n obtain v where v: "?E u v" "?E\<^sup>*\<^sup>* v n" by (metis tranclpD)
    have "?E\<^sup>+\<^sup>+ v n" using v(2) cyc by (metis rtranclpD)
    moreover have "?E\<^sup>*\<^sup>* n v" using from_n v(1) by (rule rtranclp.rtrancl_into_rtrancl)
    ultimately show ?thesis using v(1) by blast
  qed
  obtain st where "visit_all (dfs_fuel (graph_of cs)) (graph_of cs) (map fst (graph_of cs)) dfs_start = Some st"
    using dfs_run by blast
  then obtain members where members: "dependencyCycleMembers (graph_of cs) = Some members"
    by (simp add: dependencyCycleMembers_def)
  have "?C \<inter> set members \<noteq> {}"
  proof (rule cycle_search_hits [OF members])
    show "?C \<noteq> {}" using cyc by blast
    show "\<exists>v \<in> ?C. edge (graph_of cs) u v" if "u \<in> ?C" for u
      using next_el [OF that] el_edge_edge [OF uniq g] by blast
  qed
  then obtain k where k: "k \<in> ?C" "k \<in> set members" by blast
  from next_el [OF k(1)] obtain c where c: "map_of (eligibleByName cs') k = Some c" by (auto simp: el_edge_def)
  from eligible_lookup_member [OF c] have member: "c \<in> set cs'" "has_name k c" "st_findings c = []" by simp_all
  then obtain i where i: "i < length cs" "cs' ! i = c" using grown_length [OF g] by (metis in_set_conv_nth)
  then have "has_name k (cs ! i)" using member grown_has_name [OF g i(1)] by simp
  then obtain j where j: "target_of cs k = Some j"
    using i(1) by (cases "target_of cs k") (auto simp: target_of_def find_None_iff)
  have jl: "j < length cs" and jn: "has_name k (cs ! j)" using j by (auto simp: target_of_def find_Some_iff)
  have "st_findings (report_cycles cs ! j) \<noteq> []"
    using report_fold_reports [OF k(2) j] members by (simp add: report_cycles_def)
  then have bad: "st_findings (cs' ! j) \<noteq> []"
    using grown_findings [OF grown] jl grown_length [OF report_cycles_grown] by simp
  then have "i \<noteq> j" using i member by auto
  then have "st_findings (cs ! i) \<noteq> []"
    using uniq i(1) jl jn \<open>has_name k (cs ! i)\<close> unfolding uniq_names_def by blast
  then show False using grown_findings [OF g i(1)] i(2) member(3) by simp
qed

subsection \<open>What is published\<close>

lemma make_revision_parts:
  assumes "make_revision rt io repository commitSha document l c targets = Inr r"
  shows "es_name r = sd_name document" "set (es_dependencies r) = set targets" "ep_commitSha (es_provenance r) = commitSha"
    "ep_skillPath (es_provenance r) = st_skillPath c" "ep_repositoryId (es_provenance r) = gr_repositoryId repository"
    "publicSkillId rt io (gr_repositoryId repository) (sd_name document) (st_skillPath c) = Inr (es_skillId r)"
    "created_external rt r"
proof -
  from assms obtain publicId where pid: "publicSkillId rt io (gr_repositoryId repository) (sd_name document) (st_skillPath c) = Inr publicId"
    and made: "createExternalSkillRevision rt (imported_revision_input rt repository commitSha publicId document l c targets) = Inr r"
    by (auto simp: make_revision_def)
  show "created_external rt r" by (rule createExternal_created [OF made])
  obtain draft :: ExternalSkillRevision where core: "same_core r draft" and fields: "es_name draft = sd_name document"
      "set (es_dependencies draft) = set targets" "ep_commitSha (es_provenance draft) = commitSha"
      "ep_skillPath (es_provenance draft) = st_skillPath c" "ep_repositoryId (es_provenance draft) = gr_repositoryId repository"
      "es_skillId draft = publicId"
  proof (rule createExternal_cases [OF made])
    fix instr license :: NormalizedText and notice unsorted
    assume fin: "finish_external rt (external_draft rt (imported_revision_input rt repository commitSha publicId document l c targets)
      (nt_text instr) (nt_text license) notice (js_sort (by_path rt) unsorted)
      (js_sort (by_skill_name rt) (im_dependencies (ce_skill (imported_revision_input rt repository commitSha publicId document l c targets))))) = Inr r"
    from finish_external_parts [OF fin] show thesis by (intro that) (auto simp: external_draft_def imported_revision_input_def)
  qed
  from core fields pid show "es_name r = sd_name document" "set (es_dependencies r) = set targets"
    "ep_commitSha (es_provenance r) = commitSha" "ep_skillPath (es_provenance r) = st_skillPath c"
    "ep_repositoryId (es_provenance r) = gr_repositoryId repository"
    "publicSkillId rt io (gr_repositoryId repository) (sd_name document) (st_skillPath c) = Inr (es_skillId r)"
    by (simp_all add: same_core_def)
qed

text \<open>The candidate each staged candidate becomes, by the construction without a memo.\<close>

definition spec_candidate ::
  "nat \<Rightarrow> maker \<Rightarrow> runtime \<Rightarrow> AdapterKind \<Rightarrow> (string \<times> staged) list \<Rightarrow> staged \<Rightarrow> ExternalCandidateInput" where
  "spec_candidate fuel mk rt adapterKind eligible c =
     (if st_document c = None \<or> st_findings c \<noteq> []
      then candidate_input rt adapterKind c
             (if st_findings c = [] then [findingFromError ''SKILL_SCHEMA_INVALID'' (st_skillPath c) SubjectCandidate]
              else st_findings c) None
      else case plain fuel mk eligible c of
             Some (Inr r) \<Rightarrow> candidate_input rt adapterKind c [] (Some r)
           | Some (Inl (Error message)) \<Rightarrow>
               candidate_input rt adapterKind c [findingFromError message (st_skillPath c) SubjectCandidate] None
           | None \<Rightarrow> candidate_input rt adapterKind c [] None)"

lemma candidate_of_spec:
  assumes "named_ok el" and "memo_ok mk el m"
    and "\<not> (st_document c = None \<or> st_findings c \<noteq> []) \<Longrightarrow> map_of el (document_name c) = Some c \<and> plain k mk el c \<noteq> None"
  shows "\<exists>m'. candidate_of k mk rt ak el c m = Some (spec_candidate k mk rt ak el c, m') \<and> memo_ok mk el m'"
proof (cases "st_document c = None \<or> st_findings c \<noteq> []")
  case True with assms(2) show ?thesis by (auto simp: candidate_of_def spec_candidate_def)
next
  case False
  with assms(3) obtain x where look: "map_of el (document_name c) = Some c" and x: "plain k mk el c = Some x" by blast
  from build_plain(1) [OF assms(1,2) look x] obtain m' where built: "buildRevision k mk el c m = Some (x, m')" "memo_ok mk el m'"
    by blast
  show ?thesis
  proof (cases x)
    case (Inl e)
    obtain message where "e = Error message" by (cases e)
    with False x built Inl show ?thesis by (auto simp: candidate_of_def spec_candidate_def simp del: plain.simps buildRevision.simps)
  next
    case (Inr r)
    with False x built show ?thesis by (auto simp: candidate_of_def spec_candidate_def simp del: plain.simps buildRevision.simps)
  qed
qed

lemma candidates_of_spec:
  assumes "named_ok el"
    and "\<And>c. c \<in> set cs \<Longrightarrow> \<not> (st_document c = None \<or> st_findings c \<noteq> []) \<Longrightarrow>
      map_of el (document_name c) = Some c \<and> plain k mk el c \<noteq> None"
    and "memo_ok mk el m"
  shows "candidates_of k mk rt ak el cs m = Some (map (spec_candidate k mk rt ak el) cs)"
  using assms(2,3)
proof (induction cs arbitrary: m)
  case (Cons c cs)
  have "\<exists>m'. candidate_of k mk rt ak el c m = Some (spec_candidate k mk rt ak el c, m') \<and> memo_ok mk el m'"
    by (rule candidate_of_spec [OF assms(1) Cons.prems(2)]) (rule Cons.prems(1), simp)
  then obtain m' where one: "candidate_of k mk rt ak el c m = Some (spec_candidate k mk rt ak el c, m')"
    and ok: "memo_ok mk el m'" by blast
  have "candidates_of k mk rt ak el cs m' = Some (map (spec_candidate k mk rt ak el) cs)"
    by (rule Cons.IH [OF _ ok]) (rule Cons.prems(1), simp)
  with one show ?case by simp
qed simp

lemma eligible_plain:
  assumes uniq: "uniq_names cs" and acyclic: "\<forall>n. \<not> (el_edge (eligibleByName cs))\<^sup>+\<^sup>+ n n"
    and "c \<in> set cs" and "\<not> (st_document c = None \<or> st_findings c \<noteq> [])"
  shows "map_of (eligibleByName cs) (document_name c) = Some c \<and> plain (Suc (length cs)) mk (eligibleByName cs) c \<noteq> None"
proof -
  have "has_name (document_name c) c" using assms(4) by (simp add: has_name_iff)
  from eligible_lookup [OF uniq assms(3) this] assms(4)
  have look: "map_of (eligibleByName cs) (document_name c) = Some c" by blast
  with plain_returns [OF acyclic look card_below] show ?thesis by blast
qed

lemma snapshot_candidates_spec:
  assumes "uniq_names cs" and "\<forall>n. \<not> (el_edge (eligibleByName cs))\<^sup>+\<^sup>+ n n"
  shows "snapshot_candidates rt io repository commitSha ak cs =
    Some (map (spec_candidate (Suc (length cs)) (make_revision rt io repository commitSha) rt ak (eligibleByName cs)) cs)"
  unfolding snapshot_candidates_def
  by (rule candidates_of_spec [OF named_eligible eligible_plain [OF assms]]) (simp_all add: memo_ok_def)

lemma spec_candidate_shape:
  assumes "\<not> (st_document c = None \<or> st_findings c \<noteq> []) \<Longrightarrow> plain k mk el c \<noteq> None"
  shows "ci_skillPath (spec_candidate k mk rt ak el c) = st_skillPath c \<and>
    (ci_classification (spec_candidate k mk rt ak el c) = Verified \<and> ci_findings (spec_candidate k mk rt ak el c) = [] \<and>
       (\<exists>r. ci_revision (spec_candidate k mk rt ak el c) = Some r \<and> st_document c \<noteq> None \<and> st_findings c = [] \<and> plain k mk el c = Some (Inr r))
     \<or> ci_classification (spec_candidate k mk rt ak el c) = Quarantined \<and> ci_findings (spec_candidate k mk rt ak el c) \<noteq> [] \<and>
       ci_revision (spec_candidate k mk rt ak el c) = None)"
proof (cases "st_document c = None \<or> st_findings c \<noteq> []")
  case True then show ?thesis by (simp add: spec_candidate_def candidate_input_def)
next
  case False
  with assms obtain x where x: "plain k mk el c = Some x" by blast
  show ?thesis
  proof (cases x)
    case (Inl e)
    obtain message where "e = Error message" by (cases e)
    with False x Inl show ?thesis by (simp add: spec_candidate_def candidate_input_def del: plain.simps)
  next
    case (Inr r)
    with False x show ?thesis by (simp add: spec_candidate_def candidate_input_def del: plain.simps)
  qed
qed

lemma plain_targets_made:
  "plain_targets k mk el ds = Some (Inr ts) \<Longrightarrow> t \<in> set ts \<Longrightarrow>
     \<exists>d \<in> set ds. \<exists>target r. map_of el (dep_skillName d) = Some target \<and> plain k mk el target = Some (Inr r) \<and> t = resolved_dependency d r"
proof (induction ds arbitrary: ts)
  case (Cons d ds)
  obtain target where target: "map_of el (dep_skillName d) = Some target"
    using Cons.prems(1) by (cases "map_of el (dep_skillName d)") (simp_all add: Fail_def)
  obtain x where x: "plain k mk el target = Some x"
    using Cons.prems(1) target by (cases "plain k mk el target") simp_all
  obtain r where r: "x = Inr r" using Cons.prems(1) target x by (cases x) simp_all
  obtain y where y: "plain_targets k mk el ds = Some y"
    using Cons.prems(1) target x r by (cases "plain_targets k mk el ds") simp_all
  obtain rest where rest: "y = Inr rest" using Cons.prems(1) target x r y by (cases y) simp_all
  have "ts = resolved_dependency d r # rest" using Cons.prems(1) target x r y rest by simp
  with Cons.prems(2) consider "t = resolved_dependency d r" | "t \<in> set rest" by auto
  then show ?case
  proof cases
    case 1 with target x r show ?thesis by (intro bexI [of _ d] exI [of _ target] exI [of _ r]) simp_all
  next
    case 2
    from Cons.IH [OF y [unfolded rest] this] show ?thesis by (meson list.set_intros(2))
  qed
qed simp

lemma plain_made:
  assumes "plain (Suc k) (make_revision rt io repository commitSha) el c = Some (Inr r)"
  obtains document targets where "st_document c = Some document" and "es_name r = sd_name document"
    and "ep_commitSha (es_provenance r) = commitSha" and "ep_skillPath (es_provenance r) = st_skillPath c"
    and "plain_targets k (make_revision rt io repository commitSha) el (st_dependencies c) = Some (Inr targets)"
    and "set (es_dependencies r) = set targets" and "created_external rt r"
proof -
  let ?mk = "make_revision rt io repository commitSha"
  obtain document where d: "st_document c = Some document" using assms by (cases "st_document c") (simp_all add: Fail_def)
  obtain l where l: "st_legal c = Some l" using assms d by (cases "st_legal c") (simp_all add: Fail_def)
  obtain y where y: "plain_targets k ?mk el (st_dependencies c) = Some y"
    using assms d l by (cases "plain_targets k ?mk el (st_dependencies c)") simp_all
  obtain targets where ts: "y = Inr targets" using assms d l y by (cases y) simp_all
  have "?mk document l c targets = Inr r" using assms d l y ts by simp
  from make_revision_parts [OF this] show thesis using that d y ts by blast
qed

lemma snapshot_revision_from:
  assumes "r \<in> set (snapshot_revisions candidates)"
  obtains candidate where "candidate \<in> set candidates" and "ci_revision candidate = Some r"
  using assms by (auto simp: snapshot_revisions_def split: option.splits)

lemma snapshot_closed:
  assumes uniq: "uniq_names cs" and acyclic: "\<forall>n. \<not> (el_edge (eligibleByName cs))\<^sup>+\<^sup>+ n n"
    and candidates: "snapshot_candidates rt io repository commitSha ak cs = Some candidates"
    and r: "r \<in> set (snapshot_revisions candidates)" and t: "t \<in> set (es_dependencies r)"
  shows "\<exists>r' \<in> set (snapshot_revisions candidates). dep_targetSkillId t = Some (es_skillId r') \<and>
    dep_targetRevision t = Some (es_revision r') \<and> es_name r' = dep_skillName t"
proof -
  let ?mk = "make_revision rt io repository commitSha" and ?el = "eligibleByName cs" and ?k = "length cs"
  let ?spec = "spec_candidate (Suc ?k) ?mk rt ak ?el"
  have all: "candidates = map ?spec cs" using snapshot_candidates_spec [OF uniq acyclic] candidates by simp
  from r obtain candidate where "candidate \<in> set candidates" "ci_revision candidate = Some r" by (rule snapshot_revision_from)
  then obtain c where c: "c \<in> set cs" "ci_revision (?spec c) = Some r" unfolding all by auto
  have "plain (Suc ?k) ?mk ?el c = Some (Inr r)"
    using spec_candidate_shape [of c "Suc ?k" ?mk ?el rt ak] eligible_plain [OF uniq acyclic c(1)] c(2) by fastforce
  then obtain document targets where "plain_targets ?k ?mk ?el (st_dependencies c) = Some (Inr targets)"
    and "set (es_dependencies r) = set targets" by (rule plain_made)
  with t obtain d target r' where d: "map_of ?el (dep_skillName d) = Some target" "t = resolved_dependency d r'"
    and made: "plain ?k ?mk ?el target = Some (Inr r')" using plain_targets_made by (metis (no_types, lifting))
  from plain_Suc(1) [OF made] have made': "plain (Suc ?k) ?mk ?el target = Some (Inr r')" .
  from eligible_lookup_member [OF d(1)] have target: "target \<in> set cs" "has_name (dep_skillName d) target" "st_findings target = []" by simp_all
  then have "ci_revision (?spec target) = Some r'"
    using made' by (simp add: spec_candidate_def candidate_input_def has_name_iff del: plain.simps)
  then have "r' \<in> set (snapshot_revisions candidates)"
    unfolding snapshot_revisions_def all using target(1) by force
  moreover obtain document' where "st_document target = Some document'" "es_name r' = sd_name document'"
    using plain_made [OF made'] by metis
  then have "es_name r' = dep_skillName d" using target(2) by (simp add: has_name_def)
  ultimately show ?thesis using d(2) by (auto simp: resolved_dependency_def)
qed

subsection \<open>Public identifiers are kebab-case\<close>

text \<open>\<open>kb start s\<close>: \<open>s\<close> continues a kebab-case text, \<open>start\<close> when a segment begins with it.
  \<open>open_kb\<close> is the same for a prefix, which may end in a hyphen.\<close>

fun kb :: "bool \<Rightarrow> string \<Rightarrow> bool" where
  "kb start [] \<longleftrightarrow> \<not> start"
| "kb start (c # s) \<longleftrightarrow> (if c = CHR ''-'' then \<not> start \<and> kb True s else (lower_char c \<or> digit_char c) \<and> kb False s)"

fun open_kb :: "bool \<Rightarrow> string \<Rightarrow> bool" where
  "open_kb start [] \<longleftrightarrow> True"
| "open_kb start (c # s) \<longleftrightarrow> (if c = CHR ''-'' then \<not> start \<and> open_kb True s else (lower_char c \<or> digit_char c) \<and> open_kb False s)"

lemma hyphen_no_word: "\<not> lower_char (CHR ''-'')" "\<not> digit_char (CHR ''-'')"
  by (simp_all add: lower_char_def digit_char_def code_of_def)

lemma kb_kebab: "kebab s = kb True s"
proof -
  let ?ok = "list_all (\<lambda>p. p \<noteq> [] \<and> list_all (\<lambda>c. lower_char c \<or> digit_char c) p)"
  let ?chars = "list_all (\<lambda>c. lower_char c \<or> digit_char c)"
  have "(?chars (hd (split_on (CHR ''-'') s)) \<and> ?ok (tl (split_on (CHR ''-'') s))) = kb False s \<and>
      ?ok (split_on (CHR ''-'') s) = kb True s" for s
  proof (induction s)
    case (Cons c s)
    obtain x xs where "split_on (CHR ''-'') s = x # xs" using split_on_nonempty by (cases "split_on (CHR ''-'') s") blast+
    with Cons show ?case by auto
  qed simp
  then show ?thesis by (simp add: kebab_def)
qed

lemma open_kb_take: "open_kb start s \<Longrightarrow> open_kb start (take n s)"
proof (induction s arbitrary: start n)
  case (Cons c s)
  then show ?case by (cases n) (auto split: if_splits)
qed simp

lemma open_kb_squeeze: "open_kb run (squeeze run s)"
  by (induction run s rule: squeeze.induct) (auto simp: hyphen_no_word)

lemma squeeze_start: "open_kb False s \<Longrightarrow> open_kb True (if starts_with ''-'' s then drop 1 s else s)"
  by (cases s) (auto simp: starts_with_def split: if_splits)

lemma open_kb_edges: "open_kb False s \<Longrightarrow> open_kb True (strip_edges s)"
  using squeeze_start [of s] open_kb_take [of True _] by (auto simp: strip_edges_def Let_def butlast_conv_take)

lemma kb_end: "open_kb start s \<Longrightarrow> s \<noteq> [] \<Longrightarrow> last s \<noteq> CHR ''-'' \<Longrightarrow> kb start s"
  by (induction s arbitrary: start) (auto split: if_splits)

lemma strip_hyphens_snoc: "strip_hyphens (s @ [c]) = (if c = CHR ''-'' then strip_hyphens s else s @ [c])"
  by (simp add: strip_hyphens_def)

lemma kb_strip_hyphens: "open_kb True s \<Longrightarrow> strip_hyphens s = [] \<or> kb True (strip_hyphens s)"
proof (induction s rule: rev_induct)
  case (snoc c s)
  then have "open_kb True s" using open_kb_take [of True "s @ [c]" "length s"] by simp
  with snoc show ?case using kb_end [of True "s @ [c]"] by (simp add: strip_hyphens_snoc)
qed (simp add: strip_hyphens_def)

lemma strip_hyphens_length: "length (strip_hyphens s) \<le> length s"
  using length_dropWhile_le [of "\<lambda>c. c = CHR ''-''" "rev s"] by (simp add: strip_hyphens_def)

lemma kb_append: "kb start s \<Longrightarrow> kb True t \<Longrightarrow> kb start (s @ CHR ''-'' # t)"
  by (induction s arbitrary: start) (auto split: if_splits)

lemma kb_digits: "s \<noteq> [] \<Longrightarrow> list_all (\<lambda>c. lower_char c \<or> digit_char c) s \<Longrightarrow> kb start s"
proof (induction s arbitrary: start)
  case (Cons c s)
  then show ?case by (cases s) (auto simp: hyphen_no_word)
qed simp

lemma show_int_digits: "0 < i \<Longrightarrow> show_int i \<noteq> [] \<and> list_all (\<lambda>c. lower_char c \<or> digit_char c) (show_int i)"
  using show_nat_digits show_nat_nonempty by (auto simp: show_int_def list_all_iff)

lemma hex_words: "hex_string n s \<Longrightarrow> list_all (\<lambda>c. lower_char c \<or> digit_char c) s"
  by (auto simp: hex_string_def hex_char_def list_all_iff lower_char_def digit_char_def)

lemma kb_ascii: "kb start s \<Longrightarrow> js_length s = length s"
proof (rule js_length_ascii)
  fix c
  assume "kb start s" and "c \<in> set s"
  then show "code_of c < 128"
  proof (induction s arbitrary: start)
    case (Cons d s)
    then show ?case by (auto simp: lower_char_def digit_char_def code_of_def split: if_splits)
  qed simp
qed

text \<open>C28. A public skill identifier is a kebab-case name of at most 80 characters, whatever characters the
  skill's own name has: what the catalog schema requires of an identifier holds by construction.
\<close>

theorem publicSkillId_kebab:
  assumes "publicSkillId rt io repositoryId name skillPath = Inr publicId" and "0 < repositoryId"
    and "hex_string 64 (sha256 rt (nfc rt skillPath))"
  shows "kebab publicId \<and> js_length publicId \<le> 80"
proof -
  let ?safe = "or_else (strip_edges (squeeze False (toLowerCase io (nfkc io name)))) ''skill''"
  let ?prefix = "''gh-'' @ show_int repositoryId @ ''-''" and ?hash = "take 16 (sha256 rt (nfc rt skillPath))"
  let ?n = "80 - int (js_length ?prefix) - int (js_length (''-'' @ ?hash))"
  let ?readable = "or_else (strip_hyphens (take (nat ?n) ?safe)) ''s''"
  have room: "1 \<le> ?n" and result: "publicId = ?prefix @ ?readable @ ''-'' @ ?hash"
    using assms(1) by (auto simp: publicSkillId_def Let_def Fail_def split: if_splits)
  have "open_kb True ?safe"
    using open_kb_edges [OF open_kb_squeeze, of "toLowerCase io (nfkc io name)"]
    by (simp add: or_else_def lower_char_def code_of_def)
  then have "open_kb True (take (nat ?n) ?safe)" by (rule open_kb_take)
  from kb_strip_hyphens [OF this] have readable: "kb True ?readable"
    by (auto simp: or_else_def lower_char_def code_of_def)
  have hash: "kb True ?hash"
    using assms(3) hex_words [OF assms(3)] by (intro kb_digits) (auto simp: hex_string_def list_all_iff dest: in_set_takeD)
  have number: "kb True (show_int repositoryId)" using show_int_digits [OF assms(2)] by (intro kb_digits) simp_all
  have gh: "kb True ''gh''" by (simp add: lower_char_def code_of_def)
  have "publicId = ''gh'' @ CHR ''-'' # show_int repositoryId @ CHR ''-'' # ?readable @ CHR ''-'' # ?hash" using result by simp
  then have kb: "kb True publicId" using gh number readable hash by (simp only: kb_append)
  have short: "length ?readable \<le> nat ?n"
  proof (cases "strip_hyphens (take (nat ?n) ?safe) = []")
    case True with room show ?thesis by (simp add: or_else_def)
  next
    case False
    have "length (strip_hyphens (take (nat ?n) ?safe)) \<le> length (take (nat ?n) ?safe)"
      by (rule strip_hyphens_length)
    with False show ?thesis by (simp add: or_else_def)
  qed
  have "js_length ?prefix = length ?prefix"
    using show_int_digits [OF assms(2)]
    by (intro js_length_ascii) (auto simp: list_all_iff lower_char_def digit_char_def code_of_def)
  moreover have "js_length (''-'' @ ?hash) = length (''-'' @ ?hash)"
    using kb_ascii [OF hash] by (simp add: js_length_def code_of_def)
  ultimately have "length publicId \<le> 80" using short room unfolding result by simp
  with kb kb_ascii [OF kb] show ?thesis by (simp add: kb_kebab)
qed

lemma publicSkillId_kebab_witness:
  "\<exists>publicId. publicSkillId constant_runtime (sample_importer (md_root [])) 7 ''A b!'' ''b/SKILL.md'' = Inr publicId \<and>
     kebab publicId \<and> js_length publicId \<le> 80"
proof -
  have run: "publicSkillId constant_runtime (sample_importer (md_root [])) 7 ''A b!'' ''b/SKILL.md'' =
      Inr (''gh-7-b-'' @ replicate 16 (CHR ''0''))"
    by code_simp
  have "hex_string 64 (sha256 constant_runtime (nfc constant_runtime ''b/SKILL.md''))" by code_simp
  from publicSkillId_kebab [OF run _ this] run show ?thesis by auto
qed

end
