(* ===== verification/Source_Sync.thy ===== *)
theory Source_Sync
  imports Source_Revisions Sync_Lease
begin

text \<open>
  A synchronization of one source
  (\<open>src/application/services/source-synchronization-service.ts\<close>,
  \<open>src/ingestion/external-revision-publisher.ts\<close>): resolving the repository, reading the snapshot and
  its layout, staging the candidates, and publishing what was found. The provider and the store are
  parameters: operations that change a world and may throw.

  Deadlines, the abort signal and the request budget of the operation context are not modelled; they
  only make an operation of the provider throw, which it may do anyway.
\<close>

subsection \<open>Ports\<close>

record SourceRegistration =
  sg_sourceId :: string
  sg_repository :: GitHubRepositoryIdentity
  sg_metadataEtag :: "string option"
  sg_metadataCacheSha256 :: "string option"

record ObservedSourceMetadataCache =
  oc_etag :: string
  oc_bodySha256 :: string

record ConditionalRepositoryResult =
  cr_repository :: "GitHubRepositoryIdentity option"
  cr_etag :: "string option"
  cr_notModified :: bool

text \<open>An observed cache is absent, \<open>null\<close> or a value.\<close>

record PublishExternalSnapshotInput =
  pi_sourceId :: string
  pi_commitSha :: string
  pi_treeSha :: string
  pi_manifestVersion :: string
  pi_adapterKind :: AdapterKind
  pi_revisions :: "ExternalSkillRevision list"
  pi_candidates :: "ExternalCandidateInput list"
  pi_observedRepository :: "GitHubRepositoryIdentity option"
  pi_observedMetadataCache :: "ObservedSourceMetadataCache option option"
  pi_lease :: "SyncLease option"
  pi_expectedAdvisoryChainHead :: string
  pi_reverifyCandidateId :: "string option"

record 'w source_provider =
  gp_authenticated :: bool
  gp_resolve :: "GitHubRepositoryIdentity \<Rightarrow> (sync_error, 'w, GitHubRepositoryIdentity) eff"
  gp_resolveConditionally :: "(GitHubRepositoryIdentity \<Rightarrow> string option \<Rightarrow> (sync_error, 'w, ConditionalRepositoryResult) eff) option"
  gp_readDefault :: "GitHubRepositoryIdentity \<Rightarrow> (sync_error, 'w, GitHubRepositorySnapshot) eff"
  gp_readAtCommit :: "(GitHubRepositoryIdentity \<Rightarrow> string \<Rightarrow> (sync_error, 'w, GitHubRepositorySnapshot) eff) option"
  gp_readBlob :: "GitHubRepositoryIdentity \<Rightarrow> 'w blob_reader"

record ('w, 'p) source_store =
  ss_listSources :: "(sync_error, 'w, SourceRegistration list) eff"
  ss_advisoryChainHead :: "(sync_error, 'w, string) eff"
  ss_publishSnapshot :: "PublishExternalSnapshotInput \<Rightarrow> (sync_error, 'w, 'p) eff"
  ss_recordSourceUnavailable :: "string \<Rightarrow> int \<Rightarrow> SyncLease option \<Rightarrow> (sync_error, 'w, unit) eff"

subsection \<open>Publication\<close>

fun check_revisions :: "runtime \<Rightarrow> string \<Rightarrow> string list \<Rightarrow> ExternalSkillRevision list \<Rightarrow> unit res" where
  "check_revisions rt commitSha seen [] = Inr ()"
| "check_revisions rt commitSha seen (r # rs) =
     and_then (assertExternalRevisionIntegrity rt r) (\<lambda>_.
       if es_skillId r \<in> set seen then Fail ''DUPLICATE_SKILL_IDENTITY''
       else if ep_commitSha (es_provenance r) \<noteq> commitSha then Fail ''COMMIT_MISMATCH''
       else check_revisions rt commitSha (es_skillId r # seen) rs)"

definition publish :: "runtime \<Rightarrow> ('w, 'p) source_store \<Rightarrow> PublishExternalSnapshotInput \<Rightarrow> (sync_error, 'w, 'p) eff" where
  "publish rt store input =
     bind_eff (of_res (check_revisions rt (pi_commitSha input) [] (pi_revisions input))) (\<lambda>_. ss_publishSnapshot store input)"

subsection \<open>The layout of a snapshot\<close>

record layout =
  ly_adapterKind :: AdapterKind
  ly_manifestVersion :: string
  ly_license :: "string option"
  ly_attribution :: string
  ly_declarations :: "SkillDeclaration list"

record rejection =
  rj_subject :: string
  rj_description :: string
  rj_manifestVersion :: string
  rj_adapterKind :: AdapterKind
  rj_message :: string

definition manifest_declarations ::
  "IngestionBudgets \<Rightarrow> GitTreeEntry list \<Rightarrow> ClaudePluginManifest \<Rightarrow> SkillDeclaration list" where
  "manifest_declarations budgets tree manifest =
     map (\<lambda>root. let skillPath = posix_join root ''SKILL.md''
        in case requiredBlob tree skillPath (maximumTextBytes budgets) of
             Inr entry \<Rightarrow> \<lparr>dc_root = root, dc_skillPath = skillPath, dc_entry = Some entry, dc_findings = []\<rparr>
           | Inl (Error message) \<Rightarrow> \<lparr>dc_root = root, dc_skillPath = skillPath, dc_entry = None,
               dc_findings = [findingFromError message skillPath SubjectCandidate]\<rparr>) (pm_skillRoots manifest)"

definition nested_layout :: "runtime \<Rightarrow> importer \<Rightarrow> IngestionBudgets \<Rightarrow> GitTreeEntry list \<Rightarrow> rejection + layout" where
  "nested_layout rt io budgets tree =
     (case discoverNestedSkillDocuments rt io (maximumCandidates budgets) tree of
        Inl (Error message) \<Rightarrow>
          Inl \<lparr>rj_subject = ''layout'', rj_description = ''Repository layout failed deterministic validation.'',
               rj_manifestVersion = ''nested-v1'', rj_adapterKind = NestedSkill, rj_message = message\<rparr>
      | Inr entries \<Rightarrow>
          Inr \<lparr>ly_adapterKind = NestedSkill, ly_manifestVersion = ''nested-v1'', ly_license = None, ly_attribution = [],
               ly_declarations = map (\<lambda>e. \<lparr>dc_root = (if te_path e = ''SKILL.md'' then ''.'' else posix_dirname (te_path e)),
                 dc_skillPath = te_path e, dc_entry = Some e, dc_findings = []\<rparr>) entries\<rparr>)"

definition read_manifest ::
  "runtime \<Rightarrow> importer \<Rightarrow> IngestionBudgets \<Rightarrow> 'w blob_reader \<Rightarrow> GitTreeEntry list \<Rightarrow> string \<Rightarrow>
     (sync_error, 'w, InspectedClaudePluginManifest) eff" where
  "read_manifest rt io budgets readBlob tree path =
     bind_eff (of_res (requiredBlob tree path (maximumTextBytes budgets))) (\<lambda>entry.
     bind_eff (readBlob (te_sha entry) (case te_size entry of None \<Rightarrow> 0 | Some k \<Rightarrow> k)) (\<lambda>bytes.
     of_res (inspectClaudePluginManifest rt io bytes)))"

definition bounded_layout :: "IngestionBudgets \<Rightarrow> rejection + layout \<Rightarrow> rejection + layout" where
  "bounded_layout budgets l =
     (case l of
        Inl r \<Rightarrow> Inl r
      | Inr y \<Rightarrow>
          if maximumCandidates budgets < length (ly_declarations y)
          then Inl \<lparr>rj_subject = ''candidate-budget'', rj_description = ''Repository candidate budget was exceeded.'',
                    rj_manifestVersion = ly_manifestVersion y, rj_adapterKind = ly_adapterKind y, rj_message = ''TREE_OVERSIZED''\<rparr>
          else Inr y)"

definition read_layout ::
  "runtime \<Rightarrow> importer \<Rightarrow> IngestionBudgets \<Rightarrow> 'w blob_reader \<Rightarrow> GitTreeEntry list \<Rightarrow> (sync_error, 'w, rejection + layout) eff" where
  "read_layout rt io budgets readBlob tree =
     (case find (\<lambda>e. te_path e = ''.claude-plugin/plugin.json'') tree of
        None \<Rightarrow> give (bounded_layout budgets (nested_layout rt io budgets tree))
      | Some entry \<Rightarrow>
          bind_eff (catch_failure (bind_eff (read_manifest rt io budgets readBlob tree (te_path entry)) (\<lambda>m. give (Inr m)))
              (\<lambda>message. give (Inl message))) (\<lambda>r.
            give (bounded_layout budgets (case r of
              Inl message \<Rightarrow>
                Inl \<lparr>rj_subject = ''manifest'', rj_description = ''Repository manifest failed deterministic validation.'',
                     rj_manifestVersion = ''invalid-v1'', rj_adapterKind = ClaudePlugin, rj_message = message\<rparr>
            | Inr MetadataOnly \<Rightarrow> nested_layout rt io budgets tree
            | Inr (Authoritative manifest) \<Rightarrow>
                Inr \<lparr>ly_adapterKind = ClaudePlugin, ly_manifestVersion = pm_version manifest, ly_license = Some (pm_license manifest),
                     ly_attribution = pm_author manifest, ly_declarations = manifest_declarations budgets tree manifest\<rparr>))))"

text \<open>The one quarantined candidate of a snapshot whose layout is rejected.\<close>

definition rejected_candidate :: "runtime \<Rightarrow> string \<Rightarrow> rejection \<Rightarrow> ExternalCandidateInput" where
  "rejected_candidate rt commitSha r =
     (let finding = findingFromError (rj_message r) (rj_subject r) SubjectSnapshot;
          locator = take 16 (sha256 rt (commitSha @ '':'' @ code_text (fd_code finding) @ '':'' @ rj_subject r))
      in \<lparr>ci_skillPath = ''_invalid/'' @ locator @ ''/SKILL.md'', ci_name = ''invalid-'' @ locator,
          ci_description = rj_description r, ci_adapterKind = rj_adapterKind r, ci_classification = Quarantined,
          ci_findings = [finding], ci_revision = None\<rparr>)"

subsection \<open>Staging and publishing a snapshot\<close>

definition stage_candidates ::
  "runtime \<Rightarrow> importer \<Rightarrow> IngestionBudgets \<Rightarrow> 'w blob_reader \<Rightarrow> GitTreeEntry list \<Rightarrow> layout \<Rightarrow> ('w, staged list) staging" where
  "stage_candidates rt io budgets readBlob tree l =
     bind_eff (read_license rt io budgets readBlob tree (ly_license l) (ly_attribution l)) (\<lambda>license.
     bind_eff (each_eff (stage_declaration rt io budgets readBlob tree license) (ly_declarations l)) (\<lambda>documents.
     bind_eff (each_eff (stage_resources rt io budgets readBlob tree (staged_names documents)) documents) (\<lambda>cs.
     give (propagate (report_cycles cs)))))"

text \<open>The count of decoded bytes starts at zero and ends with the run.\<close>

definition run_staging :: "('w, 'a) staging \<Rightarrow> (sync_error, 'w, 'a) eff" where
  "run_staging m w = (case m (0, w) of (r, s) \<Rightarrow> (r, snd s))"

record sync_request =
  rq_lease :: "SyncLease option"
  rq_commitSha :: "string option"
  rq_repository :: "GitHubRepositoryIdentity option"
  rq_candidateId :: "string option"

definition snapshot_input ::
  "SourceRegistration \<Rightarrow> sync_request \<Rightarrow> ObservedSourceMetadataCache option option \<Rightarrow> string \<Rightarrow> GitHubRepositorySnapshot \<Rightarrow>
     AdapterKind \<Rightarrow> string \<Rightarrow> ExternalCandidateInput list \<Rightarrow> PublishExternalSnapshotInput" where
  "snapshot_input source request cache head snapshot adapterKind version candidates =
     \<lparr>pi_sourceId = sg_sourceId source, pi_commitSha = sn_commitSha snapshot, pi_treeSha = sn_treeSha snapshot,
      pi_manifestVersion = version, pi_adapterKind = adapterKind, pi_revisions = snapshot_revisions candidates,
      pi_candidates = candidates,
      pi_observedRepository = (if rq_commitSha request = None then Some (sg_repository source) else None),
      pi_observedMetadataCache = cache, pi_lease = rq_lease request, pi_expectedAdvisoryChainHead = head,
      pi_reverifyCandidateId = rq_candidateId request\<rparr>"

definition read_snapshot ::
  "'w source_provider \<Rightarrow> GitHubRepositoryIdentity \<Rightarrow> string option \<Rightarrow> (sync_error, 'w, GitHubRepositorySnapshot) eff" where
  "read_snapshot provider repository commitSha =
     (case commitSha of
        None \<Rightarrow> gp_readDefault provider repository
      | Some sha \<Rightarrow>
          (case gp_readAtCommit provider of
             None \<Rightarrow> raise_eff (Thrown ''EXACT_COMMIT_READ_UNSUPPORTED'')
           | Some readAt \<Rightarrow> readAt repository sha))"

definition syncSource ::
  "runtime \<Rightarrow> importer \<Rightarrow> IngestionBudgets \<Rightarrow> 'w source_provider \<Rightarrow> ('w, 'p) source_store \<Rightarrow> SourceRegistration \<Rightarrow>
     sync_request \<Rightarrow> ObservedSourceMetadataCache option option \<Rightarrow> (sync_error, 'w, 'p) eff" where
  "syncSource rt io budgets provider store source request cache =
     bind_eff (ss_advisoryChainHead store) (\<lambda>head.
     bind_eff (read_snapshot provider (sg_repository source) (rq_commitSha request)) (\<lambda>snapshot.
     bind_eff (read_layout rt io budgets (gp_readBlob provider (sg_repository source)) (sn_tree snapshot)) (\<lambda>l.
     case l of
       Inl r \<Rightarrow> publish rt store (snapshot_input source request cache head snapshot (rj_adapterKind r) (rj_manifestVersion r)
                  [rejected_candidate rt (sn_commitSha snapshot) r])
     | Inr y \<Rightarrow>
         bind_eff (run_staging (stage_candidates rt io budgets (gp_readBlob provider (sg_repository source)) (sn_tree snapshot) y)) (\<lambda>cs.
         publish rt store (snapshot_input source request cache head snapshot (ly_adapterKind y) (ly_manifestVersion y)
           (case snapshot_candidates rt io (sg_repository source) (sn_commitSha snapshot) (ly_adapterKind y) cs of
              None \<Rightarrow> [] | Some candidates \<Rightarrow> candidates))))))"

subsection \<open>Resolving the repository\<close>

text \<open>\<open>JSON.stringify\<close> of the four members, hashed.\<close>

definition repositoryMetadataHash :: "runtime \<Rightarrow> GitHubRepositoryIdentity \<Rightarrow> string" where
  "repositoryMetadataHash rt r =
     sha256 rt (''{\"repositoryId\":'' @ show_int (gr_repositoryId r) @ '',\"owner\":'' @ quote (gr_owner r) @
       '',\"repository\":'' @ quote (gr_repository r) @ '',\"defaultBranch\":'' @ quote (gr_defaultBranch r) @ ''}'')"

definition resolve_source ::
  "runtime \<Rightarrow> 'w source_provider \<Rightarrow> SourceRegistration \<Rightarrow>
     (sync_error, 'w, GitHubRepositoryIdentity \<times> ObservedSourceMetadataCache option option) eff" where
  "resolve_source rt provider source =
     (case gp_resolveConditionally provider of
        None \<Rightarrow> bind_eff (gp_resolve provider (sg_repository source)) (\<lambda>r. give (r, None))
      | Some conditionally \<Rightarrow>
          bind_eff (conditionally (sg_repository source) (sg_metadataEtag source)) (\<lambda>c.
            if cr_notModified c
            then (case sg_metadataEtag source of
                    None \<Rightarrow> raise_eff (Thrown ''CACHE_MISS_ON_NOT_MODIFIED'')
                  | Some etag \<Rightarrow>
                      if sg_metadataCacheSha256 source \<noteq> Some (repositoryMetadataHash rt (sg_repository source))
                      then raise_eff (Thrown ''CACHE_MISS_ON_NOT_MODIFIED'')
                      else give (sg_repository source,
                        Some (Some \<lparr>oc_etag = etag, oc_bodySha256 = repositoryMetadataHash rt (sg_repository source)\<rparr>)))
            else (case cr_repository c of
                    None \<Rightarrow> raise_eff (Thrown ''GITHUB_SCHEMA_INVALID'')
                  | Some r \<Rightarrow> give (r, Some (case cr_etag c of None \<Rightarrow> None
                      | Some etag \<Rightarrow> Some \<lparr>oc_etag = etag, oc_bodySha256 = repositoryMetadataHash rt r\<rparr>)))))"

definition refused :: "sync_error \<Rightarrow> bool" where
  "refused e \<longleftrightarrow> e = Thrown ''GITHUB_HTTP_404'' \<or> e = Thrown ''SOURCE_NOT_PUBLIC''"

text \<open>The \<open>catch\<close> of the resolution: a refusal is confirmed once before the source is recorded as
  unavailable; the first error is thrown again.\<close>

definition resolution_failed ::
  "'w source_provider \<Rightarrow> ('w, 'p) source_store \<Rightarrow> SourceRegistration \<Rightarrow> SyncLease option \<Rightarrow> sync_error \<Rightarrow> (sync_error, 'w, 'a) eff" where
  "resolution_failed provider store source lease e =
     bind_eff (if refused e \<and> gp_authenticated provider
       then catch_eff (bind_eff (gp_resolve provider (sg_repository source)) (\<lambda>_. give ())) (\<lambda>confirmation.
              if refused confirmation
              then ss_recordSourceUnavailable store (sg_sourceId source) (gr_repositoryId (sg_repository source)) lease
              else give ())
       else give ()) (\<lambda>_. raise_eff e)"

definition synchronize ::
  "runtime \<Rightarrow> importer \<Rightarrow> IngestionBudgets \<Rightarrow> 'w source_provider \<Rightarrow> ('w, 'p) source_store \<Rightarrow> string \<Rightarrow> sync_request \<Rightarrow>
     (sync_error, 'w, 'p) eff" where
  "synchronize rt io budgets provider store sourceId request =
     bind_eff (guard_eff (case rq_lease request of None \<Rightarrow> True | Some lease \<Rightarrow> sl_key lease = ''sync/'' @ sourceId)
       (Thrown ''LEASE_SCOPE_INVALID'')) (\<lambda>_.
     bind_eff (ss_listSources store) (\<lambda>sources.
     case find (\<lambda>s. sg_sourceId s = sourceId) sources of
       None \<Rightarrow> raise_eff (Thrown ''SOURCE_NOT_FOUND'')
     | Some source \<Rightarrow>
         (case rq_commitSha request of
            Some commitSha \<Rightarrow>
              (case rq_repository request of
                 None \<Rightarrow> raise_eff (Thrown ''SOURCE_IDENTITY_MISMATCH'')
               | Some requested \<Rightarrow>
                   if gr_repositoryId requested \<noteq> gr_repositoryId (sg_repository source)
                   then raise_eff (Thrown ''SOURCE_IDENTITY_MISMATCH'')
                   else syncSource rt io budgets provider store
                     (source\<lparr>sg_repository := requested\<lparr>gr_defaultBranch := gr_defaultBranch (sg_repository source)\<rparr>\<rparr>) request None)
          | None \<Rightarrow>
              bind_eff (catch_eff (resolve_source rt provider source)
                  (resolution_failed provider store source (rq_lease request))) (\<lambda>(repository, cache).
              if gr_repositoryId repository \<noteq> gr_repositoryId (sg_repository source)
              then raise_eff (Thrown ''SOURCE_IDENTITY_MISMATCH'')
              else syncSource rt io budgets provider store (source\<lparr>sg_repository := repository\<rparr>)
                (request\<lparr>rq_candidateId := None\<rparr>) cache))))"

subsection \<open>Failures become findings\<close>

definition only_cancels :: "(sync_error, 'w, 'a) eff \<Rightarrow> bool" where
  "only_cancels m \<longleftrightarrow> (\<forall>w e w'. m w = (Inl e, w') \<longrightarrow> e = Cancellation)"

lemma only_cancels_give [intro]: "only_cancels (give x)"
  by (simp add: only_cancels_def eff_run)

lemma only_cancels_bind [intro]: "only_cancels m \<Longrightarrow> (\<And>x. only_cancels (f x)) \<Longrightarrow> only_cancels (bind_eff m f)"
  unfolding only_cancels_def bind_Inl by blast

lemma catch_failure_cases:
  assumes "catch_failure m h w = (r, w')"
  obtains (fine) x where "m w = (Inr x, w')" and "r = Inr x"
  | (cancelled) "m w = (Inl Cancellation, w')" and "r = Inl Cancellation"
  | (failed) message w1 where "m w = (Inl (Thrown message), w1)" and "h message w1 = (r, w')"
proof (cases "m w")
  case (Pair q w1)
  show thesis
  proof (cases q)
    case (Inr x)
    with Pair assms have "m w = (Inr x, w')" "r = Inr x" by (auto simp: catch_failure_def catch_eff_def)
    then show thesis by (rule fine)
  next
    case (Inl e)
    show thesis
    proof (cases e)
      case (Thrown message)
      with Pair Inl assms have "h message w1 = (r, w')" by (simp add: catch_failure_def catch_eff_def)
      with Pair Inl Thrown show thesis by (intro failed) simp_all
    next
      case Cancellation
      with Pair Inl assms have "r = Inl Cancellation" "w1 = w'" by (auto simp: catch_failure_def catch_eff_def raise_eff_def)
      with Pair Inl Cancellation show thesis by (intro cancelled) simp_all
    qed
  qed
qed

lemma only_cancels_catch [intro]: "(\<And>message. only_cancels (h message)) \<Longrightarrow> only_cancels (catch_failure m h)"
  unfolding only_cancels_def
proof (intro allI impI)
  fix w e w'
  assume h: "\<And>message. \<forall>w e w'. h message w = (Inl e, w') \<longrightarrow> e = Cancellation" and "catch_failure m h w = (Inl e, w')"
  from this(2) show "e = Cancellation" by (rule catch_failure_cases) (use h in auto)
qed

lemma only_cancels_each [intro]: "(\<And>x. only_cancels (f x)) \<Longrightarrow> only_cancels (each_eff f xs)"
  by (induction xs) auto

lemma only_cancels_attempt [intro]: "only_cancels (attempt_steps subject kind steps c)"
proof (induction steps arbitrary: c)
  case (Cons step steps)
  have "only_cancels (case r of Inl stopped \<Rightarrow> give stopped | Inr c' \<Rightarrow> attempt_steps subject kind steps c')" for r
    using Cons by (cases r) auto
  then show ?case unfolding attempt_steps.simps by (intro only_cancels_bind only_cancels_catch only_cancels_give)
qed (simp add: only_cancels_give)

lemma only_cancels_stage [intro]:
  "only_cancels (read_license rt io budgets readBlob tree license attribution)"
  "only_cancels (stage_declaration rt io budgets readBlob tree evidence declaration)"
  "only_cancels (stage_resources rt io budgets readBlob tree names c)"
proof -
  show "only_cancels (read_license rt io budgets readBlob tree license attribution)" by (auto simp: read_license_def)
  show "only_cancels (stage_declaration rt io budgets readBlob tree evidence declaration)"
    by (cases "dc_entry declaration") (auto simp: stage_declaration_def simp del: attempt_steps.simps)
  show "only_cancels (stage_resources rt io budgets readBlob tree names c)"
  proof (cases "st_document c")
    case None then show ?thesis by (auto simp: stage_resources_def)
  next
    case (Some document)
    show ?thesis
    proof (cases "extractTextualResourceReferences rt io (sd_instructions document) (st_skillPath c)")
      case (Inl e)
      obtain message where "e = Error message" by (cases e)
      with Some Inl show ?thesis by (auto simp: stage_resources_def Let_def)
    next
      case (Inr references)
      with Some show ?thesis by (auto simp: stage_resources_def Let_def simp del: attempt_steps.simps)
    qed
  qed
qed

text \<open>
  C0. The staging of a snapshot ends with an exception only if the provider throws a cancellation: every
  other failure of a read, a network error and an exceeded rate limit included, becomes a finding of a
  candidate, so that a snapshot is published.
\<close>

theorem staging_absorbs_failures:
  assumes "stage_candidates rt io budgets readBlob tree l s = (Inl e, s')"
  shows "e = Cancellation"
proof -
  have "only_cancels (stage_candidates rt io budgets readBlob tree l)" unfolding stage_candidates_def
    by (intro only_cancels_bind only_cancels_each only_cancels_stage only_cancels_give)
  with assms show ?thesis unfolding only_cancels_def by blast
qed

subsection \<open>What staging keeps\<close>

lemma catch_failure_Inr:
  "catch_failure m h w = (Inr y, w') \<longleftrightarrow>
     m w = (Inr y, w') \<or> (\<exists>message w1. m w = (Inl (Thrown message), w1) \<and> h message w1 = (Inr y, w'))"
proof
  assume "catch_failure m h w = (Inr y, w')"
  then show "m w = (Inr y, w') \<or> (\<exists>message w1. m w = (Inl (Thrown message), w1) \<and> h message w1 = (Inr y, w'))"
    by (rule catch_failure_cases) auto
qed (auto simp: catch_failure_def catch_eff_def)

lemma attempt_steps_keeps:
  assumes "attempt_steps subject kind steps c w = (Inr c', w')" and "P c"
    and "\<And>step c w c' w'. step \<in> set steps \<Longrightarrow> P c \<Longrightarrow> step c w = (Inr c', w') \<Longrightarrow> P c'"
    and "\<And>c fs. P c \<Longrightarrow> P (add_findings fs c)"
  shows "P c'"
  using assms(1-3)
proof (induction steps arbitrary: c w)
  case Nil then show ?case by (simp add: eff_run)
next
  case (Cons step steps)
  let ?one = "catch_failure (bind_eff (step c) (\<lambda>c'. give (Inr c')))
      (\<lambda>message. give (Inl (add_findings [findingFromError message subject kind] c)))"
  from Cons.prems(1) obtain r w1 where one: "?one w = (Inr r, w1)"
    and rest: "(case r of Inl stopped \<Rightarrow> give stopped | Inr c' \<Rightarrow> attempt_steps subject kind steps c') w1 = (Inr c', w')"
    by (auto simp: bind_Inr)
  show ?case
  proof (cases r)
    case (Inl stopped)
    with one have "\<exists>fs. stopped = add_findings fs c" by (auto simp: catch_failure_Inr bind_Inr bind_Inl eff_run)
    with rest Inl Cons.prems(2) assms(4) show ?thesis by (auto simp: eff_run)
  next
    case (Inr c1)
    with one obtain w2 where run: "step c w = (Inr c1, w2)" by (auto simp: catch_failure_Inr bind_Inr bind_Inl eff_run)
    have "step \<in> set (step # steps)" by simp
    from Cons.prems(3) [OF this Cons.prems(2) run] have "P c1" .
    have later: "attempt_steps subject kind steps c1 w1 = (Inr c', w')" using rest Inr by simp
    show ?thesis
    proof (rule Cons.IH [OF later \<open>P c1\<close>])
      fix step' c w c' w'
      assume "step' \<in> set steps" "P c" "step' c w = (Inr c', w')"
      then show "P c'" using Cons.prems(3) [of step' c w c' w'] by simp
    qed
  qed
qed

lemma each_eff_all2:
  "each_eff f xs w = (Inr ys, w') \<Longrightarrow> list_all2 (\<lambda>x y. \<exists>w w'. f x w = (Inr y, w')) xs ys"
proof (induction xs arbitrary: w ys)
  case (Cons x xs)
  then show ?case by (auto simp: bind_Inr eff_run)
qed (simp add: eff_run)

lemma stage_declaration_path:
  assumes "stage_declaration rt io budgets readBlob tree license declaration s = (Inr c, s')"
  shows "st_skillPath c = dc_skillPath declaration"
proof (cases "dc_entry declaration")
  case None with assms show ?thesis by (simp add: stage_declaration_def eff_run initial_candidate_def)
next
  case (Some entry)
  have "attempt_steps (dc_skillPath declaration) SubjectCandidate
            [document_step rt io budgets readBlob entry, notice_step rt io budgets readBlob tree,
             license_step rt io budgets readBlob tree (case license of Inl _ \<Rightarrow> [] | Inr l \<Rightarrow> lg_spdxLicenseId l)]
            (initial_candidate license declaration) s = (Inr c, s')"
    using assms Some by (simp add: stage_declaration_def)
  then show ?thesis
  proof (rule attempt_steps_keeps [where P = "\<lambda>c. st_skillPath c = dc_skillPath declaration"])
    fix step c w c' w'
    assume step: "step \<in> set [document_step rt io budgets readBlob entry, notice_step rt io budgets readBlob tree,
             license_step rt io budgets readBlob tree (case license of Inl _ \<Rightarrow> [] | Inr l \<Rightarrow> lg_spdxLicenseId l)]"
      and path: "st_skillPath c = dc_skillPath declaration" and run: "step c w = (Inr c', w')"
    from step consider "step = document_step rt io budgets readBlob entry" | "step = notice_step rt io budgets readBlob tree"
      | spdx where "step = license_step rt io budgets readBlob tree spdx" by auto
    then show "st_skillPath c' = dc_skillPath declaration"
    proof cases
      case 1 with run path show ?thesis by (auto simp: document_step_def bind_Inr give_run)
    next
      case 2 with run path show ?thesis by (auto simp: notice_step_def bind_Inr give_run split: list.splits option.splits)
    next
      case 3 with run path show ?thesis
        by (auto simp: license_step_def bind_Inr give_run raise_run split: list.splits option.splits if_splits)
    qed
  qed (simp_all add: initial_candidate_def)
qed

subsection \<open>Staged candidates are consistent\<close>

lemma duplicateNames_count: "1 < count_list names n \<Longrightarrow> n \<in> set (duplicateNames names)"
proof -
  assume many: "1 < count_list names n"
  then have "map_of (name_counts names) n = Some (count_list names n)"
    using name_counts_count [of names n] by (cases "map_of (name_counts names) n") simp_all
  from map_of_SomeD [OF this] many show ?thesis by (force simp: duplicateNames_def)
qed

lemma count_staged_names: "count_list (staged_names cs) n = length (filter (has_name n) cs)"
proof (induction cs)
  case (Cons c cs)
  then show ?case by (cases "st_document c") (simp_all add: staged_names_def has_name_def)
qed (simp add: staged_names_def)

lemma shared_name_duplicate:
  assumes "i < length cs" "j < length cs" "i \<noteq> j" "has_name n (cs ! i)" "has_name n (cs ! j)"
  shows "n \<in> set (duplicateNames (staged_names cs))"
proof (rule duplicateNames_count)
  have "{i, j} \<subseteq> {k. k < length cs \<and> has_name n (cs ! k)}" using assms by simp
  then have "card {i, j} \<le> card {k. k < length cs \<and> has_name n (cs ! k)}" by (intro card_mono) simp_all
  then show "1 < count_list (staged_names cs) n"
    using assms(3) by (simp add: count_staged_names length_filter_conv_card)
qed

lemma stage_resources_keeps:
  assumes "stage_resources rt io budgets readBlob tree names c s = (Inr c', s')"
  shows "st_document c' = st_document c \<and> st_skillPath c' = st_skillPath c \<and>
    (\<forall>n. has_name n c \<longrightarrow> n \<in> set (duplicateNames names) \<longrightarrow> st_findings c' \<noteq> [])"
proof (cases "st_document c")
  case None
  with assms show ?thesis by (simp add: stage_resources_def eff_run has_name_def)
next
  case (Some document)
  let ?resolved = "resolve_candidate rt budgets names document c"
  let ?P = "\<lambda>c'. st_document c' = st_document c \<and> st_skillPath c' = st_skillPath c \<and>
    (\<forall>n. has_name n c \<longrightarrow> n \<in> set (duplicateNames names) \<longrightarrow> st_findings c' \<noteq> [])"
  have start: "?P ?resolved" using Some by (simp add: resolve_candidate_def Let_def has_name_def)
  have more: "?P (add_findings fs d)" if "?P d" for d fs using that by simp
  show ?thesis
  proof (cases "extractTextualResourceReferences rt io (sd_instructions document) (st_skillPath c)")
    case (Inl e)
    obtain message where "e = Error message" by (cases e)
    with assms Some Inl more [OF start] show ?thesis by (simp add: stage_resources_def eff_run)
  next
    case (Inr references)
    show ?thesis
    proof (cases "maximumResourcesPerSkill budgets < length references")
      case True
      with assms Some Inr more [OF start] show ?thesis by (simp add: stage_resources_def eff_run)
    next
      case False
      with assms Some Inr have "attempt_steps (st_skillPath c) SubjectResource
          (map (resource_step rt budgets readBlob tree) references @ [bundle_step budgets document]) ?resolved s = (Inr c', s')"
        by (simp add: stage_resources_def Let_def del: attempt_steps.simps)
      then show ?thesis
      proof (rule attempt_steps_keeps [where P = ?P, OF _ start])
        fix step d w d' w'
        assume step: "step \<in> set (map (resource_step rt budgets readBlob tree) references @ [bundle_step budgets document])"
          and d: "?P d" and run: "step d w = (Inr d', w')"
        from step consider reference where "step = resource_step rt budgets readBlob tree reference" | "step = bundle_step budgets document"
          by auto
        then have "st_document d' = st_document d" "st_skillPath d' = st_skillPath d" "st_findings d' = st_findings d"
          using run by (cases; auto simp: resource_step_def bundle_step_def bind_Inr give_run)+
        with d show "?P d'" by simp
      qed (rule more)
    qed
  qed
qed

lemma staged_consistent:
  assumes "stage_candidates rt io budgets readBlob tree l s = (Inr cs, s')"
  obtains before where "uniq_names before" and "cs = propagate (report_cycles before)"
    and "map st_skillPath cs = map dc_skillPath (ly_declarations l)"
proof -
  from assms obtain license documents before s1 s2 s3 where
    one: "each_eff (stage_declaration rt io budgets readBlob tree license) (ly_declarations l) s1 = (Inr documents, s2)"
    and two: "each_eff (stage_resources rt io budgets readBlob tree (staged_names documents)) documents s2 = (Inr before, s3)"
    and cs: "cs = propagate (report_cycles before)"
    unfolding stage_candidates_def bind_Inr give_run by blast
  note all1 = each_eff_all2 [OF one] and all2 = each_eff_all2 [OF two]
  have len: "length before = length documents" "length documents = length (ly_declarations l)"
    using all1 all2 by (simp_all add: list_all2_lengthD)
  have kept: "st_document (before ! i) = st_document (documents ! i) \<and> st_skillPath (before ! i) = st_skillPath (documents ! i) \<and>
      (\<forall>n. has_name n (documents ! i) \<longrightarrow> n \<in> set (duplicateNames (staged_names documents)) \<longrightarrow> st_findings (before ! i) \<noteq> [])"
    if "i < length documents" for i
  proof -
    from list_all2_nthD [OF all2 that] obtain w w' where
      "stage_resources rt io budgets readBlob tree (staged_names documents) (documents ! i) w = (Inr (before ! i), w')" by blast
    then show ?thesis by (rule stage_resources_keeps)
  qed
  have uniq: "uniq_names before"
    unfolding uniq_names_def
  proof (intro allI impI)
    fix i j n
    assume "i < length before" "j < length before" "i \<noteq> j" "has_name n (before ! i)" "has_name n (before ! j)"
    moreover from this have "has_name n (documents ! i)" "has_name n (documents ! j)"
      using kept [of i] kept [of j] len by (simp_all add: has_name_def)
    ultimately show "st_findings (before ! i) \<noteq> []"
      using kept [of i] shared_name_duplicate [of i documents j n] len by simp
  qed
  have g: "grown before cs" unfolding cs by (rule grown_trans [OF report_cycles_grown propagate_grown])
  have "map st_skillPath cs = map st_skillPath before"
  proof (rule nth_equalityI)
    show "length (map st_skillPath cs) = length (map st_skillPath before)" using grown_length [OF g] by simp
    fix i assume "i < length (map st_skillPath cs)"
    then have "i < length before" "i < length cs" using grown_length [OF g] by simp_all
    with grown_nth [OF g, of i] show "map st_skillPath cs ! i = map st_skillPath before ! i" by auto
  qed
  also have "\<dots> = map dc_skillPath (ly_declarations l)"
  proof (rule nth_equalityI)
    fix i assume "i < length (map st_skillPath before)"
    then have i: "i < length documents" "i < length (ly_declarations l)" using len by simp_all
    from list_all2_nthD [OF all1 i(2)] obtain w w' where
      "stage_declaration rt io budgets readBlob tree license (ly_declarations l ! i) w = (Inr (documents ! i), w')" by blast
    from stage_declaration_path [OF this] kept [OF i(1)] i len
    show "map st_skillPath before ! i = map dc_skillPath (ly_declarations l) ! i" by simp
  qed (use len in simp)
  finally show thesis using that uniq cs by blast
qed

subsection \<open>What is published is consistent\<close>

definition consistent_candidate :: "ExternalCandidateInput \<Rightarrow> bool" where
  "consistent_candidate c \<longleftrightarrow>
     (ci_classification c = Verified \<and> ci_findings c = [] \<and> ci_revision c \<noteq> None) \<or>
     (ci_classification c = Quarantined \<and> ci_findings c \<noteq> [] \<and> ci_revision c = None)"

definition closed_revisions :: "ExternalSkillRevision list \<Rightarrow> bool" where
  "closed_revisions rs \<longleftrightarrow>
     (\<forall>r \<in> set rs. \<forall>t \<in> set (es_dependencies r). \<exists>r' \<in> set rs. dep_targetSkillId t = Some (es_skillId r') \<and>
        dep_targetRevision t = Some (es_revision r') \<and> es_name r' = dep_skillName t)"

lemma staged_snapshot:
  assumes "stage_candidates rt io budgets readBlob tree l s = (Inr cs, s')"
  shows "\<exists>candidates. snapshot_candidates rt io repository commitSha ak cs = Some candidates \<and>
    map ci_skillPath candidates = map dc_skillPath (ly_declarations l) \<and> list_all consistent_candidate candidates \<and>
    closed_revisions (snapshot_revisions candidates)"
proof -
  obtain before where before: "uniq_names before" and cs: "cs = propagate (report_cycles before)"
    and paths: "map st_skillPath cs = map dc_skillPath (ly_declarations l)"
    using staged_consistent [OF assms] .
  have g: "grown (report_cycles before) cs" unfolding cs by (rule propagate_grown)
  have uniq: "uniq_names cs" by (rule uniq_names_grown [OF before grown_trans [OF report_cycles_grown g]])
  have acyclic: "\<forall>n. \<not> (el_edge (eligibleByName cs))\<^sup>+\<^sup>+ n n" using eligible_acyclic [OF before g] by blast
  let ?mk = "make_revision rt io repository commitSha" and ?el = "eligibleByName cs"
  let ?spec = "spec_candidate (Suc (length cs)) ?mk rt ak ?el"
  have all: "snapshot_candidates rt io repository commitSha ak cs = Some (map ?spec cs)"
    by (rule snapshot_candidates_spec [OF uniq acyclic])
  have shape: "ci_skillPath (?spec c) = st_skillPath c \<and> consistent_candidate (?spec c)" if "c \<in> set cs" for c
    using spec_candidate_shape [of c "Suc (length cs)" ?mk ?el rt ak] eligible_plain [OF uniq acyclic that]
    unfolding consistent_candidate_def by blast
  have "map ci_skillPath (map ?spec cs) = map st_skillPath cs" using shape by simp
  moreover have "list_all consistent_candidate (map ?spec cs)" using shape by (simp add: list_all_iff)
  moreover have "closed_revisions (snapshot_revisions (map ?spec cs))"
    unfolding closed_revisions_def using snapshot_closed [OF uniq acyclic all] by blast
  ultimately show ?thesis using all paths by auto
qed

text \<open>C6. A staged snapshot always becomes candidates: \<open>buildRevision\<close> returns for every candidate, there is
  one candidate per declared skill in the order of the declarations, each is either verified with a
  revision and no finding or quarantined with a finding and no revision, and every dependency of a
  published revision names a revision published with it.
\<close>

theorem snapshot_complete_and_closed:
  assumes "stage_candidates rt io budgets readBlob tree l s = (Inr cs, s')"
  shows "\<exists>candidates. snapshot_candidates rt io repository commitSha ak cs = Some candidates \<and>
    map ci_skillPath candidates = map dc_skillPath (ly_declarations l) \<and> list_all consistent_candidate candidates \<and>
    closed_revisions (snapshot_revisions candidates)"
  using assms by (rule staged_snapshot)

subsection \<open>What a synchronization leaves alone\<close>

lemma preserves_of_res [simp, intro]: "preserves P (of_res r)"
  by (simp add: of_res_def)

lemma preserves_catch_failure [intro]:
  "preserves P m \<Longrightarrow> (\<And>message. preserves P (h message)) \<Longrightarrow> preserves P (catch_failure m h)"
  unfolding catch_failure_def by (intro preserves_catch) (auto split: sync_error.split)

lemma preserves_attempt [intro]:
  "(\<And>step c. step \<in> set steps \<Longrightarrow> preserves P (step c)) \<Longrightarrow> preserves P (attempt_steps subject kind steps c)"
proof (induction steps arbitrary: c)
  case (Cons step steps)
  have "preserves P (case r of Inl stopped \<Rightarrow> give stopped | Inr c' \<Rightarrow> attempt_steps subject kind steps c')" for r
    using Cons by (cases r) auto
  with Cons.prems show ?case unfolding attempt_steps.simps by (intro preserves_bind preserves_catch_failure) auto
qed (simp add: preserves_give)

text \<open>Whatever every read of a text preserves, the whole staging preserves.\<close>

lemma preserves_staging:
  assumes "\<And>e. preserves Q (readText rt budgets readBlob e)"
  shows "preserves Q (stage_candidates rt io budgets readBlob tree l)"
proof -
  have entries: "preserves Q (read_entries rt budgets readBlob tree es)" for es
    unfolding read_entries_def using assms by (intro preserves_each preserves_bind) auto
  have agreed: "preserves Q (agreed_text rt budgets readBlob tree e es)" for e es
    unfolding agreed_text_def using entries by (intro preserves_bind) auto
  have source: "preserves Q (source_legal rt io budgets readBlob tree declared attribution)" for declared attribution
    unfolding source_legal_def using agreed
    by (cases "root_entries rt io LICENSE_NAMES tree"; cases "root_entries rt io NOTICE_NAMES tree")
      (auto intro!: preserves_bind)
  have license: "preserves Q (read_license rt io budgets readBlob tree declared attribution)" for declared attribution
    unfolding read_license_def using source by auto
  have document: "preserves Q (document_step rt io budgets readBlob e c)" for e c
    unfolding document_step_def using assms by (intro preserves_bind) auto
  have notice: "preserves Q (notice_step rt io budgets readBlob tree c)" for c
    unfolding notice_step_def using agreed by (auto intro!: preserves_bind split: list.split option.split)
  have own: "preserves Q (license_step rt io budgets readBlob tree spdx c)" for spdx c
    unfolding license_step_def using assms by (auto intro!: preserves_bind split: list.split option.split)
  have decl: "preserves Q (stage_declaration rt io budgets readBlob tree evidence d)" for evidence d
    unfolding stage_declaration_def using document notice own
    by (cases "dc_entry d") (auto intro!: preserves_attempt simp del: attempt_steps.simps)
  have resource: "preserves Q (resource_step rt budgets readBlob tree reference c)" for reference c
    unfolding resource_step_def using assms by (intro preserves_bind) auto
  have fits: "preserves Q (bundle_step budgets document c)" for document c
    unfolding bundle_step_def by (intro preserves_bind) auto
  have res: "preserves Q (stage_resources rt io budgets readBlob tree names c)" for names c
    unfolding stage_resources_def Let_def using resource fits
    by (auto intro!: preserves_attempt split: option.split sum.split error.split simp del: attempt_steps.simps)
  show ?thesis
    unfolding stage_candidates_def using license decl res by (intro preserves_bind preserves_each) auto
qed

lemma preserves_outside: "preserves P m \<Longrightarrow> preserves (\<lambda>s. P (snd s)) (outer_eff m)"
  unfolding preserves_def outer_eff_def by (auto simp: case_prod_beta) (metis prod.collapse)

lemma preserves_readText:
  assumes "\<And>sha k. preserves P (readBlob sha k)"
  shows "preserves (\<lambda>s. P (snd s)) (readText rt budgets readBlob e)"
  unfolding readText_def using preserves_outside [OF assms]
  by (auto intro!: preserves_bind preserves_change split: option.split)

lemma preserves_run_staging: "preserves (\<lambda>s. P (snd s)) m \<Longrightarrow> preserves P (run_staging m)"
  unfolding preserves_def run_staging_def by (auto split: prod.splits)

text \<open>C32. The staging of a snapshot never reads more than the repository budget: if a read of a blob adds at
  most its declared size to what has been fetched, then however the run ends it has fetched at most
  \<open>maximumRepositoryBytes\<close> for licenses, skills, notices and resources together.
\<close>

theorem repository_read_bound:
  assumes "\<And>sha k w r w'. readBlob sha k w = (r, w') \<Longrightarrow> fetched w' \<le> fetched w + (k :: nat)"
    and "run_staging (stage_candidates rt io budgets readBlob tree l) w = (r, w')"
  shows "fetched w' \<le> fetched w + maximumRepositoryBytes budgets"
proof -
  let ?max = "maximumRepositoryBytes budgets"
  let ?Q = "\<lambda>s. fetched (snd s) \<le> fetched w + min (fst s) ?max"
  have "preserves ?Q (readText rt budgets readBlob e)" for e
    unfolding preserves_def
  proof (intro allI impI)
    fix s :: "nat \<times> 'a" and q s'
    assume before: "?Q s" and run: "readText rt budgets readBlob e s = (q, s')"
    obtain n v where s: "s = (n, v)" by (cases s)
    show "?Q s'"
    proof (cases "te_size e")
      case None with run before show ?thesis by (simp add: readText_def eff_run)
    next
      case (Some k)
      show ?thesis
      proof (cases "k \<le> maximumTextBytes budgets \<and> n + k \<le> ?max")
        case False
        with run before Some s show ?thesis by (auto simp: readText_def eff_step split: if_splits)
      next
        case True
        then have "bind_eff (outer_eff (readBlob (te_sha e) k)) (\<lambda>bytes. of_res (decodeInertText rt ''RESOURCE_NON_TEXT'' bytes)) (n + k, v) = (q, s')"
          using run Some s by (simp add: readText_def eff_step)
        then have "s' = (n + k, snd (readBlob (te_sha e) k v))"
          by (rule bind_eff_cases) (auto simp: outer_eff_def of_res_def of_sum_def)
        moreover have "fetched (snd (readBlob (te_sha e) k v)) \<le> fetched v + k" using assms(1) by (metis prod.collapse)
        ultimately show ?thesis using before s True by simp
      qed
    qed
  qed
  then have all: "preserves ?Q (stage_candidates rt io budgets readBlob tree l)" by (rule preserves_staging)
  obtain s' where "stage_candidates rt io budgets readBlob tree l (0, w) = (r, s')" "w' = snd s'"
    using assms(2) by (auto simp: run_staging_def split: prod.splits)
  with preservesD [OF all, of "(0, w)"] show ?thesis by fastforce
qed

subsection \<open>What is published\<close>

lemma check_revisions_Inr:
  "check_revisions rt commitSha seen rs = Inr u \<Longrightarrow>
     distinct (map es_skillId rs) \<and> es_skillId ` set rs \<inter> set seen = {} \<and>
     (\<forall>r \<in> set rs. ep_commitSha (es_provenance r) = commitSha \<and> ok (assertExternalRevisionIntegrity rt r))"
proof (induction rs arbitrary: seen)
  case (Cons r rs)
  then obtain r' where r: "assertExternalRevisionIntegrity rt r = Inr r'" by auto
  with Cons.prems have new: "es_skillId r \<notin> set seen" "ep_commitSha (es_provenance r) = commitSha"
    and rest: "check_revisions rt commitSha (es_skillId r # seen) rs = Inr u"
    by (auto simp: Fail_def split: if_splits)
  from Cons.IH [OF rest] new r show ?case by auto
qed simp

definition sound_publication :: "runtime \<Rightarrow> string \<Rightarrow> SyncLease option \<Rightarrow> PublishExternalSnapshotInput \<Rightarrow> bool" where
  "sound_publication rt sourceId lease input \<longleftrightarrow>
     pi_sourceId input = sourceId \<and> pi_lease input = lease \<and>
     (case lease of None \<Rightarrow> True | Some held \<Rightarrow> sl_key held = ''sync/'' @ sourceId) \<and>
     pi_revisions input = snapshot_revisions (pi_candidates input) \<and> list_all consistent_candidate (pi_candidates input) \<and>
     closed_revisions (pi_revisions input) \<and> distinct (map es_skillId (pi_revisions input)) \<and>
     (\<forall>r \<in> set (pi_revisions input). ep_commitSha (es_provenance r) = pi_commitSha input \<and> ok (assertExternalRevisionIntegrity rt r))"

text \<open>Operations of the ports that keep a predicate, publishing set aside.\<close>

definition keeping :: "('w \<Rightarrow> bool) \<Rightarrow> 'w source_provider \<Rightarrow> ('w, 'p) source_store \<Rightarrow> bool" where
  "keeping P provider store \<longleftrightarrow>
     (\<forall>r. preserves P (gp_resolve provider r)) \<and>
     (\<forall>f r etag. gp_resolveConditionally provider = Some f \<longrightarrow> preserves P (f r etag)) \<and>
     (\<forall>r. preserves P (gp_readDefault provider r)) \<and>
     (\<forall>f r sha. gp_readAtCommit provider = Some f \<longrightarrow> preserves P (f r sha)) \<and>
     (\<forall>r sha k. preserves P (gp_readBlob provider r sha k)) \<and>
     preserves P (ss_listSources store) \<and> preserves P (ss_advisoryChainHead store)"

lemma preserves_publish:
  assumes "check_revisions rt (pi_commitSha input) [] (pi_revisions input) = Inr () \<Longrightarrow> preserves P (ss_publishSnapshot store input)"
  shows "preserves P (publish rt store input)"
  unfolding publish_def
proof (rule preserves_bind_of)
  fix w x w'
  assume "of_res (check_revisions rt (pi_commitSha input) [] (pi_revisions input)) w = (Inr x, w')"
  then have "check_revisions rt (pi_commitSha input) [] (pi_revisions input) = Inr ()"
    by (cases "check_revisions rt (pi_commitSha input) [] (pi_revisions input)") (auto simp: of_res_def of_sum_def split: error.splits)
  then show "preserves P (ss_publishSnapshot store input)" by (rule assms)
qed simp

lemma preserves_read_layout:
  assumes "\<And>sha k. preserves P (readBlob sha k)"
  shows "preserves P (read_layout rt io budgets readBlob tree)"
proof -
  have "preserves P (read_manifest rt io budgets readBlob tree path)" for path
    unfolding read_manifest_def using assms by (intro preserves_bind) auto
  then show ?thesis unfolding read_layout_def by (auto intro!: preserves_bind split: option.split)
qed

lemma rejected_sound:
  "consistent_candidate (rejected_candidate rt commitSha r)" "snapshot_revisions [rejected_candidate rt commitSha r] = []"
  by (simp_all add: rejected_candidate_def consistent_candidate_def snapshot_revisions_def Let_def)

lemma preserves_syncSource:
  assumes keep: "keeping P provider store"
    and publishes: "\<And>input. sound_publication rt (sg_sourceId source) (rq_lease request) input \<Longrightarrow> preserves P (ss_publishSnapshot store input)"
    and lease: "case rq_lease request of None \<Rightarrow> True | Some held \<Rightarrow> sl_key held = ''sync/'' @ sg_sourceId source"
  shows "preserves P (syncSource rt io budgets provider store source request cache)"
proof -
  let ?read = "gp_readBlob provider (sg_repository source)"
  have reads: "preserves P (?read sha k)" for sha k using keep by (simp add: keeping_def)
  have snapshot: "preserves P (read_snapshot provider (sg_repository source) (rq_commitSha request))"
    using keep by (auto simp: read_snapshot_def keeping_def split: option.split)
  have head: "preserves P (ss_advisoryChainHead store)" using keep by (simp add: keeping_def)
  have staging: "preserves P (run_staging (stage_candidates rt io budgets ?read tree y))" for tree y
    by (intro preserves_run_staging preserves_staging preserves_readText reads)
  have published: "preserves P (publish rt store (snapshot_input source request cache head snapshot ak version candidates))"
    if "list_all consistent_candidate candidates" and "closed_revisions (snapshot_revisions candidates)"
    for head snapshot ak version candidates
  proof (rule preserves_publish)
    let ?in = "snapshot_input source request cache head snapshot ak version candidates"
    assume "check_revisions rt (pi_commitSha ?in) [] (pi_revisions ?in) = Inr ()"
    from check_revisions_Inr [OF this] that lease
    have "sound_publication rt (sg_sourceId source) (rq_lease request) ?in"
      by (simp add: sound_publication_def snapshot_input_def)
    then show "preserves P (ss_publishSnapshot store ?in)" by (rule publishes)
  qed
  have each: "preserves P (case l of
       Inl r \<Rightarrow> publish rt store (snapshot_input source request cache head snapshot (rj_adapterKind r) (rj_manifestVersion r)
                  [rejected_candidate rt (sn_commitSha snapshot) r])
     | Inr y \<Rightarrow>
         bind_eff (run_staging (stage_candidates rt io budgets ?read (sn_tree snapshot) y)) (\<lambda>cs.
         publish rt store (snapshot_input source request cache head snapshot (ly_adapterKind y) (ly_manifestVersion y)
           (case snapshot_candidates rt io (sg_repository source) (sn_commitSha snapshot) (ly_adapterKind y) cs of
              None \<Rightarrow> [] | Some candidates \<Rightarrow> candidates))))" for l head snapshot
  proof (cases l)
    case (Inl r)
    then show ?thesis by (auto intro!: published simp: rejected_sound closed_revisions_def)
  next
    case (Inr y)
    show ?thesis unfolding Inr sum.case
    proof (rule preserves_bind_of [OF staging])
      fix w cs w'
      assume "run_staging (stage_candidates rt io budgets ?read (sn_tree snapshot) y) w = (Inr cs, w')"
      then obtain s' where "stage_candidates rt io budgets ?read (sn_tree snapshot) y (0, w) = (Inr cs, s')"
        by (auto simp: run_staging_def split: prod.splits)
      from staged_snapshot [OF this, of "sg_repository source" "sn_commitSha snapshot" "ly_adapterKind y"]
      show "preserves P (publish rt store (snapshot_input source request cache head snapshot (ly_adapterKind y) (ly_manifestVersion y)
           (case snapshot_candidates rt io (sg_repository source) (sn_commitSha snapshot) (ly_adapterKind y) cs of
              None \<Rightarrow> [] | Some candidates \<Rightarrow> candidates)))"
        by (auto intro!: published)
    qed
  qed
  show ?thesis
    unfolding syncSource_def by (intro preserves_bind head snapshot preserves_read_layout reads each)
qed

lemma resolution_failed_throws: "resolution_failed provider store source lease e w = (Inr x, w') \<Longrightarrow> False"
  unfolding resolution_failed_def by (auto simp: bind_Inr eff_run)

lemma preserves_resolve:
  "keeping P provider store \<Longrightarrow> preserves P (resolve_source rt provider source)"
  unfolding resolve_source_def keeping_def by (auto intro!: preserves_bind split: option.split)

text \<open>A source is recorded as unavailable only after an authenticated provider refused it twice.\<close>

lemma preserves_resolution_failed:
  assumes "keeping P provider store"
    and "refused e \<Longrightarrow> gp_authenticated provider \<Longrightarrow>
      preserves P (ss_recordSourceUnavailable store (sg_sourceId source) (gr_repositoryId (sg_repository source)) lease)"
  shows "preserves P (resolution_failed provider store source lease e)"
  unfolding resolution_failed_def
proof (rule preserves_bind)
  show "preserves P (if refused e \<and> gp_authenticated provider
       then catch_eff (bind_eff (gp_resolve provider (sg_repository source)) (\<lambda>_. give ())) (\<lambda>confirmation.
              if refused confirmation
              then ss_recordSourceUnavailable store (sg_sourceId source) (gr_repositoryId (sg_repository source)) lease
              else give ())
       else give ())"
  proof (cases "refused e \<and> gp_authenticated provider")
    case True
    then have recorded: "preserves P (ss_recordSourceUnavailable store (sg_sourceId source) (gr_repositoryId (sg_repository source)) lease)"
      using assms(2) by blast
    have "preserves P (gp_resolve provider (sg_repository source))" using assms(1) by (simp add: keeping_def)
    with recorded True show ?thesis by (auto intro!: preserves_catch preserves_bind)
  qed auto
qed auto

lemma synchronize_preserves:
  assumes keep: "keeping P provider store"
    and publishes: "\<And>input. sound_publication rt sourceId (rq_lease request) input \<Longrightarrow> preserves P (ss_publishSnapshot store input)"
    and unavailable: "gp_authenticated provider \<Longrightarrow> (\<And>repositoryId.
      preserves P (ss_recordSourceUnavailable store sourceId repositoryId (rq_lease request)))"
  shows "preserves P (synchronize rt io budgets provider store sourceId request)"
  unfolding synchronize_def
proof (rule preserves_bind_of)
  fix w x w'
  assume "guard_eff (case rq_lease request of None \<Rightarrow> True | Some lease \<Rightarrow> sl_key lease = ''sync/'' @ sourceId)
       (Thrown ''LEASE_SCOPE_INVALID'') w = (Inr x, w')"
  then have lease: "case rq_lease request of None \<Rightarrow> True | Some held \<Rightarrow> sl_key held = ''sync/'' @ sourceId"
    by (auto simp: guard_eff_def split: if_splits)
  have sync: "preserves P (syncSource rt io budgets provider store s r cache)"
    if "sg_sourceId s = sourceId" and "rq_lease r = rq_lease request" for s r cache
    by (rule preserves_syncSource [OF keep]) (use publishes lease that in \<open>simp_all split: option.splits\<close>)
  have resolve: "preserves P (catch_eff (resolve_source rt provider s) (resolution_failed provider store s (rq_lease request)))"
    if "sg_sourceId s = sourceId" for s
  proof (rule preserves_catch [OF preserves_resolve [OF keep]])
    show "preserves P (resolution_failed provider store s (rq_lease request) e)" for e
      by (rule preserves_resolution_failed [OF keep]) (use unavailable that in simp)
  qed
  show "preserves P (bind_eff (ss_listSources store) (\<lambda>sources.
     case find (\<lambda>s. sg_sourceId s = sourceId) sources of
       None \<Rightarrow> raise_eff (Thrown ''SOURCE_NOT_FOUND'')
     | Some source \<Rightarrow>
         (case rq_commitSha request of
            Some commitSha \<Rightarrow>
              (case rq_repository request of
                 None \<Rightarrow> raise_eff (Thrown ''SOURCE_IDENTITY_MISMATCH'')
               | Some requested \<Rightarrow>
                   if gr_repositoryId requested \<noteq> gr_repositoryId (sg_repository source)
                   then raise_eff (Thrown ''SOURCE_IDENTITY_MISMATCH'')
                   else syncSource rt io budgets provider store
                     (source\<lparr>sg_repository := requested\<lparr>gr_defaultBranch := gr_defaultBranch (sg_repository source)\<rparr>\<rparr>) request None)
          | None \<Rightarrow>
              bind_eff (catch_eff (resolve_source rt provider source)
                  (resolution_failed provider store source (rq_lease request))) (\<lambda>(repository, cache).
              if gr_repositoryId repository \<noteq> gr_repositoryId (sg_repository source)
              then raise_eff (Thrown ''SOURCE_IDENTITY_MISMATCH'')
              else syncSource rt io budgets provider store (source\<lparr>sg_repository := repository\<rparr>)
                (request\<lparr>rq_candidateId := None\<rparr>) cache))))"
  proof (rule preserves_bind)
    show "preserves P (ss_listSources store)" using keep by (simp add: keeping_def)
    fix sources :: "SourceRegistration list"
    show "preserves P (case find (\<lambda>s. sg_sourceId s = sourceId) sources of
       None \<Rightarrow> raise_eff (Thrown ''SOURCE_NOT_FOUND'')
     | Some source \<Rightarrow>
         (case rq_commitSha request of
            Some commitSha \<Rightarrow>
              (case rq_repository request of
                 None \<Rightarrow> raise_eff (Thrown ''SOURCE_IDENTITY_MISMATCH'')
               | Some requested \<Rightarrow>
                   if gr_repositoryId requested \<noteq> gr_repositoryId (sg_repository source)
                   then raise_eff (Thrown ''SOURCE_IDENTITY_MISMATCH'')
                   else syncSource rt io budgets provider store
                     (source\<lparr>sg_repository := requested\<lparr>gr_defaultBranch := gr_defaultBranch (sg_repository source)\<rparr>\<rparr>) request None)
          | None \<Rightarrow>
              bind_eff (catch_eff (resolve_source rt provider source)
                  (resolution_failed provider store source (rq_lease request))) (\<lambda>(repository, cache).
              if gr_repositoryId repository \<noteq> gr_repositoryId (sg_repository source)
              then raise_eff (Thrown ''SOURCE_IDENTITY_MISMATCH'')
              else syncSource rt io budgets provider store (source\<lparr>sg_repository := repository\<rparr>)
                (request\<lparr>rq_candidateId := None\<rparr>) cache)))"
    proof (cases "find (\<lambda>s. sg_sourceId s = sourceId) sources")
      case (Some source)
      then have "sg_sourceId source = sourceId" using find_member by fastforce
      with Some sync resolve show ?thesis by (auto intro!: preserves_bind split: option.split)
    qed auto
  qed
qed simp


subsection \<open>Examples\<close>

text \<open>A provider whose repository has one skill and no license, over the list of publications.\<close>

definition sample_repository :: GitHubRepositoryIdentity where
  "sample_repository = \<lparr>gr_owner = ''o'', gr_repository = ''r'', gr_repositoryId = 7, gr_defaultBranch = ''main''\<rparr>"

definition sample_entry :: GitTreeEntry where
  "sample_entry = \<lparr>te_path = ''SKILL.md'', te_mode = Mode100644, te_type = Blob, te_sha = ''s'', te_size = Some 16\<rparr>"

definition sample_budgets :: IngestionBudgets where
  "sample_budgets = \<lparr>maximumCandidates = 4, maximumResourcesPerSkill = 4, maximumDependenciesPerSkill = 4,
     maximumTextBytes = 20, maximumBundleBytes = 40, maximumRepositoryBytes = 30\<rparr>"

definition sample_provider :: "(sync_error + string) \<Rightarrow> 'w source_provider" where
  "sample_provider blob = \<lparr>gp_authenticated = False, gp_resolve = give, gp_resolveConditionally = None,
     gp_readDefault = (\<lambda>r. give \<lparr>sn_repository = r, sn_commitSha = ''c'', sn_treeSha = ''t'', sn_tree = [sample_entry]\<rparr>),
     gp_readAtCommit = None, gp_readBlob = (\<lambda>r sha k. of_sum blob)\<rparr>"

definition sample_store :: "(PublishExternalSnapshotInput list, unit) source_store" where
  "sample_store = \<lparr>ss_listSources = give [\<lparr>sg_sourceId = ''x'', sg_repository = sample_repository, sg_metadataEtag = None,
       sg_metadataCacheSha256 = None\<rparr>],
     ss_advisoryChainHead = give ''h'', ss_publishSnapshot = (\<lambda>input. change_eff (\<lambda>w. w @ [input])),
     ss_recordSourceUnavailable = (\<lambda>s r l. give ())\<rparr>"

definition plain_request :: sync_request where
  "plain_request = \<lparr>rq_lease = None, rq_commitSha = None, rq_repository = None, rq_candidateId = None\<rparr>"

definition sample_layout :: layout where
  "sample_layout = \<lparr>ly_adapterKind = NestedSkill, ly_manifestVersion = ''nested-v1'', ly_license = None, ly_attribution = [],
     ly_declarations = [\<lparr>dc_root = ''.'', dc_skillPath = ''SKILL.md'', dc_entry = Some sample_entry, dc_findings = []\<rparr>]\<rparr>"


lemma staging_absorbs_failures_witness:
  "readText constant_runtime sample_budgets (\<lambda>sha k. raise_eff Cancellation) sample_entry (0, ()) = (Inl Cancellation, (16, ())) \<and>
   (\<forall>e s'. stage_candidates constant_runtime (sample_importer (md_root [])) sample_budgets (\<lambda>sha k. raise_eff Cancellation)
      [sample_entry] sample_layout (0, ()) = (Inl e, s') \<longrightarrow> e = Cancellation)"
proof
  show "readText constant_runtime sample_budgets (\<lambda>sha k. raise_eff Cancellation) sample_entry (0, ()) = (Inl Cancellation, (16, ()))"
    by (simp add: readText_def sample_entry_def sample_budgets_def outer_eff_def raise_eff_def bind_eff_def guard_eff_def
      change_eff_def read_eff_def)
qed (use staging_absorbs_failures in blast)



lemma snapshot_complete_and_closed_witness:
  "\<exists>cs candidates s'. stage_candidates constant_runtime (sample_importer (md_root [])) sample_budgets
       (\<lambda>sha k. raise_eff (Thrown ''GITHUB_RATE_LIMITED'')) [sample_entry] sample_layout (0, ()) = (Inr cs, s') \<and>
     snapshot_candidates constant_runtime (sample_importer (md_root [])) sample_repository ''c'' NestedSkill cs = Some candidates \<and>
     map ci_skillPath candidates = [''SKILL.md''] \<and> list_all consistent_candidate candidates"
proof -
  let ?stage = "stage_candidates constant_runtime (sample_importer (md_root [])) sample_budgets
       (\<lambda>sha k. raise_eff (Thrown ''GITHUB_RATE_LIMITED'')) [sample_entry] sample_layout (0, ())"
  have "ok (fst ?stage)" by code_simp
  then obtain cs s' where run: "?stage = (Inr cs, s')" by (cases ?stage) (auto simp: ok_iff)
  from snapshot_complete_and_closed [OF run, of sample_repository "''c''" NestedSkill]
  obtain candidates where made: "snapshot_candidates constant_runtime (sample_importer (md_root [])) sample_repository ''c'' NestedSkill cs =
      Some candidates" and paths: "map ci_skillPath candidates = map dc_skillPath (ly_declarations sample_layout)"
    and each: "list_all consistent_candidate candidates" by blast
  have "map ci_skillPath candidates = [''SKILL.md'']" unfolding paths by (simp add: sample_layout_def)
  with run made each show ?thesis by (intro exI [of _ cs] exI [of _ candidates] exI [of _ s'] conjI)
qed

text \<open>A blob reader over the count of fetched bytes.\<close>

lemma repository_read_bound_witness:
  "snd (run_staging (stage_candidates constant_runtime (sample_importer (md_root [])) sample_budgets
      (\<lambda>sha k w. (Inr ''x'', w + k)) [sample_entry] sample_layout) 5) \<le> 5 + 30"
proof -
  let ?stage = "stage_candidates constant_runtime (sample_importer (md_root [])) sample_budgets
      (\<lambda>sha k w. (Inr ''x'', w + k)) [sample_entry] sample_layout"
  have "snd (run_staging ?stage 5) \<le> 5 + maximumRepositoryBytes sample_budgets"
    by (rule repository_read_bound [where fetched = "\<lambda>w. w"
        and readBlob = "\<lambda>sha k w. (Inr ''x'', w + k)" and r = "fst (run_staging ?stage 5)"]) simp_all
  then show ?thesis by (simp add: sample_budgets_def)
qed

end
