(* ===== verification/Observability.thy ===== *)
theory Observability
  imports Canonical_JSON Js_Text Service_Errors
begin

text \<open>
  The security log: the event object with its field filters (\<open>src/observability/audit-events.ts\<close>), the
  redaction of its strings (\<open>src/observability/redaction.ts\<close>) and the emitted line
  (\<open>src/observability/logger.ts\<close>; pino, which writes it, is not modelled). The regular expressions
  are written out as scanners over the string.
\<close>

subsection \<open>Events\<close>

datatype SecurityEventName =
  authentication_failed | request_rejected | request_rate_limited | tool_failed
| github_discovery_completed | github_sync_completed | github_ingestion_rejected | github_lease_lost
| service_started | service_stopped

fun event_name :: "SecurityEventName \<Rightarrow> string" where
  "event_name authentication_failed = ''authentication_failed''"
| "event_name request_rejected = ''request_rejected''"
| "event_name request_rate_limited = ''request_rate_limited''"
| "event_name tool_failed = ''tool_failed''"
| "event_name github_discovery_completed = ''github_discovery_completed''"
| "event_name github_sync_completed = ''github_sync_completed''"
| "event_name github_ingestion_rejected = ''github_ingestion_rejected''"
| "event_name github_lease_lost = ''github_lease_lost''"
| "event_name service_started = ''service_started''"
| "event_name service_stopped = ''service_stopped''"

fun code_name :: "SkillWireErrorCode \<Rightarrow> string" where
  "code_name UNAUTHENTICATED = ''UNAUTHENTICATED''"
| "code_name INVALID_ARGUMENT = ''INVALID_ARGUMENT''"
| "code_name NOT_FOUND = ''NOT_FOUND''"
| "code_name REVISION_UNAVAILABLE = ''REVISION_UNAVAILABLE''"
| "code_name RESOURCE_REJECTED = ''RESOURCE_REJECTED''"
| "code_name MEMORY_CONFLICT = ''MEMORY_CONFLICT''"
| "code_name ERASURE_INCOMPLETE = ''ERASURE_INCOMPLETE''"
| "code_name RATE_LIMITED = ''RATE_LIMITED''"
| "code_name INTERNAL = ''INTERNAL''"

record SecurityEventFields =
  ef_requestId :: "string option"
  ef_accountId :: "string option"
  ef_apiKeyId :: "string option"
  ef_code :: "SkillWireErrorCode option"
  ef_tool :: "string option"
  ef_status :: "int option"
  ef_sourceId :: "string option"
  ef_runId :: "string option"
  ef_candidateId :: "string option"
  ef_state :: "string option"
  ef_reasonCode :: "string option"
  ef_fencingToken :: "int option"
  ef_count :: "int option"

definition no_fields :: SecurityEventFields where
  "no_fields = \<lparr>ef_requestId = None, ef_accountId = None, ef_apiKeyId = None, ef_code = None, ef_tool = None,
     ef_status = None, ef_sourceId = None, ef_runId = None, ef_candidateId = None, ef_state = None,
     ef_reasonCode = None, ef_fencingToken = None, ef_count = None\<rparr>"

definition SAFE_TOOL_NAMES :: "string list" where
  "SAFE_TOOL_NAMES = [''search_skills'', ''load_skill'', ''read_skill_resource'', ''list_repo_memory'',
     ''record_skill_outcome'', ''forget_repo_memory'']"

definition SAFE_INGESTION_STATES :: "string list" where
  "SAFE_INGESTION_STATES = [''queued'', ''running'', ''succeeded'', ''published'', ''quarantined'', ''failed'',
     ''cancelled'', ''superseded'', ''verified'', ''curated'']"

text \<open>\<open>/^[A-Z][A-Z0-9_]{0,79}$/\<close> and \<open>/^[0-9a-f]{8}-[0-9a-f-]{27,35}$/i\<close>.\<close>

definition safe_reason_code :: "string \<Rightarrow> bool" where
  "safe_reason_code s \<longleftrightarrow> (case s of [] \<Rightarrow> False
     | c # rest \<Rightarrow> upper_char c \<and> length rest \<le> 79 \<and>
         list_all (\<lambda>d. upper_char d \<or> digit_char d \<or> d = CHR ''_'') rest)"

definition opaque_id :: "string \<Rightarrow> bool" where
  "opaque_id s \<longleftrightarrow>
     (let t = lower s; rest = drop 9 t
      in 36 \<le> length t \<and> length t \<le> 44 \<and> list_all hex_char (take 8 t) \<and> t ! 8 = CHR ''-'' \<and>
         list_all (\<lambda>c. hex_char c \<or> c = CHR ''-'') rest)"

definition field :: "string \<Rightarrow> ('a \<Rightarrow> bool) \<Rightarrow> ('a \<Rightarrow> json) \<Rightarrow> 'a option \<Rightarrow> (string \<times> json) list" where
  "field key accepted to_json v = (case v of None \<Rightarrow> [] | Some x \<Rightarrow> if accepted x then [(key, to_json x)] else [])"

definition safe_integer :: "int \<Rightarrow> bool" where
  "safe_integer n \<longleftrightarrow> \<bar>n\<bar> \<le> MAX_SAFE_INTEGER"

definition securityEvent :: "SecurityEventName \<Rightarrow> SecurityEventFields \<Rightarrow> json" where
  "securityEvent event fs = JObj
     ([(''event'', JStr (event_name event))] @
      field ''requestId'' (\<lambda>_. True) JStr (ef_requestId fs) @
      field ''accountId'' (\<lambda>_. True) JStr (ef_accountId fs) @
      field ''apiKeyId'' (\<lambda>_. True) JStr (ef_apiKeyId fs) @
      field ''code'' (\<lambda>_. True) (\<lambda>c. JStr (code_name c)) (ef_code fs) @
      field ''tool'' (\<lambda>t. t \<in> set SAFE_TOOL_NAMES) JStr (ef_tool fs) @
      field ''status'' (\<lambda>_. True) JNum (ef_status fs) @
      field ''sourceId'' opaque_id JStr (ef_sourceId fs) @
      field ''runId'' opaque_id JStr (ef_runId fs) @
      field ''candidateId'' opaque_id JStr (ef_candidateId fs) @
      field ''state'' (\<lambda>s. s \<in> set SAFE_INGESTION_STATES) JStr (ef_state fs) @
      field ''reasonCode'' safe_reason_code JStr (ef_reasonCode fs) @
      field ''fencingToken'' safe_integer JNum (ef_fencingToken fs) @
      field ''count'' (\<lambda>n. safe_integer n \<and> 0 \<le> n) JNum (ef_count fs))"

subsection \<open>Redaction\<close>

definition FORBIDDEN_WORDS :: "string list" where
  "FORBIDDEN_WORDS =
     [''authorization'', ''credential'', ''token'', ''secret'', ''digest'', ''pepper'', ''repository'', ''owner'',
      ''query'', ''task'', ''content'', ''body'', ''path'', ''sql'', ''instruction'', ''resource'', ''commit'', ''blob'',
      ''manifest'', ''frontmatter'', ''license'', ''attribution'', ''url'', ''header'']"

text \<open>\<open>source(?!Id)\<close> matches \<open>source\<close> unless \<open>id\<close> follows, in any case.\<close>

definition forbidden_key :: "string \<Rightarrow> bool" where
  "forbidden_key key \<longleftrightarrow>
     (let k = lower key
      in list_ex (\<lambda>w. has_sub w k) FORBIDDEN_WORDS \<or>
         anywhere (\<lambda>_ s. starts_with ''source'' s \<and> \<not> starts_with ''sourceid'' s) None k)"

text \<open>\<open>/\bbearer\s+\S+/i\<close>\<close>

definition bearer_value :: "string \<Rightarrow> bool" where
  "bearer_value s \<longleftrightarrow>
     anywhere (\<lambda>before t. starts_with ''bearer'' (lower t) \<and> word_boundary before t \<and>
       0 < space_at (drop 6 t) \<and> skip_spaces (drop 6 t) \<noteq> []) None s"

text \<open>\<open>/\bskillwire_[A-Za-z0-9_-]+\b/\<close>: after the prefix some run of the class ends at a word boundary.\<close>

definition token_char :: "char \<Rightarrow> bool" where
  "token_char c \<longleftrightarrow> alnum_char c \<or> c = CHR ''_'' \<or> c = CHR ''-''"

definition api_key_value :: "string \<Rightarrow> bool" where
  "api_key_value s \<longleftrightarrow>
     anywhere (\<lambda>before t. starts_with ''skillwire_'' t \<and> word_boundary before t \<and>
       (let rest = drop 10 t; run = length (takeWhile token_char rest)
        in list_ex (\<lambda>n. word_boundary (Some (rest ! (n - 1))) (drop n rest)) [1..<Suc run])) None s"

text \<open>\<open>/\b[0-9a-f]{64}\b/\<close>\<close>

definition repository_hash_value :: "string \<Rightarrow> bool" where
  "repository_hash_value s \<longleftrightarrow>
     anywhere (\<lambda>before t. hex_string 64 (take 64 t) \<and> word_boundary before t \<and>
       word_boundary (Some (t ! 63)) (drop 64 t)) None s"

text \<open>\<open>/(?:^|\s)(?:\/home\/|\/Users\/|[A-Za-z]:\\)/\<close>\<close>

definition local_path_here :: "string \<Rightarrow> bool" where
  "local_path_here t \<longleftrightarrow> starts_with ''/home/'' t \<or> starts_with ''/Users/'' t \<or>
     (case t of c # d # e # _ \<Rightarrow> (lower_char c \<or> upper_char c) \<and> d = CHR '':'' \<and> e = CHR 0x5C | _ \<Rightarrow> False)"

definition local_path_value :: "string \<Rightarrow> bool" where
  "local_path_value s \<longleftrightarrow> local_path_here s \<or>
     anywhere (\<lambda>_ t. 0 < space_at t \<and> local_path_here (drop (space_at t) t)) None s"

definition REDACTED :: string where
  "REDACTED = ''[REDACTED]''"

definition redactString :: "string \<Rightarrow> string" where
  "redactString s = (if bearer_value s \<or> api_key_value s \<or> repository_hash_value s \<or> local_path_value s
     then REDACTED else s)"

fun redactSensitive :: "string \<Rightarrow> json \<Rightarrow> json" where
  "redactSensitive key (JStr s) = JStr (if forbidden_key key then REDACTED else redactString s)"
| "redactSensitive key (JArr vs) =
     (if forbidden_key key then JStr REDACTED else JArr (map (redactSensitive []) vs))"
| "redactSensitive key (JObj es) =
     (if forbidden_key key then JStr REDACTED else JObj (map (\<lambda>(k, v). (k, redactSensitive k v)) es))"
| "redactSensitive key v = (if forbidden_key key then JStr REDACTED else v)"

text \<open>What \<open>emit\<close> hands to the writer.\<close>

definition emitted :: "SecurityEventName \<Rightarrow> SecurityEventFields \<Rightarrow> json" where
  "emitted event fs = redactSensitive [] (securityEvent event fs)"

subsection \<open>What redaction guarantees\<close>

definition sensitive :: "string \<Rightarrow> bool" where
  "sensitive s \<longleftrightarrow> bearer_value s \<or> api_key_value s \<or> repository_hash_value s \<or> local_path_value s"

text \<open>No string matches a pattern, and what stands under a forbidden key is the marker.\<close>

fun clean :: "json \<Rightarrow> bool" where
  "clean (JStr s) = (\<not> sensitive s)"
| "clean (JArr vs) = list_all clean vs"
| "clean (JObj es) = list_all (\<lambda>(k, v). clean v \<and> (\<not> forbidden_key k \<or> v = JStr REDACTED)) es"
| "clean v = True"

lemma redactString_simps: "redactString s = (if sensitive s then REDACTED else s)"
  by (simp add: redactString_def sensitive_def)

text \<open>What a matching string must contain.\<close>

lemma bearer_value_needs: "bearer_value s \<Longrightarrow> has_space s"
proof -
  assume "bearer_value s"
  then obtain u v where s: "s = u @ v" and sp: "0 < space_at (drop 6 v)"
    unfolding bearer_value_def by (auto dest!: anywhere_split)
  have "s = (u @ take 6 v) @ drop 6 v" by (simp add: s)
  then show ?thesis using sp has_space_suffix by metis
qed

lemma starts_with_mem: "starts_with p s \<Longrightarrow> set p \<subseteq> set s"
  unfolding starts_with_def by (metis set_take_subset)

lemma api_key_value_needs: "api_key_value s \<Longrightarrow> CHR ''_'' \<in> set s"
proof -
  assume "api_key_value s"
  then obtain u v where s: "s = u @ v" and v: "starts_with ''skillwire_'' v"
    unfolding api_key_value_def by (auto dest!: anywhere_split)
  from starts_with_mem [OF v] s show ?thesis by simp
qed

lemma repository_hash_value_needs:
  "repository_hash_value s \<Longrightarrow> \<exists>u h v. s = u @ h @ v \<and> hex_string 64 h"
proof -
  assume "repository_hash_value s"
  then obtain u v where s: "s = u @ v" and v: "hex_string 64 (take 64 v)"
    unfolding repository_hash_value_def by (auto dest!: anywhere_split)
  then have "s = u @ take 64 v @ drop 64 v \<and> hex_string 64 (take 64 v)" by simp
  then show ?thesis by blast
qed

lemma local_path_here_needs: "local_path_here t \<Longrightarrow> CHR ''/'' \<in> set t \<or> CHR '':'' \<in> set t"
  using starts_with_mem [of "''/home/''" t] starts_with_mem [of "''/Users/''" t]
  by (auto simp: local_path_here_def split: list.splits)

lemma local_path_value_needs: "local_path_value s \<Longrightarrow> CHR ''/'' \<in> set s \<or> CHR '':'' \<in> set s"
proof -
  assume a: "local_path_value s"
  have sub: "CHR ''/'' \<in> set s \<or> CHR '':'' \<in> set s" if "local_path_here (drop n v)" "s = u @ v" for u v n
    using local_path_here_needs [OF that(1)] set_drop_subset [of n v] that(2) by auto
  from a consider "local_path_here s" | u v where "s = u @ v" "local_path_here (drop (space_at v) v)"
    unfolding local_path_value_def by (auto dest!: anywhere_split)
  then show ?thesis using sub [of 0 s "[]"] sub by cases auto
qed

lemma not_sensitive:
  assumes "\<not> has_space s" and "CHR ''_'' \<notin> set s" and "CHR ''/'' \<notin> set s" and "CHR '':'' \<notin> set s"
    and "\<And>u h v. s = u @ h @ v \<Longrightarrow> \<not> hex_string 64 h"
  shows "\<not> sensitive s"
  using assms bearer_value_needs api_key_value_needs repository_hash_value_needs local_path_value_needs
  unfolding sensitive_def by blast

lemma REDACTED_not_sensitive [simp]: "\<not> sensitive REDACTED"
proof (rule not_sensitive)
  show "\<not> hex_string 64 h" if "REDACTED = u @ h @ v" for u h v
  proof -
    have "length REDACTED = length u + length h + length v" unfolding that by simp
    then show ?thesis by (auto simp: hex_string_def REDACTED_def)
  qed
  show "\<not> has_space REDACTED"
    by (rule no_space_plain) (simp add: REDACTED_def plain_char_def ascii_space_def code_of_def)
qed (simp_all add: REDACTED_def)

lemma forbidden_key_Nil [simp]: "\<not> forbidden_key []"
  by (simp add: forbidden_key_def FORBIDDEN_WORDS_def lower_def starts_with_def)

lemma redactSensitive_forbidden: "forbidden_key key \<Longrightarrow> redactSensitive key v = JStr REDACTED"
  by (cases "(key, v)" rule: redactSensitive.cases) simp_all

lemma redactSensitive_allowed: "\<not> forbidden_key key \<Longrightarrow> redactSensitive key v = redactSensitive [] v"
  by (cases "(key, v)" rule: redactSensitive.cases) simp_all

lemma clean_redactSensitive: "clean (redactSensitive key v)"
proof (induction key v rule: redactSensitive.induct)
  case (3 key es)
  have "clean (redactSensitive k v) \<and> (\<not> forbidden_key k \<or> redactSensitive k v = JStr REDACTED)"
    if "(k, v) \<in> set es" "\<not> forbidden_key key" for k v
    using 3 that redactSensitive_forbidden by blast
  then show ?case by (auto simp: list_all_iff)
qed (auto simp: redactString_simps list_all_iff)

lemma redactSensitive_clean: "clean v \<Longrightarrow> \<not> forbidden_key key \<Longrightarrow> redactSensitive key v = v"
proof (induction key v rule: redactSensitive.induct)
  case (2 key vs)
  then show ?case by (simp add: list_all_iff map_idI)
next
  case (3 key es)
  have "(\<lambda>(k, v). (k, redactSensitive k v)) e = e" if "e \<in> set es" for e
  proof -
    obtain k v where e: "e = (k, v)" by (cases e)
    with 3(2) that have v: "clean v" "\<not> forbidden_key k \<or> v = JStr REDACTED" by (auto simp: list_all_iff)
    show ?thesis
    proof (cases "forbidden_key k")
      case True
      with v e show ?thesis by (simp add: redactSensitive_forbidden)
    next
      case False
      with 3(1) 3(3) that e v show ?thesis by fastforce
    qed
  qed
  then have "map (\<lambda>(k, v). (k, redactSensitive k v)) es = es" by (rule map_idI)
  with 3(3) show ?case by simp
qed (auto simp: redactString_simps)


lemma event_key_allowed: "\<not> forbidden_key ''event''"
proof -
  have "lower ''event'' = ''event''" by code_simp
  then show ?thesis unfolding forbidden_key_def Let_def FORBIDDEN_WORDS_def by (simp add: starts_with_def)
qed

text \<open>The key of a fencing token contains the word token, so its number never reaches the log.\<close>

lemma fencing_token_always_redacted:
  "emitted github_lease_lost (no_fields\<lparr>ef_fencingToken := Some n\<rparr>) =
     emitted github_lease_lost (no_fields\<lparr>ef_fencingToken := Some 0\<rparr>) \<or> \<not> safe_integer n"
proof -
  have "lower ''fencingToken'' = ''fencingtoken''" by code_simp
  then have "forbidden_key ''fencingToken''"
    by (simp add: forbidden_key_def FORBIDDEN_WORDS_def starts_with_def)
  then show ?thesis
    by (auto simp: emitted_def securityEvent_def no_fields_def field_def safe_integer_def MAX_SAFE_INTEGER_def)
qed

end
