(* ===== verification/Rate_Limit.thy ===== *)
theory Rate_Limit
  imports Doubles
begin

text \<open>
  The token buckets of \<open>src/authentication/middleware.ts\<close>: one bucket in front of the authentication
  of well-formed tokens, and one bucket per account and one per API key behind it. Token counts are
  doubles (theory \<open>Doubles\<close>), the clock is \<open>Date.now()\<close> in whole milliseconds and an argument of every
  call. A \<open>Map\<close> of buckets is an association list in insertion order.
\<close>

subsection \<open>Policies and decisions\<close>

record RateLimitPolicy =
  rl_accountRequestsPerMinute :: rat
  rl_apiKeyRequestsPerMinute :: rat
  rl_burst :: rat
  rl_authenticationRequestsPerMinute :: "rat option"
  rl_authenticationBurst :: "rat option"

record TokenBucket =
  tb_tokens :: rat
  tb_updatedAt :: int

record RateLimitDecision =
  rd_allowed :: bool
  rd_retryAfterSeconds :: int

definition is_integer :: "rat \<Rightarrow> bool" where
  "is_integer x \<longleftrightarrow> of_int \<lfloor>x\<rfloor> = x"

abbreviation allow :: RateLimitDecision where
  "allow \<equiv> \<lparr>rd_allowed = True, rd_retryAfterSeconds = 0\<rparr>"

text \<open>The refill both limiters write out.\<close>

definition refilled :: "rat \<Rightarrow> rat \<Rightarrow> int \<Rightarrow> TokenBucket \<Rightarrow> TokenBucket" where
  "refilled burst requestsPerMinute now bucket =
     (let elapsed = max 0 (now - tb_updatedAt bucket)
      in \<lparr>tb_tokens = min burst (fl (tb_tokens bucket + fl (fl (of_int elapsed * requestsPerMinute) / 60000))),
          tb_updatedAt = now\<rparr>)"

definition spend :: "TokenBucket \<Rightarrow> TokenBucket" where
  "spend bucket = bucket\<lparr>tb_tokens := fl (tb_tokens bucket - 1)\<rparr>"

subsection \<open>The authentication limiter\<close>

record AuthenticationRateLimiter =
  al_requestsPerMinute :: rat
  al_burst :: rat
  al_bucket :: TokenBucket

definition authentication_limiter :: "RateLimitPolicy \<Rightarrow> int \<Rightarrow> AuthenticationRateLimiter res" where
  "authentication_limiter policy now =
     (let requestsPerMinute = (case rl_authenticationRequestsPerMinute policy of
            None \<Rightarrow> rl_apiKeyRequestsPerMinute policy | Some r \<Rightarrow> r);
          burst = (case rl_authenticationBurst policy of None \<Rightarrow> rl_burst policy | Some b \<Rightarrow> b)
      in if \<not> is_integer requestsPerMinute \<or> \<not> is_integer burst \<or> requestsPerMinute < 1 \<or> burst < 1
         then Inl (Error ''Authentication rate-limit policy is invalid'')
         else Inr \<lparr>al_requestsPerMinute = requestsPerMinute, al_burst = burst,
                   al_bucket = \<lparr>tb_tokens = burst, tb_updatedAt = now\<rparr>\<rparr>)"

definition consume_authentication ::
  "int \<Rightarrow> AuthenticationRateLimiter \<Rightarrow> RateLimitDecision \<times> AuthenticationRateLimiter" where
  "consume_authentication now l =
     (let bucket = refilled (al_burst l) (al_requestsPerMinute l) now (al_bucket l)
      in if 1 \<le> tb_tokens bucket then (allow, l\<lparr>al_bucket := spend bucket\<rparr>)
         else (\<lparr>rd_allowed = False,
                rd_retryAfterSeconds =
                  max 1 \<lceil>fl (fl (fl (1 - tb_tokens bucket) * 60) / al_requestsPerMinute l)\<rceil>\<rparr>,
               l\<lparr>al_bucket := bucket\<rparr>))"

subsection \<open>The limiter per account and API key\<close>

record AccountApiKeyRateLimiter =
  ak_policy :: RateLimitPolicy
  ak_accounts :: "(string \<times> TokenBucket) list"
  ak_apiKeys :: "(string \<times> TokenBucket) list"

definition account_limiter :: "RateLimitPolicy \<Rightarrow> AccountApiKeyRateLimiter res" where
  "account_limiter policy =
     (if \<not> is_integer (rl_accountRequestsPerMinute policy) \<or> \<not> is_integer (rl_apiKeyRequestsPerMinute policy) \<or>
         \<not> is_integer (rl_burst policy) \<or> rl_accountRequestsPerMinute policy < 1 \<or>
         rl_apiKeyRequestsPerMinute policy < 1 \<or> rl_burst policy < 1
      then Inl (Error ''Rate-limit policy is invalid'')
      else Inr \<lparr>ak_policy = policy, ak_accounts = [], ak_apiKeys = []\<rparr>)"

definition refill ::
  "RateLimitPolicy \<Rightarrow> (string \<times> TokenBucket) list \<Rightarrow> string \<Rightarrow> rat \<Rightarrow> int \<Rightarrow> TokenBucket" where
  "refill policy buckets identity requestsPerMinute now =
     refilled (rl_burst policy) requestsPerMinute now
       (case map_of buckets identity of
          None \<Rightarrow> \<lparr>tb_tokens = rl_burst policy, tb_updatedAt = now\<rparr>
        | Some bucket \<Rightarrow> bucket)"

definition consume_request ::
  "int \<Rightarrow> string \<Rightarrow> string \<Rightarrow> AccountApiKeyRateLimiter \<Rightarrow> RateLimitDecision \<times> AccountApiKeyRateLimiter" where
  "consume_request now accountId apiKeyId l =
     (let policy = ak_policy l;
          account = refill policy (ak_accounts l) accountId (rl_accountRequestsPerMinute policy) now;
          apiKey = refill policy (ak_apiKeys l) apiKeyId (rl_apiKeyRequestsPerMinute policy) now;
          store = (\<lambda>a k. l\<lparr>ak_accounts := AList.update accountId a (ak_accounts l),
                           ak_apiKeys := AList.update apiKeyId k (ak_apiKeys l)\<rparr>)
      in if 1 \<le> tb_tokens account \<and> 1 \<le> tb_tokens apiKey
         then (allow, store (spend account) (spend apiKey))
         else let accountWait = (if 1 \<le> tb_tokens account then 0
                    else fl (fl (fl (1 - tb_tokens account) * 60000) / rl_accountRequestsPerMinute policy));
                  apiKeyWait = (if 1 \<le> tb_tokens apiKey then 0
                    else fl (fl (fl (1 - tb_tokens apiKey) * 60000) / rl_apiKeyRequestsPerMinute policy))
              in (\<lparr>rd_allowed = False,
                   rd_retryAfterSeconds = max 1 \<lceil>fl (max accountWait apiKeyWait / 1000)\<rceil>\<rparr>,
                  store account apiKey))"

subsection \<open>Buckets stay within their burst\<close>

text \<open>A burst is a double that is a positive integer.\<close>

definition burst_ok :: "rat \<Rightarrow> bool" where
  "burst_ok b \<longleftrightarrow> 1 \<le> b \<and> fl b = b"

definition bucket_ok :: "rat \<Rightarrow> TokenBucket \<Rightarrow> bool" where
  "bucket_ok burst bucket \<longleftrightarrow> 0 \<le> tb_tokens bucket \<and> tb_tokens bucket \<le> burst"

text \<open>What rounding may add to a bucket in one request.\<close>

definition rounding_slack :: "rat \<Rightarrow> rat" where
  "rounding_slack burst = 12 * burst * unit_roundoff"

lemma refilled_at [simp]: "tb_updatedAt (refilled burst rpm now bucket) = now"
  by (simp add: refilled_def)

lemma spend_at [simp]: "tb_updatedAt (spend bucket) = tb_updatedAt bucket"
  by (simp add: spend_def)

lemma full_bucket_ok: "burst_ok burst \<Longrightarrow> bucket_ok burst \<lparr>tb_tokens = burst, tb_updatedAt = now\<rparr>"
  by (simp add: bucket_ok_def burst_ok_def)

lemma refilled_ok:
  assumes "bucket_ok burst bucket" and "burst_ok burst" and "1 \<le> rpm"
  shows "bucket_ok burst (refilled burst rpm now bucket)"
  using assms by (simp add: bucket_ok_def burst_ok_def refilled_def Let_def)

lemma spend_ok:
  assumes "bucket_ok burst bucket" and "burst_ok burst" and "1 \<le> tb_tokens bucket"
  shows "bucket_ok burst (spend bucket)"
proof -
  have "fl (tb_tokens bucket - 1) \<le> fl burst"
    by (rule fl_mono) (use assms in \<open>auto simp: bucket_ok_def\<close>)
  then show ?thesis using assms by (simp add: bucket_ok_def burst_ok_def spend_def)
qed

lemma refilled_gain:
  assumes ok: "bucket_ok burst bucket" "burst_ok burst" and rpm: "1 \<le> rpm" and later: "tb_updatedAt bucket \<le> now"
  shows "tb_tokens (refilled burst rpm now bucket) \<le>
    tb_tokens bucket + of_int (now - tb_updatedAt bucket) * (rpm / 60000) + 10 * burst * unit_roundoff"
proof -
  define t where "t = tb_tokens bucket"
  define x where "x = of_int (now - tb_updatedAt bucket) * rpm"
  define q where "q = x / 60000"
  define tau :: rat where "tau = 1 / 2 ^ 1075"
  have t: "0 \<le> t" "t \<le> burst" "1 \<le> burst"
    using ok by (simp_all add: t_def bucket_ok_def burst_ok_def)
  have x: "0 \<le> x" using rpm later by (simp add: x_def)
  have q0: "0 \<le> q" using x by (simp add: q_def)
  have tau: "0 \<le> tau" "tau \<le> unit_roundoff" by (simp_all add: tau_def unit_roundoff_def)
  have new: "tb_tokens (refilled burst rpm now bucket) = min burst (fl (t + fl (fl x / 60000)))"
    using later by (simp add: refilled_def t_def x_def)
  have goal: "min burst (fl (t + fl (fl x / 60000))) \<le> t + q + 10 * burst * unit_roundoff"
  proof (cases "burst \<le> q")
    case True
    moreover have "0 \<le> burst * unit_roundoff" using t by (simp add: unit_roundoff_def)
    ultimately show ?thesis using t by (simp add: min_def)
  next
    case False
    define A where "A = burst * unit_roundoff"
    have u: "0 \<le> unit_roundoff" "8 * unit_roundoff \<le> 1" by (simp_all add: unit_roundoff_def)
    have unit: "c \<le> n * burst \<Longrightarrow> c * unit_roundoff \<le> n * A" for c n
      unfolding A_def using mult_right_mono [OF _ u(1), of c "n * burst"] by (simp add: mult.assoc)
    have A: "0 \<le> A" "unit_roundoff \<le> A" "8 * A \<le> burst"
      using t u mult_left_mono [OF u(2), of burst] unit [of 1 1] by (simp_all add: A_def)
    have tauA: "tau \<le> A" using tau A by linarith
    have e1: "fl x \<le> x + x * unit_roundoff + tau" unfolding tau_def by (rule fl_error [OF x])
    define y where "y = fl x / 60000"
    have y: "0 \<le> y" "y \<le> q + q * unit_roundoff + tau"
      using e1 x tau by (simp_all add: y_def q_def field_simps)
    have "q * unit_roundoff \<le> A" using unit [of q 1] False by simp
    then have y2: "y \<le> q + 2 * A" using y tauA by linarith
    have e2: "fl y \<le> y + y * unit_roundoff + tau" unfolding tau_def by (rule fl_error [OF y(1)])
    have "y * unit_roundoff \<le> 2 * A" using unit [of y 2] y2 False A by linarith
    then have y3: "fl y \<le> q + 5 * A" using e2 y2 tauA by linarith
    have e3: "fl (t + fl y) \<le> (t + fl y) + (t + fl y) * unit_roundoff + tau"
      unfolding tau_def by (rule fl_error) (use t y(1) in simp)
    have "(t + fl y) * unit_roundoff \<le> 3 * A" using unit [of "t + fl y" 3] y3 False t A by linarith
    then have "fl (t + fl y) \<le> t + q + 10 * burst * unit_roundoff"
      using e3 y3 A tauA unfolding A_def by linarith
    then show ?thesis by (simp add: y_def min_def)
  qed
  then show ?thesis unfolding new by (simp add: t_def q_def x_def)
qed

lemma spend_gain:
  assumes "bucket_ok burst bucket" and "burst_ok burst" and "1 \<le> tb_tokens bucket"
  shows "tb_tokens (spend bucket) + 1 \<le> tb_tokens bucket + 2 * burst * unit_roundoff"
proof -
  define tau :: rat where "tau = 1 / 2 ^ 1075"
  have "fl (tb_tokens bucket - 1) \<le>
      tb_tokens bucket - 1 + (tb_tokens bucket - 1) * unit_roundoff + tau"
    unfolding tau_def by (rule fl_error) (use assms in simp)
  moreover have "tau \<le> unit_roundoff" by (simp add: tau_def unit_roundoff_def)
  moreover have "(tb_tokens bucket - 1) * unit_roundoff \<le> burst * unit_roundoff"
    using assms by (intro mult_right_mono) (simp_all add: bucket_ok_def unit_roundoff_def)
  moreover have "1 * unit_roundoff \<le> burst * unit_roundoff"
    using assms(2) by (intro mult_right_mono) (simp_all add: burst_ok_def unit_roundoff_def)
  moreover have "tb_tokens (spend bucket) = fl (tb_tokens bucket - 1)" by (simp add: spend_def)
  ultimately show ?thesis by linarith
qed

text \<open>One request that meets a bucket, whether or not it may spend.\<close>

lemma bucket_step_gain:
  assumes "bucket_ok burst bucket" and "burst_ok burst" and "1 \<le> rpm" and "tb_updatedAt bucket \<le> now"
    and "spent \<Longrightarrow> 1 \<le> tb_tokens (refilled burst rpm now bucket)"
  shows "tb_tokens (if spent then spend (refilled burst rpm now bucket) else refilled burst rpm now bucket) +
      of_bool spent \<le>
    tb_tokens bucket + of_int (now - tb_updatedAt bucket) * (rpm / 60000) + rounding_slack burst"
proof -
  have slack: "0 \<le> 2 * burst * unit_roundoff"
    using assms(2) by (simp add: burst_ok_def unit_roundoff_def)
  from refilled_gain [OF assms(1-4)] have gain: "tb_tokens (refilled burst rpm now bucket) \<le>
    tb_tokens bucket + of_int (now - tb_updatedAt bucket) * (rpm / 60000) + 10 * burst * unit_roundoff" .
  show ?thesis
  proof (cases spent)
    case True
    with spend_gain [OF refilled_ok [OF assms(1-3)] assms(2) assms(5)] gain
    show ?thesis by (simp add: rounding_slack_def)
  next
    case False
    with gain slack show ?thesis unfolding rounding_slack_def by (simp only: if_False of_bool_eq)
  qed
qed

subsection \<open>Metered clients\<close>

text \<open>
  A limiter seen from one client: \<open>level\<close> is the client's bucket, \<open>seen\<close> the time of its last request,
  if it has one. A request of the client refills by the rate and pays one token when it is allowed;
  requests of others leave the bucket alone. The number of allowed requests is then bounded by the
  burst and the time that passed.
\<close>

locale metered =
  fixes step :: "'r \<Rightarrow> 's \<Rightarrow> bool \<times> 's" and mine :: "'r \<Rightarrow> bool" and at_time :: "'r \<Rightarrow> int"
    and level :: "'s \<Rightarrow> rat" and seen :: "'s \<Rightarrow> int option" and wf :: "'s \<Rightarrow> bool"
    and rate :: "'s \<Rightarrow> rat" and slack :: "'s \<Rightarrow> rat"
  assumes keeps: "wf s \<Longrightarrow> wf (snd (step r s))"
    and level_nonneg: "wf s \<Longrightarrow> 0 \<le> level s"
    and rate_nonneg: "wf s \<Longrightarrow> 0 \<le> rate s"
    and fixed: "wf s \<Longrightarrow> rate (snd (step r s)) = rate s \<and> slack (snd (step r s)) = slack s"
    and spends: "wf s \<Longrightarrow> mine r \<Longrightarrow> case_option (at_time r) id (seen s) \<le> at_time r \<Longrightarrow>
      level (snd (step r s)) + of_bool (fst (step r s)) \<le>
        level s + of_int (at_time r - case_option (at_time r) id (seen s)) * rate s + slack s \<and>
      seen (snd (step r s)) = Some (at_time r)"
    and others: "wf s \<Longrightarrow> \<not> mine r \<Longrightarrow> level (snd (step r s)) = level s \<and> seen (snd (step r s)) = seen s"
begin

fun allowed_of :: "'r list \<Rightarrow> 's \<Rightarrow> nat" where
  "allowed_of [] s = 0"
| "allowed_of (r # rs) s = of_bool (mine r \<and> fst (step r s)) + allowed_of rs (snd (step r s))"

lemma allowed_bound:
  assumes "wf s" and "sorted (map at_time rs)"
    and "\<And>r. r \<in> set rs \<Longrightarrow> start \<le> at_time r \<and> at_time r \<le> stop"
    and "start \<le> stop" and "start \<le> case_option start id (seen s)"
    and "\<And>r. r \<in> set rs \<Longrightarrow> case_option start id (seen s) \<le> at_time r"
    and "case_option start id (seen s) \<le> stop"
  shows "of_nat (allowed_of rs s) \<le>
    level s + of_int (stop - case_option start id (seen s)) * rate s +
      of_nat (length (filter mine rs)) * slack s"
  using assms
proof (induction rs arbitrary: s)
  case Nil
  then show ?case using level_nonneg [of s] rate_nonneg [of s] by simp
next
  case (Cons r rs)
  define s' where "s' = snd (step r s)"
  have wf': "wf s'" using keeps Cons.prems(1) by (simp add: s'_def)
  have fix': "rate s' = rate s" "slack s' = slack s" using fixed Cons.prems(1) by (simp_all add: s'_def)
  have rate0: "0 \<le> rate s" using rate_nonneg Cons.prems(1) .
  have sorted: "sorted (map at_time rs)" "\<And>r'. r' \<in> set rs \<Longrightarrow> at_time r \<le> at_time r'"
    using Cons.prems(2) by auto
  show ?case
  proof (cases "mine r")
    case False
    have "level s' = level s \<and> seen s' = seen s" using others [OF Cons.prems(1) False] by (simp add: s'_def)
    with Cons.IH [of s'] wf' sorted Cons.prems False fix' show ?thesis by (simp add: s'_def)
  next
    case True
    let ?last = "case_option (at_time r) id (seen s)"
    have before: "?last \<le> at_time r" using Cons.prems(6) [of r] by (cases "seen s") auto
    have earlier: "case_option start id (seen s) \<le> ?last"
      using Cons.prems(3) [of r] by (cases "seen s") auto
    from spends [OF Cons.prems(1) True before]
    have gain: "level s' + of_bool (fst (step r s)) \<le> level s + of_int (at_time r - ?last) * rate s + slack s"
      and seen': "seen s' = Some (at_time r)" by (simp_all add: s'_def)
    have IH: "of_nat (allowed_of rs s') \<le>
        level s' + of_int (stop - at_time r) * rate s + of_nat (length (filter mine rs)) * slack s"
      using Cons.IH [of s'] wf' sorted Cons.prems(3,4) seen' fix' by simp
    have "of_int (at_time r - ?last) * rate s + of_int (stop - at_time r) * rate s =
        of_int (stop - ?last) * rate s"
      by (simp add: algebra_simps)
    moreover have "of_int (stop - ?last) * rate s \<le> of_int (stop - case_option start id (seen s)) * rate s"
      using earlier rate0 by (intro mult_right_mono) simp_all
    ultimately show ?thesis
      using gain IH True by (simp add: s'_def distrib_right)
  qed
qed

end

subsection \<open>The authentication limiter is metered\<close>

definition authentication_ok :: "AuthenticationRateLimiter \<Rightarrow> bool" where
  "authentication_ok l \<longleftrightarrow>
     burst_ok (al_burst l) \<and> 1 \<le> al_requestsPerMinute l \<and> bucket_ok (al_burst l) (al_bucket l)"

lemma authentication_limiter_ok:
  assumes "authentication_limiter policy now = Inr l" and "fl (al_burst l) = al_burst l"
  shows "authentication_ok l"
  using assms by (auto simp: authentication_limiter_def authentication_ok_def burst_ok_def bucket_ok_def
      Let_def split: if_splits)

lemma consume_authentication_bucket:
  "consume_authentication now l =
     (let bucket = refilled (al_burst l) (al_requestsPerMinute l) now (al_bucket l);
          spent = (1 \<le> tb_tokens bucket)
      in (if spent then allow
          else \<lparr>rd_allowed = False, rd_retryAfterSeconds =
                  max 1 \<lceil>fl (fl (fl (1 - tb_tokens bucket) * 60) / al_requestsPerMinute l)\<rceil>\<rparr>,
          l\<lparr>al_bucket := (if spent then spend bucket else bucket)\<rparr>))"
  by (simp add: consume_authentication_def Let_def)

lemma consume_authentication_ok:
  "authentication_ok l \<Longrightarrow> authentication_ok (snd (consume_authentication now l))"
  unfolding consume_authentication_bucket Let_def authentication_ok_def
  using refilled_ok spend_ok by auto

interpretation authentication_meter: metered
  "\<lambda>now l. (rd_allowed (fst (consume_authentication now l)), snd (consume_authentication now l))"
  "\<lambda>_. True" id "\<lambda>l. tb_tokens (al_bucket l)" "\<lambda>l. Some (tb_updatedAt (al_bucket l))" authentication_ok
  "\<lambda>l. al_requestsPerMinute l / 60000" "\<lambda>l. rounding_slack (al_burst l)"
proof (unfold_locales, goal_cases)
  case (1 s r)
  then show ?case by (simp add: consume_authentication_ok)
next
  case (2 s)
  then show ?case by (simp add: authentication_ok_def bucket_ok_def)
next
  case (3 s)
  then show ?case by (simp add: authentication_ok_def)
next
  case (4 s r)
  then show ?case by (simp add: consume_authentication_bucket Let_def)
next
  case (5 s r)
  then show ?case
    using bucket_step_gain [of "al_burst s" "al_bucket s" "al_requestsPerMinute s" r
        "1 \<le> tb_tokens (refilled (al_burst s) (al_requestsPerMinute s) r (al_bucket s))"]
    by (simp add: consume_authentication_bucket Let_def authentication_ok_def split: if_splits)
next
  case (6 s r)
  then show ?case by simp
qed

subsection \<open>The request limiter is metered per account and per key\<close>

datatype request_at = Request_At (ra_time: int) (ra_accountId: string) (ra_apiKeyId: string)

definition consume_at :: "request_at \<Rightarrow> AccountApiKeyRateLimiter \<Rightarrow> bool \<times> AccountApiKeyRateLimiter" where
  "consume_at r l =
     (let q = consume_request (ra_time r) (ra_accountId r) (ra_apiKeyId r) l in (rd_allowed (fst q), snd q))"

definition buckets_ok :: "rat \<Rightarrow> (string \<times> TokenBucket) list \<Rightarrow> bool" where
  "buckets_ok burst buckets \<longleftrightarrow> (\<forall>identity bucket. map_of buckets identity = Some bucket \<longrightarrow> bucket_ok burst bucket)"

definition limiter_ok :: "AccountApiKeyRateLimiter \<Rightarrow> bool" where
  "limiter_ok l \<longleftrightarrow>
     burst_ok (rl_burst (ak_policy l)) \<and> 1 \<le> rl_accountRequestsPerMinute (ak_policy l) \<and>
     1 \<le> rl_apiKeyRequestsPerMinute (ak_policy l) \<and>
     buckets_ok (rl_burst (ak_policy l)) (ak_accounts l) \<and> buckets_ok (rl_burst (ak_policy l)) (ak_apiKeys l)"

text \<open>A client that was never seen has a full bucket.\<close>

definition bucket_level :: "rat \<Rightarrow> (string \<times> TokenBucket) list \<Rightarrow> string \<Rightarrow> rat" where
  "bucket_level burst buckets identity =
     (case map_of buckets identity of None \<Rightarrow> burst | Some bucket \<Rightarrow> tb_tokens bucket)"

definition bucket_seen :: "(string \<times> TokenBucket) list \<Rightarrow> string \<Rightarrow> int option" where
  "bucket_seen buckets identity = map_option tb_updatedAt (map_of buckets identity)"

lemma account_limiter_ok:
  assumes "account_limiter policy = Inr l" and "fl (rl_burst policy) = rl_burst policy"
  shows "limiter_ok l"
  using assms by (auto simp: account_limiter_def limiter_ok_def burst_ok_def buckets_ok_def split: if_splits)

lemma refill_bucket_ok:
  assumes "buckets_ok (rl_burst policy) buckets" and "burst_ok (rl_burst policy)" and "1 \<le> rpm"
  shows "bucket_ok (rl_burst policy) (refill policy buckets identity rpm now)"
  using assms unfolding refill_def buckets_ok_def
  by (intro refilled_ok) (auto split: option.splits intro: full_bucket_ok)

lemma refill_at [simp]: "tb_updatedAt (refill policy buckets identity rpm now) = now"
  by (simp add: refill_def)

lemma buckets_ok_update:
  "buckets_ok burst buckets \<Longrightarrow> bucket_ok burst bucket \<Longrightarrow> buckets_ok burst (AList.update identity bucket buckets)"
  by (simp add: buckets_ok_def)

lemma bucket_level_update [simp]:
  "bucket_level burst (AList.update identity bucket buckets) other =
     (if other = identity then tb_tokens bucket else bucket_level burst buckets other)"
  by (simp add: bucket_level_def)

lemma bucket_seen_update [simp]:
  "bucket_seen (AList.update identity bucket buckets) other =
     (if other = identity then Some (tb_updatedAt bucket) else bucket_seen buckets other)"
  by (simp add: bucket_seen_def)

lemma refill_step_gain:
  assumes "buckets_ok (rl_burst policy) buckets" and "burst_ok (rl_burst policy)" and "1 \<le> rpm"
    and "case_option now id (bucket_seen buckets identity) \<le> now"
    and "spent \<Longrightarrow> 1 \<le> tb_tokens (refill policy buckets identity rpm now)"
  shows "tb_tokens (if spent then spend (refill policy buckets identity rpm now)
        else refill policy buckets identity rpm now) + of_bool spent \<le>
    bucket_level (rl_burst policy) buckets identity +
      of_int (now - case_option now id (bucket_seen buckets identity)) * (rpm / 60000) +
      rounding_slack (rl_burst policy)"
proof (cases "map_of buckets identity")
  case None
  then show ?thesis
    using bucket_step_gain [OF full_bucket_ok [OF assms(2)] assms(2,3), of now now spent] assms(5)
    by (cases spent) (simp_all add: refill_def bucket_level_def bucket_seen_def)
next
  case (Some bucket)
  then have "bucket_ok (rl_burst policy) bucket" using assms(1) by (simp add: buckets_ok_def)
  from bucket_step_gain [OF this assms(2,3), of now spent] Some assms(4,5) show ?thesis
    by (cases spent) (simp_all add: refill_def bucket_level_def bucket_seen_def)
qed

definition granted :: "int \<Rightarrow> string \<Rightarrow> string \<Rightarrow> AccountApiKeyRateLimiter \<Rightarrow> bool" where
  "granted now accountId apiKeyId l \<longleftrightarrow>
     1 \<le> tb_tokens (refill (ak_policy l) (ak_accounts l) accountId (rl_accountRequestsPerMinute (ak_policy l)) now) \<and>
     1 \<le> tb_tokens (refill (ak_policy l) (ak_apiKeys l) apiKeyId (rl_apiKeyRequestsPerMinute (ak_policy l)) now)"

lemma consume_request_allowed:
  "rd_allowed (fst (consume_request now accountId apiKeyId l)) = granted now accountId apiKeyId l"
  by (simp add: consume_request_def granted_def Let_def)

lemma consume_request_state:
  "snd (consume_request now accountId apiKeyId l) =
     (let account = refill (ak_policy l) (ak_accounts l) accountId (rl_accountRequestsPerMinute (ak_policy l)) now;
          apiKey = refill (ak_policy l) (ak_apiKeys l) apiKeyId (rl_apiKeyRequestsPerMinute (ak_policy l)) now;
          paid = (\<lambda>b. if granted now accountId apiKeyId l then spend b else b)
      in l\<lparr>ak_accounts := AList.update accountId (paid account) (ak_accounts l),
           ak_apiKeys := AList.update apiKeyId (paid apiKey) (ak_apiKeys l)\<rparr>)"
  by (simp add: consume_request_def granted_def Let_def)

lemma consume_at_ok:
  assumes "limiter_ok l"
  shows "limiter_ok (snd (consume_at r l))"
proof -
  have "bucket_ok (rl_burst (ak_policy l)) (if granted (ra_time r) (ra_accountId r) (ra_apiKeyId r) l then spend b else b)"
    if "bucket_ok (rl_burst (ak_policy l)) b"
      "granted (ra_time r) (ra_accountId r) (ra_apiKeyId r) l \<Longrightarrow> 1 \<le> tb_tokens b" for b
    using that spend_ok assms by (simp add: limiter_ok_def)
  then show ?thesis
    using assms refill_bucket_ok
    unfolding limiter_ok_def consume_at_def consume_request_state Let_def granted_def
    by (simp add: buckets_ok_update)
qed

lemmas consume_at_simps =
  consume_at_def consume_request_allowed consume_request_state Let_def

interpretation account_meter: metered consume_at "\<lambda>r. ra_accountId r = a" ra_time
  "\<lambda>l. bucket_level (rl_burst (ak_policy l)) (ak_accounts l) a" "\<lambda>l. bucket_seen (ak_accounts l) a" limiter_ok
  "\<lambda>l. rl_accountRequestsPerMinute (ak_policy l) / 60000" "\<lambda>l. rounding_slack (rl_burst (ak_policy l))" for a
proof (unfold_locales, goal_cases)
  case (1 s r)
  then show ?case by (rule consume_at_ok)
next
  case (2 s)
  then show ?case
    by (auto simp: limiter_ok_def bucket_level_def buckets_ok_def bucket_ok_def burst_ok_def split: option.splits)
next
  case (3 s)
  then show ?case by (simp add: limiter_ok_def)
next
  case (4 s r)
  then show ?case by (simp add: consume_at_simps)
next
  case (5 s r)
  then show ?case
    using refill_step_gain [of "ak_policy s" "ak_accounts s" "rl_accountRequestsPerMinute (ak_policy s)"
        "ra_time r" a "granted (ra_time r) a (ra_apiKeyId r) s"]
    by (simp add: consume_at_simps limiter_ok_def granted_def split: if_splits)
next
  case (6 s r)
  then show ?case by (simp add: consume_at_simps)
qed

interpretation key_meter: metered consume_at "\<lambda>r. ra_apiKeyId r = k" ra_time
  "\<lambda>l. bucket_level (rl_burst (ak_policy l)) (ak_apiKeys l) k" "\<lambda>l. bucket_seen (ak_apiKeys l) k" limiter_ok
  "\<lambda>l. rl_apiKeyRequestsPerMinute (ak_policy l) / 60000" "\<lambda>l. rounding_slack (rl_burst (ak_policy l))" for k
proof (unfold_locales, goal_cases)
  case (1 s r)
  then show ?case by (rule consume_at_ok)
next
  case (2 s)
  then show ?case
    by (auto simp: limiter_ok_def bucket_level_def buckets_ok_def bucket_ok_def burst_ok_def split: option.splits)
next
  case (3 s)
  then show ?case by (simp add: limiter_ok_def)
next
  case (4 s r)
  then show ?case by (simp add: consume_at_simps)
next
  case (5 s r)
  then show ?case
    using refill_step_gain [of "ak_policy s" "ak_apiKeys s" "rl_apiKeyRequestsPerMinute (ak_policy s)"
        "ra_time r" k "granted (ra_time r) (ra_accountId r) k s"]
    by (simp add: consume_at_simps limiter_ok_def granted_def split: if_splits)
next
  case (6 s r)
  then show ?case by (simp add: consume_at_simps)
qed

subsection \<open>What the limiter promises\<close>

fun allowed_requests :: "(request_at \<Rightarrow> bool) \<Rightarrow> request_at list \<Rightarrow> AccountApiKeyRateLimiter \<Rightarrow> nat" where
  "allowed_requests counted [] l = 0"
| "allowed_requests counted (r # rs) l =
     of_bool (counted r \<and> fst (consume_at r l)) + allowed_requests counted rs (snd (consume_at r l))"

lemma allowed_by_account: "account_meter.allowed_of a rs l = allowed_requests (\<lambda>r. ra_accountId r = a) rs l"
  by (induction rs arbitrary: l) simp_all

lemma allowed_by_key: "key_meter.allowed_of k rs l = allowed_requests (\<lambda>r. ra_apiKeyId r = k) rs l"
  by (induction rs arbitrary: l) simp_all

lemma new_limiter:
  assumes "account_limiter policy = Inr l"
  shows "ak_policy l = policy \<and> ak_accounts l = [] \<and> ak_apiKeys l = []"
  using assms by (auto simp: account_limiter_def split: if_splits)

text \<open>C20. The request limiter bounds every client. From its construction on, with a clock that does not
  go back, the requests of one account that are allowed between two times are at most the burst plus
  the time times the account's rate, and the requests of one API key at most the burst plus the time
  times the key's rate, whatever other clients do. Each request may add the rounding error of four
  double operations, at most \<open>12 * burst / 2\<^sup>5\<^sup>3\<close>.\<close>

theorem request_rate_bound:
  assumes "account_limiter policy = Inr l" and "fl (rl_burst policy) = rl_burst policy"
    and "sorted (map ra_time rs)" and "start \<le> stop" and "set (map ra_time rs) \<subseteq> {start..stop}"
  shows "of_nat (allowed_requests (\<lambda>r. ra_accountId r = a) rs l) \<le>
      rl_burst policy + of_int (stop - start) * (rl_accountRequestsPerMinute policy / 60000) +
      of_nat (length (filter (\<lambda>r. ra_accountId r = a) rs)) * rounding_slack (rl_burst policy) \<and>
    of_nat (allowed_requests (\<lambda>r. ra_apiKeyId r = k) rs l) \<le>
      rl_burst policy + of_int (stop - start) * (rl_apiKeyRequestsPerMinute policy / 60000) +
      of_nat (length (filter (\<lambda>r. ra_apiKeyId r = k) rs)) * rounding_slack (rl_burst policy)"
proof -
  have ok: "limiter_ok l" using account_limiter_ok assms(1,2) by blast
  have at: "start \<le> ra_time r \<and> ra_time r \<le> stop" if "r \<in> set rs" for r using assms(5) that by auto
  show ?thesis
    using account_meter.allowed_bound [OF ok assms(3) at assms(4), of a]
      key_meter.allowed_bound [OF ok assms(3) at assms(4), of k]
      new_limiter [OF assms(1)] at assms(4)
    by (simp add: allowed_by_account allowed_by_key bucket_level_def bucket_seen_def)
qed

definition sample_policy :: RateLimitPolicy where
  "sample_policy = \<lparr>rl_accountRequestsPerMinute = 120, rl_apiKeyRequestsPerMinute = 120, rl_burst = 30,
     rl_authenticationRequestsPerMinute = Some 600, rl_authenticationBurst = Some 60\<rparr>"

definition sample_limiter :: AccountApiKeyRateLimiter where
  "sample_limiter = \<lparr>ak_policy = sample_policy, ak_accounts = [], ak_apiKeys = []\<rparr>"

lemma sample_limiter: "account_limiter sample_policy = Inr sample_limiter"
  by (simp add: account_limiter_def sample_policy_def sample_limiter_def is_integer_def)

lemma fl_30: "fl 30 = 30"
  using fl_of_nat [of 30] by simp

lemma request_rate_bound_witness:
  "of_nat (allowed_requests (\<lambda>r. ra_accountId r = ''a'') [Request_At 0 ''a'' ''k'', Request_At 500 ''a'' ''k''] sample_limiter) \<le>
     rl_burst sample_policy + of_int (500 - 0) * (rl_accountRequestsPerMinute sample_policy / 60000) +
     of_nat 2 * rounding_slack (rl_burst sample_policy)"
proof -
  have "fl (rl_burst sample_policy) = rl_burst sample_policy" by (simp add: sample_policy_def fl_30)
  from conjunct1 [OF request_rate_bound [OF sample_limiter this,
        of "[Request_At 0 ''a'' ''k'', Request_At 500 ''a'' ''k'']" 0 500 "''a''" "''k''"]]
  show ?thesis by (simp del: allowed_requests.simps)
qed

text \<open>Clients do not disturb each other: a request of another account with another key, allowed or not,
  changes neither the decision nor the retry hint that a client's next request gets.\<close>

theorem rate_limit_isolation:
  assumes "a' \<noteq> a" and "k' \<noteq> k"
  shows "fst (consume_request now a k (snd (consume_request now' a' k' l))) = fst (consume_request now a k l)"
proof -
  define l' where "l' = snd (consume_request now' a' k' l)"
  have same: "ak_policy l' = ak_policy l" "map_of (ak_accounts l') a = map_of (ak_accounts l) a"
    "map_of (ak_apiKeys l') k = map_of (ak_apiKeys l) k"
    using assms by (simp_all add: l'_def consume_request_state Let_def)
  have "refill (ak_policy l) (ak_accounts l') a rpm now = refill (ak_policy l) (ak_accounts l) a rpm now"
    "refill (ak_policy l) (ak_apiKeys l') k rpm now = refill (ak_policy l) (ak_apiKeys l) k rpm now" for rpm
    by (simp_all add: refill_def same)
  then show ?thesis unfolding l'_def [symmetric] by (simp add: consume_request_def Let_def same)
qed

lemma rate_limit_isolation_witness:
  "fst (consume_request 0 ''a'' ''k'' (snd (consume_request 0 ''b'' ''j'' sample_limiter))) =
     fst (consume_request 0 ''a'' ''k'' sample_limiter)"
  by (rule rate_limit_isolation) simp_all

lemma fl_le_of_nat: "0 \<le> x \<Longrightarrow> x \<le> of_nat n \<Longrightarrow> n < 2 ^ 53 \<Longrightarrow> fl x \<le> of_nat n"
  using fl_mono [of x "of_nat n"] by (simp add: fl_of_nat)

lemma fl_ge_of_nat: "of_nat n \<le> x \<Longrightarrow> n < 2 ^ 53 \<Longrightarrow> of_nat n \<le> fl x"
  using fl_mono [of "of_nat n" x] by (simp add: fl_of_nat)

text \<open>The wait of one bucket is at most a minute.\<close>

lemma bucket_wait:
  assumes "0 \<le> t" and "t < 1" and "1 \<le> rpm"
  shows "0 \<le> fl (fl (fl (1 - t) * 60000) / rpm) \<and> fl (fl (fl (1 - t) * 60000) / rpm) \<le> 60000"
proof -
  have a: "0 \<le> fl (1 - t)" "fl (1 - t) \<le> 1" using fl_le_of_nat [of "1 - t" 1] assms by simp_all
  then have b: "0 \<le> fl (fl (1 - t) * 60000)" "fl (fl (1 - t) * 60000) \<le> 60000"
    using fl_le_of_nat [of "fl (1 - t) * 60000" 60000] by simp_all
  then have "0 \<le> fl (fl (1 - t) * 60000) / rpm" "fl (fl (1 - t) * 60000) / rpm \<le> 60000"
    using assms(3) by (simp_all add: pos_divide_le_eq)
  then show ?thesis using fl_le_of_nat [of "fl (fl (1 - t) * 60000) / rpm" 60000] by simp
qed

lemma longest_wait:
  fixes x y :: rat
  assumes "0 \<le> x \<and> x \<le> 60000" and "0 \<le> y \<and> y \<le> 60000"
  shows "fl (max x y / 1000) \<le> 60"
proof -
  have "0 \<le> max x y / 1000" "max x y / 1000 \<le> of_nat 60" using assms by (auto simp: max_def)
  from fl_le_of_nat [OF this] show ?thesis by simp
qed

lemma refilled_after_minute:
  assumes "bucket_ok burst bucket" and "burst_ok burst" and "1 \<le> rpm" and "tb_updatedAt bucket + 60000 \<le> now"
  shows "1 \<le> tb_tokens (refilled burst rpm now bucket)"
proof -
  define x where "x = of_int (now - tb_updatedAt bucket) * rpm"
  have "60000 \<le> (of_int (now - tb_updatedAt bucket) :: rat)"
    using assms(4) by (metis le_diff_eq add.commute of_int_le_iff of_int_numeral)
  then have "60000 * 1 \<le> x" unfolding x_def using assms(3) by (intro mult_mono) auto
  then have "60000 \<le> fl x" using fl_ge_of_nat [of 60000 x] by simp
  then have "1 \<le> fl (fl x / 60000)" using fl_ge_of_nat [of 1 "fl x / 60000"] by simp
  then have "1 \<le> fl (tb_tokens bucket + fl (fl x / 60000))"
    using fl_ge_of_nat [of 1 "tb_tokens bucket + fl (fl x / 60000)"] assms(1) by (simp add: bucket_ok_def)
  then show ?thesis
    using assms(2,4) by (simp add: refilled_def Let_def x_def burst_ok_def)
qed

lemma refill_after_minute:
  assumes "buckets_ok (rl_burst policy) buckets" and "burst_ok (rl_burst policy)" and "1 \<le> rpm"
    and "case_option True (\<lambda>t. t + 60000 \<le> now) (bucket_seen buckets identity)"
  shows "1 \<le> tb_tokens (refill policy buckets identity rpm now)"
proof (cases "map_of buckets identity")
  case None
  have "fl (rl_burst policy) = rl_burst policy" "1 \<le> rl_burst policy" using assms(2) by (simp_all add: burst_ok_def)
  with None show ?thesis by (simp add: refill_def refilled_def)
next
  case (Some bucket)
  with assms refilled_after_minute [of "rl_burst policy" bucket rpm now] show ?thesis
    by (simp add: refill_def buckets_ok_def bucket_seen_def)
qed

text \<open>A refused client gets a retry hint between one second and one minute, an allowed one the hint 0;
  and a client whose account and key were idle for a minute is always allowed.\<close>

theorem rate_limit_retry:
  assumes "limiter_ok l"
  shows "(let d = fst (consume_request now a k l)
          in if rd_allowed d then rd_retryAfterSeconds d = 0
             else 1 \<le> rd_retryAfterSeconds d \<and> rd_retryAfterSeconds d \<le> 60) \<and>
    (case_option True (\<lambda>t. t + 60000 \<le> now) (bucket_seen (ak_accounts l) a) \<and>
     case_option True (\<lambda>t. t + 60000 \<le> now) (bucket_seen (ak_apiKeys l) k) \<longrightarrow>
       fst (consume_request now a k l) = allow)"
proof -
  let ?p = "ak_policy l"
  let ?a = "refill ?p (ak_accounts l) a (rl_accountRequestsPerMinute ?p) now"
  let ?k = "refill ?p (ak_apiKeys l) k (rl_apiKeyRequestsPerMinute ?p) now"
  let ?wa = "if 1 \<le> tb_tokens ?a then 0
     else fl (fl (fl (1 - tb_tokens ?a) * 60000) / rl_accountRequestsPerMinute ?p)"
  let ?wk = "if 1 \<le> tb_tokens ?k then 0
     else fl (fl (fl (1 - tb_tokens ?k) * 60000) / rl_apiKeyRequestsPerMinute ?p)"
  have ok: "bucket_ok (rl_burst ?p) ?a" "bucket_ok (rl_burst ?p) ?k"
    using assms refill_bucket_ok by (simp_all add: limiter_ok_def)
  have rpm: "1 \<le> rl_accountRequestsPerMinute ?p" "1 \<le> rl_apiKeyRequestsPerMinute ?p"
    using assms by (simp_all add: limiter_ok_def)
  have nonneg: "0 \<le> tb_tokens ?a" "0 \<le> tb_tokens ?k" using ok by (simp_all add: bucket_ok_def)
  have wait: "0 \<le> ?wa \<and> ?wa \<le> 60000" "0 \<le> ?wk \<and> ?wk \<le> 60000"
    using bucket_wait [OF nonneg(1) _ rpm(1)] bucket_wait [OF nonneg(2) _ rpm(2)] by simp_all
  from longest_wait [OF this] have "fl (max ?wa ?wk / 1000) \<le> 60" .
  then have "\<lceil>fl (max ?wa ?wk / 1000)\<rceil> \<le> 60" by (simp add: ceiling_le_iff)
  then have hint: "1 \<le> max 1 \<lceil>fl (max ?wa ?wk / 1000)\<rceil> \<and> max 1 \<lceil>fl (max ?wa ?wk / 1000)\<rceil> \<le> 60" by simp
  have eq: "fst (consume_request now a k l) =
      (if 1 \<le> tb_tokens ?a \<and> 1 \<le> tb_tokens ?k then allow
       else \<lparr>rd_allowed = False, rd_retryAfterSeconds = max 1 \<lceil>fl (max ?wa ?wk / 1000)\<rceil>\<rparr>)"
    by (simp add: consume_request_def Let_def)
  have idle: "1 \<le> tb_tokens ?a" if "case_option True (\<lambda>t. t + 60000 \<le> now) (bucket_seen (ak_accounts l) a)"
    using refill_after_minute that assms by (simp add: limiter_ok_def)
  have idle': "1 \<le> tb_tokens ?k" if "case_option True (\<lambda>t. t + 60000 \<le> now) (bucket_seen (ak_apiKeys l) k)"
    using refill_after_minute that assms by (simp add: limiter_ok_def)
  show ?thesis unfolding eq using hint idle idle' by (simp split: if_splits)
qed

lemma rate_limit_retry_witness:
  "fst (consume_request 7 ''a'' ''k'' sample_limiter) = allow"
  using rate_limit_retry [of sample_limiter 7 "''a''" "''k''"] account_limiter_ok [OF sample_limiter]
  by (simp add: sample_policy_def fl_30 sample_limiter_def bucket_seen_def)

end
