(* ===== verification/Authentication.thy ===== *)
theory Authentication
  imports Use_Cases Observability Rate_Limit
begin

text \<open>
  API keys: the token format and its digest (\<open>src/authentication/api-key-token.ts\<close>), the PostgreSQL key
  store (\<open>src/persistence/postgres/api-key-store.ts\<close>, with the constraints of
  \<open>migrations/001_accounts_and_api_keys.sql\<close>) and the authenticator over any store
  (\<open>src/authentication/api-key-authenticator.ts\<close>). HMAC-SHA-256 is the parameter \<open>hmac pepper message\<close>;
  the random bytes of a new token are arguments.
\<close>

subsection \<open>Tokens\<close>

definition BASE64URL :: string where
  "BASE64URL = ''ABCDEFGHIJKLMNOPQRSTUVWXYZabcdefghijklmnopqrstuvwxyz0123456789-_''"

definition sextet :: "nat \<Rightarrow> char" where
  "sextet n = BASE64URL ! (n mod 64)"

text \<open>\<open>Buffer.toString("base64url")\<close>, without padding.\<close>

fun base64url :: "string \<Rightarrow> string" where
  "base64url [] = []"
| "base64url [a] = [sextet (code_of a div 4), sextet (code_of a * 16)]"
| "base64url [a, b] =
     [sextet (code_of a div 4), sextet (code_of a * 16 + code_of b div 16), sextet (code_of b * 4)]"
| "base64url (a # b # c # s) =
     sextet (code_of a div 4) # sextet (code_of a * 16 + code_of b div 16) #
     sextet (code_of b * 4 + code_of c div 64) # sextet (code_of c) # base64url s"

text \<open>\<open>/^[A-Za-z0-9_-]{n}$/\<close>\<close>

definition base64url_string :: "nat \<Rightarrow> string \<Rightarrow> bool" where
  "base64url_string n s \<longleftrightarrow> length s = n \<and> list_all token_char s"

record ParsedApiKeyToken =
  pt_publicId :: string
  pt_secret :: string

record CreatedApiKeyToken = ParsedApiKeyToken +
  ct_token :: string

definition createApiKeyToken :: "string \<Rightarrow> string \<Rightarrow> CreatedApiKeyToken" where
  "createApiKeyToken random12 random32 =
     (let publicId = base64url random12; secret = base64url random32
      in \<lparr>pt_publicId = publicId, pt_secret = secret, ct_token = ''swk.'' @ publicId @ ''.'' @ secret\<rparr>)"

definition parseApiKeyToken :: "string \<Rightarrow> ParsedApiKeyToken option" where
  "parseApiKeyToken token =
     (case split_on (CHR ''.'') token of
        [p0, p1, p2] \<Rightarrow>
          if p0 = ''swk'' \<and> base64url_string 16 p1 \<and> base64url_string 43 p2
          then Some \<lparr>pt_publicId = p1, pt_secret = p2\<rparr> else None
      | _ \<Rightarrow> None)"

type_synonym hmac = "string \<Rightarrow> string \<Rightarrow> string"

definition key_preimage :: "ParsedApiKeyToken \<Rightarrow> string" where
  "key_preimage key = ''skillwire-api-key-v1'' @ [NUL] @ pt_publicId key @ [NUL] @ pt_secret key"

definition apiKeyDigest :: "hmac \<Rightarrow> ParsedApiKeyToken \<Rightarrow> string \<Rightarrow> string" where
  "apiKeyDigest hmac key pepper = hmac pepper (key_preimage key)"

text \<open>\<open>timingSafeEqual\<close> compares the bytes.\<close>

definition apiKeyDigestsMatch :: "string \<Rightarrow> string \<Rightarrow> bool" where
  "apiKeyDigestsMatch expected candidate \<longleftrightarrow> length expected = length candidate \<and> expected = candidate"

subsection \<open>The port and the authenticator\<close>

record StoredApiKey =
  sk_id :: string
  sk_accountId :: string
  sk_secretDigest :: string

record 's api_key_store =
  ks_findActive :: "RequestExecution \<Rightarrow> string \<Rightarrow> ('s, StoredApiKey option) io"
  ks_markUsed :: "RequestExecution \<Rightarrow> string \<Rightarrow> ('s, unit) io"

record AuthenticatedApiKey =
  ak_accountId :: string
  ak_apiKeyId :: string

definition DUMMY_DIGEST :: string where
  "DUMMY_DIGEST = replicate 32 (CHR 0x00)"

text \<open>The execution after its first \<open>n\<close> activity checks.\<close>

definition later :: "nat \<Rightarrow> RequestExecution \<Rightarrow> RequestExecution" where
  "later n ex = ex\<lparr>ex_active := \<lambda>i. ex_active ex (n + i)\<rparr>"

definition authenticate ::
  "hmac \<Rightarrow> 's api_key_store \<Rightarrow> string \<Rightarrow> RequestExecution \<Rightarrow> string \<Rightarrow> ('s, AuthenticatedApiKey option) io" where
  "authenticate hmac store pepper ex token =
     and_do (from_sum (assertRequestActive ex 0)) (\<lambda>_.
     case parseApiKeyToken token of
       None \<Rightarrow> done_with None
     | Some parsed \<Rightarrow>
         and_do (ks_findActive store (later 1 ex) (pt_publicId parsed)) (\<lambda>stored.
         and_do (from_sum (assertRequestActive (later 6 ex) 0)) (\<lambda>_.
         let matches = apiKeyDigestsMatch (case stored of None \<Rightarrow> DUMMY_DIGEST | Some k \<Rightarrow> sk_secretDigest k)
               (apiKeyDigest hmac parsed pepper)
         in case (if matches then stored else None) of
              None \<Rightarrow> done_with None
            | Some k \<Rightarrow>
                and_do (ks_markUsed store (later 7 ex) (sk_id k)) (\<lambda>_.
                and_do (from_sum (assertRequestActive (later 12 ex) 0)) (\<lambda>_.
                done_with (Some \<lparr>ak_accountId = sk_accountId k, ak_apiKeyId = sk_id k\<rparr>))))))"

subsection \<open>The PostgreSQL key store\<close>

record account_row =
  ar_id :: string
  ar_active :: bool

record api_key_row =
  kr_id :: string
  kr_account :: string
  kr_publicId :: string
  kr_digest :: string
  kr_created :: nat
  kr_expires :: "nat option"
  kr_revoked :: "nat option"
  kr_lastUsed :: "nat option"

record key_db =
  kd_accounts :: "account_row list"
  kd_keys :: "api_key_row list"

definition api_key_row_ok :: "api_key_row \<Rightarrow> bool" where
  "api_key_row_ok k \<longleftrightarrow>
     base64url_string 16 (kr_publicId k) \<and> length (kr_digest k) = 32 \<and>
     (case kr_expires k of None \<Rightarrow> True | Some t \<Rightarrow> kr_created k < t) \<and>
     (case kr_revoked k of None \<Rightarrow> True | Some t \<Rightarrow> kr_created k \<le> t) \<and>
     (case kr_lastUsed k of None \<Rightarrow> True | Some t \<Rightarrow> kr_created k \<le> t)"

definition key_active :: "nat \<Rightarrow> key_db \<Rightarrow> api_key_row \<Rightarrow> bool" where
  "key_active now db k \<longleftrightarrow>
     list_ex (\<lambda>a. ar_id a = kr_account k \<and> ar_active a) (kd_accounts db) \<and> kr_revoked k = None \<and>
     (case kr_expires k of None \<Rightarrow> True | Some t \<Rightarrow> now < t)"

definition findActiveByPublicId :: "RequestExecution \<Rightarrow> string \<Rightarrow> (key_db, StoredApiKey option) io" where
  "findActiveByPublicId ex publicId =
     requestTransaction ex (\<lambda>db.
       (Inr (map_option (\<lambda>k. \<lparr>sk_id = kr_id k, sk_accountId = kr_account k, sk_secretDigest = kr_digest k\<rparr>)
         (find (\<lambda>k. kr_publicId k = publicId \<and> key_active (ex_now ex) db k) (kd_keys db))), db))"

text \<open>An \<open>UPDATE\<close> whose new rows violate a constraint fails.\<close>

definition update_keys :: "(api_key_row \<Rightarrow> api_key_row) \<Rightarrow> string \<Rightarrow> (key_db, unit) io" where
  "update_keys change keyId db =
     (let keys = map (\<lambda>k. if kr_id k = keyId then change k else k) (kd_keys db)
      in if list_all api_key_row_ok keys then (Inr (), db\<lparr>kd_keys := keys\<rparr>)
         else (Inl (OtherError ''api_keys check constraint''), db))"

definition markUsed :: "RequestExecution \<Rightarrow> string \<Rightarrow> (key_db, unit) io" where
  "markUsed ex keyId = requestTransaction ex (update_keys (\<lambda>k. k\<lparr>kr_lastUsed := Some (ex_now ex)\<rparr>) keyId)"

definition createAccount :: "string \<Rightarrow> (key_db, unit) io" where
  "createAccount accountId db =
     (if list_ex (\<lambda>a. ar_id a = accountId) (kd_accounts db)
      then (Inl (OtherError ''accounts primary key''), db)
      else (Inr (), db\<lparr>kd_accounts := kd_accounts db @ [\<lparr>ar_id = accountId, ar_active = True\<rparr>]\<rparr>))"

definition createKey ::
  "hmac \<Rightarrow> string \<Rightarrow> nat \<Rightarrow> string \<Rightarrow> string \<Rightarrow> ParsedApiKeyToken \<Rightarrow> nat option \<Rightarrow> (key_db, unit) io" where
  "createKey hmac pepper now keyId accountId key expiresAt db =
     (let k = \<lparr>kr_id = keyId, kr_account = accountId, kr_publicId = pt_publicId key,
               kr_digest = apiKeyDigest hmac key pepper, kr_created = now, kr_expires = expiresAt,
               kr_revoked = None, kr_lastUsed = None\<rparr>
      in if \<not> api_key_row_ok k \<or> \<not> list_ex (\<lambda>a. ar_id a = accountId) (kd_accounts db) \<or>
            list_ex (\<lambda>k'. kr_id k' = keyId \<or> kr_publicId k' = pt_publicId key) (kd_keys db)
         then (Inl (OtherError ''api_keys constraint''), db)
         else (Inr (), db\<lparr>kd_keys := kd_keys db @ [k]\<rparr>))"

definition revokeKey :: "nat \<Rightarrow> string \<Rightarrow> (key_db, unit) io" where
  "revokeKey now keyId = update_keys (\<lambda>k. k\<lparr>kr_revoked := Some now\<rparr>) keyId"

definition disableAccount :: "string \<Rightarrow> (key_db, unit) io" where
  "disableAccount accountId db =
     (Inr (), db\<lparr>kd_accounts := map (\<lambda>a. if ar_id a = accountId then a\<lparr>ar_active := False\<rparr> else a) (kd_accounts db)\<rparr>)"

definition postgres_key_store :: "key_db api_key_store" where
  "postgres_key_store = \<lparr>ks_findActive = findActiveByPublicId, ks_markUsed = markUsed\<rparr>"

subsection \<open>Token round trip\<close>

lemma sextet_token_char: "token_char (sextet n)"
proof -
  have "list_all token_char BASE64URL" by code_simp
  moreover have "n mod 64 < length BASE64URL" by (simp add: BASE64URL_def)
  then have "sextet n \<in> set BASE64URL" unfolding sextet_def by (rule nth_mem)
  ultimately show ?thesis by (simp add: list_all_iff)
qed

lemma sextet_eq: "sextet m = sextet n \<longleftrightarrow> m mod 64 = n mod 64"
proof -
  have d: "distinct BASE64URL" and l: "length BASE64URL = 64" by code_simp+
  show ?thesis unfolding sextet_def
    by (rule nth_eq_iff_index_eq [OF d]) (simp_all add: l)
qed

lemma base64url_chars: "list_all token_char (base64url s)"
  by (induction s rule: base64url.induct) (simp_all add: sextet_token_char)

lemma base64url_length: "length (base64url s) = (length s * 4 + 2) div 3"
  by (induction s rule: base64url.induct) simp_all

lemma mod_64_split:
  fixes a y n m :: nat
  assumes "y < n" and "n * m = 64"
  shows "(a * n + y) mod 64 = n * (a mod m) + y"
proof -
  have "(a * n + y) mod (n * m) = n * ((a * n + y) div n mod m) + (a * n + y) mod n"
    by (rule mod_mult2_eq)
  moreover have "(a * n + y) div n = a" "(a * n + y) mod n = y" using assms(1) by simp_all
  ultimately show ?thesis using assms(2) by simp
qed

lemma shared_bits:
  fixes a y a' y' n m :: nat
  assumes "y < n" and "y' < n" and "n * m = 64" and "(a * n + y) mod 64 = (a' * n + y') mod 64"
  shows "a mod m = a' mod m \<and> y = y'"
proof -
  have eq: "n * (a mod m) + y = n * (a' mod m) + y'"
    using assms(4) unfolding mod_64_split [OF assms(1,3)] mod_64_split [OF assms(2,3)] .
  have "(n * (a mod m) + y) mod n = y" "(n * (a mod m) + y) div n = a mod m"
    "(n * (a' mod m) + y') mod n = y'" "(n * (a' mod m) + y') div n = a' mod m"
    using assms(1,2) by simp_all
  with eq show ?thesis by metis
qed

lemmas two_bits = shared_bits [of _ 16 _ 4, simplified] and four_bits = shared_bits [of _ 4 _ 16, simplified]

lemma char_by_parts: "code_of a div n = code_of b div n \<Longrightarrow> code_of a mod n = code_of b mod n \<Longrightarrow> a = b"
  by (metis code_of_inj div_mult_mod_eq)

lemma code_div: "code_of a div 4 mod 64 = code_of a div 4" "code_of a div 16 < 16" "code_of a div 64 < 4"
  using code_of_less_256 [of a] by simp_all

lemma base64url_inj: "length s = length t \<Longrightarrow> base64url s = base64url t \<Longrightarrow> s = t"
proof (induction s arbitrary: t rule: base64url.induct)
  case (2 a)
  then obtain a' where t: "t = [a']" by (cases t) auto
  from 2 have "code_of a div 4 = code_of a' div 4" "(code_of a * 16 + 0) mod 64 = (code_of a' * 16 + 0) mod 64"
    unfolding t by (simp_all add: sextet_eq code_div)
  with two_bits [OF _ _ this(2)] show ?case by (simp add: t char_by_parts)
next
  case (3 a b)
  then obtain a' b' where t: "t = [a', b']" by (cases t; cases "tl t") auto
  from 3 have "code_of a div 4 = code_of a' div 4"
    and ab: "(code_of a * 16 + code_of b div 16) mod 64 = (code_of a' * 16 + code_of b' div 16) mod 64"
    and b: "(code_of b * 4 + 0) mod 64 = (code_of b' * 4 + 0) mod 64"
    unfolding t by (simp_all add: sextet_eq code_div)
  with two_bits [OF code_div(2) code_div(2) ab] four_bits [OF _ _ b]
  have "a = a'" "b = b'" using char_by_parts [of a 4 a'] char_by_parts [of b 16 b'] by simp_all
  then show ?case by (simp add: t)
next
  case (4 a b c s)
  then obtain a' b' c' t' where t: "t = a' # b' # c' # t'"
    by (cases t; cases "tl t"; cases "tl (tl t)") auto
  from "4.prems" t have len: "length s = length t'" and rest: "base64url s = base64url t'"
    and a: "code_of a div 4 = code_of a' div 4"
    and ab: "(code_of a * 16 + code_of b div 16) mod 64 = (code_of a' * 16 + code_of b' div 16) mod 64"
    and bc: "(code_of b * 4 + code_of c div 64) mod 64 = (code_of b' * 4 + code_of c' div 64) mod 64"
    and c: "code_of c mod 64 = code_of c' mod 64"
    by (simp_all add: sextet_eq code_div)
  from two_bits [OF code_div(2) code_div(2) ab] four_bits [OF code_div(3) code_div(3) bc] a c
  have "a = a'" "b = b'" "c = c'"
    using char_by_parts by blast+
  with "4.IH" [OF len rest] show ?case by (simp add: t)
qed simp

lemma token_char_no_dot: "list_all token_char s \<Longrightarrow> CHR ''.'' \<notin> set s"
  by (auto simp: list_all_iff token_char_def alnum_char_def digit_char_def lower_char_def upper_char_def code_of_def)

lemma parse_token:
  "parseApiKeyToken token = Some key \<longleftrightarrow>
     base64url_string 16 (pt_publicId key) \<and> base64url_string 43 (pt_secret key) \<and>
     token = ''swk.'' @ pt_publicId key @ ''.'' @ pt_secret key"
proof
  assume a: "parseApiKeyToken token = Some key"
  then obtain p1 p2 where parts: "split_on (CHR ''.'') token = [''swk'', p1, p2]"
    and key: "key = \<lparr>pt_publicId = p1, pt_secret = p2\<rparr>" and ok: "base64url_string 16 p1" "base64url_string 43 p2"
    by (auto simp: parseApiKeyToken_def split: list.splits if_splits)
  have "token = join [CHR ''.''] [''swk'', p1, p2]" unfolding parts [symmetric] by (simp add: join_split_on)
  with key ok show "base64url_string 16 (pt_publicId key) \<and> base64url_string 43 (pt_secret key) \<and>
     token = ''swk.'' @ pt_publicId key @ ''.'' @ pt_secret key" by simp
next
  assume a: "base64url_string 16 (pt_publicId key) \<and> base64url_string 43 (pt_secret key) \<and>
     token = ''swk.'' @ pt_publicId key @ ''.'' @ pt_secret key"
  then have "split_on (CHR ''.'') token = [''swk'', pt_publicId key, pt_secret key]"
    using split_on_append_sep [of "CHR ''.''" "pt_publicId key" "pt_secret key"]
    by (simp add: base64url_string_def token_char_no_dot split_on_no_sep)
  with a show "parseApiKeyToken token = Some key" by (simp add: parseApiKeyToken_def)
qed

text \<open>C19. Tokens round trip: a token made of 12 and 32 random bytes parses to exactly its public id and secret,
  different random bytes give different tokens, and a token that parses is the text of what it parses to.\<close>

theorem token_roundtrip:
  assumes "length id1 = 12" and "length secret1 = 32" and "length id2 = 12" and "length secret2 = 32"
  shows "parseApiKeyToken (ct_token (createApiKeyToken id1 secret1)) =
      Some \<lparr>pt_publicId = pt_publicId (createApiKeyToken id1 secret1),
            pt_secret = pt_secret (createApiKeyToken id1 secret1)\<rparr> \<and>
    (ct_token (createApiKeyToken id1 secret1) = ct_token (createApiKeyToken id2 secret2) \<longleftrightarrow>
       id1 = id2 \<and> secret1 = secret2) \<and>
    (parseApiKeyToken token = Some key \<longrightarrow> token = ''swk.'' @ pt_publicId key @ ''.'' @ pt_secret key)"
  using assms base64url_inj [of id1 id2] base64url_inj [of secret1 secret2]
  by (auto simp: parse_token createApiKeyToken_def Let_def base64url_string_def base64url_chars base64url_length)

lemma token_roundtrip_witness:
  "parseApiKeyToken (ct_token (createApiKeyToken (replicate 12 NUL) (replicate 32 NUL))) =
     Some \<lparr>pt_publicId = pt_publicId (createApiKeyToken (replicate 12 NUL) (replicate 32 NUL)),
           pt_secret = pt_secret (createApiKeyToken (replicate 12 NUL) (replicate 32 NUL))\<rparr>"
  by (rule conjunct1 [OF token_roundtrip [of "replicate 12 NUL" "replicate 32 NUL" "replicate 12 NUL" "replicate 32 NUL"]])
    simp_all

subsection \<open>Tokens in the log\<close>

lemma token_chars_plain: "list_all token_char s \<Longrightarrow> list_all plain_char s"
  by (auto simp: list_all_iff token_char_def alnum_char_def digit_char_def lower_char_def upper_char_def
      code_of_def plain_char_def ascii_space_def)

text \<open>A run of hexadecimal digits does not cross a dot.\<close>

lemma hex_run_within_part:
  "u @ h @ v = join ''.'' parts \<Longrightarrow> CHR ''.'' \<notin> set h \<Longrightarrow> h \<noteq> [] \<Longrightarrow> \<exists>p\<in>set parts. length h \<le> length p"
proof (induction parts arbitrary: u)
  case (Cons p parts)
  show ?case
  proof (cases parts)
    case Nil
    then have "u @ h @ v = p" using Cons.prems(1) by simp
    then have "length h \<le> length p" by (metis length_append le_add1 le_add2 order_trans)
    then show ?thesis by simp
  next
    case (Cons q qs)
    with Cons.prems(1) have eq: "u @ h @ v = p @ CHR ''.'' # join ''.'' parts" by simp
    show ?thesis
    proof (cases "length u \<le> length p")
      case True
      then obtain w where p: "p = u @ w" and hv: "h @ v = w @ CHR ''.'' # join ''.'' parts"
        using eq by (metis append_eq_append_conv_if append.assoc append_take_drop_id append_eq_append_conv2 nat_le_linear)
      have "length h \<le> length w"
      proof (rule ccontr)
        assume "\<not> ?thesis"
        then have "h ! length w = (h @ v) ! length w" "length w < length h" by (simp_all add: nth_append)
        then have "h ! length w = CHR ''.''" using hv by (simp add: nth_append)
        with \<open>length w < length h\<close> Cons.prems(2) show False by (metis nth_mem)
      qed
      then show ?thesis using p by auto
    next
      case False
      define u' where "u' = drop (Suc (length p)) u"
      have "drop (Suc (length p)) (u @ h @ v) = join ''.'' parts" unfolding eq by simp
      then have "u' @ h @ v = join ''.'' parts" using False by (simp add: u'_def)
      from Cons.IH [OF this Cons.prems(2,3)] show ?thesis by auto
    qed
  qed
qed simp

text \<open>The redaction of log strings does not know the service's tokens. A well-formed API token whose
  random part has no underscore stays in the log as it is, under every key that is not forbidden
  (the pattern for API keys looks for a \<open>skillwire_\<close> prefix, tokens begin with \<open>swk.\<close>).\<close>

theorem api_tokens_not_redacted:
  assumes "parseApiKeyToken token = Some k" and "CHR ''_'' \<notin> set token" and "\<not> forbidden_key key"
  shows "redactSensitive key (JStr token) = JStr token"
proof -
  from assms(1) have ok: "base64url_string 16 (pt_publicId k)" "base64url_string 43 (pt_secret k)"
    and token: "token = ''swk.'' @ pt_publicId k @ ''.'' @ pt_secret k" by (auto simp: parse_token)
  then have chars: "list_all token_char (pt_publicId k)" "list_all token_char (pt_secret k)"
    by (simp_all add: base64url_string_def)
  have plain: "list_all plain_char token"
    using token_chars_plain [OF chars(1)] token_chars_plain [OF chars(2)]
    by (simp add: token plain_char_def ascii_space_def code_of_def)
  have mem: "c \<in> set token \<Longrightarrow> token_char c \<or> c = CHR ''.''" for c
    using chars by (auto simp: token list_all_iff token_char_def alnum_char_def lower_char_def code_of_def)
  have "\<not> sensitive token"
  proof (rule not_sensitive)
    show "\<not> has_space token" using plain by (rule no_space_plain)
    show "CHR ''/'' \<notin> set token" "CHR '':'' \<notin> set token"
      using mem [of "CHR ''/''"] mem [of "CHR '':''"]
      by (auto simp: token_char_def alnum_char_def lower_char_def upper_char_def digit_char_def code_of_def)
    show "\<not> hex_string 64 h" if split: "token = u @ h @ v" for u h v
    proof
      assume h: "hex_string 64 h"
      then have "CHR ''.'' \<notin> set h" "h \<noteq> []"
        by (auto simp: hex_string_def list_all_iff hex_char_def digit_char_def code_of_def)
      moreover have "u @ h @ v = join ''.'' [''swk'', pt_publicId k, pt_secret k]"
        using split token by simp
      ultimately obtain p where "p \<in> set [''swk'', pt_publicId k, pt_secret k]" "length h \<le> length p"
        using hex_run_within_part by blast
      moreover have "length h = 64" using h by (simp add: hex_string_def)
      ultimately show False using ok by (auto simp: base64url_string_def)
    qed
  qed (rule assms(2))
  then show ?thesis using assms(3) by (simp add: redactString_simps)
qed

lemma api_tokens_not_redacted_witness:
  "redactSensitive ''event'' (JStr (''swk.'' @ replicate 16 (CHR ''a'') @ ''.'' @ replicate 43 (CHR ''b''))) =
     JStr (''swk.'' @ replicate 16 (CHR ''a'') @ ''.'' @ replicate 43 (CHR ''b''))"
proof (rule api_tokens_not_redacted)
  show "parseApiKeyToken (''swk.'' @ replicate 16 (CHR ''a'') @ ''.'' @ replicate 43 (CHR ''b'')) =
      Some \<lparr>pt_publicId = replicate 16 (CHR ''a''), pt_secret = replicate 43 (CHR ''b'')\<rparr>"
    by (simp add: parse_token base64url_string_def list_all_iff token_char_def alnum_char_def lower_char_def
        code_of_def)
  show "\<not> forbidden_key ''event''" by (rule event_key_allowed)
qed simp

subsection \<open>The key table\<close>

definition key_db_ok :: "key_db \<Rightarrow> bool" where
  "key_db_ok db \<longleftrightarrow> list_all api_key_row_ok (kd_keys db) \<and> distinct (map kr_id (kd_keys db)) \<and>
     distinct (map kr_publicId (kd_keys db)) \<and> distinct (map ar_id (kd_accounts db)) \<and>
     kr_account ` set (kd_keys db) \<subseteq> ar_id ` set (kd_accounts db)"

text \<open>Every operation of the store, with the time of its statement.\<close>

inductive key_step :: "hmac \<Rightarrow> string \<Rightarrow> key_db \<Rightarrow> key_db \<Rightarrow> bool" for hmac pepper where
  create_account: "createAccount accountId db = (r, db') \<Longrightarrow> key_step hmac pepper db db'"
| create_key: "createKey hmac pepper now keyId accountId key expiresAt db = (r, db') \<Longrightarrow> key_step hmac pepper db db'"
| revoke_key: "revokeKey now keyId db = (r, db') \<Longrightarrow> key_step hmac pepper db db'"
| disable_account: "disableAccount accountId db = (r, db') \<Longrightarrow> key_step hmac pepper db db'"
| authentication: "authenticate hmac postgres_key_store pepper ex token db = (q, db') \<Longrightarrow> key_step hmac pepper db db'"

inductive key_steps :: "hmac \<Rightarrow> string \<Rightarrow> key_db \<Rightarrow> key_db \<Rightarrow> bool" for hmac pepper where
  start: "key_steps hmac pepper db db"
| more: "key_steps hmac pepper db db1 \<Longrightarrow> key_step hmac pepper db1 db2 \<Longrightarrow> key_steps hmac pepper db db2"

lemma update_keys_cases:
  "update_keys change keyId db = (r, db') \<Longrightarrow>
     db' = db \<or> db' = db\<lparr>kd_keys := map (\<lambda>k. if kr_id k = keyId then change k else k) (kd_keys db)\<rparr>"
  by (auto simp: update_keys_def Let_def split: if_splits)

lemma findActive_run:
  "findActiveByPublicId ex publicId db = (r, db') \<Longrightarrow>
     db' = db \<and> (\<forall>stored. r = Inr stored \<longrightarrow>
       (case stored of None \<Rightarrow> True
        | Some s \<Rightarrow> \<exists>k \<in> set (kd_keys db). kr_publicId k = publicId \<and> key_active (ex_now ex) db k \<and>
            s = \<lparr>sk_id = kr_id k, sk_accountId = kr_account k, sk_secretDigest = kr_digest k\<rparr>))"
proof -
  have found: "k \<in> set ks \<and> P k" if "find P ks = Some k" for P and ks :: "api_key_row list" and k
    using that by (induction ks) (auto split: if_splits)
  assume "findActiveByPublicId ex publicId db = (r, db')"
  from requestTransaction_cases [OF this [unfolded findActiveByPublicId_def]] show ?thesis
    by (auto split: option.splits dest!: found)
qed

lemma later_now [simp]: "ex_now (later n ex) = ex_now ex"
  by (simp add: later_def)

text \<open>A successful authentication found an active key with the digest, and marked it used.\<close>

lemma authenticate_Some:
  assumes "authenticate hmac postgres_key_store pepper ex token db = (Inr (Some a), db')"
  obtains parsed k where "parseApiKeyToken token = Some parsed" and "k \<in> set (kd_keys db)"
    and "kr_publicId k = pt_publicId parsed" and "key_active (ex_now ex) db k"
    and "kr_digest k = apiKeyDigest hmac parsed pepper"
    and "a = \<lparr>ak_accountId = kr_account k, ak_apiKeyId = kr_id k\<rparr>"
    and "db' = db\<lparr>kd_keys := map (\<lambda>k'. if kr_id k' = kr_id k then k'\<lparr>kr_lastUsed := Some (ex_now ex)\<rparr> else k') (kd_keys db)\<rparr>"
proof -
  from assms obtain parsed stored w1 s where parsed: "parseApiKeyToken token = Some parsed"
    and found: "findActiveByPublicId (later 1 ex) (pt_publicId parsed) db = (Inr stored, w1)"
    and s: "stored = Some s" and match: "sk_secretDigest s = apiKeyDigest hmac parsed pepper"
    and marked: "markUsed (later 7 ex) (sk_id s) w1 = (Inr (), db')"
    and a: "a = \<lparr>ak_accountId = sk_accountId s, ak_apiKeyId = sk_id s\<rparr>"
    by (auto simp: authenticate_def io_run Let_def postgres_key_store_def apiKeyDigestsMatch_def
        split: option.splits if_splits)
  from findActive_run [OF found] s obtain k where k: "k \<in> set (kd_keys db)" "kr_publicId k = pt_publicId parsed"
      "key_active (ex_now ex) db k" "s = \<lparr>sk_id = kr_id k, sk_accountId = kr_account k, sk_secretDigest = kr_digest k\<rparr>"
    and w1: "w1 = db" by auto
  from marked have "db' = db\<lparr>kd_keys := map (\<lambda>k'. if kr_id k' = kr_id k then k'\<lparr>kr_lastUsed := Some (ex_now ex)\<rparr> else k') (kd_keys db)\<rparr>"
    unfolding markUsed_def by (auto dest!: requestTransaction_Inr simp: update_keys_def Let_def w1 k(4) split: if_splits)
  with that [OF parsed k(1,2,3)] match k(4) a show thesis by simp
qed

lemma postgres_ops:
  "ks_findActive postgres_key_store = findActiveByPublicId" "ks_markUsed postgres_key_store = markUsed"
  by (simp_all add: postgres_key_store_def)

lemma and_do_state:
  assumes "and_do m f w = (q, w2)"
  obtains r w1 where "m w = (r, w1)" and "w2 = w1" | x w1 where "m w = (Inr x, w1)" and "f x w1 = (q, w2)"
  using assms by (auto simp: and_do_def split: prod.splits sum.splits)

lemma authenticate_changes:
  assumes "authenticate hmac postgres_key_store pepper ex token db = (q, db')"
  shows "db' = db \<or> (\<exists>keyId. db' = db\<lparr>kd_keys := map (\<lambda>k. if kr_id k = keyId then k\<lparr>kr_lastUsed := Some (ex_now ex)\<rparr> else k) (kd_keys db)\<rparr>)"
proof -
  have mark: "d' = d \<or> d' = d\<lparr>kd_keys := map (\<lambda>k. if kr_id k = keyId then k\<lparr>kr_lastUsed := Some (ex_now ex)\<rparr> else k) (kd_keys d)\<rparr>"
    if "markUsed (later 7 ex) keyId d = (r, d')" for keyId d r d'
    using requestTransaction_cases [OF that [unfolded markUsed_def]] by (auto dest!: update_keys_cases)
  have find: "d' = d" if "findActiveByPublicId (later 1 ex) p d = (r, d')" for p d r d'
    using findActive_run [OF that] by simp
  show ?thesis
  proof (cases "parseApiKeyToken token")
    case None
    with assms have "db' = db" by (cases q) (auto simp: authenticate_def io_run)
    then show ?thesis ..
  next
    case (Some parsed)
    let ?digest = "apiKeyDigest hmac parsed pepper"
    let ?rest = "\<lambda>stored :: StoredApiKey option. and_do (from_sum (assertRequestActive (later 6 ex) 0)) (\<lambda>_.
         let matches = apiKeyDigestsMatch (case stored of None \<Rightarrow> DUMMY_DIGEST | Some k \<Rightarrow> sk_secretDigest k) ?digest
         in case (if matches then stored else None) of
              None \<Rightarrow> done_with None
            | Some k \<Rightarrow>
                and_do (markUsed (later 7 ex) (sk_id k)) (\<lambda>_.
                and_do (from_sum (assertRequestActive (later 12 ex) 0)) (\<lambda>_.
                done_with (Some \<lparr>ak_accountId = sk_accountId k, ak_apiKeyId = sk_id k\<rparr>))))"
    have after: "\<exists>keyId r. d = db \<or> markUsed (later 7 ex) keyId db = (r, d)"
      if rest: "?rest stored db = (q, d)" for stored d
    proof (cases "if apiKeyDigestsMatch (case stored of None \<Rightarrow> DUMMY_DIGEST | Some k \<Rightarrow> sk_secretDigest k) ?digest
        then stored else None")
      case None
      with rest show ?thesis by (cases q) (auto simp: io_run Let_def)
    next
      case (Some k)
      with rest have "d = db \<or> (\<exists>r. markUsed (later 7 ex) (sk_id k) db = (r, d))"
        by (elim and_do_state) (auto simp: io_run Let_def elim!: and_do_state)
      then show ?thesis by blast
    qed
    from assms Some have run: "and_do (from_sum (assertRequestActive ex 0))
        (\<lambda>_. and_do (findActiveByPublicId (later 1 ex) (pt_publicId parsed)) ?rest) db = (q, db')"
      unfolding authenticate_def postgres_ops by simp
    have "db' = db \<or> (\<exists>stored. ?rest stored db = (q, db'))"
      using run
    proof (rule and_do_state)
      fix r w1 assume "from_sum (assertRequestActive ex 0) db = (r, w1)" "db' = w1"
      then show ?thesis by (simp add: from_sum_def)
    next
      fix u w1 assume start: "from_sum (assertRequestActive ex 0) db = (Inr u, w1)"
        and next_step: "and_do (findActiveByPublicId (later 1 ex) (pt_publicId parsed)) ?rest w1 = (q, db')"
      from start have w1: "w1 = db" by (simp add: from_sum_def)
      from next_step [unfolded w1] show ?thesis
      proof (rule and_do_state)
        fix r w2 assume "findActiveByPublicId (later 1 ex) (pt_publicId parsed) db = (r, w2)" "db' = w2"
        then show ?thesis using find by metis
      next
        fix stored w2 assume "findActiveByPublicId (later 1 ex) (pt_publicId parsed) db = (Inr stored, w2)"
          and rest: "?rest stored w2 = (q, db')"
        then have "w2 = db" using find by metis
        with rest have "?rest stored db = (q, db')" by (simp only:)
        from exI [of "\<lambda>stored. ?rest stored db = (q, db')", OF this] show ?thesis by (rule disjI2)
      qed
    qed
    then consider "db' = db" | stored where "?rest stored db = (q, db')" by blast
    then show ?thesis
    proof cases
      case 2
      from after [OF this] show ?thesis using mark by blast
    qed simp
  qed
qed

subsection \<open>What authentication guarantees\<close>

text \<open>C17. Authentication against the key table is sound and nearly silent. Whoever is authenticated presented a
  well-formed token whose public id belongs to a key of the table that is not revoked and not expired,
  whose account is active and whose stored digest is the digest of the token; the account and key
  returned are that key's. Whatever the answer, no row changes except for a time of last use.\<close>

theorem authenticate_sound:
  assumes "authenticate hmac postgres_key_store pepper ex token db = (q, db')"
  shows "(\<forall>a. q = Inr (Some a) \<longrightarrow>
      (\<exists>(parsed :: ParsedApiKeyToken) k. parseApiKeyToken token = Some parsed \<and> k \<in> set (kd_keys db) \<and>
         kr_publicId k = pt_publicId parsed \<and> kr_digest k = apiKeyDigest hmac parsed pepper \<and>
         key_active (ex_now ex) db k \<and> a = \<lparr>ak_accountId = kr_account k, ak_apiKeyId = kr_id k\<rparr>)) \<and>
    kd_accounts db' = kd_accounts db \<and>
    map (\<lambda>k. k\<lparr>kr_lastUsed := None\<rparr>) (kd_keys db') = map (\<lambda>k. k\<lparr>kr_lastUsed := None\<rparr>) (kd_keys db)"
proof -
  have "\<exists>(parsed :: ParsedApiKeyToken) k. parseApiKeyToken token = Some parsed \<and> k \<in> set (kd_keys db) \<and>
      kr_publicId k = pt_publicId parsed \<and> kr_digest k = apiKeyDigest hmac parsed pepper \<and>
      key_active (ex_now ex) db k \<and> a = \<lparr>ak_accountId = kr_account k, ak_apiKeyId = kr_id k\<rparr>"
    if "q = Inr (Some a)" for a
    using assms unfolding that by (elim authenticate_Some) blast
  moreover have "kd_accounts db' = kd_accounts db \<and>
    map (\<lambda>k. k\<lparr>kr_lastUsed := None\<rparr>) (kd_keys db') = map (\<lambda>k. k\<lparr>kr_lastUsed := None\<rparr>) (kd_keys db)"
    using authenticate_changes [OF assms] by auto
  ultimately show ?thesis by blast
qed

text \<open>A table with one account and one key, and a stand-in for HMAC.\<close>

definition sample_hmac :: hmac where
  "sample_hmac pepper message = take 32 (rev message)"

definition sample_key :: ParsedApiKeyToken where
  "sample_key = \<lparr>pt_publicId = replicate 16 (CHR ''p''), pt_secret = replicate 43 (CHR ''s'')\<rparr>"

definition sample_token :: string where
  "sample_token = ''swk.'' @ replicate 16 (CHR ''p'') @ ''.'' @ replicate 43 (CHR ''s'')"

definition sample_row :: api_key_row where
  "sample_row = \<lparr>kr_id = ''k1'', kr_account = ''a1'', kr_publicId = replicate 16 (CHR ''p''),
     kr_digest = replicate 32 (CHR ''s''), kr_created = 5, kr_expires = Some 100, kr_revoked = None,
     kr_lastUsed = None\<rparr>"

definition sample_keys :: key_db where
  "sample_keys = \<lparr>kd_accounts = [\<lparr>ar_id = ''a1'', ar_active = True\<rparr>], kd_keys = [sample_row]\<rparr>"

lemma sample_parses: "parseApiKeyToken sample_token = Some sample_key"
  by (simp add: parse_token sample_token_def sample_key_def base64url_string_def list_all_iff token_char_def
      alnum_char_def lower_char_def code_of_def)

lemma sample_digest: "apiKeyDigest sample_hmac sample_key pepper = replicate 32 (CHR ''s'')"
  by (simp add: apiKeyDigest_def sample_hmac_def sample_key_def key_preimage_def)

lemma sample_row_ok: "api_key_row_ok (sample_row\<lparr>kr_lastUsed := Some 7\<rparr>)"
  by (simp add: api_key_row_ok_def sample_row_def base64url_string_def list_all_iff token_char_def
      alnum_char_def lower_char_def code_of_def)

lemma live_active: "assertRequestActive (later n (live now)) i = Inr ()"
  by (simp add: assertRequestActive_def later_def live_def)

lemma later_live: "later n (live now) = live now"
  by (simp add: later_def live_def)

lemma live_check: "assertRequestActive (live now) i = Inr ()"
  by (simp add: assertRequestActive_def live_def)

lemma sample_authenticates:
  "authenticate sample_hmac postgres_key_store pepper (live 7) sample_token sample_keys =
     (Inr (Some \<lparr>ak_accountId = ''a1'', ak_apiKeyId = ''k1''\<rparr>),
      sample_keys\<lparr>kd_keys := [sample_row\<lparr>kr_lastUsed := Some 7\<rparr>]\<rparr>)"
proof -
  have found: "findActiveByPublicId (live 7) (pt_publicId sample_key) sample_keys =
      (Inr (Some \<lparr>sk_id = ''k1'', sk_accountId = ''a1'', sk_secretDigest = replicate 32 (CHR ''s'')\<rparr>), sample_keys)"
    by (simp add: findActiveByPublicId_def sample_keys_def sample_row_def sample_key_def key_active_def)
  have marked: "markUsed (live 7) ''k1'' sample_keys =
      (Inr (), sample_keys\<lparr>kd_keys := [sample_row\<lparr>kr_lastUsed := Some 7\<rparr>]\<rparr>)"
    using sample_row_ok
    by (simp add: markUsed_def update_keys_def sample_keys_def) (simp add: sample_row_def)
  show ?thesis
    by (simp add: authenticate_def later_live live_check sample_parses and_do_def from_sum_def
        postgres_key_store_def found marked sample_digest apiKeyDigestsMatch_def done_with_def)
qed

lemma authenticate_sound_witness:
  "kr_digest sample_row = apiKeyDigest sample_hmac sample_key ''pepper''"
  using authenticate_sound [OF sample_authenticates [of "''pepper''"]] sample_parses
  by (auto simp: sample_keys_def)

subsection \<open>Revocation is final\<close>

definition key_dead :: "string \<Rightarrow> key_db \<Rightarrow> bool" where
  "key_dead keyId db \<longleftrightarrow> (\<exists>k\<in>set (kd_keys db). kr_id k = keyId) \<and>
     (\<forall>k\<in>set (kd_keys db). kr_id k = keyId \<longrightarrow> kr_revoked k \<noteq> None)"

definition account_dead :: "string \<Rightarrow> key_db \<Rightarrow> bool" where
  "account_dead accountId db \<longleftrightarrow> (\<exists>a\<in>set (kd_accounts db). ar_id a = accountId) \<and>
     (\<forall>a\<in>set (kd_accounts db). ar_id a = accountId \<longrightarrow> \<not> ar_active a)"

lemma bex_map: "(\<exists>y\<in>set (map f xs). P y) \<longleftrightarrow> (\<exists>x\<in>set xs. P (f x))"
  by simp

lemma ball_map: "(\<forall>y\<in>set (map f xs). P y) \<longleftrightarrow> (\<forall>x\<in>set xs. P (f x))"
  by simp

lemmas over_rows = bex_map ball_map

lemma account_dead_map:
  assumes "account_dead accountId db" and "\<And>a. ar_id (f a) = ar_id a" and "\<And>a. \<not> ar_active a \<Longrightarrow> \<not> ar_active (f a)"
  shows "account_dead accountId (db\<lparr>kd_accounts := map f (kd_accounts db)\<rparr>)"
  using assms unfolding account_dead_def by auto

lemma key_dead_map:
  assumes "key_dead keyId db" and "\<And>k. kr_id (f k) = kr_id k" and "\<And>k. kr_revoked k \<noteq> None \<Longrightarrow> kr_revoked (f k) \<noteq> None"
  shows "key_dead keyId (db\<lparr>kd_keys := map f (kd_keys db)\<rparr>)"
  using assms unfolding key_dead_def by auto

lemma key_step_key_dead:
  assumes "key_step hmac pepper db db'" and "key_dead keyId db"
  shows "key_dead keyId db'"
  using assms
proof (induction rule: key_step.induct)
  case (create_account accountId db r db')
  then show ?case by (auto simp: createAccount_def key_dead_def split: if_splits)
next
  case (create_key now keyId' accountId key expiresAt db r db')
  then show ?case unfolding createKey_def Let_def key_dead_def list_ex_iff
    by (simp split: if_splits) (elim conjE, hypsubst, simp, blast)
next
  case (revoke_key now keyId' db r db')
  from update_keys_cases [OF revoke_key(1) [unfolded revokeKey_def]] revoke_key(2) show ?case
    using key_dead_map [of keyId db "\<lambda>k. if kr_id k = keyId' then k\<lparr>kr_revoked := Some now\<rparr> else k"] by auto
next
  case (disable_account accountId db r db')
  then show ?case by (auto simp: disableAccount_def key_dead_def)
next
  case (authentication ex token db q db')
  from authenticate_changes [OF authentication(1)] authentication(2) show ?case
  proof (elim disjE exE)
    fix used assume "db' = db\<lparr>kd_keys := map (\<lambda>k. if kr_id k = used then k\<lparr>kr_lastUsed := Some (ex_now ex)\<rparr> else k) (kd_keys db)\<rparr>"
    with authentication(2) show ?thesis
      using key_dead_map [of keyId db "\<lambda>k. if kr_id k = used then k\<lparr>kr_lastUsed := Some (ex_now ex)\<rparr> else k"] by simp
  qed simp
qed

lemma key_step_account_dead:
  assumes "key_step hmac pepper db db'" and "account_dead accountId db"
  shows "account_dead accountId db'"
  using assms
proof (induction rule: key_step.induct)
  case (create_account accountId' db r db')
  then show ?case unfolding createAccount_def account_dead_def list_ex_iff
    by (simp split: if_splits) (elim conjE, hypsubst, simp, blast)
next
  case (create_key now keyId' accountId' key expiresAt db r db')
  then show ?case by (auto simp: createKey_def Let_def account_dead_def split: if_splits)
next
  case (revoke_key now keyId' db r db')
  from update_keys_cases [OF revoke_key(1) [unfolded revokeKey_def]] revoke_key(2) show ?case
    by (auto simp: account_dead_def)
next
  case (disable_account accountId' db r db')
  then show ?case
    using account_dead_map [of accountId db "\<lambda>a. if ar_id a = accountId' then a\<lparr>ar_active := False\<rparr> else a"]
    by (simp add: disableAccount_def)
next
  case (authentication ex token db q db')
  from authenticate_changes [OF authentication(1)] authentication(2) show ?case by (auto simp: account_dead_def)
qed

lemma key_steps_dead:
  assumes "key_steps hmac pepper db db'"
  shows "(key_dead keyId db \<longrightarrow> key_dead keyId db') \<and> (account_dead accountId db \<longrightarrow> account_dead accountId db')"
  using assms by (induction rule: key_steps.induct) (auto dest: key_step_key_dead key_step_account_dead)

lemma revokeKey_dead:
  assumes "revokeKey now keyId db = (Inr (), db')" and "keyId \<in> kr_id ` set (kd_keys db)"
  shows "key_dead keyId db'"
proof -
  from assms(1) have rows: "kd_keys db' = map (\<lambda>k. if kr_id k = keyId then k\<lparr>kr_revoked := Some now\<rparr> else k) (kd_keys db)"
    by (auto simp: revokeKey_def update_keys_def Let_def split: if_splits)
  from assms(2) show ?thesis unfolding key_dead_def rows over_rows by auto
qed

lemma disableAccount_dead:
  assumes "disableAccount accountId db = (r, db')" and "accountId \<in> ar_id ` set (kd_accounts db)"
  shows "account_dead accountId db'"
proof -
  from assms(1) have rows: "kd_accounts db' = map (\<lambda>a. if ar_id a = accountId then a\<lparr>ar_active := False\<rparr> else a) (kd_accounts db)"
    by (auto simp: disableAccount_def)
  from assms(2) show ?thesis unfolding account_dead_def rows over_rows by auto
qed

text \<open>Revocation is final. Once an existing key was revoked and an existing account disabled, no sequence of
  store operations and authentications, by any client and at any time, leads to a state in which a token
  is authenticated as that key, or as any key of that account.\<close>

theorem revocation_final:
  assumes "keyId \<in> kr_id ` set (kd_keys db)" and "revokeKey now keyId db = (Inr (), db1)"
    and "accountId \<in> ar_id ` set (kd_accounts db1)" and "disableAccount accountId db1 = (r, db2)"
    and "key_steps hmac pepper db2 db3"
    and "authenticate hmac postgres_key_store pepper ex token db3 = (Inr (Some a), db4)"
  shows "ak_apiKeyId a \<noteq> keyId \<and> ak_accountId a \<noteq> accountId"
proof -
  have "key_dead keyId db2"
    using key_step_key_dead [OF key_step.disable_account [OF assms(4)]] revokeKey_dead [OF assms(2,1)] by blast
  then have dead: "key_dead keyId db3" and gone: "account_dead accountId db3"
    using key_steps_dead [OF assms(5)] disableAccount_dead [OF assms(4,3)] by blast+
  show ?thesis
  proof (rule authenticate_Some [OF assms(6)])
    fix k assume k: "k \<in> set (kd_keys db3)" "key_active (ex_now ex) db3 k"
      and a: "a = \<lparr>ak_accountId = kr_account k, ak_apiKeyId = kr_id k\<rparr>"
    from k dead have "kr_id k \<noteq> keyId" by (auto simp: key_active_def key_dead_def)
    moreover from k gone have "kr_account k \<noteq> accountId"
      by (auto simp: key_active_def account_dead_def list_ex_iff)
    ultimately show ?thesis by (simp add: a)
  qed
qed

definition old_row :: api_key_row where
  "old_row = sample_row\<lparr>kr_id := ''k0'', kr_publicId := replicate 16 (CHR ''o''), kr_revoked := Some 6\<rparr>"

lemma revocation_final_witness:
  "''k1'' \<noteq> ''k0'' \<and> ''a1'' \<noteq> ''a2''"
proof -
  let ?accounts = "\<lambda>active. [\<lparr>ar_id = ''a2'', ar_active = active\<rparr>, \<lparr>ar_id = ''a1'', ar_active = True\<rparr>]"
  let ?db = "\<lparr>kd_accounts = ?accounts True, kd_keys = [old_row\<lparr>kr_revoked := None\<rparr>, sample_row]\<rparr>"
  let ?db1 = "\<lparr>kd_accounts = ?accounts True, kd_keys = [old_row, sample_row]\<rparr>"
  let ?db2 = "\<lparr>kd_accounts = ?accounts False, kd_keys = [old_row, sample_row]\<rparr>"
  have rows: "api_key_row_ok old_row" "api_key_row_ok sample_row" "api_key_row_ok (sample_row\<lparr>kr_lastUsed := Some 7\<rparr>)"
    by (simp_all add: api_key_row_ok_def sample_row_def old_row_def base64url_string_def list_all_iff token_char_def
        alnum_char_def lower_char_def code_of_def)
  have revoked: "revokeKey 6 ''k0'' ?db = (Inr (), ?db1)"
    using rows(1,2) by (simp add: revokeKey_def update_keys_def) (simp add: old_row_def sample_row_def)
  have disabled: "disableAccount ''a2'' ?db1 = (Inr (), ?db2)" by (simp add: disableAccount_def)
  have found: "findActiveByPublicId (live 7) (pt_publicId sample_key) ?db2 =
      (Inr (Some \<lparr>sk_id = ''k1'', sk_accountId = ''a1'', sk_secretDigest = replicate 32 (CHR ''s'')\<rparr>), ?db2)"
    by (simp add: findActiveByPublicId_def sample_row_def old_row_def sample_key_def key_active_def)
  obtain db4 where marked: "markUsed (live 7) ''k1'' ?db2 = (Inr (), db4)"
    using rows(1,3) by (simp add: markUsed_def update_keys_def) (simp add: old_row_def sample_row_def)
  have auth: "authenticate sample_hmac postgres_key_store [] (live 7) sample_token ?db2 =
      (Inr (Some \<lparr>ak_accountId = ''a1'', ak_apiKeyId = ''k1''\<rparr>), db4)"
    by (simp add: authenticate_def later_live live_check sample_parses and_do_def from_sum_def
        postgres_key_store_def found marked sample_digest apiKeyDigestsMatch_def done_with_def)
  from revocation_final [OF _ revoked _ disabled key_steps.start auth] show ?thesis
    by (simp add: old_row_def)
qed

subsection \<open>A key answers to its own token only\<close>

definition key_is :: "string \<Rightarrow> string \<Rightarrow> string \<Rightarrow> string \<Rightarrow> key_db \<Rightarrow> bool" where
  "key_is keyId accountId publicId digest db \<longleftrightarrow> (\<exists>k\<in>set (kd_keys db). kr_id k = keyId) \<and>
     (\<forall>k\<in>set (kd_keys db). kr_id k = keyId \<longrightarrow>
        kr_account k = accountId \<and> kr_publicId k = publicId \<and> kr_digest k = digest)"

lemma key_is_map:
  assumes "key_is keyId accountId publicId digest db" and "kd_keys db' = map f (kd_keys db)"
    and "\<And>k. kr_id (f k) = kr_id k \<and> kr_account (f k) = kr_account k \<and> kr_publicId (f k) = kr_publicId k \<and>
      kr_digest (f k) = kr_digest k"
  shows "key_is keyId accountId publicId digest db'"
  using assms unfolding key_is_def by auto

lemma key_step_key_is:
  assumes "key_step hmac pepper db db'" and "key_is keyId accountId publicId digest db"
  shows "key_is keyId accountId publicId digest db'"
  using assms
proof (induction rule: key_step.induct)
  case (create_account accountId' db r db')
  then show ?case by (auto simp: createAccount_def key_is_def split: if_splits)
next
  case (create_key now keyId' accountId' key expiresAt db r db')
  then show ?case unfolding createKey_def Let_def key_is_def list_ex_iff
    by (simp split: if_splits) (elim conjE, hypsubst, simp, blast)
next
  case (revoke_key now keyId' db r db')
  from update_keys_cases [OF revoke_key(1) [unfolded revokeKey_def]] revoke_key(2) show ?case
    using key_is_map [of keyId accountId publicId digest db db' "\<lambda>k. if kr_id k = keyId' then k\<lparr>kr_revoked := Some now\<rparr> else k"]
    by auto
next
  case (disable_account accountId' db r db')
  then show ?case by (auto simp: disableAccount_def key_is_def)
next
  case (authentication ex token db q db')
  from authenticate_changes [OF authentication(1)] show ?case
  proof (elim disjE exE)
    fix used assume "db' = db\<lparr>kd_keys := map (\<lambda>k. if kr_id k = used then k\<lparr>kr_lastUsed := Some (ex_now ex)\<rparr> else k) (kd_keys db)\<rparr>"
    with authentication(2) show ?thesis
      using key_is_map [of keyId accountId publicId digest db db'
          "\<lambda>k. if kr_id k = used then k\<lparr>kr_lastUsed := Some (ex_now ex)\<rparr> else k"] by simp
  qed (use authentication(2) in simp)
qed

lemma key_steps_key_is:
  "key_steps hmac pepper db db' \<Longrightarrow> key_is keyId accountId publicId digest db \<Longrightarrow> key_is keyId accountId publicId digest db'"
  by (induction rule: key_steps.induct) (auto dest: key_step_key_is)

lemma createKey_key_is:
  "createKey hmac pepper now keyId accountId key expiresAt db = (Inr (), db') \<Longrightarrow>
     key_is keyId accountId (pt_publicId key) (apiKeyDigest hmac key pepper) db'"
  unfolding createKey_def Let_def key_is_def list_ex_iff
    by (simp split: if_splits) (elim conjE, hypsubst, auto)

text \<open>C18. A key answers to its own token only. If a key was created for a public id and a secret, then in every
  later state a token that is authenticated as this key is the token of exactly that public id and
  secret, for the key's account, or it exhibits a collision of HMAC under the pepper.\<close>

theorem token_of_key_unique:
  assumes "createKey hmac pepper now keyId accountId key expiresAt db = (Inr (), db1)"
    and "key_steps hmac pepper db1 db2"
    and "authenticate hmac postgres_key_store pepper ex token db2 = (Inr (Some a), db3)"
    and "ak_apiKeyId a = keyId"
  shows "ak_accountId a = accountId \<and>
    (token = ''swk.'' @ pt_publicId key @ ''.'' @ pt_secret key \<or>
     (\<exists>other. key_preimage other \<noteq> key_preimage key \<and> hmac pepper (key_preimage other) = hmac pepper (key_preimage key)))"
proof (rule authenticate_Some [OF assms(3)])
  fix parsed k
  assume parsed: "parseApiKeyToken token = Some parsed" and k: "k \<in> set (kd_keys db2)"
    "kr_publicId k = pt_publicId parsed" "kr_digest k = apiKeyDigest hmac parsed pepper"
    and a: "a = \<lparr>ak_accountId = kr_account k, ak_apiKeyId = kr_id k\<rparr>"
  have "key_is keyId accountId (pt_publicId key) (apiKeyDigest hmac key pepper) db2"
    using key_steps_key_is [OF assms(2) createKey_key_is [OF assms(1)]] .
  with k a assms(4) have row: "kr_account k = accountId" "pt_publicId parsed = pt_publicId key"
    "hmac pepper (key_preimage parsed) = hmac pepper (key_preimage key)"
    by (auto simp: key_is_def apiKeyDigest_def)
  show ?thesis
  proof (cases "key_preimage parsed = key_preimage key")
    case True
    then have "pt_secret parsed = pt_secret key" using row(2) by (simp add: key_preimage_def)
    with parsed row a show ?thesis by (simp add: parse_token)
  next
    case False
    with row a show ?thesis by auto
  qed
qed

text \<open>A fresh key works. When a key is created in a well-formed table for an active account, its token is
  authenticated as this key and account until it expires, and only its time of last use changes.\<close>

theorem created_key_authenticates:
  assumes "key_db_ok db" and "createKey hmac pepper now keyId accountId key expiresAt db = (Inr (), db1)"
    and "\<lparr>ar_id = accountId, ar_active = True\<rparr> \<in> set (kd_accounts db)" and "base64url_string 43 (pt_secret key)"
    and "now \<le> at_time" and "case_option True (\<lambda>t. at_time < t) expiresAt"
  shows "authenticate hmac postgres_key_store pepper (live at_time) (''swk.'' @ pt_publicId key @ ''.'' @ pt_secret key) db1 =
    (Inr (Some \<lparr>ak_accountId = accountId, ak_apiKeyId = keyId\<rparr>),
     db1\<lparr>kd_keys := map (\<lambda>k. if kr_id k = keyId then k\<lparr>kr_lastUsed := Some at_time\<rparr> else k) (kd_keys db1)\<rparr>)"
proof -
  let ?k = "\<lparr>kr_id = keyId, kr_account = accountId, kr_publicId = pt_publicId key,
     kr_digest = apiKeyDigest hmac key pepper, kr_created = now, kr_expires = expiresAt,
     kr_revoked = None, kr_lastUsed = None\<rparr>"
  from assms(2) have row: "api_key_row_ok ?k" and fresh: "\<forall>k\<in>set (kd_keys db). kr_id k \<noteq> keyId \<and> kr_publicId k \<noteq> pt_publicId key"
    and db1: "db1 = db\<lparr>kd_keys := kd_keys db @ [?k]\<rparr>"
    by (auto simp: createKey_def Let_def list_ex_iff split: if_splits)
  have parsed: "parseApiKeyToken (''swk.'' @ pt_publicId key @ ''.'' @ pt_secret key) =
      Some \<lparr>pt_publicId = pt_publicId key, pt_secret = pt_secret key\<rparr>"
    using row assms(4) by (simp add: parse_token api_key_row_ok_def)
  have none: "find (\<lambda>k. kr_publicId k = pt_publicId key \<and> P k) (kd_keys db) = None" for P
    using fresh by (auto simp: find_None_iff)
  have find_append: "find P (xs @ ys) = (case find P xs of None \<Rightarrow> find P ys | Some x \<Rightarrow> Some x)"
    for P and xs ys :: "api_key_row list"
    by (induction xs) auto
  have "key_active at_time db1 ?k"
    using assms(6) bexI [OF _ assms(3), of "\<lambda>a. ar_id a = accountId \<and> ar_active a"]
    by (auto simp: key_active_def db1 list_ex_iff)
  then have found: "findActiveByPublicId (live at_time) (pt_publicId key) db1 =
      (Inr (Some \<lparr>sk_id = keyId, sk_accountId = accountId, sk_secretDigest = apiKeyDigest hmac key pepper\<rparr>), db1)"
    unfolding findActiveByPublicId_def by (simp add: db1 find_append none)
  have ok: "list_all api_key_row_ok (kd_keys db)" using assms(1) by (simp add: key_db_ok_def)
  have "api_key_row_ok (?k\<lparr>kr_lastUsed := Some at_time\<rparr>)"
    using row assms(5) by (cases expiresAt) (simp_all add: api_key_row_ok_def)
  then have "list_all api_key_row_ok (map (\<lambda>k. if kr_id k = keyId then k\<lparr>kr_lastUsed := Some at_time\<rparr> else k) (kd_keys db1))"
    using ok fresh by (auto simp: db1 list_all_iff)
  then have marked: "markUsed (live at_time) keyId db1 =
      (Inr (), db1\<lparr>kd_keys := map (\<lambda>k. if kr_id k = keyId then k\<lparr>kr_lastUsed := Some at_time\<rparr> else k) (kd_keys db1)\<rparr>)"
    by (simp add: markUsed_def update_keys_def Let_def)
  have digest: "apiKeyDigest hmac \<lparr>pt_publicId = pt_publicId key, pt_secret = pt_secret key\<rparr> pepper = apiKeyDigest hmac key pepper"
    by (simp add: apiKeyDigest_def key_preimage_def)
  show ?thesis
    unfolding authenticate_def later_live live_check parsed postgres_ops
    by (simp add: and_do_def from_sum_def found marked digest apiKeyDigestsMatch_def done_with_def)
qed

lemma created_key_authenticates_witness:
  "fst (authenticate sample_hmac postgres_key_store [] (live 9) (''swk.'' @ pt_publicId sample_key @ ''.'' @ pt_secret sample_key)
     \<lparr>kd_accounts = [\<lparr>ar_id = ''a1'', ar_active = True\<rparr>], kd_keys = [sample_row]\<rparr>) =
   Inr (Some \<lparr>ak_accountId = ''a1'', ak_apiKeyId = ''k1''\<rparr>)"
proof -
  have "api_key_row_ok sample_row"
    by (simp add: api_key_row_ok_def sample_row_def base64url_string_def list_all_iff token_char_def
        alnum_char_def lower_char_def code_of_def)
  then have "createKey sample_hmac [] 5 ''k1'' ''a1'' sample_key (Some 100)
      \<lparr>kd_accounts = [\<lparr>ar_id = ''a1'', ar_active = True\<rparr>], kd_keys = []\<rparr> =
    (Inr (), \<lparr>kd_accounts = [\<lparr>ar_id = ''a1'', ar_active = True\<rparr>], kd_keys = [sample_row]\<rparr>)"
    by (simp add: createKey_def sample_digest sample_row_def) (simp add: sample_key_def)
  from created_key_authenticates [OF _ this, of 9] show ?thesis
    by (simp add: key_db_ok_def sample_key_def base64url_string_def list_all_iff token_char_def
        alnum_char_def lower_char_def code_of_def)
qed

lemma token_of_key_unique_witness:
  "sample_token = ''swk.'' @ pt_publicId sample_key @ ''.'' @ pt_secret sample_key \<or>
   (\<exists>other. key_preimage other \<noteq> key_preimage sample_key \<and>
     sample_hmac [] (key_preimage other) = sample_hmac [] (key_preimage sample_key))"
proof -
  have "api_key_row_ok sample_row"
    by (simp add: api_key_row_ok_def sample_row_def base64url_string_def list_all_iff token_char_def
        alnum_char_def lower_char_def code_of_def)
  then have "createKey sample_hmac [] 5 ''k1'' ''a1'' sample_key (Some 100)
      \<lparr>kd_accounts = [\<lparr>ar_id = ''a1'', ar_active = True\<rparr>], kd_keys = []\<rparr> = (Inr (), sample_keys)"
    by (simp add: createKey_def sample_digest sample_row_def sample_keys_def) (simp add: sample_key_def)
  from token_of_key_unique [OF this key_steps.start sample_authenticates] show ?thesis by simp
qed

end
