(* ===== verification/Http_App.thy ===== *)
theory Http_App
  imports Authentication
begin

text \<open>
  The request path of the service: the three middlewares of \<open>src/authentication/middleware.ts\<close> and the
  application of \<open>src/transport/mcp/app.ts\<close> with \<open>src/observability/request-context.ts\<close>. A middleware
  answers itself or passes on. What the web framework and the MCP package compute from the raw request
  (the host check, the content type check, the size limit, the parsed body) are fields of the request;
  the MCP handler is a parameter over the rest of the world. The clock is read several times in one
  request: \<open>clock n\<close> is its n-th answer.
\<close>

subsection \<open>Requests, responses and the state of the application\<close>

record http_request =
  hr_method :: string
  hr_path :: string
  hr_authorization :: "string option"
  hr_hostOk :: bool
  hr_jsonContentType :: bool
  hr_bodyBytes :: nat
  hr_parsedBody :: "json option"
  hr_requestId :: string

datatype 'm http_response =
  Envelope nat "(string \<times> string) list" SafeErrorEnvelope
| Json_Status nat string
| Method_Not_Allowed
| Mcp_Response 'm

record ('k, 'w) app_state =
  as_authenticationLimiter :: AuthenticationRateLimiter
  as_limiter :: AccountApiKeyRateLimiter
  as_ready :: bool
  as_keys :: 'k
  as_world :: 'w
  as_log :: "json list"

record 'k app_options =
  ao_hmac :: hmac
  ao_pepper :: string
  ao_keyStore :: "'k api_key_store"
  ao_maximumRequestBodyBytes :: nat
  ao_requestDeadlineMilliseconds :: int

datatype ('m, 'a) gate = Respond "'m http_response" | Pass 'a

definition emit :: "SecurityEventName \<Rightarrow> SecurityEventFields \<Rightarrow> ('k, 'w) app_state \<Rightarrow> ('k, 'w) app_state" where
  "emit event fs st = st\<lparr>as_log := as_log st @ [emitted event fs]\<rparr>"

text \<open>The refusals all have one shape: log the event, answer with the envelope of a code.\<close>

definition refuse ::
  "SecurityEventName \<Rightarrow> SecurityEventFields \<Rightarrow> SkillWireErrorCode \<Rightarrow> nat \<Rightarrow> (string \<times> string) list \<Rightarrow> string \<Rightarrow>
   (('k, 'w) app_state, ('m, 'a) gate) io" where
  "refuse event fs code status headers requestId st =
     (Inr (Respond (Envelope status headers (safeErrorEnvelope (SkillWireError code) requestId))),
      emit event (fs\<lparr>ef_requestId := Some requestId, ef_code := Some code, ef_status := Some (int status)\<rparr>) st)"

definition pass_on ::
  "('s, ('m, 'a) gate) io \<Rightarrow> ('a \<Rightarrow> ('s, ('m, 'b) gate) io) \<Rightarrow> ('s, ('m, 'b) gate) io" where
  "pass_on m f = and_do m (\<lambda>g. case g of Respond r \<Rightarrow> done_with (Respond r) | Pass x \<Rightarrow> f x)"

subsection \<open>The middlewares\<close>

text \<open>\<open>/^Bearer ([^\s]+)$/\<close>\<close>

definition bearer_token :: "string option \<Rightarrow> string option" where
  "bearer_token authorization =
     (case authorization of None \<Rightarrow> None
      | Some h \<Rightarrow> (let token = drop 7 h
                   in if starts_with ''Bearer '' h \<and> token \<noteq> [] \<and> \<not> has_space token then Some token else None))"

definition rateLimitAuthentication ::
  "int \<Rightarrow> http_request \<Rightarrow> (('k, 'w) app_state, ('m, unit) gate) io" where
  "rateLimitAuthentication now q st =
     (case bearer_token (hr_authorization q) of
        None \<Rightarrow> (Inr (Pass ()), st)
      | Some token \<Rightarrow>
          if parseApiKeyToken token = None then (Inr (Pass ()), st)
          else (case consume_authentication now (as_authenticationLimiter st) of
                  (decision, l) \<Rightarrow>
                    if \<not> rd_allowed decision
                    then refuse request_rate_limited no_fields RATE_LIMITED 429
                           [(''Retry-After'', show_int (rd_retryAfterSeconds decision))] (hr_requestId q)
                           (st\<lparr>as_authenticationLimiter := l\<rparr>)
                    else (Inr (Pass ()), st\<lparr>as_authenticationLimiter := l\<rparr>)))"

definition on_keys :: "('k, 'a) io \<Rightarrow> (('k, 'w) app_state, 'a) io" where
  "on_keys m st = (case m (as_keys st) of (r, ks) \<Rightarrow> (r, st\<lparr>as_keys := ks\<rparr>))"

definition bearerAuthentication ::
  "'k app_options \<Rightarrow> RequestExecution \<Rightarrow> http_request \<Rightarrow> (('k, 'w) app_state, ('m, RequestPrincipal) gate) io" where
  "bearerAuthentication options ex q =
     and_do (case bearer_token (hr_authorization q) of
               None \<Rightarrow> done_with None
             | Some token \<Rightarrow> on_keys (authenticate (ao_hmac options) (ao_keyStore options) (ao_pepper options) ex token))
       (\<lambda>authenticated. case authenticated of
          None \<Rightarrow> refuse authentication_failed no_fields UNAUTHENTICATED 401
                    [(''WWW-Authenticate'', ''Bearer'')] (hr_requestId q)
        | Some key \<Rightarrow> done_with (Pass
            \<lparr>rp_accountId = ak_accountId key, rp_apiKeyId = ak_apiKeyId key,
             rp_requestId = hr_requestId q, rp_execution = ex\<rparr>))"

definition rateLimitRequests ::
  "int \<Rightarrow> RequestPrincipal \<Rightarrow> (('k, 'w) app_state, ('m, unit) gate) io" where
  "rateLimitRequests now caller st =
     (case consume_request now (rp_accountId caller) (rp_apiKeyId caller) (as_limiter st) of
        (decision, l) \<Rightarrow>
          if \<not> rd_allowed decision
          then refuse request_rate_limited
                 (no_fields\<lparr>ef_accountId := Some (rp_accountId caller), ef_apiKeyId := Some (rp_apiKeyId caller)\<rparr>)
                 RATE_LIMITED 429 [(''Retry-After'', show_int (rd_retryAfterSeconds decision))]
                 (rp_requestId caller) (st\<lparr>as_limiter := l\<rparr>)
          else (Inr (Pass ()), st\<lparr>as_limiter := l\<rparr>))"

subsection \<open>The application\<close>

type_synonym ('w, 'm) mcp_handler = "RequestPrincipal \<Rightarrow> json \<Rightarrow> ('w, 'm) io"

definition on_world :: "('w, 'a) io \<Rightarrow> (('k, 'w) app_state, 'a) io" where
  "on_world m st = (case m (as_world st) of (r, w) \<Rightarrow> (r, st\<lparr>as_world := w\<rparr>))"

text \<open>The three middlewares in their order, and the handler.\<close>

definition middlewares ::
  "'k app_options \<Rightarrow> ('w, 'm) mcp_handler \<Rightarrow> (nat \<Rightarrow> int) \<Rightarrow> RequestExecution \<Rightarrow> http_request \<Rightarrow>
   (('k, 'w) app_state, ('m, unit) gate) io" where
  "middlewares options handler clock ex q =
     pass_on (rateLimitAuthentication (clock 2) q) (\<lambda>_.
     pass_on (bearerAuthentication options ex q) (\<lambda>caller.
     pass_on (rateLimitRequests (clock 3) caller) (\<lambda>_.
     case (if hr_method q = ''POST'' then hr_parsedBody q else None) of
       None \<Rightarrow> done_with (Respond Method_Not_Allowed)
     | Some body \<Rightarrow> and_do (on_world (handler caller body)) (\<lambda>m. done_with (Respond (Mcp_Response m))))))"

text \<open>The chain of \<open>/mcp\<close>. The limit of the body is checked for every method; only a POST is parsed.\<close>

definition mcp_route ::
  "'k app_options \<Rightarrow> ('w, 'm) mcp_handler \<Rightarrow> (nat \<Rightarrow> int) \<Rightarrow> RequestExecution \<Rightarrow> http_request \<Rightarrow>
   (('k, 'w) app_state, 'm http_response) io" where
  "mcp_route options handler clock ex q st =
     (let rejected = (\<lambda>code status. refuse request_rejected no_fields code status [] (hr_requestId q));
          quiet = (\<lambda>code status. done_with (Respond (Envelope status [] (safeErrorEnvelope (SkillWireError code) (hr_requestId q)))));
          post = (hr_method q = ''POST'');
          guard = (\<lambda>refused answer. if refused then answer else done_with (Pass ()))
      in and_do
           (pass_on (guard (\<not> as_ready st) (quiet INTERNAL 503)) (\<lambda>_.
            pass_on (guard (post \<and> \<not> hr_jsonContentType q) (rejected INVALID_ARGUMENT 400)) (\<lambda>_.
            pass_on (guard (ao_maximumRequestBodyBytes options < hr_bodyBytes q) (rejected INVALID_ARGUMENT 413)) (\<lambda>_.
            pass_on (guard (post \<and> hr_parsedBody q = None) (quiet INVALID_ARGUMENT 400)) (\<lambda>_.
            middlewares options handler clock ex q)))))
           (\<lambda>g. case g of Respond r \<Rightarrow> done_with r | Pass (u :: unit) \<Rightarrow> done_with Method_Not_Allowed) st)"

datatype 'm answer = Answered "'m http_response" | Not_Found_404

text \<open>Host check, health routes and \<open>/mcp\<close>; \<open>onError\<close> turns whatever was thrown into a 500.\<close>

definition routes ::
  "'k app_options \<Rightarrow> ('w, 'm) mcp_handler \<Rightarrow> (nat \<Rightarrow> int) \<Rightarrow> RequestExecution \<Rightarrow> http_request \<Rightarrow>
   (('k, 'w) app_state, 'm answer) io" where
  "routes options handler clock ex q st =
     (if \<not> hr_hostOk q
      then (Inr (Answered (Envelope 403 [] (safeErrorEnvelope (SkillWireError INVALID_ARGUMENT) (hr_requestId q)))),
            emit request_rejected (no_fields\<lparr>ef_requestId := Some (hr_requestId q), ef_code := Some INVALID_ARGUMENT,
              ef_status := Some 403\<rparr>) st)
      else if hr_method q = ''GET'' \<and> hr_path q = ''/health/live''
      then (Inr (Answered (Json_Status 200 ''ok'')), st)
      else if hr_method q = ''GET'' \<and> hr_path q = ''/health/ready''
      then (Inr (Answered (if as_ready st then Json_Status 200 ''ready'' else Json_Status 503 ''not-ready'')), st)
      else if hr_path q = ''/mcp''
      then and_do (mcp_route options handler clock ex q) (\<lambda>r. done_with (Answered r)) st
      else (Inr Not_Found_404, st))"

definition onError :: "http_request \<Rightarrow> ('k, 'w) app_state \<Rightarrow> 'm answer \<times> ('k, 'w) app_state" where
  "onError q st =
     (Answered (Envelope 500 [] (safeErrorEnvelope (SkillWireError INTERNAL) (hr_requestId q))),
      emit request_rejected (no_fields\<lparr>ef_requestId := Some (hr_requestId q), ef_code := Some INTERNAL,
        ef_status := Some 500\<rparr>) st)"

definition deadline_passed :: "http_request \<Rightarrow> ('k, 'w) app_state \<Rightarrow> 'm answer \<times> ('k, 'w) app_state" where
  "deadline_passed q st =
     (Answered (Envelope 503 [] (safeErrorEnvelope (SkillWireError INTERNAL) (hr_requestId q))),
      emit request_rejected (no_fields\<lparr>ef_requestId := Some (hr_requestId q), ef_code := Some INTERNAL,
        ef_status := Some 503\<rparr>) st)"

text \<open>One request: the deadline is set, checked before the routes run, and after them, when the timer won the
  race (\<open>timed_out\<close>, which also aborts the request) or the deadline has passed, the answer is replaced. The
  framework hands a throw of the routes to \<open>onError\<close> at once and routes \<open>HEAD\<close> as \<open>GET\<close>, so
  \<open>hr_method\<close> is the routed method.\<close>

definition handle_request ::
  "'k app_options \<Rightarrow> ('w, 'm) mcp_handler \<Rightarrow> (nat \<Rightarrow> int) \<Rightarrow> bool \<Rightarrow> RequestExecution \<Rightarrow> http_request \<Rightarrow>
   ('k, 'w) app_state \<Rightarrow> 'm answer \<times> ('k, 'w) app_state" where
  "handle_request options handler clock timed_out ex q st =
     (let deadline = clock 0 + ao_requestDeadlineMilliseconds options
      in if deadline \<le> clock 1 then deadline_passed q st
         else (case routes options handler clock ex q st of
                 (result, st1) \<Rightarrow>
                   (case (case result of Inl e \<Rightarrow> onError q st1 | Inr r \<Rightarrow> (r, st1)) of
                      (r, st2) \<Rightarrow>
                        if timed_out \<or> deadline \<le> clock 4 then deadline_passed q st2 else (r, st2))))"

subsection \<open>Running the chain\<close>

lemma pass_on_cases:
  assumes "pass_on m f w = (g, w2)"
  obtains (failed) e where "m w = (Inl e, w2)" and "g = Inl e"
  | (answered) r where "m w = (Inr (Respond r), w2)" and "g = Inr (Respond r)"
  | (passed) x w1 where "m w = (Inr (Pass x), w1)" and "f x w1 = (g, w2)"
  using assms by (auto simp: pass_on_def and_do_def done_with_def split: prod.splits sum.splits gate.splits)

lemma refuse_run:
  assumes "refuse event fs code status headers requestId st = (g, st')"
  shows "g = Inr (Respond (Envelope status headers (safeErrorEnvelope (SkillWireError code) requestId))) \<and>
    as_world st' = as_world st \<and> as_keys st' = as_keys st \<and> as_limiter st' = as_limiter st \<and>
    as_authenticationLimiter st' = as_authenticationLimiter st \<and> as_ready st' = as_ready st \<and>
    (\<exists>fs'. as_log st' = as_log st @ [emitted event fs'])"
  using assms by (auto simp: refuse_def emit_def)

text \<open>What each middleware may touch.\<close>

lemma rateLimitAuthentication_run:
  assumes "rateLimitAuthentication now q st = (g, st')"
  shows "as_world st' = as_world st \<and> as_keys st' = as_keys st \<and> as_limiter st' = as_limiter st \<and>
    as_ready st' = as_ready st \<and> (g = Inr (Pass ()) \<or> (\<exists>headers. g = Inr (Respond (Envelope 429 headers
      (safeErrorEnvelope (SkillWireError RATE_LIMITED) (hr_requestId q))))))"
  using assms unfolding rateLimitAuthentication_def
  by (auto split: option.splits if_splits prod.splits dest!: refuse_run)

lemma bearerAuthentication_run:
  assumes "bearerAuthentication options ex q st = (g, st')"
  shows "as_world st' = as_world st \<and> as_limiter st' = as_limiter st \<and>
    as_authenticationLimiter st' = as_authenticationLimiter st \<and> as_ready st' = as_ready st \<and>
    (\<forall>caller. g = Inr (Pass caller) \<longrightarrow>
       (\<exists>token key. bearer_token (hr_authorization q) = Some token \<and>
          authenticate (ao_hmac options) (ao_keyStore options) (ao_pepper options) ex token (as_keys st) =
            (Inr (Some key), as_keys st') \<and>
          caller = \<lparr>rp_accountId = ak_accountId key, rp_apiKeyId = ak_apiKeyId key,
             rp_requestId = hr_requestId q, rp_execution = ex\<rparr>)) \<and>
    (\<forall>r. g = Inr (Respond r) \<longrightarrow> r = Envelope 401 [(''WWW-Authenticate'', ''Bearer'')]
       (safeErrorEnvelope (SkillWireError UNAUTHENTICATED) (hr_requestId q)))"
  using assms unfolding bearerAuthentication_def and_do_def
  by (auto simp: on_keys_def done_with_def split: option.splits prod.splits sum.splits dest!: refuse_run)

lemma rateLimitRequests_run:
  assumes "rateLimitRequests now caller st = (g, st')"
  shows "as_world st' = as_world st \<and> as_keys st' = as_keys st \<and> as_ready st' = as_ready st \<and>
    as_limiter st' = snd (consume_request now (rp_accountId caller) (rp_apiKeyId caller) (as_limiter st)) \<and>
    (if rd_allowed (fst (consume_request now (rp_accountId caller) (rp_apiKeyId caller) (as_limiter st)))
     then g = Inr (Pass ())
     else (\<exists>headers. g = Inr (Respond (Envelope 429 headers
       (safeErrorEnvelope (SkillWireError RATE_LIMITED) (rp_requestId caller))))))"
  using assms unfolding rateLimitRequests_def
  by (auto split: if_splits prod.splits dest!: refuse_run)

text \<open>The four guards in front of the middlewares.\<close>

definition guard_answer :: "'k app_options \<Rightarrow> http_request \<Rightarrow> bool \<Rightarrow> (nat \<times> SkillWireErrorCode) option" where
  "guard_answer options q ready =
     (if \<not> ready then Some (503, INTERNAL)
      else if hr_method q = ''POST'' \<and> \<not> hr_jsonContentType q then Some (400, INVALID_ARGUMENT)
      else if ao_maximumRequestBodyBytes options < hr_bodyBytes q then Some (413, INVALID_ARGUMENT)
      else if hr_method q = ''POST'' \<and> hr_parsedBody q = None then Some (400, INVALID_ARGUMENT)
      else None)"

lemma pass_on_Pass: "pass_on (done_with (Pass x)) f = f x"
  by (rule ext) (simp add: pass_on_def and_do_def done_with_def)

lemma mcp_route_cases:
  assumes "mcp_route options handler clock ex q st = (r, st')"
  obtains (guarded) status code where "guard_answer options q (as_ready st) = Some (status, code)"
      and "r = Inr (Envelope status [] (safeErrorEnvelope (SkillWireError code) (hr_requestId q)))"
      and "as_world st' = as_world st" and "as_keys st' = as_keys st" and "as_limiter st' = as_limiter st"
      and "as_authenticationLimiter st' = as_authenticationLimiter st" and "as_ready st' = as_ready st"
  | (through) g where "guard_answer options q (as_ready st) = None"
      and "middlewares options handler clock ex q st = (g, st')"
      and "r = map_sum id (\<lambda>a. case a of Respond x \<Rightarrow> x | Pass u \<Rightarrow> Method_Not_Allowed) g"
proof (cases "guard_answer options q (as_ready st)")
  case None
  then have none: "(\<not> as_ready st) = False" "(hr_method q = ''POST'' \<and> \<not> hr_jsonContentType q) = False"
    "(ao_maximumRequestBodyBytes options < hr_bodyBytes q) = False"
    "(hr_method q = ''POST'' \<and> hr_parsedBody q = None) = False"
    by (auto simp: guard_answer_def split: if_splits)
  have "and_do (middlewares options handler clock ex q)
      (\<lambda>g. case g of Respond r \<Rightarrow> done_with r | Pass (u :: unit) \<Rightarrow> done_with Method_Not_Allowed) st = (r, st')"
    using assms unfolding mcp_route_def Let_def none if_False pass_on_Pass .
  then obtain g where "middlewares options handler clock ex q st = (g, st')"
      "r = map_sum id (\<lambda>a. case a of Respond x \<Rightarrow> x | Pass u \<Rightarrow> Method_Not_Allowed) g"
    by (auto simp: and_do_def done_with_def split: prod.splits sum.splits gate.splits)
  with None show ?thesis by (rule through)
next
  case (Some a)
  obtain status code where a: "a = (status, code)" by (cases a)
  have "r = Inr (Envelope status [] (safeErrorEnvelope (SkillWireError code) (hr_requestId q))) \<and>
    as_world st' = as_world st \<and> as_keys st' = as_keys st \<and> as_limiter st' = as_limiter st \<and>
    as_authenticationLimiter st' = as_authenticationLimiter st \<and> as_ready st' = as_ready st"
    using assms Some unfolding a guard_answer_def mcp_route_def Let_def
    by (auto simp: pass_on_def and_do_def done_with_def refuse_def emit_def split: if_splits)
  with Some a show ?thesis by (intro guarded) auto
qed

lemma middlewares_run:
  assumes "middlewares options handler clock ex q st = (g, st')"
  shows "(as_world st' = as_world st \<and> (\<forall>m. g \<noteq> Inr (Respond (Mcp_Response m)))) \<or>
    (\<exists>token key body. hr_method q = ''POST'' \<and> hr_parsedBody q = Some body \<and>
       bearer_token (hr_authorization q) = Some token \<and>
       authenticate (ao_hmac options) (ao_keyStore options) (ao_pepper options) ex token (as_keys st) =
         (Inr (Some key), as_keys st') \<and>
       rd_allowed (fst (consume_request (clock 3) (ak_accountId key) (ak_apiKeyId key) (as_limiter st))) \<and>
       (map_sum id (\<lambda>m. Respond (Mcp_Response m))
          (fst (handler \<lparr>rp_accountId = ak_accountId key, rp_apiKeyId = ak_apiKeyId key,
             rp_requestId = hr_requestId q, rp_execution = ex\<rparr> body (as_world st))), as_world st') =
       (g, snd (handler \<lparr>rp_accountId = ak_accountId key, rp_apiKeyId = ak_apiKeyId key,
             rp_requestId = hr_requestId q, rp_execution = ex\<rparr> body (as_world st))))"
  using assms unfolding middlewares_def
proof (cases rule: pass_on_cases)
  case (failed e)
  then show ?thesis using rateLimitAuthentication_run [OF failed(1)] by simp
next
  case (answered r)
  then show ?thesis using rateLimitAuthentication_run [OF answered(1)] by auto
next
  case (passed x st1)
  have st1: "as_world st1 = as_world st" "as_keys st1 = as_keys st" "as_limiter st1 = as_limiter st"
    using rateLimitAuthentication_run [OF passed(1)] by simp_all
  from passed(2) show ?thesis
  proof (cases rule: pass_on_cases)
    case (failed e)
    then show ?thesis using bearerAuthentication_run [OF failed(1)] st1 by simp
  next
    case (answered r)
    then show ?thesis using bearerAuthentication_run [OF answered(1)] st1 by auto
  next
    case (passed caller st2)
    from bearerAuthentication_run [OF passed(1)] st1 obtain token key where
      st2: "as_world st2 = as_world st" "as_limiter st2 = as_limiter st"
      and auth: "bearer_token (hr_authorization q) = Some token"
        "authenticate (ao_hmac options) (ao_keyStore options) (ao_pepper options) ex token (as_keys st) =
           (Inr (Some key), as_keys st2)"
      and caller: "caller = \<lparr>rp_accountId = ak_accountId key, rp_apiKeyId = ak_apiKeyId key,
             rp_requestId = hr_requestId q, rp_execution = ex\<rparr>" by auto
    from passed(2) show ?thesis
    proof (cases rule: pass_on_cases)
      case (failed e)
      then show ?thesis using rateLimitRequests_run [OF failed(1)] st2 by simp
    next
      case (answered r)
      then show ?thesis using rateLimitRequests_run [OF answered(1)] st2 by (auto split: if_splits)
    next
      case (passed u st3)
      from rateLimitRequests_run [OF passed(1)] st2 caller have
        st3: "as_world st3 = as_world st" "as_keys st3 = as_keys st2"
        and allowed: "rd_allowed (fst (consume_request (clock 3) (ak_accountId key) (ak_apiKeyId key) (as_limiter st)))"
        by (auto split: if_splits)
      show ?thesis
      proof (cases "if hr_method q = ''POST'' then hr_parsedBody q else None")
        case None
        with passed(2) st3 show ?thesis by (auto simp: done_with_def)
      next
        case (Some body)
        then have post: "hr_method q = ''POST''" "hr_parsedBody q = Some body" by (auto split: if_splits)
        from passed(2) Some obtain h w where h: "handler caller body (as_world st3) = (h, w)"
          and end_state: "st' = st3\<lparr>as_world := w\<rparr>" "g = map_sum id (\<lambda>m. Respond (Mcp_Response m)) h"
          by (auto simp: and_do_def on_world_def done_with_def split: prod.splits sum.splits)
        with post auth allowed st3 caller show ?thesis by auto
      qed
    qed
  qed
qed

lemma onError_run: "onError q st = (r, st') \<Longrightarrow> r = Answered (Envelope 500 [] (safeErrorEnvelope (SkillWireError INTERNAL) (hr_requestId q))) \<and>
    as_world st' = as_world st \<and> as_keys st' = as_keys st \<and> as_limiter st' = as_limiter st"
  by (auto simp: onError_def emit_def)

lemma deadline_passed_run: "deadline_passed q st = (r, st') \<Longrightarrow> r = Answered (Envelope 503 [] (safeErrorEnvelope (SkillWireError INTERNAL) (hr_requestId q))) \<and>
    as_world st' = as_world st \<and> as_keys st' = as_keys st \<and> as_limiter st' = as_limiter st"
  by (auto simp: deadline_passed_def emit_def)

text \<open>An answered request ran its routes, or nothing at all.\<close>

lemma handle_request_cases:
  assumes "handle_request options handler clock timed_out ex q st = (ans, st')"
  obtains (early) "deadline_passed q st = (ans, st')"
  | (ran) result st1 where "routes options handler clock ex q st = (result, st1)"
      and "as_world st' = as_world st1" and "as_keys st' = as_keys st1" and "as_limiter st' = as_limiter st1"
      and "result = Inr ans \<or>
        (\<exists>status. (status = 500 \<or> status = 503) \<and> ans = Answered (Envelope status [] (safeErrorEnvelope (SkillWireError INTERNAL) (hr_requestId q))))"
proof (cases "clock 0 + ao_requestDeadlineMilliseconds options \<le> clock 1")
  case True
  with assms early show ?thesis by (simp add: handle_request_def)
next
  case False
  obtain result st1 where run: "routes options handler clock ex q st = (result, st1)" by fastforce
  obtain r st2 where after: "(case result of Inl e \<Rightarrow> onError q st1 | Inr r \<Rightarrow> (r, st1)) = (r, st2)" by fastforce
  have st2: "as_world st2 = as_world st1" "as_keys st2 = as_keys st1" "as_limiter st2 = as_limiter st1"
    "result = Inr r \<or> r = Answered (Envelope 500 [] (safeErrorEnvelope (SkillWireError INTERNAL) (hr_requestId q)))"
    using after by (auto split: sum.splits dest!: onError_run)
  have "(ans, st') = (r, st2) \<or> deadline_passed q st2 = (ans, st')"
    using assms False run after by (auto simp: handle_request_def Let_def split: if_splits)
  then show ?thesis
    using ran [OF run] st2 by (auto dest!: deadline_passed_run)
qed

lemma routes_cases:
  assumes "routes options handler clock ex q st = (result, st1)"
  obtains (aside) "as_world st1 = as_world st" and "as_keys st1 = as_keys st" and "as_limiter st1 = as_limiter st"
      and "result \<in> {Inr (Answered (Envelope 403 [] (safeErrorEnvelope (SkillWireError INVALID_ARGUMENT) (hr_requestId q)))),
        Inr (Answered (Json_Status 200 ''ok'')), Inr (Answered (Json_Status 200 ''ready'')),
        Inr (Answered (Json_Status 503 ''not-ready'')), Inr Not_Found_404}"
  | (mcp) r where "hr_hostOk q" and "hr_path q = ''/mcp''" and "mcp_route options handler clock ex q st = (r, st1)"
      and "result = map_sum id Answered r"
  using assms unfolding routes_def
  by (auto simp: emit_def and_do_def done_with_def split: if_splits prod.splits sum.splits)

text \<open>C5. The tools run only for authenticated clients within their limits. If a request changes anything
  behind the MCP handler, or is answered by it, then it is a POST to \<open>/mcp\<close> with an accepted host and a JSON body
  within the size limit, the service is ready, the authorization header holds a token that the
  authenticator accepted, and the limiter allowed the account and key it names; the handler ran exactly
  once, for this principal and body.\<close>

theorem tools_need_authentication:
  assumes "handle_request options handler clock timed_out ex q st = (ans, st')"
  shows "(as_world st' = as_world st \<and> (\<forall>m. ans \<noteq> Answered (Mcp_Response m))) \<or>
    (\<exists>token key body. hr_method q = ''POST'' \<and> hr_path q = ''/mcp'' \<and> hr_hostOk q \<and> hr_jsonContentType q \<and>
       hr_bodyBytes q \<le> ao_maximumRequestBodyBytes options \<and> as_ready st \<and>
       hr_parsedBody q = Some body \<and> bearer_token (hr_authorization q) = Some token \<and>
       authenticate (ao_hmac options) (ao_keyStore options) (ao_pepper options) ex token (as_keys st) =
         (Inr (Some key), as_keys st') \<and>
       rd_allowed (fst (consume_request (clock 3) (ak_accountId key) (ak_apiKeyId key) (as_limiter st))) \<and>
       as_world st' = snd (handler \<lparr>rp_accountId = ak_accountId key, rp_apiKeyId = ak_apiKeyId key,
         rp_requestId = hr_requestId q, rp_execution = ex\<rparr> body (as_world st)))"
  using assms
proof (cases rule: handle_request_cases)
  case early
  then show ?thesis by (auto dest!: deadline_passed_run)
next
  case (ran result st1)
  from ran(1) show ?thesis
  proof (cases rule: routes_cases)
    case aside
    with ran show ?thesis by auto
  next
    case (mcp r)
    from mcp(3) show ?thesis
    proof (cases rule: mcp_route_cases)
      case (guarded status code)
      with mcp ran show ?thesis by auto
    next
      case (through g)
      have admitted: "as_ready st" "\<not> (hr_method q = ''POST'' \<and> \<not> hr_jsonContentType q)"
        "hr_bodyBytes q \<le> ao_maximumRequestBodyBytes options"
        using through(1) by (auto simp: guard_answer_def split: if_splits)
      from middlewares_run [OF through(2)] show ?thesis
      proof (elim disjE exE conjE)
        assume "as_world st1 = as_world st" "\<forall>m. g \<noteq> Inr (Respond (Mcp_Response m))"
        then show ?thesis
          using ran mcp through by (cases g) (auto split: gate.splits)
      next
        fix token key body
        assume run: "hr_method q = ''POST''" "hr_parsedBody q = Some body" "bearer_token (hr_authorization q) = Some token"
          "authenticate (ao_hmac options) (ao_keyStore options) (ao_pepper options) ex token (as_keys st) =
             (Inr (Some key), as_keys st1)"
          "rd_allowed (fst (consume_request (clock 3) (ak_accountId key) (ak_apiKeyId key) (as_limiter st)))"
          "(map_sum id (\<lambda>m. Respond (Mcp_Response m))
              (fst (handler \<lparr>rp_accountId = ak_accountId key, rp_apiKeyId = ak_apiKeyId key,
                 rp_requestId = hr_requestId q, rp_execution = ex\<rparr> body (as_world st))), as_world st1) =
           (g, snd (handler \<lparr>rp_accountId = ak_accountId key, rp_apiKeyId = ak_apiKeyId key,
                 rp_requestId = hr_requestId q, rp_execution = ex\<rparr> body (as_world st)))"
        with ran mcp admitted show ?thesis
          by (intro disjI2 exI [of _ token] exI [of _ key] exI [of _ body]) simp
      qed
    qed
  qed
qed

text \<open>What a refused client learns is fixed. Every error answer is the safe envelope of a code and the
  request's id, never a text of the error that occurred, and the status belongs to the code.\<close>

theorem error_answers_safe:
  assumes "handle_request options handler clock timed_out ex q st = (Answered (Envelope status headers e), st')"
  shows "\<exists>code. e = safeErrorEnvelope (SkillWireError code) (hr_requestId q) \<and>
    (status, code) \<in> {(400, INVALID_ARGUMENT), (401, UNAUTHENTICATED), (403, INVALID_ARGUMENT),
      (413, INVALID_ARGUMENT), (429, RATE_LIMITED), (500, INTERNAL), (503, INTERNAL)}"
  using assms
proof (cases rule: handle_request_cases)
  case early
  then show ?thesis by (auto dest!: deadline_passed_run)
next
  case (ran result st1)
  from ran(5) consider "result = Inr (Answered (Envelope status headers e))"
    | "\<exists>s. (s = 500 \<or> s = 503) \<and> Envelope status headers e = (Envelope s [] (safeErrorEnvelope (SkillWireError INTERNAL) (hr_requestId q)) :: 'c http_response)"
    by auto
  then show ?thesis
  proof cases
    case 1
    from ran(1) show ?thesis
    proof (cases rule: routes_cases)
      case aside
      with 1 show ?thesis by auto
    next
      case (mcp r)
      with 1 have r: "r = Inr (Envelope status headers e)" by (cases r) auto
      from mcp(3) show ?thesis
      proof (cases rule: mcp_route_cases)
        case (guarded s code)
        with r show ?thesis by (auto simp: guard_answer_def split: if_splits)
      next
        case (through g)
        with r have g: "g = Inr (Respond (Envelope status headers e))"
          by (cases g) (auto split: gate.splits)
        from through(2) [unfolded middlewares_def] g show ?thesis
          by (elim pass_on_cases)
            (auto simp: and_do_def on_world_def done_with_def split: option.splits if_splits prod.splits sum.splits
              dest!: rateLimitAuthentication_run bearerAuthentication_run rateLimitRequests_run)
      qed
    qed
  qed auto
qed

text \<open>A valid request is served. A JSON POST within the size limit, to a ready service and an accepted host,
  whose token passes the authentication limiter and the authenticator and whose principal the request
  limiter allows, is answered by the MCP handler unless its deadline passes, and the key store, the two
  limiters and the world end as those calls left them.\<close>

theorem valid_request_served:
  assumes "hr_method q = ''POST''" and "hr_path q = ''/mcp''" and "hr_hostOk q" and "hr_jsonContentType q"
    and "hr_bodyBytes q \<le> ao_maximumRequestBodyBytes options" and "hr_parsedBody q = Some body" and "as_ready st"
    and "bearer_token (hr_authorization q) = Some token" and "parseApiKeyToken token \<noteq> None"
    and "consume_authentication (clock 2) (as_authenticationLimiter st) = (allow, l1)"
    and "authenticate (ao_hmac options) (ao_keyStore options) (ao_pepper options) ex token (as_keys st) =
      (Inr (Some key), ks)"
    and "consume_request (clock 3) (ak_accountId key) (ak_apiKeyId key) (as_limiter st) = (allow, l2)"
    and "handler \<lparr>rp_accountId = ak_accountId key, rp_apiKeyId = ak_apiKeyId key, rp_requestId = hr_requestId q,
      rp_execution = ex\<rparr> body (as_world st) = (Inr m, w)"
    and "clock 1 < clock 0 + ao_requestDeadlineMilliseconds options"
    and "clock 4 < clock 0 + ao_requestDeadlineMilliseconds options"
  shows "handle_request options handler clock False ex q st =
    (Answered (Mcp_Response m),
     st\<lparr>as_authenticationLimiter := l1, as_keys := ks, as_limiter := l2, as_world := w\<rparr>)"
proof -
  define st1 where "st1 = st\<lparr>as_authenticationLimiter := l1\<rparr>"
  define st2 where "st2 = st1\<lparr>as_keys := ks\<rparr>"
  define st3 where "st3 = st2\<lparr>as_limiter := l2\<rparr>"
  let ?caller = "\<lparr>rp_accountId = ak_accountId key, rp_apiKeyId = ak_apiKeyId key, rp_requestId = hr_requestId q,
      rp_execution = ex\<rparr>"
  have pass: "pass_on step f s = f x s'" if "step s = (Inr (Pass x), s')"
    for step :: "(('a, 'b) app_state, ('c, 'd) gate) io" and f :: "'d \<Rightarrow> (('a, 'b) app_state, ('c, unit) gate) io" and x s s'
    using that by (simp add: pass_on_def and_do_def)
  have 1: "rateLimitAuthentication (clock 2) q st = (Inr (Pass ()), st1)"
    using assms(8-10) by (auto simp: rateLimitAuthentication_def st1_def)
  have 2: "bearerAuthentication options ex q st1 = (Inr (Pass ?caller), st2)"
    using assms(8,11) by (simp add: bearerAuthentication_def and_do_def on_keys_def done_with_def st1_def st2_def)
  have 3: "rateLimitRequests (clock 3) ?caller st2 = (Inr (Pass ()), st3)"
    using assms(12) by (simp add: rateLimitRequests_def st1_def st2_def st3_def)
  have "middlewares options handler clock ex q st = (Inr (Respond (Mcp_Response m)), st3\<lparr>as_world := w\<rparr>)"
    unfolding middlewares_def
    using assms(1,6,13)
    by (simp add: pass_on_def and_do_def 1 2 3) (simp add: on_world_def done_with_def st1_def st2_def st3_def)
  then have "mcp_route options handler clock ex q st = (Inr (Mcp_Response m), st3\<lparr>as_world := w\<rparr>)"
    using assms(4-7) by (simp add: mcp_route_def pass_on_Pass and_do_def done_with_def not_less)
  then have "routes options handler clock ex q st = (Inr (Answered (Mcp_Response m)), st3\<lparr>as_world := w\<rparr>)"
    using assms(1-3) by (simp add: routes_def and_do_def done_with_def)
  with assms(14,15) show ?thesis
    by (simp add: handle_request_def not_le [symmetric]) (simp add: st1_def st2_def st3_def)
qed

text \<open>A concrete request: one account, one key, a handler that counts its calls.\<close>

definition sample_options :: "key_db app_options" where
  "sample_options = \<lparr>ao_hmac = sample_hmac, ao_pepper = [], ao_keyStore = postgres_key_store,
     ao_maximumRequestBodyBytes = 65536, ao_requestDeadlineMilliseconds = 10000\<rparr>"

definition sample_auth_limiter :: AuthenticationRateLimiter where
  "sample_auth_limiter = \<lparr>al_requestsPerMinute = 600, al_burst = 60,
     al_bucket = \<lparr>tb_tokens = 60, tb_updatedAt = 0\<rparr>\<rparr>"

definition sample_state :: "(key_db, nat) app_state" where
  "sample_state = \<lparr>as_authenticationLimiter = sample_auth_limiter, as_limiter = sample_limiter, as_ready = True,
     as_keys = sample_keys, as_world = 0, as_log = []\<rparr>"

definition sample_request :: http_request where
  "sample_request = \<lparr>hr_method = ''POST'', hr_path = ''/mcp'', hr_authorization = Some (''Bearer '' @ sample_token),
     hr_hostOk = True, hr_jsonContentType = True, hr_bodyBytes = 2, hr_parsedBody = Some (JObj []),
     hr_requestId = ''r1''\<rparr>"

definition counting_handler :: "(nat, string) mcp_handler" where
  "counting_handler caller body n = (Inr (rp_accountId caller), Suc n)"

lemma fl_60: "fl 60 = 60"
  using fl_of_nat [of 60] by simp

lemma sample_bearer: "bearer_token (Some (''Bearer '' @ sample_token)) = Some sample_token"
proof -
  have "list_all plain_char sample_token"
    by (simp add: sample_token_def list_all_iff plain_char_def ascii_space_def code_of_def)
  then have "\<not> has_space sample_token" by (rule no_space_plain)
  moreover have "sample_token \<noteq> []" by (simp add: sample_token_def)
  ultimately show ?thesis by (simp add: bearer_token_def starts_with_def)
qed

lemma valid_request_served_witness:
  "fst (handle_request sample_options counting_handler (\<lambda>_. 0) False (live 7) sample_request sample_state) =
     Answered (Mcp_Response ''a1'')"
proof -
  have limiter: "fst (consume_request 0 ''a1'' ''k1'' sample_limiter) = allow"
    by (simp add: consume_request_def refill_def refilled_def sample_limiter_def sample_policy_def fl_30 Let_def)
  have first: "fst (consume_authentication 0 sample_auth_limiter) = allow"
    by (simp add: consume_authentication_def refilled_def sample_auth_limiter_def fl_60 Let_def)
  obtain l1 where l1: "consume_authentication 0 sample_auth_limiter = (allow, l1)"
    using first by (metis prod.collapse)
  obtain l2 where l2: "consume_request 0 ''a1'' ''k1'' sample_limiter = (allow, l2)"
    using limiter by (metis prod.collapse)
  show ?thesis
    by (subst valid_request_served [of _ _ "JObj []" _ sample_token _ l1 _ "\<lparr>ak_accountId = ''a1'', ak_apiKeyId = ''k1''\<rparr>" _ l2 _ "''a1''" "Suc 0"])
      (simp_all add: sample_request_def sample_options_def sample_state_def sample_bearer [unfolded append.simps]
        sample_parses l1 l2 sample_authenticates counting_handler_def)
qed

lemma tools_need_authentication_witness:
  "as_world (snd (handle_request sample_options counting_handler (\<lambda>_. 0) True (live 7) sample_request
     (sample_state\<lparr>as_ready := False\<rparr>))) = 0"
  using tools_need_authentication [of sample_options counting_handler "\<lambda>_. 0" True "live 7" sample_request
      "sample_state\<lparr>as_ready := False\<rparr>"]
  by (metis (no_types, lifting) prod.collapse app_state.select_convs(3) app_state.surjective app_state.update_convs(3)
      app_state.select_convs(5) sample_state_def)

lemma error_answers_safe_witness:
  "\<exists>code. safeErrorEnvelope (SkillWireError INVALID_ARGUMENT) ''r1'' = safeErrorEnvelope (SkillWireError code) ''r1''"
proof -
  have "handle_request sample_options counting_handler (\<lambda>_. 0) False (live 7) (sample_request\<lparr>hr_hostOk := False\<rparr>) sample_state =
    (Answered (Envelope 403 [] (safeErrorEnvelope (SkillWireError INVALID_ARGUMENT) ''r1'')),
     emit request_rejected (no_fields\<lparr>ef_requestId := Some ''r1'', ef_code := Some INVALID_ARGUMENT, ef_status := Some 403\<rparr>) sample_state)"
    by (simp add: handle_request_def routes_def sample_options_def sample_request_def)
  from error_answers_safe [OF this] show ?thesis by (auto simp: sample_request_def)
qed

end
