(* ===== verification/Journal.thy ===== *)
theory Journal
  imports Prelude
begin

text \<open>
  The operation journal (\<open>src/onboarding/domain/operation-journal.ts\<close>): the write-ahead log of a
  lifecycle command. \<open>append\<close> is the guarded append of the class; \<open>runEffect\<close> is the
  intent/action/effect/verify protocol around one mutation. The journal's list of entries is also
  the content of its file, which each append extends by one synced line, so a crash leaves a prefix.
  Time stamps and the parsing of one line are arguments. The lemmas show that the guards accept
  exactly the logs that satisfy a declarative validity condition, and what \<open>runEffect\<close> leaves behind
  on each of its outcomes.
\<close>

subsection \<open>Data\<close>

datatype JournalPhase = Intent | Effect | Verify | Compensate | Commit | Cancel

datatype DetailValue = DStr string | DNum int | DBool bool | DNull

type_synonym detail = "(string \<times> DetailValue) list"

record JournalEntry =
  je_sequence :: nat
  je_timestamp :: string
  je_phase :: JournalPhase
  je_step :: string
  je_detail :: detail

datatype RollbackBoundary =
  RbAutomatic | RbClientOnly | RbApplicationConfig | RbDatabaseRestoreRequired | RbNone

datatype journal_error =
  JError string
| JournaledEffectError string bool
| JournaledOperationFailure string RollbackBoundary

record OperationJournal =
  oj_operationId :: string
  oj_command :: string
  oj_entries :: "JournalEntry list"

definition detail_get :: "detail \<Rightarrow> string \<Rightarrow> DetailValue option" where
  "detail_get d key = map_of d key"

definition last_entry :: "OperationJournal \<Rightarrow> JournalEntry option" where
  "last_entry j = (if oj_entries j = [] then None else Some (last (oj_entries j)))"

fun valid_detail_value :: "DetailValue \<Rightarrow> bool" where
  "valid_detail_value (DStr s) \<longleftrightarrow> js_length s \<le> 256"
| "valid_detail_value _ \<longleftrightarrow> True"

text \<open>What the entry schema checks of an entry that the journal itself builds.\<close>

definition journalEntrySchema :: "JournalEntry \<Rightarrow> bool" where
  "journalEntrySchema e \<longleftrightarrow>
     0 < je_sequence e \<and> 1 \<le> js_length (je_step e) \<and> js_length (je_step e) \<le> 128 \<and>
     list_all (\<lambda>(key, v). valid_detail_value v) (je_detail e)"

subsection \<open>Appending\<close>

definition resumingCancelledOperation :: "JournalEntry option \<Rightarrow> JournalPhase \<Rightarrow> bool" where
  "resumingCancelledOperation last_e phase \<longleftrightarrow>
     (case last_e of
        None \<Rightarrow> False
      | Some e \<Rightarrow> je_phase e = Cancel \<and>
          (detail_get (je_detail e) ''status'' = Some (DStr ''failed'') \<or>
           detail_get (je_detail e) ''status'' = Some (DStr ''recovery-required'')) \<and>
          phase = Compensate)"

definition has_phase :: "JournalPhase \<Rightarrow> JournalEntry option \<Rightarrow> bool" where
  "has_phase phase last_e \<longleftrightarrow> (case last_e of None \<Rightarrow> False | Some e \<Rightarrow> je_phase e = phase)"

definition has_step :: "string \<Rightarrow> JournalEntry option \<Rightarrow> bool" where
  "has_step step last_e \<longleftrightarrow> (case last_e of None \<Rightarrow> False | Some e \<Rightarrow> je_step e = step)"

definition recoveredCommit :: "JournalEntry option \<Rightarrow> JournalPhase \<Rightarrow> detail \<Rightarrow> bool" where
  "recoveredCommit last_e phase detail \<longleftrightarrow>
     phase = Commit \<and> detail_get detail ''status'' = Some (DStr ''recovered'') \<and>
     (case last_e of
        None \<Rightarrow> False
      | Some e \<Rightarrow> je_phase e = Compensate \<and>
          detail_get (je_detail e) ''completion'' \<noteq> Some (DStr ''unproven''))"

definition append ::
  "string \<Rightarrow> JournalPhase \<Rightarrow> string \<Rightarrow> detail \<Rightarrow> OperationJournal \<Rightarrow> journal_error + OperationJournal" where
  "append timestamp phase step detail j =
     (let last_e = last_entry j
      in if has_phase Commit last_e \<or>
            (has_phase Cancel last_e \<and> \<not> resumingCancelledOperation last_e phase)
         then Inl (JError ''Operation journal is already terminal'')
         else if phase = Effect \<and> \<not> (has_phase Intent last_e \<and> has_step step last_e)
         then Inl (JError ''Effect must follow matching durable intent'')
         else if phase = Verify \<and> \<not> (has_phase Effect last_e \<and> has_step step last_e)
         then Inl (JError ''Verification must follow matching effect'')
         else if phase = Commit \<and> \<not> recoveredCommit last_e phase detail \<and>
            \<not> list_ex (\<lambda>e. je_phase e = Verify) (oj_entries j)
         then Inl (JError ''Cannot report success without verification'')
         else if phase = Commit \<and> detail_get detail ''status'' = Some (DStr ''success'') \<and>
            \<not> has_phase Verify last_e
         then Inl (JError ''Success requires the final effect verification'')
         else
           let entry = \<lparr>je_sequence = length (oj_entries j) + 1, je_timestamp = timestamp,
                         je_phase = phase, je_step = step, je_detail = detail\<rparr>
           in if \<not> journalEntrySchema entry then Inl (JError ''Journal entry is invalid'')
              else Inr (j\<lparr>oj_entries := oj_entries j @ [entry]\<rparr>))"

definition journal_create :: "(string \<Rightarrow> bool) \<Rightarrow> string \<Rightarrow> string \<Rightarrow> journal_error + OperationJournal" where
  "journal_create uuid operationId command =
     (if \<not> uuid operationId then Inl (JError ''Invalid UUID'')
      else Inr \<lparr>oj_operationId = operationId, oj_command = command, oj_entries = []\<rparr>)"

fun number_lines :: "(string \<Rightarrow> JournalEntry option) \<Rightarrow> nat \<Rightarrow> string list \<Rightarrow> journal_error + JournalEntry list" where
  "number_lines parse_line index [] = Inr []"
| "number_lines parse_line index (line # lines) =
     (case parse_line line of
        None \<Rightarrow> Inl (JError ''Journal entry is invalid'')
      | Some entry \<Rightarrow>
          if je_sequence entry \<noteq> index + 1 then Inl (JError ''Operation journal sequence is invalid'')
          else and_then (number_lines parse_line (index + 1) lines) (\<lambda>rest. Inr (entry # rest)))"

text \<open>\<open>safe\<close> is the outcome of the checks on the file's kind, links, owner and mode.\<close>

definition journal_open ::
  "(string \<Rightarrow> bool) \<Rightarrow> (string \<Rightarrow> JournalEntry option) \<Rightarrow> bool \<Rightarrow> string \<Rightarrow> string \<Rightarrow> string \<Rightarrow>
     journal_error + OperationJournal" where
  "journal_open uuid parse_line safe bytes operationId command =
     (if \<not> uuid operationId then Inl (JError ''Invalid UUID'')
      else if \<not> safe \<or> 4 * 1024 * 1024 < length bytes then Inl (JError ''Operation journal is unsafe'')
      else
        let lines = filter (\<lambda>line. line \<noteq> []) (split_on (CHR 0x0A) bytes)
        in if 4096 < length lines then Inl (JError ''Operation journal is too large'')
           else and_then (number_lines parse_line 0 lines) (\<lambda>es.
             Inr \<lparr>oj_operationId = operationId, oj_command = command, oj_entries = es\<rparr>))"

definition journal_commit :: "string \<Rightarrow> detail \<Rightarrow> OperationJournal \<Rightarrow> journal_error + OperationJournal" where
  "journal_commit timestamp detail j = append timestamp Commit (oj_command j) detail j"

definition journal_cancel :: "string \<Rightarrow> detail \<Rightarrow> OperationJournal \<Rightarrow> journal_error + OperationJournal" where
  "journal_cancel timestamp detail j = append timestamp Cancel (oj_command j) detail j"

subsection \<open>Running an effect\<close>

text \<open>\<open>outcome\<close> is what the action does: throw or return a value. The catch block's own append is the
  last statement that can throw; its error replaces the caught one.\<close>

definition effect_failed ::
  "string \<Rightarrow> string \<Rightarrow> (journal_error \<Rightarrow> bool) \<Rightarrow> journal_error \<Rightarrow> OperationJournal \<Rightarrow>
     (journal_error + 'v) \<times> OperationJournal" where
  "effect_failed timestamp step effectNotStarted error j =
     (if effectNotStarted error then
        (case append timestamp Compensate step
                [(''completion'', DStr ''not-started''), (''recoveryRequired'', DBool False)] j of
           Inl e \<Rightarrow> (Inl e, j)
         | Inr j' \<Rightarrow> (Inl error, j'))
      else
        (case append timestamp Compensate step
                [(''completion'', DStr ''unproven''), (''recoveryRequired'', DBool True)] j of
           Inl e \<Rightarrow> (Inl e, j)
         | Inr j' \<Rightarrow>
             (Inl (JournaledEffectError (step @ '' may have begun without proven completion'') True), j')))"

definition runEffect ::
  "string \<Rightarrow> string \<Rightarrow> detail \<Rightarrow> bool \<Rightarrow> (journal_error + 'v) \<Rightarrow> (journal_error \<Rightarrow> bool) \<Rightarrow>
     ('v \<Rightarrow> detail) \<Rightarrow> OperationJournal \<Rightarrow> (journal_error + 'v) \<times> OperationJournal" where
  "runEffect timestamp step intent_detail aborted outcome effectNotStarted verification j =
     (case append timestamp Intent step intent_detail j of
        Inl e \<Rightarrow> (Inl e, j)
      | Inr j1 \<Rightarrow>
          if aborted
          then (Inl (JournaledEffectError (''Operation cancelled before '' @ step @ '' began'') False), j1)
          else (case outcome of
              Inl error \<Rightarrow> effect_failed timestamp step effectNotStarted error j1
            | Inr v \<Rightarrow>
                (case append timestamp Effect step [(''completion'', DStr ''recorded'')] j1 of
                   Inl e \<Rightarrow> effect_failed timestamp step effectNotStarted e j1
                 | Inr j2 \<Rightarrow>
                     (case append timestamp Verify step (verification v) j2 of
                        Inl e \<Rightarrow> effect_failed timestamp step effectNotStarted e j2
                      | Inr j3 \<Rightarrow> (Inr v, j3)))))"

subsection \<open>What is still open\<close>

fun unproven_step :: "JournalEntry \<Rightarrow> string list \<Rightarrow> string list" where
  "unproven_step e open_steps =
     (if je_phase e \<noteq> Compensate then open_steps
      else if detail_get (je_detail e) ''completion'' = Some (DStr ''unproven'')
      then List.insert (je_step e) open_steps
      else removeAll (je_step e) open_steps)"

definition hasUnprovenEffect :: "OperationJournal \<Rightarrow> bool" where
  "hasUnprovenEffect j \<longleftrightarrow> 0 < length (fold unproven_step (oj_entries j) [])"

fun incomplete_step :: "JournalEntry \<Rightarrow> string list \<Rightarrow> string list" where
  "incomplete_step e open_steps =
     (let added = (if je_phase e = Effect then List.insert (je_step e) open_steps else open_steps)
      in if je_phase e \<noteq> Compensate then added
         else if detail_get (je_detail e) ''completion'' = Some (DStr ''unproven'')
         then List.insert (je_step e) added
         else removeAll (je_step e) added)"

definition hasIncompleteMutation :: "OperationJournal \<Rightarrow> bool" where
  "hasIncompleteMutation j \<longleftrightarrow> 0 < length (fold incomplete_step (oj_entries j) [])"

fun error_message :: "journal_error \<Rightarrow> string" where
  "error_message (JError m) = m"
| "error_message (JournaledEffectError m b) = m"
| "error_message (JournaledOperationFailure m b) = m"

definition failure :: "OperationJournal \<Rightarrow> journal_error \<Rightarrow> journal_error" where
  "failure j error =
     (if \<not> hasIncompleteMutation j then error
      else case error of
        JournaledOperationFailure m b \<Rightarrow> error
      | _ \<Rightarrow> JournaledOperationFailure (error_message error)
          (if oj_command j = ''clients-uninstall'' \<or> oj_command j = ''clients-rotate-key'' then RbClientOnly
           else if oj_command j = ''purge'' then RbNone
           else RbApplicationConfig))"

subsection \<open>Valid logs\<close>

text \<open>Declaratively: what may stand before an entry and what may follow it. \<open>xs\<close> are the entries
  before \<open>e\<close>, \<open>ys\<close> those after it.\<close>

definition well_placed :: "JournalEntry list \<Rightarrow> JournalEntry \<Rightarrow> bool" where
  "well_placed xs e \<longleftrightarrow>
     journalEntrySchema e \<and> je_sequence e = length xs + 1 \<and>
     (je_phase e = Effect \<longrightarrow> xs \<noteq> [] \<and> je_phase (last xs) = Intent \<and> je_step (last xs) = je_step e) \<and>
     (je_phase e = Verify \<longrightarrow> xs \<noteq> [] \<and> je_phase (last xs) = Effect \<and> je_step (last xs) = je_step e) \<and>
     (je_phase e = Commit \<longrightarrow>
        (\<exists>v \<in> set xs. je_phase v = Verify) \<or>
        (detail_get (je_detail e) ''status'' = Some (DStr ''recovered'') \<and> xs \<noteq> [] \<and>
         je_phase (last xs) = Compensate \<and>
         detail_get (je_detail (last xs)) ''completion'' \<noteq> Some (DStr ''unproven''))) \<and>
     (je_phase e = Commit \<and> detail_get (je_detail e) ''status'' = Some (DStr ''success'') \<longrightarrow>
        xs \<noteq> [] \<and> je_phase (last xs) = Verify)"

definition well_followed :: "JournalEntry \<Rightarrow> JournalEntry list \<Rightarrow> bool" where
  "well_followed e ys \<longleftrightarrow>
     (ys \<noteq> [] \<longrightarrow>
        je_phase e \<noteq> Commit \<and>
        (je_phase e = Cancel \<longrightarrow>
           je_phase (hd ys) = Compensate \<and>
           detail_get (je_detail e) ''status'' \<in> {Some (DStr ''failed''), Some (DStr ''recovery-required'')}))"

definition valid_log :: "JournalEntry list \<Rightarrow> bool" where
  "valid_log es \<longleftrightarrow> (\<forall>xs e ys. es = xs @ e # ys \<longrightarrow> well_placed xs e \<and> well_followed e ys)"

lemma valid_log_Nil [simp]: "valid_log []"
  by (simp add: valid_log_def)

lemma well_followed_snoc:
  "well_followed e (ys @ [z]) \<longleftrightarrow> (if ys = [] then well_followed e [z] else well_followed e ys)"
  by (simp add: well_followed_def hd_append)

lemma valid_log_snoc:
  "valid_log (es @ [e]) \<longleftrightarrow>
     valid_log es \<and> well_placed es e \<and> (es \<noteq> [] \<longrightarrow> well_followed (last es) [e])"
  (is "?l \<longleftrightarrow> ?r")
proof
  assume l: ?l
  have "well_placed xs x \<and> well_followed x ys" if "es = xs @ x # ys" for xs x ys
  proof -
    from l that have "well_placed xs x" "well_followed x (ys @ [e])" unfolding valid_log_def by auto
    then show ?thesis by (cases "ys = []") (auto simp: well_followed_snoc well_followed_def)
  qed
  moreover have "well_placed es e" using l unfolding valid_log_def by auto
  moreover have "well_followed (last es) [e]" if "es \<noteq> []"
    using l append_butlast_last_id [OF that] unfolding valid_log_def
    by (metis append.assoc append_Cons append_Nil)
  ultimately show ?r unfolding valid_log_def by blast
next
  assume r: ?r
  have "well_placed xs x \<and> well_followed x ys" if "es @ [e] = xs @ x # ys" for xs x ys
  proof (cases ys rule: rev_cases)
    case Nil
    with that r show ?thesis by (simp add: well_followed_def)
  next
    case (snoc zs z)
    with that have es: "es = xs @ x # zs" "z = e" by auto
    with r have "well_placed xs x" "well_followed x zs" unfolding valid_log_def by auto
    with es snoc r show ?thesis by (auto simp: well_followed_snoc)
  qed
  then show ?l unfolding valid_log_def by blast
qed

lemma valid_log_single [simp]: "valid_log [e] \<longleftrightarrow> well_placed [] e"
  using valid_log_snoc [of "[]" e] by simp

definition entry_at :: "string \<Rightarrow> JournalPhase \<Rightarrow> string \<Rightarrow> detail \<Rightarrow> JournalEntry list \<Rightarrow> JournalEntry" where
  "entry_at timestamp phase step detail es =
     \<lparr>je_sequence = length es + 1, je_timestamp = timestamp, je_phase = phase,
      je_step = step, je_detail = detail\<rparr>"

lemma entry_at_simps [simp]:
  "je_sequence (entry_at t p st d es) = length es + 1" "je_phase (entry_at t p st d es) = p"
  "je_step (entry_at t p st d es) = st" "je_detail (entry_at t p st d es) = d"
  by (simp_all add: entry_at_def)

lemma append_guards:
  "append t p st d j = Inr j' \<longleftrightarrow>
     j' = j\<lparr>oj_entries := oj_entries j @ [entry_at t p st d (oj_entries j)]\<rparr> \<and>
     \<not> has_phase Commit (last_entry j) \<and>
     (has_phase Cancel (last_entry j) \<longrightarrow> resumingCancelledOperation (last_entry j) p) \<and>
     (p = Effect \<longrightarrow> has_phase Intent (last_entry j) \<and> has_step st (last_entry j)) \<and>
     (p = Verify \<longrightarrow> has_phase Effect (last_entry j) \<and> has_step st (last_entry j)) \<and>
     (p = Commit \<longrightarrow> recoveredCommit (last_entry j) p d \<or> list_ex (\<lambda>e. je_phase e = Verify) (oj_entries j)) \<and>
     (p = Commit \<and> detail_get d ''status'' = Some (DStr ''success'') \<longrightarrow> has_phase Verify (last_entry j)) \<and>
     journalEntrySchema (entry_at t p st d (oj_entries j))"
  unfolding append_def Let_def entry_at_def [symmetric] by (simp split: if_split) blast

lemma last_entry_cases:
  "has_phase p (last_entry j) \<longleftrightarrow> oj_entries j \<noteq> [] \<and> je_phase (last (oj_entries j)) = p"
  "has_step st (last_entry j) \<longleftrightarrow> oj_entries j \<noteq> [] \<and> je_step (last (oj_entries j)) = st"
  "recoveredCommit (last_entry j) p d \<longleftrightarrow> p = Commit \<and> detail_get d ''status'' = Some (DStr ''recovered'') \<and>
     oj_entries j \<noteq> [] \<and> je_phase (last (oj_entries j)) = Compensate \<and>
     detail_get (je_detail (last (oj_entries j))) ''completion'' \<noteq> Some (DStr ''unproven'')"
  "resumingCancelledOperation (last_entry j) p \<longleftrightarrow> oj_entries j \<noteq> [] \<and>
     je_phase (last (oj_entries j)) = Cancel \<and> p = Compensate \<and>
     detail_get (je_detail (last (oj_entries j))) ''status'' \<in> {Some (DStr ''failed''), Some (DStr ''recovery-required'')}"
  by (auto simp: last_entry_def has_phase_def has_step_def recoveredCommit_def resumingCancelledOperation_def)

lemma append_Inr:
  "append t p st d j = Inr j' \<longleftrightarrow>
     j' = j\<lparr>oj_entries := oj_entries j @ [entry_at t p st d (oj_entries j)]\<rparr> \<and>
     well_placed (oj_entries j) (entry_at t p st d (oj_entries j)) \<and>
     (oj_entries j \<noteq> [] \<longrightarrow> well_followed (last (oj_entries j)) [entry_at t p st d (oj_entries j)])"
  unfolding append_guards last_entry_cases well_placed_def well_followed_def list_ex_iff
  by (cases p) (simp_all, blast+)

subsection \<open>Properties\<close>

lemma append_accepts_valid_logs_aux:
  "valid_log (oj_entries j) \<Longrightarrow> append t p st d j = Inr j' \<Longrightarrow> valid_log (oj_entries j')"
  by (auto simp: append_Inr valid_log_snoc)

text \<open>C15. The journal's guards accept exactly the valid logs: appending to a valid log succeeds if
  and only if the log with the new entry is valid, where valid means that an effect directly follows
  its own intent, a verification directly follows its own effect, a commit is the last entry and is
  backed by a verification or by a proven recovery, success is claimed only right after a
  verification, and only compensation may follow a cancellation that failed.\<close>

theorem append_accepts_valid_logs:
  assumes "valid_log (oj_entries j)"
  shows "append timestamp phase step detail j = Inr j' \<longleftrightarrow>
    j' = j\<lparr>oj_entries := oj_entries j @ [entry_at timestamp phase step detail (oj_entries j)]\<rparr> \<and>
    valid_log (oj_entries j')"
  using assms by (auto simp: append_Inr valid_log_snoc)

definition example_journal :: OperationJournal where
  "example_journal = \<lparr>oj_operationId = ''op'', oj_command = ''setup'', oj_entries = []\<rparr>"

lemma example_step_schema: "0 < n \<Longrightarrow> journalEntrySchema
   \<lparr>je_sequence = n, je_timestamp = t, je_phase = p, je_step = ''s'', je_detail = []\<rparr>"
  by (simp add: journalEntrySchema_def js_length_def code_of_def)

theorem append_accepts_valid_logs_witness:
  "append ''now'' Intent ''s'' [] example_journal =
     Inr (example_journal\<lparr>oj_entries := [entry_at ''now'' Intent ''s'' [] []]\<rparr>)"
proof -
  have v: "valid_log (oj_entries example_journal)" by (simp add: example_journal_def)
  have "valid_log [entry_at ''now'' Intent ''s'' [] []]"
    using valid_log_snoc [of "[]"] example_step_schema [of 1 "''now''" Intent]
    by (simp add: well_placed_def entry_at_def)
  then show ?thesis
    unfolding append_accepts_valid_logs [OF v] by (simp add: example_journal_def)
qed

text \<open>The steps that the log leaves with an unproven effect.\<close>

definition unproven_steps :: "OperationJournal \<Rightarrow> string set" where
  "unproven_steps j = set (fold unproven_step (oj_entries j) [])"

lemma hasUnprovenEffect_iff: "hasUnprovenEffect j \<longleftrightarrow> unproven_steps j \<noteq> {}"
  by (auto simp: hasUnprovenEffect_def unproven_steps_def)

lemma fold_unproven_snoc:
  "set (fold unproven_step (es @ [e]) []) =
     (if je_phase e \<noteq> Compensate then set (fold unproven_step es [])
      else if detail_get (je_detail e) ''completion'' = Some (DStr ''unproven'')
      then insert (je_step e) (set (fold unproven_step es []))
      else set (fold unproven_step es []) - {je_step e})"
  by simp

definition open_log :: "OperationJournal \<Rightarrow> bool" where
  "open_log j \<longleftrightarrow> valid_log (oj_entries j) \<and>
     (oj_entries j \<noteq> [] \<longrightarrow> je_phase (last (oj_entries j)) \<notin> {Commit, Cancel})"

definition step_ok :: "string \<Rightarrow> detail \<Rightarrow> bool" where
  "step_ok step d \<longleftrightarrow>
     1 \<le> js_length step \<and> js_length step \<le> 128 \<and> list_all (\<lambda>(key, v). valid_detail_value v) d"

lemma entry_schema_step_ok:
  "journalEntrySchema (entry_at t p st d es) \<longleftrightarrow> step_ok st d"
  by (simp add: journalEntrySchema_def step_ok_def)

lemma append_open:
  assumes "open_log j" and "step_ok st d"
    and "p \<in> {Intent, Compensate} \<or>
         (p = Effect \<and> oj_entries j \<noteq> [] \<and> je_phase (last (oj_entries j)) = Intent \<and> je_step (last (oj_entries j)) = st) \<or>
         (p = Verify \<and> oj_entries j \<noteq> [] \<and> je_phase (last (oj_entries j)) = Effect \<and> je_step (last (oj_entries j)) = st)"
  shows "append t p st d j = Inr (j\<lparr>oj_entries := oj_entries j @ [entry_at t p st d (oj_entries j)]\<rparr>)"
    and "open_log (j\<lparr>oj_entries := oj_entries j @ [entry_at t p st d (oj_entries j)]\<rparr>)"
proof -
  have "well_placed (oj_entries j) (entry_at t p st d (oj_entries j))"
    using assms by (auto simp: well_placed_def entry_schema_step_ok)
  moreover have "oj_entries j \<noteq> [] \<longrightarrow> well_followed (last (oj_entries j)) [entry_at t p st d (oj_entries j)]"
    using assms(1) by (auto simp: open_log_def well_followed_def)
  ultimately show a: "append t p st d j = Inr (j\<lparr>oj_entries := oj_entries j @ [entry_at t p st d (oj_entries j)]\<rparr>)"
    by (simp add: append_Inr)
  have "valid_log (oj_entries j)" using assms(1) by (simp add: open_log_def)
  with append_accepts_valid_logs_aux [OF this] a assms(3)
  show "open_log (j\<lparr>oj_entries := oj_entries j @ [entry_at t p st d (oj_entries j)]\<rparr>)"
    by (auto simp: open_log_def append_Inr valid_log_snoc)
qed

lemma step_ok_constant [simp]:
  "step_ok st [(''completion'', DStr ''recorded'')] = step_ok st []"
  "step_ok st [(''completion'', DStr ''not-started''), (''recoveryRequired'', DBool False)] = step_ok st []"
  "step_ok st [(''completion'', DStr ''unproven''), (''recoveryRequired'', DBool True)] = step_ok st []"
  by (simp_all add: step_ok_def js_length_def code_of_def)

definition run_phases :: "JournalEntry list \<Rightarrow> (JournalPhase \<times> string) list" where
  "run_phases es = map (\<lambda>e. (je_phase e, je_step e)) es"

text \<open>\<open>runEffect\<close> never loses an effect: on an open journal it returns a value only when the
  action returned it and intent, effect and verification are recorded in this order; an abort leaves
  the intent alone; a failed action leaves the intent and a compensation entry, and its step counts
  as unproven afterwards exactly when nothing showed that the action did not start. The log stays
  valid and open in every case.\<close>

theorem runEffect_outcomes:
  assumes "open_log j" and "step_ok step intent_detail" and "\<And>v. step_ok step (verification v)"
    and "runEffect timestamp step intent_detail aborted outcome effectNotStarted verification j = (r, j')"
  shows "open_log j' \<and>
    run_phases (oj_entries j') = run_phases (oj_entries j) @
      (if aborted then [(Intent, step)]
       else case outcome of
          Inl error \<Rightarrow> [(Intent, step), (Compensate, step)]
        | Inr v \<Rightarrow> [(Intent, step), (Effect, step), (Verify, step)]) \<and>
    r = (if aborted
         then Inl (JournaledEffectError (''Operation cancelled before '' @ step @ '' began'') False)
         else case outcome of
            Inl error \<Rightarrow> Inl (if effectNotStarted error then error
              else JournaledEffectError (step @ '' may have begun without proven completion'') True)
          | Inr v \<Rightarrow> Inr v) \<and>
    unproven_steps j' = (if aborted then unproven_steps j
      else case outcome of
         Inl error \<Rightarrow> (if effectNotStarted error then unproven_steps j - {step}
                      else insert step (unproven_steps j))
       | Inr v \<Rightarrow> unproven_steps j)"
proof -
  have ok: "step_ok step []" using assms(2) by (simp add: step_ok_def)
  note i = append_open [OF assms(1,2), of Intent timestamp, simplified]
  show ?thesis
  proof (cases aborted)
    case True
    with assms(4) i show ?thesis
      by (auto simp: runEffect_def run_phases_def unproven_steps_def)
  next
    case False
    show ?thesis
    proof (cases outcome)
      case (Inl err)
      with False assms(4) i append_open [OF i(2), of step _ Compensate timestamp, simplified] ok show ?thesis
        by (auto simp: runEffect_def effect_failed_def run_phases_def unproven_steps_def
            detail_get_def split: if_splits)
    next
      case (Inr v)
      note e = append_open [OF i(2), of step "[(''completion'', DStr ''recorded'')]" Effect timestamp, simplified, OF ok]
      note f = append_open [OF e(2) assms(3), of Verify timestamp, simplified]
      from Inr False assms(4) i e f show ?thesis
        by (auto simp: runEffect_def run_phases_def unproven_steps_def)
    qed
  qed
qed

theorem runEffect_outcomes_witness:
  "unproven_steps (snd (runEffect ''now'' ''s'' [] False (Inl (JError ''disk full'') :: journal_error + nat)
     (\<lambda>e. False) (\<lambda>v. []) example_journal)) = {''s''}"
proof -
  let ?run = "runEffect ''now'' ''s'' [] False (Inl (JError ''disk full'') :: journal_error + nat)
     (\<lambda>e. False) (\<lambda>v. []) example_journal"
  have o: "open_log example_journal" by (simp add: open_log_def example_journal_def)
  have s: "step_ok ''s'' []" by (simp add: step_ok_def js_length_def code_of_def)
  have "unproven_steps example_journal = {}" by (simp add: unproven_steps_def example_journal_def)
  with runEffect_outcomes [OF o s s, of "''now''" False "Inl (JError ''disk full'')" "\<lambda>e. False" "fst ?run" "snd ?run"]
  show ?thesis by simp
qed

end
