(* ===== verification/Recovery.thy ===== *)
theory Recovery
  imports Journal
begin

text \<open>
  Recovery of an interrupted operation (\<open>src/onboarding/application/recovery.ts\<close>): which entries of a
  journal are unresolved boundaries, whether a journal needs recovery, and \<open>recoverOperation\<close>, which
  observes the boundaries and then settles them. The callbacks \<open>observe\<close> and \<open>compensate\<close> and the
  abort signal are fields of an environment over a world of any type; every call passes the world on.
  The lemmas show that nothing is changed before every boundary is observed, that recovery succeeds
  when the observations are unambiguous, and which journals it cannot settle.
\<close>

subsection \<open>Unresolved boundaries\<close>

datatype RecoveryObservation = Absent | Matching | OwnedMismatch | Ambiguous

datatype RecoveryDisposition = Complete | SafeRetry | Resume | RecoveryRequired

record RecoveryResult =
  rr_disposition :: RecoveryDisposition
  rr_changed :: bool
  rr_boundary :: "string option"

definition unproven_completion :: "JournalEntry \<Rightarrow> bool" where
  "unproven_completion e \<longleftrightarrow> detail_get (je_detail e) ''completion'' = Some (DStr ''unproven'')"

definition unresolved_step :: "JournalEntry \<Rightarrow> (string \<times> JournalEntry) list \<Rightarrow> (string \<times> JournalEntry) list" where
  "unresolved_step e m =
     (if je_phase e = Effect then AList.update (je_step e) e m
      else if je_phase e = Compensate then
        (if unproven_completion e then AList.update (je_step e) e m else AList.delete (je_step e) m)
      else if je_phase e = Commit then []
      else m)"

definition by_sequence :: "JournalEntry \<Rightarrow> JournalEntry \<Rightarrow> int" where
  "by_sequence left right = int (je_sequence left) - int (je_sequence right)"

definition unresolvedEffectBoundaries :: "JournalEntry list \<Rightarrow> JournalEntry list" where
  "unresolvedEffectBoundaries es = js_sort by_sequence (map snd (fold unresolved_step es []))"

definition status_is :: "string \<Rightarrow> JournalEntry \<Rightarrow> bool" where
  "status_is s e \<longleftrightarrow> detail_get (je_detail e) ''status'' = Some (DStr s)"

definition journalNeedsRecovery :: "JournalEntry list \<Rightarrow> bool" where
  "journalNeedsRecovery es =
     (if es = [] \<or> je_phase (last es) = Commit then False
      else if je_phase (last es) \<noteq> Cancel then True
      else if status_is ''recovery-required'' (last es) then True
      else 0 < length (unresolvedEffectBoundaries es))"

subsection \<open>Recovery\<close>

record 'w recovery_env =
  re_observe :: "string \<Rightarrow> 'w \<Rightarrow> (journal_error + RecoveryObservation) \<times> 'w"
  re_compensate :: "string \<Rightarrow> 'w \<Rightarrow> (journal_error + unit) \<times> 'w"
  re_aborted :: "'w \<Rightarrow> bool"
  re_now :: string

datatype observed = AmbiguousAt string | Observed "(JournalEntry \<times> RecoveryObservation) list"

fun observe_boundaries ::
  "'w recovery_env \<Rightarrow> JournalEntry list \<Rightarrow> 'w \<Rightarrow> (journal_error + observed) \<times> 'w" where
  "observe_boundaries env [] w = (Inr (Observed []), w)"
| "observe_boundaries env (boundary # rest) w =
     (case re_observe env (je_step boundary) w of
        (Inl e, w1) \<Rightarrow> (Inl e, w1)
      | (Inr observation, w1) \<Rightarrow>
          if re_aborted env w1 then (Inl (JError ''Recovery cancelled''), w1)
          else if observation = Ambiguous then (Inr (AmbiguousAt (je_step boundary)), w1)
          else (case observe_boundaries env rest w1 of
              (Inr (Observed observations), w2) \<Rightarrow> (Inr (Observed ((boundary, observation) # observations)), w2)
            | other \<Rightarrow> other))"

definition observation_text :: "RecoveryObservation \<Rightarrow> string" where
  "observation_text ob = (case ob of Absent \<Rightarrow> ''absent'' | Matching \<Rightarrow> ''matching''
     | OwnedMismatch \<Rightarrow> ''owned-mismatch'' | Ambiguous \<Rightarrow> ''ambiguous'')"

definition recovered_detail :: "RecoveryObservation \<Rightarrow> detail" where
  "recovered_detail ob =
     [(''completion'', DStr (if ob = Absent then ''not-started'' else ''recovered'')),
      (''recoveryRequired'', DBool False), (''observation'', DStr (observation_text ob))]"

definition settle ::
  "'w recovery_env \<Rightarrow> string \<Rightarrow> RecoveryObservation \<Rightarrow> OperationJournal \<Rightarrow> 'w \<Rightarrow>
     (journal_error + unit) \<times> OperationJournal \<times> 'w" where
  "settle env step ob j w =
     (case (if ob = OwnedMismatch then re_compensate env step w else (Inr (), w)) of
        (Inl e, w1) \<Rightarrow> (Inl e, j, w1)
      | (Inr _, w1) \<Rightarrow>
          (case append (re_now env) Compensate step (recovered_detail ob) j of
             Inl e \<Rightarrow> (Inl e, j, w1)
           | Inr j1 \<Rightarrow> (Inr (), j1, w1)))"

fun settle_all ::
  "'w recovery_env \<Rightarrow> (JournalEntry \<times> RecoveryObservation) list \<Rightarrow> OperationJournal \<Rightarrow> 'w \<Rightarrow>
     (journal_error + unit) \<times> OperationJournal \<times> 'w" where
  "settle_all env [] j w = (Inr (), j, w)"
| "settle_all env ((boundary, ob) # rest) j w =
     (case settle env (je_step boundary) ob j w of
        (Inl e, j1, w1) \<Rightarrow> (Inl e, j1, w1)
      | (Inr _, j1, w1) \<Rightarrow> settle_all env rest j1 w1)"

definition finish_recovery ::
  "'w recovery_env \<Rightarrow> RecoveryResult \<Rightarrow> OperationJournal \<Rightarrow> 'w \<Rightarrow>
     (journal_error + RecoveryResult) \<times> OperationJournal \<times> 'w" where
  "finish_recovery env res j w =
     (case journal_commit (re_now env) [(''status'', DStr ''recovered'')] j of
        Inl e \<Rightarrow> (Inl e, j, w)
      | Inr j1 \<Rightarrow> (Inr res, j1, w))"

definition reconcileEffectBoundaries ::
  "'w recovery_env \<Rightarrow> JournalEntry list \<Rightarrow> OperationJournal \<Rightarrow> 'w \<Rightarrow>
     (journal_error + RecoveryResult) \<times> OperationJournal \<times> 'w" where
  "reconcileEffectBoundaries env boundaries j w =
     (case observe_boundaries env (rev boundaries) w of
        (Inl e, w1) \<Rightarrow> (Inl e, j, w1)
      | (Inr (AmbiguousAt step), w1) \<Rightarrow>
          (Inr \<lparr>rr_disposition = RecoveryRequired, rr_changed = False, rr_boundary = Some step\<rparr>, j, w1)
      | (Inr (Observed observations), w1) \<Rightarrow>
          (case settle_all env observations j w1 of
             (Inl e, j2, w2) \<Rightarrow> (Inl e, j2, w2)
           | (Inr _, j2, w2) \<Rightarrow>
               finish_recovery env
                 \<lparr>rr_disposition = (if list_all (\<lambda>(boundary, ob). ob = Absent) observations
                                    then SafeRetry else Resume),
                  rr_changed = True,
                  rr_boundary = (if boundaries = [] then None else Some (je_step (last boundaries)))\<rparr> j2 w2))"

definition recover_intent ::
  "'w recovery_env \<Rightarrow> string \<Rightarrow> OperationJournal \<Rightarrow> 'w \<Rightarrow>
     (journal_error + RecoveryResult) \<times> OperationJournal \<times> 'w" where
  "recover_intent env step j w =
     (case re_observe env step w of
        (Inl e, w1) \<Rightarrow> (Inl e, j, w1)
      | (Inr observation, w1) \<Rightarrow>
          if re_aborted env w1 then (Inl (JError ''Recovery cancelled''), j, w1)
          else if observation = Ambiguous
          then (Inr \<lparr>rr_disposition = RecoveryRequired, rr_changed = False, rr_boundary = Some step\<rparr>, j, w1)
          else if observation = Matching then
            (case append (re_now env) Effect step [(''completion'', DStr ''recovered'')] j of
               Inl e \<Rightarrow> (Inl e, j, w1)
             | Inr j1 \<Rightarrow>
                 (case append (re_now env) Verify step [(''recovered'', DBool True)] j1 of
                    Inl e \<Rightarrow> (Inl e, j1, w1)
                  | Inr j2 \<Rightarrow>
                      finish_recovery env
                        \<lparr>rr_disposition = Resume, rr_changed = True, rr_boundary = Some step\<rparr> j2 w1))
          else
            (case settle env step observation j w1 of
               (Inl e, j1, w2) \<Rightarrow> (Inl e, j1, w2)
             | (Inr _, j1, w2) \<Rightarrow>
                 finish_recovery env
                   \<lparr>rr_disposition = (if observation = Absent then SafeRetry else Resume),
                    rr_changed = True, rr_boundary = Some step\<rparr> j1 w2))"

definition recoverOperation ::
  "'w recovery_env \<Rightarrow> OperationJournal \<Rightarrow> 'w \<Rightarrow>
     (journal_error + RecoveryResult) \<times> OperationJournal \<times> 'w" where
  "recoverOperation env j w =
     (if re_aborted env w then (Inl (JError ''Recovery cancelled''), j, w)
      else case last_entry j of
        None \<Rightarrow> (Inr \<lparr>rr_disposition = SafeRetry, rr_changed = False, rr_boundary = None\<rparr>, j, w)
      | Some last_e \<Rightarrow>
        if je_phase last_e = Commit
        then (Inr \<lparr>rr_disposition = Complete, rr_changed = False, rr_boundary = Some (je_step last_e)\<rparr>, j, w)
        else
          let unresolved = unresolvedEffectBoundaries (oj_entries j)
          in if 0 < length unresolved then reconcileEffectBoundaries env unresolved j w
             else if je_phase last_e = Cancel then
               (Inr \<lparr>rr_disposition = (if status_is ''recovery-required'' last_e then RecoveryRequired
                                       else SafeRetry),
                     rr_changed = False, rr_boundary = Some (je_step last_e)\<rparr>, j, w)
             else if je_phase last_e = Intent then recover_intent env (je_step last_e) j w
             else if je_phase last_e = Verify \<or> je_phase last_e = Compensate then
               finish_recovery env
                 \<lparr>rr_disposition = Resume, rr_changed = False, rr_boundary = Some (je_step last_e)\<rparr> j w
             else (Inr \<lparr>rr_disposition = SafeRetry, rr_changed = False, rr_boundary = None\<rparr>, j, w))"

subsection \<open>Nothing changes before everything is observed\<close>

definition observe_only :: "'w recovery_env \<Rightarrow> string list \<Rightarrow> 'w \<Rightarrow> 'w" where
  "observe_only env steps w = foldl (\<lambda>v step. snd (re_observe env step v)) w steps"

lemma observe_boundaries_world:
  "observe_boundaries env bs w = (r, w') \<Longrightarrow>
     \<exists>n \<le> length bs. w' = observe_only env (map je_step (take n bs)) w \<and>
       (\<forall>obs. r = Inr (Observed obs) \<longrightarrow>
          n = length bs \<and> map fst obs = bs \<and> list_all (\<lambda>x. snd x \<noteq> Ambiguous) obs)"
proof (induction bs arbitrary: w r w')
  case Nil
  then show ?case by (auto simp: observe_only_def)
next
  case (Cons b bs)
  obtain o1 w1 where o1: "re_observe env (je_step b) w = (o1, w1)" by (cases "re_observe env (je_step b) w")
  have step: "observe_only env (je_step b # ss) w = observe_only env ss w1" for ss
    by (simp add: observe_only_def o1)
  obtain r2 w2 where r2: "observe_boundaries env bs w1 = (r2, w2)" by (cases "observe_boundaries env bs w1")
  from Cons.IH [OF r2] obtain n where n: "n \<le> length bs" "w2 = observe_only env (map je_step (take n bs)) w1"
    "\<forall>obs. r2 = Inr (Observed obs) \<longrightarrow> n = length bs \<and> map fst obs = bs \<and> list_all (\<lambda>x. snd x \<noteq> Ambiguous) obs"
    by blast
  have "1 \<le> length (b # bs) \<and> w1 = observe_only env (map je_step (take 1 (b # bs))) w"
    by (simp add: step) (simp add: observe_only_def)
  then have one: "\<exists>n \<le> length (b # bs). w1 = observe_only env (map je_step (take n (b # bs))) w" by blast
  show ?case
  proof (cases o1)
    case (Inl e)
    with Cons.prems o1 have "r = Inl e" "w' = w1" by simp_all
    with one show ?thesis by blast
  next
    case (Inr ob)
    show ?thesis
    proof (cases "re_aborted env w1 \<or> ob = Ambiguous")
      case True
      with Cons.prems o1 Inr have "w' = w1" "\<forall>obs. r \<noteq> Inr (Observed obs)" by (auto split: if_splits)
      with one show ?thesis by blast
    next
      case False
      with Cons.prems o1 Inr r2 have "w' = w2"
        "\<forall>obs. r = Inr (Observed obs) \<longrightarrow> (\<exists>obs'. r2 = Inr (Observed obs') \<and> obs = (b, ob) # obs')"
        by (auto split: sum.splits observed.splits)
      with n False show ?thesis
        by (intro exI [of _ "Suc n"]) (auto simp: step)
    qed
  qed
qed

text \<open>C13. An ambiguous observation changes nothing: whenever recovery answers that manual recovery is
  required, the journal is exactly as it was, nothing was compensated, and the only calls made were
  observations, because every boundary is observed before the first one is settled.\<close>

theorem recovery_required_changes_nothing:
  assumes "recoverOperation env j w = (Inr res, j', w')"
    and "rr_disposition res = RecoveryRequired"
  shows "j' = j \<and> \<not> rr_changed res \<and> (\<exists>steps. w' = observe_only env steps w)"
proof -
  have fin: "finish_recovery env r k v = (Inr res, j', w') \<Longrightarrow> res = r" for r k v
    by (auto simp: finish_recovery_def split: sum.splits)
  have none: "w' = w \<Longrightarrow> \<exists>steps. w' = observe_only env steps w"
    by (intro exI [of _ "[]"]) (simp add: observe_only_def)
  have recon: ?thesis if r: "reconcileEffectBoundaries env bs j w = (Inr res, j', w')" for bs
  proof -
    obtain r1 w1 where o: "observe_boundaries env (rev bs) w = (r1, w1)"
      by (cases "observe_boundaries env (rev bs) w")
    show ?thesis
    proof (cases "\<exists>step. r1 = Inr (AmbiguousAt step)")
      case True
      with r o have "j' = j" "\<not> rr_changed res" "w' = w1" by (auto simp: reconcileEffectBoundaries_def)
      with observe_boundaries_world [OF o] show ?thesis by blast
    next
      case False
      with r o obtain obs j2 w2 r2 where "finish_recovery env r2 j2 w2 = (Inr res, j', w')"
        "rr_disposition r2 \<in> {SafeRetry, Resume}"
        by (auto simp: reconcileEffectBoundaries_def split: sum.splits observed.splits prod.splits)
      with fin [OF this(1)] assms(2) show ?thesis by auto
    qed
  qed
  have intent: ?thesis if r: "recover_intent env step j w = (Inr res, j', w')" for step
  proof -
    obtain r1 w1 where o: "re_observe env step w = (r1, w1)" by (cases "re_observe env step w")
    show ?thesis
    proof (cases "r1 = Inr Ambiguous \<and> \<not> re_aborted env w1")
      case True
      with r o have "j' = j" "\<not> rr_changed res" "w' = observe_only env [step] w"
        by (auto simp: recover_intent_def observe_only_def)
      then show ?thesis by blast
    next
      case False
      with r o obtain k v r2 where "finish_recovery env r2 k v = (Inr res, j', w')"
        "rr_disposition r2 \<in> {SafeRetry, Resume}"
        by (auto simp: recover_intent_def split: sum.splits prod.splits if_splits)
      with fin [OF this(1)] assms(2) show ?thesis by auto
    qed
  qed
  from assms show ?thesis
    using recon intent none
    by (auto simp: recoverOperation_def Let_def dest!: fin split: option.splits if_splits)
qed

subsection \<open>What recovery settles\<close>

lemma fold_unresolved_snoc:
  "fold unresolved_step (es @ [e]) [] = unresolved_step e (fold unresolved_step es [])"
  by simp

lemma unresolved_empty:
  "unresolvedEffectBoundaries es = [] \<longleftrightarrow> fold unresolved_step es [] = []"
  by (simp add: unresolvedEffectBoundaries_def)

lemma update_nonempty: "AList.update k v m \<noteq> []"
  by (induction m) auto

lemma unresolved_last:
  assumes "unresolvedEffectBoundaries es = []" and "es \<noteq> []"
  shows "je_phase (last es) \<noteq> Effect" and "je_phase (last es) = Compensate \<longrightarrow> \<not> unproven_completion (last es)"
proof -
  obtain xs e where es: "es = xs @ [e]" using assms(2) by (cases es rule: rev_cases) auto
  from assms(1) have "unresolved_step e (fold unresolved_step xs []) = []"
    by (simp add: unresolved_empty es)
  then show "je_phase (last es) \<noteq> Effect" "je_phase (last es) = Compensate \<longrightarrow> \<not> unproven_completion (last es)"
    by (auto simp: es update_nonempty unresolved_step_def split: if_splits)
qed

lemma AList_values:
  "snd ` set (AList.update k v m) \<subseteq> insert v (snd ` set m)"
  "snd ` set (AList.delete k m) \<subseteq> snd ` set m"
  by (induction m) (auto simp: AList.delete_eq)

lemma unresolved_step_values: "snd ` set (unresolved_step e m) \<subseteq> insert e (snd ` set m)"
  using AList_values(1) [of "je_step e" e m] AList_values(2) [of "je_step e" m]
  by (auto simp: unresolved_step_def)

lemma unresolved_subset: "e \<in> set (unresolvedEffectBoundaries es) \<Longrightarrow> e \<in> set es"
proof -
  have "snd ` set (fold unresolved_step es []) \<subseteq> set es" for es
  proof (induction es rule: rev_induct)
    case (snoc e es)
    have "snd ` set (fold unresolved_step (es @ [e]) []) \<subseteq> insert e (snd ` set (fold unresolved_step es []))"
      unfolding fold_unresolved_snoc by (rule unresolved_step_values)
    also have "\<dots> \<subseteq> insert e (set es)" using snoc by (rule insert_mono)
    finally show ?case by simp
  qed simp
  then show "e \<in> set (unresolvedEffectBoundaries es) \<Longrightarrow> e \<in> set es"
    by (auto simp: unresolvedEffectBoundaries_def)
qed

lemma valid_log_schema:
  assumes "valid_log es" and "e \<in> set es"
  shows "step_ok (je_step e) []"
proof -
  obtain xs ys where "es = xs @ e # ys" using split_list [OF assms(2)] by blast
  with assms(1) have "well_placed xs e" unfolding valid_log_def by blast
  then show ?thesis by (simp add: well_placed_def journalEntrySchema_def step_ok_def)
qed

lemma step_ok_recovered: "step_ok st [] \<Longrightarrow> step_ok st (recovered_detail ob)"
  by (cases ob) (simp_all add: step_ok_def recovered_detail_def observation_text_def js_length_def code_of_def)

text \<open>A log that still accepts a compensation entry.\<close>

definition compensable :: "OperationJournal \<Rightarrow> bool" where
  "compensable j \<longleftrightarrow> valid_log (oj_entries j) \<and>
     (oj_entries j \<noteq> [] \<longrightarrow>
        je_phase (last (oj_entries j)) \<noteq> Commit \<and>
        (je_phase (last (oj_entries j)) = Cancel \<longrightarrow>
           status_is ''failed'' (last (oj_entries j)) \<or> status_is ''recovery-required'' (last (oj_entries j))))"

lemma append_compensate:
  assumes "compensable j" and "step_ok st d"
  shows "append t Compensate st d j = Inr (j\<lparr>oj_entries := oj_entries j @ [entry_at t Compensate st d (oj_entries j)]\<rparr>)"
    and "open_log (j\<lparr>oj_entries := oj_entries j @ [entry_at t Compensate st d (oj_entries j)]\<rparr>)"
  using assms
  by (auto simp: append_Inr compensable_def open_log_def valid_log_snoc well_placed_def well_followed_def
      entry_schema_step_ok status_is_def)

lemma open_compensable: "open_log j \<Longrightarrow> compensable j"
  by (auto simp: open_log_def compensable_def)

definition friendly :: "'w recovery_env \<Rightarrow> bool" where
  "friendly env \<longleftrightarrow>
     (\<forall>w. \<not> re_aborted env w) \<and>
     (\<forall>s w. \<exists>ob w'. re_observe env s w = (Inr ob, w') \<and> ob \<noteq> Ambiguous) \<and>
     (\<forall>s w. \<exists>w'. re_compensate env s w = (Inr (), w'))"

lemma settle_friendly:
  assumes "friendly env" and "compensable j" and "step_ok st []"
  shows "\<exists>w'. settle env st ob j w =
     (Inr (), j\<lparr>oj_entries := oj_entries j @ [entry_at (re_now env) Compensate st (recovered_detail ob) (oj_entries j)]\<rparr>, w')"
proof -
  from assms(1) obtain w1 where "re_compensate env st w = (Inr (), w1)" unfolding friendly_def by blast
  with append_compensate(1) [OF assms(2) step_ok_recovered [OF assms(3)]] show ?thesis
    by (simp add: settle_def)
qed

lemma settle_all_friendly:
  assumes "friendly env" and "compensable j" and "\<forall>(b, ob) \<in> set obs. step_ok (je_step b) []" and "obs \<noteq> []"
  shows "\<exists>j' w' new. settle_all env obs j w = (Inr (), j', w') \<and> open_log j' \<and>
    j' = j\<lparr>oj_entries := oj_entries j @ new\<rparr> \<and> new \<noteq> [] \<and>
    je_phase (last new) = Compensate \<and> \<not> unproven_completion (last new)"
  using assms(2-)
proof (induction obs arbitrary: j w)
  case (Cons x obs)
  obtain b ob where x: "x = (b, ob)" by (cases x)
  let ?e = "entry_at (re_now env) Compensate (je_step b) (recovered_detail ob) (oj_entries j)"
  let ?j = "j\<lparr>oj_entries := oj_entries j @ [?e]\<rparr>"
  have ok: "step_ok (je_step b) []" using Cons.prems(2) x by auto
  obtain w1 where s: "settle env (je_step b) ob j w = (Inr (), ?j, w1)"
    using settle_friendly [OF assms(1) Cons.prems(1) ok] by blast
  have o: "open_log ?j" by (rule append_compensate(2) [OF Cons.prems(1) step_ok_recovered [OF ok]])
  have e: "\<not> unproven_completion ?e"
    by (simp add: unproven_completion_def recovered_detail_def detail_get_def)
  show ?case
  proof (cases "obs = []")
    case True
    with s x o e show ?thesis by simp (intro exI [of _ "[?e]"], simp)
  next
    case False
    with Cons.IH [OF open_compensable [OF o], of w1] Cons.prems(2) obtain j' w' new where
      "settle_all env obs ?j w1 = (Inr (), j', w')" "open_log j'"
      "j' = ?j\<lparr>oj_entries := oj_entries ?j @ new\<rparr>" "new \<noteq> []"
      "je_phase (last new) = Compensate" "\<not> unproven_completion (last new)" by auto
    with s x show ?thesis
      by (intro exI [of _ j'] exI [of _ w'] exI [of _ "?e # new"]) simp
  qed
qed simp

lemma observe_boundaries_friendly:
  assumes "friendly env" and "observe_boundaries env bs w = (r, w')"
  shows "\<exists>obs. r = Inr (Observed obs) \<and> map fst obs = bs"
  using assms(2)
proof (induction bs arbitrary: w r w')
  case (Cons b bs)
  from assms(1) obtain ob w1 where "re_observe env (je_step b) w = (Inr ob, w1)" "ob \<noteq> Ambiguous"
    "\<not> re_aborted env w1" unfolding friendly_def by blast
  moreover obtain r2 w2 where r2: "observe_boundaries env bs w1 = (r2, w2)"
    by (cases "observe_boundaries env bs w1")
  moreover from Cons.IH [OF r2] obtain obs where "r2 = Inr (Observed obs)" "map fst obs = bs" by blast
  ultimately show ?case using Cons.prems by auto
qed simp

lemma finish_recovery_ok:
  assumes "open_log j" and "step_ok (oj_command j) []" and "oj_entries j \<noteq> []"
    and "(\<exists>v \<in> set (oj_entries j). je_phase v = Verify) \<or>
      (je_phase (last (oj_entries j)) = Compensate \<and> \<not> unproven_completion (last (oj_entries j)))"
  shows "\<exists>e. finish_recovery env res j w = (Inr res, j\<lparr>oj_entries := oj_entries j @ [e]\<rparr>, w) \<and>
     je_phase e = Commit \<and> valid_log (oj_entries j @ [e])"
proof -
  let ?e = "entry_at (re_now env) Commit (oj_command j) [(''status'', DStr ''recovered'')] (oj_entries j)"
  have "step_ok (oj_command j) [(''status'', DStr ''recovered'')]"
    using assms(2) by (simp add: step_ok_def js_length_def code_of_def)
  then have w: "well_placed (oj_entries j) ?e" "well_followed (last (oj_entries j)) [?e]"
    using assms by (auto simp: well_placed_def well_followed_def entry_schema_step_ok detail_get_def
        unproven_completion_def open_log_def)
  then have "valid_log (oj_entries j @ [?e])" using assms(1) by (simp add: valid_log_snoc open_log_def)
  moreover have "append (re_now env) Commit (oj_command j) [(''status'', DStr ''recovered'')] j =
      Inr (j\<lparr>oj_entries := oj_entries j @ [?e]\<rparr>)"
    using w by (simp add: append_Inr)
  ultimately show ?thesis by (intro exI [of _ ?e]) (simp add: finish_recovery_def journal_commit_def)
qed

text \<open>The outcome that recovery should reach.\<close>

definition settles ::
  "OperationJournal \<Rightarrow> (journal_error + RecoveryResult) \<times> OperationJournal \<times> 'w \<Rightarrow> bool" where
  "settles j out \<longleftrightarrow>
     (\<exists>res w' new. out = (Inr res, j\<lparr>oj_entries := oj_entries j @ new\<rparr>, w') \<and>
        rr_disposition res \<noteq> RecoveryRequired \<and>
        valid_log (oj_entries j @ new) \<and> \<not> journalNeedsRecovery (oj_entries j @ new))"

lemma settles_unchanged:
  "rr_disposition res \<noteq> RecoveryRequired \<Longrightarrow> valid_log (oj_entries j) \<Longrightarrow>
     \<not> journalNeedsRecovery (oj_entries j) \<Longrightarrow> settles j (Inr res, j, w)"
  unfolding settles_def by (intro exI [of _ res] exI [of _ w] exI [of _ "[]"]) simp

lemma settles_finish:
  assumes "rr_disposition r \<noteq> RecoveryRequired" and "step_ok (oj_command j) []"
    and "open_log (j\<lparr>oj_entries := oj_entries j @ new\<rparr>)" and "oj_entries j @ new \<noteq> []"
    and "(\<exists>e \<in> set (oj_entries j @ new). je_phase e = Verify) \<or>
         (je_phase (last (oj_entries j @ new)) = Compensate \<and> \<not> unproven_completion (last (oj_entries j @ new)))"
  shows "settles j (finish_recovery env r (j\<lparr>oj_entries := oj_entries j @ new\<rparr>) v)"
proof -
  from finish_recovery_ok [OF assms(3), of env r v] assms(2,4,5) obtain e where
    "finish_recovery env r (j\<lparr>oj_entries := oj_entries j @ new\<rparr>) v
       = (Inr r, j\<lparr>oj_entries := oj_entries j @ new @ [e]\<rparr>, v)"
    "je_phase e = Commit" "valid_log (oj_entries j @ new @ [e])" by auto
  with assms(1) show ?thesis
    unfolding settles_def
    by (intro exI [of _ r] exI [of _ v] exI [of _ "new @ [e]"]) (simp add: journalNeedsRecovery_def)
qed

lemma settles_reconcile:
  assumes "friendly env" and "compensable j" and "step_ok (oj_command j) []"
    and un: "unresolvedEffectBoundaries (oj_entries j) \<noteq> []"
  shows "settles j (reconcileEffectBoundaries env (unresolvedEffectBoundaries (oj_entries j)) j w)"
proof -
  let ?un = "unresolvedEffectBoundaries (oj_entries j)"
  have valid: "valid_log (oj_entries j)" using assms(2) by (simp add: compensable_def)
  obtain r1 w1 where ob: "observe_boundaries env (rev ?un) w = (r1, w1)"
    by (cases "observe_boundaries env (rev ?un) w")
  obtain obs where obs: "r1 = Inr (Observed obs)" "map fst obs = rev ?un"
    using observe_boundaries_friendly [OF assms(1) ob] by blast
  have "case p of (b, x) \<Rightarrow> step_ok (je_step b) []" if "p \<in> set obs" for p
  proof -
    have "fst p \<in> set ?un" using obs(2) that by (metis image_eqI set_map set_rev)
    then show ?thesis using valid_log_schema [OF valid] unresolved_subset by (cases p) auto
  qed
  then have ok: "\<forall>p \<in> set obs. case p of (b, x) \<Rightarrow> step_ok (je_step b) []" by blast
  have "obs \<noteq> []" using obs(2) un by auto
  from settle_all_friendly [OF assms(1,2) ok this, of w1] obtain j' w' new where
    s: "settle_all env obs j w1 = (Inr (), j', w')" "open_log j'"
      "j' = j\<lparr>oj_entries := oj_entries j @ new\<rparr>" "new \<noteq> []"
      "je_phase (last new) = Compensate" "\<not> unproven_completion (last new)" by blast
  show ?thesis
    unfolding reconcileEffectBoundaries_def ob obs(1)
    using s un by (simp add: settles_finish [OF _ assms(3)])
qed

lemma settles_intent:
  assumes "friendly env" and "valid_log (oj_entries j)" and "step_ok (oj_command j) []"
    and ne: "oj_entries j \<noteq> []" and intent: "je_phase (last (oj_entries j)) = Intent"
  shows "settles j (recover_intent env (je_step (last (oj_entries j))) j w)"
proof -
  let ?step = "je_step (last (oj_entries j))"
  have o: "open_log j" using assms(2) intent by (simp add: open_log_def)
  have st: "step_ok ?step []" using valid_log_schema [OF assms(2)] ne by simp
  then have ok: "step_ok ?step [(''completion'', DStr ''recovered'')]" "step_ok ?step [(''recovered'', DBool True)]"
    by (simp_all add: step_ok_def js_length_def code_of_def)
  obtain x w1 where x: "re_observe env ?step w = (Inr x, w1)" "x \<noteq> Ambiguous" "\<not> re_aborted env w1"
    using assms(1) unfolding friendly_def by blast
  show ?thesis
  proof (cases "x = Matching")
    case True
    note e = append_open [OF o ok(1), of Effect "re_now env", simplified, OF conjI [OF ne intent]]
    note v = append_open [OF e(2) ok(2), of Verify "re_now env", simplified]
    show ?thesis
      unfolding recover_intent_def x(1)
      using True x(3) e(1) v by (simp add: settles_finish [OF _ assms(3)])
  next
    case False
    obtain w2 where s: "settle env ?step x j w1 =
      (Inr (), j\<lparr>oj_entries := oj_entries j @
         [entry_at (re_now env) Compensate ?step (recovered_detail x) (oj_entries j)]\<rparr>, w2)"
      using settle_friendly [OF assms(1) open_compensable [OF o] st] by blast
    show ?thesis
      unfolding recover_intent_def x(1)
      using append_compensate(2) [OF open_compensable [OF o] step_ok_recovered [OF st]] x(2,3) False s
      by (simp add: settles_finish [OF _ assms(3)] unproven_completion_def recovered_detail_def detail_get_def)
  qed
qed

text \<open>C14. Recovery settles what it can observe: on a valid journal whose cancellation, if any, is one
  that failed with boundaries left or one with nothing left to do, and with observations that are
  never ambiguous, \<open>recoverOperation\<close> returns, only appends to the journal, leaves it valid, and the
  journal does not need recovery afterwards.\<close>

theorem recoverOperation_settles:
  assumes "friendly env" and "valid_log (oj_entries j)" and "step_ok (oj_command j) []"
    and "oj_entries j \<noteq> [] \<and> je_phase (last (oj_entries j)) = Cancel \<longrightarrow>
      (if unresolvedEffectBoundaries (oj_entries j) = []
       then \<not> status_is ''recovery-required'' (last (oj_entries j))
       else status_is ''failed'' (last (oj_entries j)) \<or> status_is ''recovery-required'' (last (oj_entries j)))"
  shows "settles j (recoverOperation env j w)"
proof (cases "oj_entries j = [] \<or> je_phase (last (oj_entries j)) = Commit")
  case True
  with assms(1,2) show ?thesis
    by (auto simp: recoverOperation_def last_entry_def journalNeedsRecovery_def friendly_def
        intro!: settles_unchanged)
next
  case False
  let ?last = "last (oj_entries j)" and ?un = "unresolvedEffectBoundaries (oj_entries j)"
  have r: "recoverOperation env j w = (if 0 < length ?un then reconcileEffectBoundaries env ?un j w
     else if je_phase ?last = Cancel then
       (Inr \<lparr>rr_disposition = (if status_is ''recovery-required'' ?last then RecoveryRequired else SafeRetry),
             rr_changed = False, rr_boundary = Some (je_step ?last)\<rparr>, j, w)
     else if je_phase ?last = Intent then recover_intent env (je_step ?last) j w
     else if je_phase ?last = Verify \<or> je_phase ?last = Compensate then
       finish_recovery env \<lparr>rr_disposition = Resume, rr_changed = False, rr_boundary = Some (je_step ?last)\<rparr> j w
     else (Inr \<lparr>rr_disposition = SafeRetry, rr_changed = False, rr_boundary = None\<rparr>, j, w))"
    using assms(1) False by (simp add: recoverOperation_def last_entry_def friendly_def Let_def)
  show ?thesis
  proof (cases "?un = []")
    case True
    note last = unresolved_last [OF True] and fin = settles_finish [of _ j "[]", simplified]
    have "je_phase ?last \<noteq> Cancel \<Longrightarrow> open_log j" using assms(2) False by (simp add: open_log_def)
    then show ?thesis
      unfolding r using True last False assms
      by (cases "je_phase ?last")
        (auto simp: journalNeedsRecovery_def intro!: settles_unchanged settles_intent fin bexI [of _ ?last])
  next
    case un: False
    have "compensable j" using assms(2,4) False un by (auto simp: compensable_def)
    then show ?thesis unfolding r using settles_reconcile [OF assms(1) _ assms(3) un] un by simp
  qed
qed

subsection \<open>What recovery cannot settle, and what it does not observe\<close>

text \<open>A cancellation with another status blocks recovery for good: a journal cancelled as, say,
  \<open>cancelled\<close> while a recorded effect is unresolved is reported as needing recovery, yet
  \<open>recoverOperation\<close> can never settle it: it answers that recovery is required or throws, and leaves
  the journal as it is, so the journal needs recovery again.\<close>

theorem cancelled_effect_blocks_recovery:
  assumes "oj_entries j \<noteq> []" and "je_phase (last (oj_entries j)) = Cancel"
    and "\<not> status_is ''failed'' (last (oj_entries j))"
    and "\<not> status_is ''recovery-required'' (last (oj_entries j))"
    and "unresolvedEffectBoundaries (oj_entries j) \<noteq> []"
    and "recoverOperation env j w = (out, j', w')"
  shows "journalNeedsRecovery (oj_entries j) \<and> j' = j \<and>
    (case out of Inl e \<Rightarrow> True | Inr res \<Rightarrow> rr_disposition res = RecoveryRequired)"
proof -
  let ?un = "unresolvedEffectBoundaries (oj_entries j)"
  have blocked: "\<exists>e. append t Compensate st d j = Inl e" for t st d
    using assms(1-4) by (auto simp: append_def last_entry_def has_phase_def resumingCancelledOperation_def status_is_def)
  have settle: "\<exists>e v'. settle env st ob j v = (Inl e, j, v')" for st ob v
    using blocked [of "re_now env" st "recovered_detail ob"]
    by (auto simp: settle_def split: sum.splits prod.splits)
  have recon: "j' = j \<and> (case out of Inl e \<Rightarrow> True | Inr res \<Rightarrow> rr_disposition res = RecoveryRequired)"
    if r: "reconcileEffectBoundaries env ?un j w = (out, j', w')"
  proof -
    obtain r1 w1 where o: "observe_boundaries env (rev ?un) w = (r1, w1)"
      by (cases "observe_boundaries env (rev ?un) w")
    show ?thesis
    proof (cases "\<exists>obs. r1 = Inr (Observed obs)")
      case True
      then obtain obs where obs: "r1 = Inr (Observed obs)" by blast
      with observe_boundaries_world [OF o] have "map fst obs = rev ?un" by blast
      with assms(5) obtain b ob rest where "obs = (b, ob) # rest" by (cases obs) auto
      with r o obs settle [of "je_step b" ob w1] show ?thesis
        by (auto simp: reconcileEffectBoundaries_def)
    next
      case False
      with r o show ?thesis
        by (auto simp: reconcileEffectBoundaries_def split: sum.splits observed.splits)
    qed
  qed
  have "journalNeedsRecovery (oj_entries j)" using assms(1,2,5) by (simp add: journalNeedsRecovery_def)
  with recon assms(1,2,5,6) show ?thesis
    by (auto simp: recoverOperation_def last_entry_def Let_def split: if_splits)
qed

definition logging_env :: "(string \<Rightarrow> RecoveryObservation) \<Rightarrow> string list recovery_env" where
  "logging_env obs =
     \<lparr>re_observe = (\<lambda>step seen. (Inr (obs step), seen @ [step])),
      re_compensate = (\<lambda>step seen. (Inr (), seen)), re_aborted = (\<lambda>seen. False), re_now = ''now''\<rparr>"

definition journal_of :: "JournalEntry list \<Rightarrow> OperationJournal" where
  "journal_of es = \<lparr>oj_operationId = ''op'', oj_command = ''setup'', oj_entries = es\<rparr>"

lemma journal_of_fields [simp]:
  "oj_entries (journal_of es) = es" "oj_command (journal_of es) = ''setup''"
  by (simp_all add: journal_of_def)

definition example_entry :: "nat \<Rightarrow> JournalPhase \<Rightarrow> string \<Rightarrow> detail \<Rightarrow> JournalEntry" where
  "example_entry n phase step d =
     \<lparr>je_sequence = n, je_timestamp = ''now'', je_phase = phase, je_step = step, je_detail = d\<rparr>"

definition pending_entries :: "JournalEntry list" where
  "pending_entries =
     [example_entry 1 Intent ''a'' [], example_entry 2 Effect ''a'' [],
      example_entry 3 Verify ''a'' [], example_entry 4 Intent ''b'' []]"

lemma valid_log_rev_Cons:
  "valid_log (rev (e # es)) \<longleftrightarrow>
     valid_log (rev es) \<and> well_placed (rev es) e \<and> (es \<noteq> [] \<longrightarrow> well_followed (hd es) [e])"
  by (simp add: valid_log_snoc last_rev)

lemma pending_valid: "valid_log pending_entries"
proof -
  have p: "pending_entries = rev [example_entry 4 Intent ''b'' [], example_entry 3 Verify ''a'' [],
      example_entry 2 Effect ''a'' [], example_entry 1 Intent ''a'' []]"
    by (simp add: pending_entries_def)
  show ?thesis
    unfolding p valid_log_rev_Cons
    by
      (simp add: well_placed_def well_followed_def example_entry_def journalEntrySchema_def js_length_def code_of_def)
qed

lemma pending_unresolved: "unresolvedEffectBoundaries pending_entries = [example_entry 2 Effect ''a'' []]"
  by (simp add: unresolvedEffectBoundaries_def pending_entries_def unresolved_step_def example_entry_def js_sort_Cons)

text \<open>A pending intent is not observed when an earlier effect is unresolved: on a journal that
  records intent, effect and verification of \<open>a\<close> and then the intent of \<open>b\<close>, recovery observes \<open>a\<close>
  alone, commits the journal as recovered and needs no recovery afterwards, whatever state the
  interrupted step \<open>b\<close> is in.\<close>

theorem recovery_skips_pending_intent:
  assumes "obs ''a'' \<noteq> Ambiguous"
  shows "valid_log pending_entries \<and>
    (\<exists>res j'. recoverOperation (logging_env obs) (journal_of pending_entries) [] = (Inr res, j', [''a'']) \<and>
       rr_disposition res \<in> {Resume, SafeRetry} \<and> \<not> journalNeedsRecovery (oj_entries j'))"
proof -
  let ?j = "journal_of pending_entries" and ?env = "logging_env obs"
  have fields: "oj_entries ?j = pending_entries" "oj_command ?j = ''setup''" by (simp_all add: journal_of_def)
  have last: "last_entry ?j = Some (example_entry 4 Intent ''b'' [])"
    by (simp add: last_entry_def fields) (simp add: pending_entries_def)
  have c: "compensable ?j"
    using pending_valid by (simp add: compensable_def fields) (simp add: pending_entries_def example_entry_def)
  have ok: "step_ok ''a'' []" "step_ok (oj_command ?j) []"
    by (simp_all add: step_ok_def fields js_length_def code_of_def)
  note app = append_compensate [OF c step_ok_recovered [OF ok(1), of "obs ''a''"], of "''now''"]
  let ?e = "entry_at ''now'' Compensate ''a'' (recovered_detail (obs ''a'')) (oj_entries ?j)"
  let ?r = "\<lparr>rr_disposition = (if obs ''a'' = Absent then SafeRetry else Resume),
    rr_changed = True, rr_boundary = Some ''a''\<rparr>"
  have now: "re_now ?env = ''now''" by (simp add: logging_env_def)
  have comp: "re_compensate ?env ''a'' [''a''] = (Inr (), [''a''])" by (simp add: logging_env_def)
  have settle: "settle ?env ''a'' (obs ''a'') ?j [''a''] = (Inr (), ?j\<lparr>oj_entries := oj_entries ?j @ [?e]\<rparr>, [''a''])"
    unfolding settle_def now comp app(1) by simp
  have step: "je_step (example_entry 2 Effect ''a'' []) = ''a''" by (simp add: example_entry_def)
  have "observe_boundaries ?env (rev (unresolvedEffectBoundaries (oj_entries ?j))) []
      = (Inr (Observed [(example_entry 2 Effect ''a'' [], obs ''a'')]), [''a''])"
    using assms by (simp add: fields pending_unresolved step logging_env_def)
  then have "reconcileEffectBoundaries ?env (unresolvedEffectBoundaries (oj_entries ?j)) ?j []
      = finish_recovery ?env ?r (?j\<lparr>oj_entries := oj_entries ?j @ [?e]\<rparr>) [''a'']"
    unfolding reconcileEffectBoundaries_def using settle by (simp add: step fields pending_unresolved)
  moreover have "recoverOperation ?env ?j [] =
      reconcileEffectBoundaries ?env (unresolvedEffectBoundaries (oj_entries ?j)) ?j []"
    by (simp add: recoverOperation_def last fields pending_unresolved Let_def)
      (simp add: logging_env_def example_entry_def)
  ultimately have "recoverOperation ?env ?j [] = finish_recovery ?env ?r (?j\<lparr>oj_entries := oj_entries ?j @ [?e]\<rparr>) [''a'']"
    by simp
  moreover
  let ?k = "?j\<lparr>oj_entries := oj_entries ?j @ [?e]\<rparr>"
  have "\<not> unproven_completion ?e"
    by (simp add: unproven_completion_def recovered_detail_def detail_get_def)
  then have "\<exists>e. finish_recovery ?env ?r ?k [''a''] = (Inr ?r, ?k\<lparr>oj_entries := oj_entries ?k @ [e]\<rparr>, [''a'']) \<and>
      je_phase e = Commit \<and> valid_log (oj_entries ?k @ [e])"
    by (intro finish_recovery_ok app(2)) (use ok(2) in simp_all)
  then obtain e where "finish_recovery ?env ?r ?k [''a''] = (Inr ?r, ?k\<lparr>oj_entries := oj_entries ?k @ [e]\<rparr>, [''a''])"
    "je_phase e = Commit" by blast
  moreover from this(2) have "\<not> journalNeedsRecovery (oj_entries (?k\<lparr>oj_entries := oj_entries ?k @ [e]\<rparr>))"
    by (simp add: journalNeedsRecovery_def)
  moreover have "rr_disposition ?r \<in> {Resume, SafeRetry}" by simp
  ultimately show ?thesis using pending_valid by metis
qed

theorem recovery_skips_pending_intent_witness:
  "\<exists>res j'. recoverOperation (logging_env (\<lambda>step. if step = ''a'' then Matching else Ambiguous))
     (journal_of pending_entries) [] = (Inr res, j', [''a'']) \<and> \<not> journalNeedsRecovery (oj_entries j')"
  using recovery_skips_pending_intent [of "\<lambda>step. if step = ''a'' then Matching else Ambiguous"] by auto

definition cancelled_entries :: "JournalEntry list" where
  "cancelled_entries =
     [example_entry 1 Intent ''a'' [], example_entry 2 Effect ''a'' [], example_entry 3 Verify ''a'' [],
      example_entry 4 Cancel ''setup'' [(''status'', DStr ''cancelled'')]]"

theorem cancelled_effect_blocks_recovery_witness:
  "journalNeedsRecovery cancelled_entries \<and>
   fst (snd (recoverOperation (logging_env (\<lambda>step. Matching)) (journal_of cancelled_entries) []))
     = journal_of cancelled_entries"
proof -
  let ?j = "journal_of cancelled_entries" and ?env = "logging_env (\<lambda>step. Matching)"
  have un: "unresolvedEffectBoundaries (oj_entries ?j) \<noteq> []"
    by (simp add: unresolvedEffectBoundaries_def journal_of_def cancelled_entries_def unresolved_step_def
        example_entry_def js_sort_Cons)
  have last: "oj_entries ?j \<noteq> []" "je_phase (last (oj_entries ?j)) = Cancel"
    "\<not> status_is ''failed'' (last (oj_entries ?j))" "\<not> status_is ''recovery-required'' (last (oj_entries ?j))"
    by (simp_all add: journal_of_def cancelled_entries_def example_entry_def status_is_def detail_get_def)
  from cancelled_effect_blocks_recovery [OF last un, of ?env "[]"] show ?thesis
    by (metis journal_of_def OperationJournal.select_convs(3) prod.collapse)
qed

theorem recovery_required_changes_nothing_witness:
  "fst (snd (recoverOperation (logging_env (\<lambda>step. Ambiguous)) (journal_of pending_entries) []))
     = journal_of pending_entries"
proof -
  have last: "last_entry (journal_of pending_entries) = Some (example_entry 4 Intent ''b'' [])"
    by (simp add: last_entry_def journal_of_def pending_entries_def)
  have "recoverOperation (logging_env (\<lambda>step. Ambiguous)) (journal_of pending_entries) []
      = (Inr \<lparr>rr_disposition = RecoveryRequired, rr_changed = False, rr_boundary = Some ''a''\<rparr>,
         journal_of pending_entries, [''a''])"
    by (simp add: recoverOperation_def last reconcileEffectBoundaries_def pending_unresolved Let_def
        logging_env_def example_entry_def)
  from recovery_required_changes_nothing [OF this] this show ?thesis by simp
qed

theorem recoverOperation_settles_witness:
  "settles (journal_of pending_entries)
     (recoverOperation (logging_env (\<lambda>step. OwnedMismatch)) (journal_of pending_entries) [])"
proof (rule recoverOperation_settles)
  show "friendly (logging_env (\<lambda>step. OwnedMismatch))" by (simp add: friendly_def logging_env_def)
  show "valid_log (oj_entries (journal_of pending_entries))" by (simp add: journal_of_def pending_valid)
  show "step_ok (oj_command (journal_of pending_entries)) []"
    by (simp add: journal_of_def step_ok_def js_length_def code_of_def)
qed (simp add: journal_of_def pending_entries_def example_entry_def)

end
