(* ===== verification/Ownership.thy ===== *)
theory Ownership
  imports Revision
begin

text \<open>
  The ownership ledger (\<open>src/onboarding/domain/ownership.ts\<close>): the signed record of the assets that
  the installer created, the external integrations it only relies on, and the plans that decide what
  a removal may touch. \<open>formats\<close> stands for the syntax checks of the schema library. The lemmas show
  that every operation keeps the record verifiable and the two sides disjoint, that the record hash
  pins the record, and what a removal plan contains.
\<close>

record formats =
  uuid :: "string \<Rightarrow> bool"
  datetime :: "string \<Rightarrow> bool"

subsection \<open>Data\<close>

datatype OwnedAssetKind =
  KPath | KRelease | KTrustPolicy | KServiceSecret | KComposeProject | KContainer | KVolume
| KCredential | KMcpEntry | KPlugin | KMarketplace | KBackup | KSourceRegistration

datatype ClientKind = Codex | Claude

datatype AssetRetention = RemoveOnUninstall | RetainByDefault | RemoveOnlyOnPurge

datatype AssetDisposition = DPresent | DRemoved | DRetained | DDrifted | DAmbiguous

record OwnedAsset =
  oa_assetId :: string
  oa_kind :: OwnedAssetKind
  oa_client :: "ClientKind option"
  oa_locator :: string
  oa_expectedIdentitySha256 :: string
  oa_createdByOperation :: string
  oa_retention :: AssetRetention
  oa_disposition :: AssetDisposition

datatype IntegrationScope = ScUser | ScManaged | ScEffective

datatype IntegrationVerification = IvEquivalent | IvConflicting | IvAmbiguous | IvManaged | IvUnavailable

record ExternalIntegrationDependency =
  ed_externalDependencyId :: string
  ed_client :: ClientKind
  ed_kind :: OwnedAssetKind
  ed_scope :: IntegrationScope
  ed_observedIdentitySha256 :: string
  ed_verification :: IntegrationVerification
  ed_lastObservedAt :: string

record OwnershipRecord =
  or_installationId :: string
  or_recordRevision :: int
  or_assets :: "OwnedAsset list"
  or_externalDependencies :: "string list"
  or_recordSha256 :: string

record OwnershipLedger =
  ol_record :: OwnershipRecord
  ol_externalIntegrations :: "ExternalIntegrationDependency list"

fun kind_text :: "OwnedAssetKind \<Rightarrow> string" where
  "kind_text KPath = ''path''"
| "kind_text KRelease = ''release''"
| "kind_text KTrustPolicy = ''trust-policy''"
| "kind_text KServiceSecret = ''service-secret''"
| "kind_text KComposeProject = ''compose-project''"
| "kind_text KContainer = ''container''"
| "kind_text KVolume = ''volume''"
| "kind_text KCredential = ''credential''"
| "kind_text KMcpEntry = ''mcp-entry''"
| "kind_text KPlugin = ''plugin''"
| "kind_text KMarketplace = ''marketplace''"
| "kind_text KBackup = ''backup''"
| "kind_text KSourceRegistration = ''source-registration''"

fun client_text :: "ClientKind \<Rightarrow> string" where
  "client_text Codex = ''codex''"
| "client_text Claude = ''claude''"

fun retention_text :: "AssetRetention \<Rightarrow> string" where
  "retention_text RemoveOnUninstall = ''remove-on-uninstall''"
| "retention_text RetainByDefault = ''retain-by-default''"
| "retention_text RemoveOnlyOnPurge = ''remove-only-on-purge''"

fun disposition_text :: "AssetDisposition \<Rightarrow> string" where
  "disposition_text DPresent = ''present''"
| "disposition_text DRemoved = ''removed''"
| "disposition_text DRetained = ''retained''"
| "disposition_text DDrifted = ''drifted''"
| "disposition_text DAmbiguous = ''ambiguous''"

subsection \<open>Schemas\<close>

definition ownedAssetSchema :: "formats \<Rightarrow> OwnedAsset \<Rightarrow> bool" where
  "ownedAssetSchema fm a \<longleftrightarrow>
     uuid fm (oa_assetId a) \<and> 1 \<le> js_length (oa_locator a) \<and> js_length (oa_locator a) \<le> 512 \<and>
     hex_string 64 (oa_expectedIdentitySha256 a) \<and> uuid fm (oa_createdByOperation a)"

definition externalDependencySchema :: "formats \<Rightarrow> ExternalIntegrationDependency \<Rightarrow> bool" where
  "externalDependencySchema fm d \<longleftrightarrow>
     uuid fm (ed_externalDependencyId d) \<and> ed_kind d \<in> {KMcpEntry, KPlugin, KMarketplace} \<and>
     hex_string 64 (ed_observedIdentitySha256 d) \<and> datetime fm (ed_lastObservedAt d)"

definition ownershipRecordSchema :: "formats \<Rightarrow> OwnershipRecord \<Rightarrow> bool" where
  "ownershipRecordSchema fm r \<longleftrightarrow>
     uuid fm (or_installationId r) \<and>
     0 < or_recordRevision r \<and> or_recordRevision r \<le> MAX_SAFE_INTEGER \<and>
     list_all (ownedAssetSchema fm) (or_assets r) \<and> length (or_assets r) \<le> 1024 \<and>
     list_all (uuid fm) (or_externalDependencies r) \<and> length (or_externalDependencies r) \<le> 32 \<and>
     hex_string 64 (or_recordSha256 r) \<and>
     length (uniq (map oa_assetId (or_assets r))) = length (or_assets r) \<and>
     length (uniq (or_externalDependencies r)) = length (or_externalDependencies r)"

subsection \<open>The record's hash\<close>

text \<open>The module's own canonical form: members that are undefined are dropped, the others are sorted
  by \<open>localeCompare\<close> of their keys.\<close>

function ownershipJson :: "(string \<Rightarrow> string \<Rightarrow> int) \<Rightarrow> json \<Rightarrow> string res" where
  "ownershipJson lc JNull = Inr ''null''"
| "ownershipJson lc (JBool b) = Inr (if b then ''true'' else ''false'')"
| "ownershipJson lc (JStr s) = Inr (quote s)"
| "ownershipJson lc (JNum n) = Inr (show_int n)"
| "ownershipJson lc JFraction = Inl (Error ''ownership value is not canonical'')"
| "ownershipJson lc (JArr entries) =
     and_then (traverse (ownershipJson lc) entries)
       (\<lambda>parts. Inr (CHR ''['' # join '','' parts @ '']''))"
| "ownershipJson lc JUndefined = Inl (Error ''ownership value is not canonical'')"
| "ownershipJson lc JOther = Inl (Error ''ownership value is not canonical'')"
| "ownershipJson lc (JObj members) =
     and_then
       (traverse (\<lambda>(key, entry). and_then (ownershipJson lc entry) (\<lambda>t. Inr (quote key @ '':'' @ t)))
         (js_sort (\<lambda>l r. lc (fst l) (fst r)) (filter (\<lambda>(key, entry). entry \<noteq> JUndefined) members)))
       (\<lambda>parts. Inr (CHR ''{'' # join '','' parts @ ''}''))"
  by pat_completeness auto
termination
proof (relation "measure (\<lambda>(lc, v). size v)", goal_cases)
  case 1
  then show ?case by simp
next
  case (2 lc entries v)
  then have "size v \<le> size_list size entries" by (auto intro: size_list_estimation')
  then show ?case by simp
next
  case (3 lc members p key entry)
  then have "(key, entry) \<in> set members" by simp
  then have "size_prod (\<lambda>_. 0) size (key, entry) \<le> size_list (size_prod (\<lambda>_. 0) size) members"
    by (rule size_list_estimation') simp
  then show ?case by simp
qed

definition client_json :: "ClientKind option \<Rightarrow> json" where
  "client_json c = (case c of None \<Rightarrow> JNull | Some k \<Rightarrow> JStr (client_text k))"

definition asset_json :: "OwnedAsset \<Rightarrow> json" where
  "asset_json a = JObj
     [(''assetId'', JStr (oa_assetId a)), (''kind'', JStr (kind_text (oa_kind a))),
      (''client'', client_json (oa_client a)),
      (''locator'', JStr (oa_locator a)),
      (''expectedIdentitySha256'', JStr (oa_expectedIdentitySha256 a)),
      (''createdByOperation'', JStr (oa_createdByOperation a)),
      (''retention'', JStr (retention_text (oa_retention a))),
      (''disposition'', JStr (disposition_text (oa_disposition a)))]"

definition unsigned_json :: "OwnershipRecord \<Rightarrow> json" where
  "unsigned_json r = JObj
     [(''schemaVersion'', JStr ''skillwire.ownership/v1''),
      (''installationId'', JStr (or_installationId r)),
      (''recordRevision'', JNum (or_recordRevision r)),
      (''assets'', JArr (map asset_json (or_assets r))),
      (''externalDependencies'', JArr (map JStr (or_externalDependencies r)))]"

definition recordHash :: "runtime \<Rightarrow> OwnershipRecord \<Rightarrow> string res" where
  "recordHash rt r = and_then (ownershipJson (localeCompare rt) (unsigned_json r)) (\<lambda>t. Inr (sha256 rt t))"

definition parse_record :: "formats \<Rightarrow> OwnershipRecord \<Rightarrow> OwnershipRecord res" where
  "parse_record fm r =
     (if ownershipRecordSchema fm r then Inr r else Inl (Error ''Ownership record is invalid''))"

definition sign_record :: "runtime \<Rightarrow> formats \<Rightarrow> OwnershipRecord \<Rightarrow> OwnershipRecord res" where
  "sign_record rt fm unsigned =
     and_then (recordHash rt unsigned) (\<lambda>h. parse_record fm (unsigned\<lparr>or_recordSha256 := h\<rparr>))"

definition updateRecord ::
  "runtime \<Rightarrow> formats \<Rightarrow> OwnershipRecord \<Rightarrow> OwnedAsset list \<Rightarrow> string list \<Rightarrow> OwnershipRecord res" where
  "updateRecord rt fm r assets externalDependencies =
     sign_record rt fm
       (r\<lparr>or_recordRevision := or_recordRevision r + 1, or_assets := assets,
          or_externalDependencies := externalDependencies\<rparr>)"

definition createOwnershipLedger :: "runtime \<Rightarrow> formats \<Rightarrow> string \<Rightarrow> OwnershipLedger res" where
  "createOwnershipLedger rt fm installationId =
     and_then
       (sign_record rt fm
          \<lparr>or_installationId = installationId, or_recordRevision = 1, or_assets = [],
           or_externalDependencies = [], or_recordSha256 = []\<rparr>)
       (\<lambda>r. Inr \<lparr>ol_record = r, ol_externalIntegrations = []\<rparr>)"

definition verifyOwnershipRecord :: "runtime \<Rightarrow> formats \<Rightarrow> OwnershipRecord \<Rightarrow> OwnershipRecord res" where
  "verifyOwnershipRecord rt fm candidate =
     and_then (parse_record fm candidate) (\<lambda>parsed.
     and_then (recordHash rt parsed) (\<lambda>h.
       if h \<noteq> or_recordSha256 parsed then Inl (Error ''Ownership record integrity is invalid'')
       else Inr parsed))"

subsection \<open>Recording\<close>

definition same_integration :: "ClientKind \<Rightarrow> OwnedAssetKind \<Rightarrow> ExternalIntegrationDependency \<Rightarrow> bool" where
  "same_integration c k d \<longleftrightarrow> ed_client d = c \<and> ed_kind d = k"

definition recordExternalIntegration ::
  "runtime \<Rightarrow> formats \<Rightarrow> OwnershipLedger \<Rightarrow> ExternalIntegrationDependency \<Rightarrow> OwnershipLedger res" where
  "recordExternalIntegration rt fm ledger parsed =
     (if \<not> externalDependencySchema fm parsed then Inl (Error ''External integration is invalid'')
      else if ed_verification parsed \<noteq> IvEquivalent
      then Inl (Error ''Only verified equivalent external integrations are reusable'')
      else if list_ex (same_integration (ed_client parsed) (ed_kind parsed)) (ol_externalIntegrations ledger) \<or>
              ed_externalDependencyId parsed \<in> set (or_externalDependencies (ol_record ledger))
      then Inl (Error ''External integration dependency is already recorded'')
      else if list_ex (\<lambda>a. oa_client a = Some (ed_client parsed) \<and> oa_kind a = ed_kind parsed)
                (or_assets (ol_record ledger))
      then Inl (Error ''Integration cannot be both external and owned'')
      else and_then
             (updateRecord rt fm (ol_record ledger) (or_assets (ol_record ledger))
                (or_externalDependencies (ol_record ledger) @ [ed_externalDependencyId parsed]))
             (\<lambda>r. Inr \<lparr>ol_record = r, ol_externalIntegrations = ol_externalIntegrations ledger @ [parsed]\<rparr>))"

definition recordOwnedAsset ::
  "runtime \<Rightarrow> formats \<Rightarrow> OwnershipLedger \<Rightarrow> OwnedAsset \<Rightarrow> OwnershipLedger res" where
  "recordOwnedAsset rt fm ledger parsed =
     (if \<not> ownedAssetSchema fm parsed then Inl (Error ''Owned asset is invalid'')
      else if (case oa_client parsed of
                 None \<Rightarrow> False
               | Some c \<Rightarrow> list_ex (same_integration c (oa_kind parsed)) (ol_externalIntegrations ledger))
      then Inl (Error ''Integration cannot be both external and owned'')
      else and_then
             (updateRecord rt fm (ol_record ledger) (or_assets (ol_record ledger) @ [parsed])
                (or_externalDependencies (ol_record ledger)))
             (\<lambda>r. Inr \<lparr>ol_record = r, ol_externalIntegrations = ol_externalIntegrations ledger\<rparr>))"

subsection \<open>Removal plans\<close>

datatype OwnershipRemovalOperation = ClientUninstall | Uninstall | Purge

record OwnedAssetDispositionPlan =
  dp_remove :: "OwnedAsset list"
  dp_retain :: "OwnedAsset list"

definition removable :: "OwnershipRemovalOperation \<Rightarrow> ClientKind option \<Rightarrow> OwnedAsset \<Rightarrow> bool" where
  "removable operation client asset =
     (if operation = Purge then oa_disposition asset = DPresent \<or> oa_disposition asset = DRetained
      else if operation = ClientUninstall then
        oa_client asset = client \<and>
        (oa_disposition asset = DPresent \<or> (oa_kind asset = KCredential \<and> oa_disposition asset = DRetained))
      else if oa_disposition asset \<noteq> DPresent then False
      else oa_kind asset = KMcpEntry \<or> oa_kind asset = KPlugin \<or> oa_kind asset = KMarketplace \<or>
           oa_kind asset = KContainer \<or> oa_kind asset = KComposeProject)"

definition planOwnedAssetDispositions ::
  "runtime \<Rightarrow> formats \<Rightarrow> OwnershipRecord \<Rightarrow> OwnershipRemovalOperation \<Rightarrow> ClientKind option \<Rightarrow>
     OwnedAssetDispositionPlan res" where
  "planOwnedAssetDispositions rt fm candidate operation client =
     and_then (verifyOwnershipRecord rt fm candidate) (\<lambda>r.
       if operation = ClientUninstall \<and> client = None
       then Inl (Error ''Client uninstall requires an exact client'')
       else
         let remove = filter (removable operation client) (or_assets r);
             removeIds = map oa_assetId remove
         in Inr \<lparr>dp_remove = remove,
                 dp_retain = filter (\<lambda>a. oa_assetId a \<notin> set removeIds) (or_assets r)\<rparr>)"

definition requireCurrentOwnedAssetIdentity :: "OwnedAsset \<Rightarrow> string \<Rightarrow> unit res" where
  "requireCurrentOwnedAssetIdentity asset currentIdentitySha256 =
     (if oa_disposition asset = DAmbiguous \<or> oa_disposition asset = DDrifted
      then Inl (Error ''Owned asset is ambiguous or drifted'')
      else if oa_disposition asset \<noteq> DPresent \<and> oa_disposition asset \<noteq> DRetained
      then Inl (Error ''Owned asset is not currently removable'')
      else if oa_expectedIdentitySha256 asset \<noteq> currentIdentitySha256
      then Inl (Error ''Owned asset identity changed after preview'')
      else Inr ())"

subsection \<open>Updating one asset\<close>

definition map_asset :: "string \<Rightarrow> (OwnedAsset \<Rightarrow> OwnedAsset) \<Rightarrow> OwnedAsset list \<Rightarrow> OwnedAsset list" where
  "map_asset assetId f assets = map (\<lambda>asset. if oa_assetId asset = assetId then f asset else asset) assets"

definition recordAssetDisposition ::
  "runtime \<Rightarrow> formats \<Rightarrow> OwnershipRecord \<Rightarrow> string \<Rightarrow> AssetDisposition \<Rightarrow> OwnershipRecord res" where
  "recordAssetDisposition rt fm candidate assetId disposition =
     and_then (verifyOwnershipRecord rt fm candidate) (\<lambda>r.
       if \<not> list_ex (\<lambda>asset. oa_assetId asset = assetId) (or_assets r)
       then Inl (Error ''Owned asset is not recorded'')
       else updateRecord rt fm r
              (map_asset assetId (\<lambda>asset. asset\<lparr>oa_disposition := disposition\<rparr>) (or_assets r))
              (or_externalDependencies r))"

definition reactivateOwnedAsset ::
  "runtime \<Rightarrow> formats \<Rightarrow> OwnershipRecord \<Rightarrow> string \<Rightarrow> string \<Rightarrow> OwnershipRecord res" where
  "reactivateOwnedAsset rt fm candidate assetId currentIdentitySha256 =
     and_then (verifyOwnershipRecord rt fm candidate) (\<lambda>r.
       case find (\<lambda>entry. oa_assetId entry = assetId) (or_assets r) of
         None \<Rightarrow> Inl (Error ''Owned asset is not recorded'')
       | Some asset \<Rightarrow>
           if oa_expectedIdentitySha256 asset \<noteq> currentIdentitySha256
           then Inl (Error ''Retained owned asset identity changed'')
           else if oa_disposition asset \<noteq> DRetained \<and> oa_disposition asset \<noteq> DRemoved
           then Inl (Error ''Owned asset is not eligible for reactivation'')
           else updateRecord rt fm r
                  (map_asset assetId (\<lambda>entry. entry\<lparr>oa_disposition := DPresent\<rparr>) (or_assets r))
                  (or_externalDependencies r))"

definition replaceOwnedAssetIdentity ::
  "runtime \<Rightarrow> formats \<Rightarrow> OwnershipRecord \<Rightarrow> string \<Rightarrow> string \<Rightarrow> string \<Rightarrow> OwnershipRecord res" where
  "replaceOwnedAssetIdentity rt fm candidate assetId locator expectedIdentitySha256 =
     and_then (verifyOwnershipRecord rt fm candidate) (\<lambda>r.
       if \<not> hex_string 64 expectedIdentitySha256
       then Inl (Error ''Replacement owned asset identity is invalid'')
       else if \<not> list_ex (\<lambda>asset. oa_assetId asset = assetId) (or_assets r)
       then Inl (Error ''Owned asset is not recorded'')
       else updateRecord rt fm r
              (map_asset assetId
                 (\<lambda>asset. asset\<lparr>oa_locator := locator, oa_expectedIdentitySha256 := expectedIdentitySha256,
                                oa_disposition := DPresent\<rparr>) (or_assets r))
              (or_externalDependencies r))"

datatype ExternalDependencyClass = XAbsent | XExternalEquivalent | XSameNameConflict

definition classifyExternalDependency :: "bool \<Rightarrow> bool \<Rightarrow> ExternalDependencyClass" where
  "classifyExternalDependency sameNameExists equivalent =
     (if \<not> sameNameExists then XAbsent else if equivalent then XExternalEquivalent else XSameNameConflict)"

definition requireMatchingOwnership :: "string \<Rightarrow> string \<Rightarrow> unit res" where
  "requireMatchingOwnership expectedIdentity actualIdentitySha256 =
     (if expectedIdentity \<noteq> actualIdentitySha256 then Inl (Error ''Owned asset identity has drifted'')
      else Inr ())"

subsection \<open>The canonical text determines the record\<close>

definition sort_members :: "(string \<Rightarrow> string \<Rightarrow> int) \<Rightarrow> (string \<times> json) list \<Rightarrow> (string \<times> json) list" where
  "sort_members lc members = js_sort (\<lambda>l r. lc (fst l) (fst r)) (filter (\<lambda>(key, entry). entry \<noteq> JUndefined) members)"

lemma set_sort_members: "set (sort_members lc members) = {(k, v) \<in> set members. v \<noteq> JUndefined}"
  by (auto simp: sort_members_def)

function lnorm :: "(string \<Rightarrow> string \<Rightarrow> int) \<Rightarrow> json \<Rightarrow> json" where
  "lnorm lc (JArr entries) = JArr (map (lnorm lc) entries)"
| "lnorm lc (JObj members) = JObj (map (\<lambda>(key, entry). (key, lnorm lc entry)) (sort_members lc members))"
| "lnorm lc JNull = JNull"
| "lnorm lc (JBool b) = JBool b"
| "lnorm lc (JNum n) = JNum n"
| "lnorm lc JFraction = JFraction"
| "lnorm lc (JStr s) = JStr s"
| "lnorm lc JUndefined = JUndefined"
| "lnorm lc JOther = JOther"
  by pat_completeness auto
termination
proof (relation "measure (\<lambda>(lc, v). size v)", goal_cases)
  case 1
  then show ?case by simp
next
  case (2 lc entries v)
  then have "size v \<le> size_list size entries" by (auto intro: size_list_estimation')
  then show ?case by simp
next
  case (3 lc members p key entry)
  then have "(key, entry) \<in> set members" by (auto simp: set_sort_members)
  then have "size_prod (\<lambda>_. 0) size (key, entry) \<le> size_list (size_prod (\<lambda>_. 0) size) members"
    by (rule size_list_estimation') simp
  then show ?case by simp
qed

lemma traverse_parts:
  assumes "traverse f xs = Inr ps" and "\<And>x t. x \<in> set xs \<Longrightarrow> f x = Inr t \<Longrightarrow> t = g x \<and> P x"
  shows "ps = map g xs \<and> list_all P xs"
proof -
  from assms(1) have "list_all2 (\<lambda>x t. f x = Inr t) xs ps" by (simp add: traverse_Inr)
  then show ?thesis using assms(2)
  proof (induction rule: list_all2_induct)
    case (Cons x xs t ts)
    then show ?case by auto
  qed simp
qed

lemma ownershipJson_ser: "ownershipJson lc v = Inr s \<Longrightarrow> s = ser (lnorm lc v) \<and> plain (lnorm lc v)"
proof (induction lc v arbitrary: s rule: ownershipJson.induct)
  case (6 lc entries)
  from "6.prems" obtain parts where p: "traverse (ownershipJson lc) entries = Inr parts"
    "s = CHR ''['' # join '','' parts @ '']''" by auto
  from traverse_parts [OF p(1), of "\<lambda>v. ser (lnorm lc v)" "\<lambda>v. plain (lnorm lc v)"] "6.IH" p(2)
  show ?case by (auto simp: comp_def list_all_iff)
next
  case (9 lc members)
  let ?f = "\<lambda>(key, entry). and_then (ownershipJson lc entry) (\<lambda>t. Inr (quote key @ '':'' @ t))"
  from "9.prems" obtain parts where p: "traverse ?f (sort_members lc members) = Inr parts"
    "s = CHR ''{'' # join '','' parts @ ''}''" by (auto simp: sort_members_def)
  have "t = (\<lambda>(key, entry). quote key @ '':'' @ ser (lnorm lc entry)) m \<and> (\<lambda>(key, entry). plain (lnorm lc entry)) m"
    if m: "m \<in> set (sort_members lc members)" "?f m = Inr t" for m t
  proof -
    obtain key entry where e: "m = (key, entry)" by (cases m)
    with m(2) obtain u where u: "ownershipJson lc entry = Inr u" "t = quote key @ '':'' @ u" by auto
    from m(1) e have "(key, entry) \<in> set (js_sort (\<lambda>l r. lc (fst l) (fst r))
        (filter (\<lambda>(key, entry). entry \<noteq> JUndefined) members))" by (simp add: sort_members_def)
    from "9.IH" [OF this refl u(1)] u(2) e show ?thesis by simp
  qed
  then have "parts = map (\<lambda>(key, entry). quote key @ '':'' @ ser (lnorm lc entry)) (sort_members lc members) \<and>
      list_all (\<lambda>(key, entry). plain (lnorm lc entry)) (sort_members lc members)"
    by (rule traverse_parts [OF p(1)])
  with p(2) show ?case by (simp add: comp_def case_prod_unfold list_all_iff)
qed (auto split: if_splits)

lemma lnorm_lookup:
  assumes "lnorm lc (JObj a) = lnorm lc (JObj b)" "distinct (map fst a)" "distinct (map fst b)"
    and "list_all (\<lambda>m. snd m \<noteq> JUndefined) a" "list_all (\<lambda>m. snd m \<noteq> JUndefined) b"
  shows "map_option (lnorm lc) (map_of a k) = map_option (lnorm lc) (map_of b k)"
proof -
  have m: "map_of (map (\<lambda>(key, entry). (key, lnorm lc entry)) (sort_members lc c)) k
      = map_option (lnorm lc) (map_of c k)"
    if "distinct (map fst c)" "list_all (\<lambda>m. snd m \<noteq> JUndefined) c" for c
  proof -
    have "sort_members lc c = js_sort (\<lambda>l r. lc (fst l) (fst r)) c"
      using that(2) by (simp add: sort_members_def list_all_iff case_prod_unfold)
    then have "map_of (sort_members lc c) = map_of c"
      using that(1) by (subst map_of_inject_set) simp_all
    then show ?thesis by (simp add: map_of_map option.map_comp)
  qed
  from m [OF assms(2,4)] m [OF assms(3,5)] assms(1) show ?thesis by simp
qed

lemma client_json_defined [simp]: "client_json c \<noteq> JUndefined" "plain (client_json c)"
  by (simp_all add: client_json_def split: option.splits)

lemma ownership_texts [simp]:
  "kind_text k = kind_text l \<longleftrightarrow> k = l" "client_text c = client_text d \<longleftrightarrow> c = d"
  "retention_text r = retention_text s \<longleftrightarrow> r = s" "disposition_text x = disposition_text y \<longleftrightarrow> x = y"
     apply (cases k; cases l; simp)
    apply (cases c; cases d; simp)
   apply (cases r; cases s; simp)
  apply (cases x; cases y; simp)
  done

lemma client_json_inj: "lnorm lc (client_json a) = lnorm lc (client_json b) \<Longrightarrow> a = b"
  by (cases a; cases b) (simp_all add: client_json_def)

lemma asset_json_inj:
  assumes "lnorm lc (asset_json a) = lnorm lc (asset_json b)"
  shows "a = b"
proof -
  note l = lnorm_lookup [OF assms [unfolded asset_json_def]]
  have "oa_assetId a = oa_assetId b" "oa_kind a = oa_kind b"
    using l [of "''assetId''"] l [of "''kind''"] by simp_all
  moreover have "oa_client a = oa_client b"
    using l [of "''client''"] by (intro client_json_inj [of lc]) simp
  moreover have "oa_locator a = oa_locator b" "oa_expectedIdentitySha256 a = oa_expectedIdentitySha256 b"
    "oa_createdByOperation a = oa_createdByOperation b"
    using l [of "''locator''"] l [of "''expectedIdentitySha256''"] l [of "''createdByOperation''"] by simp_all
  moreover have "oa_retention a = oa_retention b" "oa_disposition a = oa_disposition b"
    using l [of "''retention''"] l [of "''disposition''"] by simp_all
  ultimately show ?thesis by (cases a; cases b) simp
qed

lemma map_lnorm_inj:
  "(\<And>x y. lnorm lc (f x) = lnorm lc (f y) \<Longrightarrow> x = y) \<Longrightarrow>
     map (\<lambda>x. lnorm lc (f x)) xs = map (\<lambda>x. lnorm lc (f x)) ys \<Longrightarrow> xs = ys"
proof (induction xs arbitrary: ys)
  case (Cons x xs)
  then show ?case by (cases ys) auto
qed simp

lemma unsigned_json_inj:
  assumes "ownershipJson lc (unsigned_json r) = Inr t" and "ownershipJson lc (unsigned_json s) = Inr t"
    and "or_recordSha256 r = or_recordSha256 s"
  shows "r = s"
proof -
  have "lnorm lc (unsigned_json r) = lnorm lc (unsigned_json s)"
    using ownershipJson_ser [OF assms(1)] ownershipJson_ser [OF assms(2)] ser_inj by metis
  note l = lnorm_lookup [OF this [unfolded unsigned_json_def]]
  have "or_installationId r = or_installationId s" "or_recordRevision r = or_recordRevision s"
    using l [of "''installationId''"] l [of "''recordRevision''"] by simp_all
  moreover have "or_assets r = or_assets s"
    by (rule map_lnorm_inj [of lc asset_json])
      (use l [of "''assets''"] asset_json_inj in \<open>simp_all add: comp_def\<close>)
  moreover have "or_externalDependencies r = or_externalDependencies s"
    by (rule map_lnorm_inj [of lc JStr])
      (use l [of "''externalDependencies''"] in \<open>simp_all add: comp_def\<close>)
  ultimately show ?thesis using assms(3) by (cases r; cases s) simp
qed

lemma ownershipJson_total:
  "plain v \<Longrightarrow> \<exists>t. ownershipJson lc v = Inr t"
proof (induction lc v rule: ownershipJson.induct)
  case (6 lc entries)
  then show ?case using traverse_total [of entries "ownershipJson lc"] by (auto simp: list_all_iff)
next
  case (9 lc members)
  let ?ms = "js_sort (\<lambda>l r. lc (fst l) (fst r)) (filter (\<lambda>(key, entry). entry \<noteq> JUndefined) members)"
  have "\<exists>y. (\<lambda>(key, entry). and_then (ownershipJson lc entry) (\<lambda>t. Inr (quote key @ '':'' @ t))) p = Inr y"
    if p: "p \<in> set ?ms" for p
  proof -
    obtain key entry where e: "p = (key, entry)" by (cases p)
    with p "9.prems" have "plain entry" by (auto simp: list_all_iff)
    from "9.IH" [OF p e [symmetric] this] e show ?thesis by auto
  qed
  then have "\<exists>ys. traverse (\<lambda>(key, entry). and_then (ownershipJson lc entry) (\<lambda>t. Inr (quote key @ '':'' @ t))) ?ms = Inr ys"
    by (rule traverse_total)
  then show ?case by auto
qed simp_all

lemma recordHash_total: "\<exists>t. ownershipJson lc (unsigned_json r) = Inr t"
  by (rule ownershipJson_total)
    (auto simp: unsigned_json_def asset_json_def list_all_iff)

subsection \<open>Every operation keeps the ledger sound\<close>

definition verified_record :: "runtime \<Rightarrow> formats \<Rightarrow> OwnershipRecord \<Rightarrow> bool" where
  "verified_record rt fm r \<longleftrightarrow> verifyOwnershipRecord rt fm r = Inr r"

lemma verifyOwnershipRecord_Inr:
  "verifyOwnershipRecord rt fm c = Inr r \<longleftrightarrow>
     r = c \<and> ownershipRecordSchema fm c \<and> recordHash rt c = Inr (or_recordSha256 c)"
  by (auto simp: verifyOwnershipRecord_def parse_record_def split: if_splits)

lemma recordHash_unsigned [simp]:
  "recordHash rt (r\<lparr>or_recordSha256 := h\<rparr>) = recordHash rt r"
  by (simp add: recordHash_def unsigned_json_def)

lemma sign_record_verified:
  "sign_record rt fm u = Inr r \<Longrightarrow> verified_record rt fm r \<and> (\<exists>h. r = u\<lparr>or_recordSha256 := h\<rparr>)"
  by (auto simp: sign_record_def parse_record_def verified_record_def verifyOwnershipRecord_Inr split: if_splits)

lemma updateRecord_verified:
  assumes "updateRecord rt fm r as ds = Inr r'"
  shows "verified_record rt fm r'" "or_assets r' = as" "or_externalDependencies r' = ds"
    "or_recordRevision r' = or_recordRevision r + 1" "or_installationId r' = or_installationId r"
  using sign_record_verified [OF assms [unfolded updateRecord_def]] by auto

text \<open>The operations that the installer applies, as steps of a ledger: those that return a record
  replace the ledger's record.\<close>

inductive ledger_step :: "runtime \<Rightarrow> formats \<Rightarrow> OwnershipLedger \<Rightarrow> OwnershipLedger \<Rightarrow> bool"
  for rt fm where
  external: "recordExternalIntegration rt fm l d = Inr l' \<Longrightarrow> ledger_step rt fm l l'"
| owned: "recordOwnedAsset rt fm l a = Inr l' \<Longrightarrow> ledger_step rt fm l l'"
| disposition: "recordAssetDisposition rt fm (ol_record l) assetId disposition = Inr r \<Longrightarrow>
    ledger_step rt fm l (l\<lparr>ol_record := r\<rparr>)"
| reactivate: "reactivateOwnedAsset rt fm (ol_record l) assetId identity = Inr r \<Longrightarrow>
    ledger_step rt fm l (l\<lparr>ol_record := r\<rparr>)"
| replace: "replaceOwnedAssetIdentity rt fm (ol_record l) assetId locator identity = Inr r \<Longrightarrow>
    ledger_step rt fm l (l\<lparr>ol_record := r\<rparr>)"

inductive ledger_reached :: "runtime \<Rightarrow> formats \<Rightarrow> string \<Rightarrow> OwnershipLedger \<Rightarrow> bool"
  for rt fm installationId where
  created: "createOwnershipLedger rt fm installationId = Inr l \<Longrightarrow> ledger_reached rt fm installationId l"
| stepped: "ledger_reached rt fm installationId l \<Longrightarrow> ledger_step rt fm l l' \<Longrightarrow>
    ledger_reached rt fm installationId l'"

definition disjoint_sides :: "OwnershipLedger \<Rightarrow> bool" where
  "disjoint_sides l \<longleftrightarrow>
     (\<forall>a \<in> set (or_assets (ol_record l)). \<forall>d \<in> set (ol_externalIntegrations l).
        \<not> (oa_client a = Some (ed_client d) \<and> oa_kind a = ed_kind d))"

definition sound_ledger :: "runtime \<Rightarrow> formats \<Rightarrow> OwnershipLedger \<Rightarrow> bool" where
  "sound_ledger rt fm l \<longleftrightarrow>
     verified_record rt fm (ol_record l) \<and> disjoint_sides l \<and>
     or_externalDependencies (ol_record l) = map ed_externalDependencyId (ol_externalIntegrations l) \<and>
     distinct (map (\<lambda>d. (ed_client d, ed_kind d)) (ol_externalIntegrations l)) \<and>
     list_all (\<lambda>d. ed_verification d = IvEquivalent) (ol_externalIntegrations l)"

lemma map_asset_sides:
  assumes "\<And>a. oa_client (f a) = oa_client a" and "\<And>a. oa_kind (f a) = oa_kind a"
  shows "(\<exists>a \<in> set (map_asset i f as). oa_client a = c \<and> oa_kind a = k) \<longleftrightarrow>
    (\<exists>a \<in> set as. oa_client a = c \<and> oa_kind a = k)"
  by (induction "as") (auto simp: map_asset_def assms)

lemma disjoint_sides_alt:
  "disjoint_sides l \<longleftrightarrow> (\<forall>d \<in> set (ol_externalIntegrations l).
     \<not> (\<exists>a \<in> set (or_assets (ol_record l)). oa_client a = Some (ed_client d) \<and> oa_kind a = ed_kind d))"
  by (auto simp: disjoint_sides_def)

lemma record_update_sound:
  assumes "sound_ledger rt fm l" and "updateRecord rt fm (ol_record l) (map_asset i f (or_assets (ol_record l)))
      (or_externalDependencies (ol_record l)) = Inr r"
    and "\<And>a. oa_client (f a) = oa_client a" and "\<And>a. oa_kind (f a) = oa_kind a"
  shows "sound_ledger rt fm (l\<lparr>ol_record := r\<rparr>)"
  using assms(1) updateRecord_verified [OF assms(2)] map_asset_sides [OF assms(3,4)]
  by (simp add: sound_ledger_def disjoint_sides_alt)

lemma ledger_step_sound:
  assumes "ledger_step rt fm l l'" and "sound_ledger rt fm l"
  shows "sound_ledger rt fm l'"
  using assms
proof (induction rule: ledger_step.induct)
  case (external l d l')
  then obtain r where r: "updateRecord rt fm (ol_record l) (or_assets (ol_record l))
      (or_externalDependencies (ol_record l) @ [ed_externalDependencyId d]) = Inr r"
    "l' = \<lparr>ol_record = r, ol_externalIntegrations = ol_externalIntegrations l @ [d]\<rparr>"
    "ed_verification d = IvEquivalent"
    "\<not> list_ex (same_integration (ed_client d) (ed_kind d)) (ol_externalIntegrations l)"
    "\<not> list_ex (\<lambda>a. oa_client a = Some (ed_client d) \<and> oa_kind a = ed_kind d) (or_assets (ol_record l))"
    by (auto simp: recordExternalIntegration_def split: if_splits)
  with external.prems updateRecord_verified [OF r(1)] show ?case
    by (auto simp: sound_ledger_def disjoint_sides_def list_ex_iff same_integration_def)
next
  case (owned l a l')
  then obtain r where r: "updateRecord rt fm (ol_record l) (or_assets (ol_record l) @ [a])
      (or_externalDependencies (ol_record l)) = Inr r"
    "l' = \<lparr>ol_record = r, ol_externalIntegrations = ol_externalIntegrations l\<rparr>"
    "\<not> (case oa_client a of None \<Rightarrow> False | Some c \<Rightarrow> list_ex (same_integration c (oa_kind a)) (ol_externalIntegrations l))"
    by (auto simp: recordOwnedAsset_def split: if_splits)
  with owned.prems updateRecord_verified [OF r(1)] show ?case
    by (auto simp: sound_ledger_def disjoint_sides_def list_ex_iff same_integration_def)
next
  case (disposition l assetId d r)
  then have "updateRecord rt fm (ol_record l)
      (map_asset assetId (\<lambda>asset. asset\<lparr>oa_disposition := d\<rparr>) (or_assets (ol_record l)))
      (or_externalDependencies (ol_record l)) = Inr r"
    by (auto simp: recordAssetDisposition_def verifyOwnershipRecord_Inr split: if_splits)
  from record_update_sound [OF disposition.prems this] show ?case by simp
next
  case (reactivate l assetId identity r)
  then have "updateRecord rt fm (ol_record l)
      (map_asset assetId (\<lambda>entry. entry\<lparr>oa_disposition := DPresent\<rparr>) (or_assets (ol_record l)))
      (or_externalDependencies (ol_record l)) = Inr r"
    by (auto simp: reactivateOwnedAsset_def verifyOwnershipRecord_Inr split: if_splits option.splits)
  from record_update_sound [OF reactivate.prems this] show ?case by simp
next
  case (replace l assetId locator identity r)
  then have "updateRecord rt fm (ol_record l)
      (map_asset assetId (\<lambda>asset. asset\<lparr>oa_locator := locator, oa_expectedIdentitySha256 := identity,
         oa_disposition := DPresent\<rparr>) (or_assets (ol_record l)))
      (or_externalDependencies (ol_record l)) = Inr r"
    by (auto simp: replaceOwnedAssetIdentity_def verifyOwnershipRecord_Inr split: if_splits)
  from record_update_sound [OF replace.prems this] show ?case by simp
qed

text \<open>C16. Every ledger the installer can reach is sound: its record passes verification, no client
  integration is both owned and external, the external dependencies it names are exactly the recorded
  equivalent integrations, and no client integration is recorded twice.\<close>

theorem ledger_sound:
  assumes "ledger_reached rt fm installationId l"
  shows "sound_ledger rt fm l"
  using assms
proof induction
  case (created l)
  then show ?case
    by (auto simp: createOwnershipLedger_def sound_ledger_def disjoint_sides_def dest!: sign_record_verified)
next
  case (stepped l l')
  then show ?case using ledger_step_sound by blast
qed

subsection \<open>Concrete ledgers\<close>

definition any_format :: formats where
  "any_format = \<lparr>uuid = (\<lambda>s. True), datetime = (\<lambda>s. True)\<rparr>"

definition example_asset :: "string \<Rightarrow> OwnedAssetKind \<Rightarrow> AssetDisposition \<Rightarrow> OwnedAsset" where
  "example_asset i k d =
     \<lparr>oa_assetId = i, oa_kind = k, oa_client = Some Codex, oa_locator = ''l'',
      oa_expectedIdentitySha256 = zeros64, oa_createdByOperation = ''o'',
      oa_retention = RetainByDefault, oa_disposition = d\<rparr>"

definition example_record :: "OwnedAsset list \<Rightarrow> OwnershipRecord" where
  "example_record as =
     \<lparr>or_installationId = ''i'', or_recordRevision = 1 + int (length as), or_assets = as,
      or_externalDependencies = [], or_recordSha256 = zeros64\<rparr>"

definition example_ledger :: "OwnedAsset list \<Rightarrow> OwnershipLedger" where
  "example_ledger as = \<lparr>ol_record = example_record as, ol_externalIntegrations = []\<rparr>"

lemma hex_string_zeros [simp]: "hex_string 64 zeros64"
  by (simp add: hex_string_def zeros64_def list_all_iff hex_char_def digit_char_def code_of_def)

lemma constant_recordHash [simp]: "recordHash constant_runtime r = Inr zeros64"
  using recordHash_total [of "localeCompare constant_runtime" r]
  by (auto simp: recordHash_def constant_sha)

lemma example_record_schema:
  "distinct (map oa_assetId as) \<Longrightarrow> length as \<le> 3 \<Longrightarrow>
     list_all (\<lambda>a. 1 \<le> js_length (oa_locator a) \<and> js_length (oa_locator a) \<le> 512 \<and>
        hex_string 64 (oa_expectedIdentitySha256 a)) as \<Longrightarrow>
     ownershipRecordSchema any_format (example_record as)"
  using length_uniq_distinct [of "map oa_assetId as"]
  by (auto simp: ownershipRecordSchema_def example_record_def any_format_def MAX_SAFE_INTEGER_def
      ownedAssetSchema_def list_all_iff)

lemma example_asset_fields [simp]:
  "oa_assetId (example_asset i k d) = i" "oa_kind (example_asset i k d) = k"
  "oa_client (example_asset i k d) = Some Codex" "oa_disposition (example_asset i k d) = d"
  "js_length (oa_locator (example_asset i k d)) = 1" "oa_expectedIdentitySha256 (example_asset i k d) = zeros64"
  by (simp_all add: example_asset_def js_length_def code_of_def)

lemma example_record_verified:
  "distinct (map oa_assetId as) \<Longrightarrow> length as \<le> 3 \<Longrightarrow>
     list_all (\<lambda>a. 1 \<le> js_length (oa_locator a) \<and> js_length (oa_locator a) \<le> 512 \<and>
        hex_string 64 (oa_expectedIdentitySha256 a)) as \<Longrightarrow>
     verifyOwnershipRecord constant_runtime any_format (example_record as) = Inr (example_record as)"
  by (simp add: verifyOwnershipRecord_Inr example_record_schema) (simp add: example_record_def)

theorem ledger_sound_witness:
  "sound_ledger constant_runtime any_format (example_ledger [example_asset ''a'' KPlugin DPresent])"
proof -
  have "createOwnershipLedger constant_runtime any_format ''i'' = Inr (example_ledger [])"
    using example_record_schema [of "[]"]
    by (simp add: createOwnershipLedger_def sign_record_def parse_record_def example_ledger_def example_record_def)
  then have start: "ledger_reached constant_runtime any_format ''i'' (example_ledger [])"
    by (rule ledger_reached.created)
  have "recordOwnedAsset constant_runtime any_format (example_ledger []) (example_asset ''a'' KPlugin DPresent)
      = Inr (example_ledger [example_asset ''a'' KPlugin DPresent])"
    using example_record_schema [of "[example_asset ''a'' KPlugin DPresent]"]
    by (simp add: recordOwnedAsset_def ownedAssetSchema_def any_format_def updateRecord_def sign_record_def
        parse_record_def example_ledger_def example_record_def)
  then have "ledger_step constant_runtime any_format (example_ledger [])
      (example_ledger [example_asset ''a'' KPlugin DPresent])" by (rule ledger_step.owned)
  with start have "ledger_reached constant_runtime any_format ''i''
      (example_ledger [example_asset ''a'' KPlugin DPresent])" by (rule ledger_reached.stepped)
  then show ?thesis by (rule ledger_sound)
qed

text \<open>The record hash pins the ownership record: two records that pass verification with the same
  hash are equal in every field, unless their canonical texts are a collision of the hash function.\<close>

theorem ownership_hash_pins_record:
  assumes "verifyOwnershipRecord rt fm r = Inr r" and "verifyOwnershipRecord rt fm s = Inr s"
    and "or_recordSha256 r = or_recordSha256 s"
  shows "r = s \<or> (\<exists>t u. ownershipJson (localeCompare rt) (unsigned_json r) = Inr t \<and>
    ownershipJson (localeCompare rt) (unsigned_json s) = Inr u \<and> t \<noteq> u \<and> sha256 rt t = sha256 rt u)"
proof -
  from assms obtain t u where t: "ownershipJson (localeCompare rt) (unsigned_json r) = Inr t"
    "ownershipJson (localeCompare rt) (unsigned_json s) = Inr u" "sha256 rt t = sha256 rt u"
    by (auto simp: verifyOwnershipRecord_Inr recordHash_def)
  then show ?thesis using unsigned_json_inj [of "localeCompare rt" r t s] assms(3) by auto
qed

theorem ownership_hash_pins_record_witness:
  "\<exists>t u. ownershipJson byte_compare (unsigned_json (example_record [])) = Inr t \<and>
     ownershipJson byte_compare (unsigned_json (example_record [example_asset ''a'' KPlugin DPresent])) = Inr u \<and>
     t \<noteq> u \<and> sha256 constant_runtime t = sha256 constant_runtime u"
proof -
  have "example_record [] \<noteq> example_record [example_asset ''a'' KPlugin DPresent]"
    by (simp add: example_record_def)
  with ownership_hash_pins_record [OF example_record_verified [of "[]"]
      example_record_verified [of "[example_asset ''a'' KPlugin DPresent]"]]
  show ?thesis by (simp add: plain_compare) (simp add: example_record_def)
qed

text \<open>A removal plan is a partition that spares what must stay: every asset of the verified record
  is either removed or retained, nothing that drifted, became ambiguous or is already gone is removed,
  an ordinary uninstall removes only client entries and the service containers, and a client uninstall
  removes only that client's assets; secrets, volumes, backups and releases go only on purge.\<close>

theorem disposition_plan_partition:
  assumes "planOwnedAssetDispositions rt fm r operation client = Inr plan"
  shows "mset (dp_remove plan) + mset (dp_retain plan) = mset (or_assets r) \<and>
    set (dp_remove plan) \<inter> set (dp_retain plan) = {} \<and>
    list_all (\<lambda>a. oa_disposition a = DPresent \<or> oa_disposition a = DRetained) (dp_remove plan) \<and>
    list_all (\<lambda>a. case operation of
        Uninstall \<Rightarrow> oa_kind a \<in> {KMcpEntry, KPlugin, KMarketplace, KContainer, KComposeProject}
      | ClientUninstall \<Rightarrow> oa_client a = client \<and> client \<noteq> None
      | Purge \<Rightarrow> True) (dp_remove plan)"
proof -
  from assms have p: "ownershipRecordSchema fm r"
    "dp_remove plan = filter (removable operation client) (or_assets r)"
    "dp_retain plan = filter (\<lambda>a. oa_assetId a \<notin> set (map oa_assetId (filter (removable operation client) (or_assets r))))
       (or_assets r)" "operation = ClientUninstall \<Longrightarrow> client \<noteq> None"
    by (auto simp: planOwnedAssetDispositions_def verifyOwnershipRecord_Inr Let_def split: if_splits)
  from p(1) have d: "distinct (map oa_assetId (or_assets r))"
    using length_uniq_distinct [of "map oa_assetId (or_assets r)"] by (simp add: ownershipRecordSchema_def)
  have ids: "oa_assetId a \<in> oa_assetId ` {x \<in> set (or_assets r). removable operation client x} \<longleftrightarrow>
      removable operation client a" if "a \<in> set (or_assets r)" for a
    using that d by (auto simp: distinct_map dest: inj_onD)
  have retain: "dp_retain plan = filter (\<lambda>a. \<not> removable operation client a) (or_assets r)"
    unfolding p(3) by (rule filter_cong) (simp_all add: ids)
  have "mset (dp_remove plan) + mset (dp_retain plan) = mset (or_assets r)"
    unfolding p(2) retain mset_filter by (rule multiset_partition [symmetric])
  moreover have "set (dp_remove plan) \<inter> set (dp_retain plan) = {}" unfolding p(2) retain by auto
  ultimately show ?thesis
    using p(4) unfolding p(2)
    by (cases operation) (auto simp: list_all_iff removable_def split: if_splits)
qed

theorem disposition_plan_partition_witness:
  "planOwnedAssetDispositions constant_runtime any_format
     (example_record [example_asset ''a'' KPlugin DPresent, example_asset ''b'' KVolume DPresent,
        example_asset ''c'' KPlugin DDrifted]) Uninstall None =
     Inr \<lparr>dp_remove = [example_asset ''a'' KPlugin DPresent],
          dp_retain = [example_asset ''b'' KVolume DPresent, example_asset ''c'' KPlugin DDrifted]\<rparr> \<and>
   mset [example_asset ''a'' KPlugin DPresent] +
     mset [example_asset ''b'' KVolume DPresent, example_asset ''c'' KPlugin DDrifted] =
   mset [example_asset ''a'' KPlugin DPresent, example_asset ''b'' KVolume DPresent,
      example_asset ''c'' KPlugin DDrifted]"
proof -
  let ?as = "[example_asset ''a'' KPlugin DPresent, example_asset ''b'' KVolume DPresent,
      example_asset ''c'' KPlugin DDrifted]"
  have v: "verifyOwnershipRecord constant_runtime any_format (example_record ?as) = Inr (example_record ?as)"
    by (rule example_record_verified) simp_all
  have as: "or_assets (example_record ?as) = ?as" by (simp add: example_record_def)
  have plan: "planOwnedAssetDispositions constant_runtime any_format (example_record ?as) Uninstall None =
     Inr \<lparr>dp_remove = [example_asset ''a'' KPlugin DPresent],
          dp_retain = [example_asset ''b'' KVolume DPresent, example_asset ''c'' KPlugin DDrifted]\<rparr>"
    unfolding planOwnedAssetDispositions_def v and_then.simps as by (simp add: removable_def)
  from disposition_plan_partition [OF this] plan as show ?thesis by simp
qed

end
