(* ===== verification/Installation.thy ===== *)
theory Installation
  imports Ownership
begin

text \<open>
  The installation's host-side records and their state machines
  (\<open>src/onboarding/domain/installation.ts\<close>): the schemas of the persisted records, and the guarded
  transitions of an installation and of a client integration. \<open>formats\<close> stands for the schema
  library's syntax checks and \<open>parse_url\<close> for the URL parser. What a history of guarded transitions can
  look like is proved once for any transition table whose states have forced predecessors (locale
  \<open>forced_chain\<close>), which the client table interprets.
\<close>

subsection \<open>Histories of a transition table\<close>

fun history :: "('s \<Rightarrow> 's list) \<Rightarrow> 's list \<Rightarrow> bool" where
  "history table [] = False"
| "history table [s] = True"
| "history table (s # t # rest) \<longleftrightarrow> t \<in> set (table s) \<and> history table (t # rest)"

lemma history_snoc:
  "history table (xs @ [s, t]) \<longleftrightarrow> history table (xs @ [s]) \<and> t \<in> set (table s)"
proof (induction xs)
  case (Cons x xs)
  then show ?case by (cases xs) auto
qed simp

locale forced_chain =
  fixes table :: "'s \<Rightarrow> 's list" and start :: 's and steps :: "'s list"
  assumes forced: "Suc i < length steps \<Longrightarrow> steps ! Suc i \<in> set (table s) \<Longrightarrow> s = steps ! i"
    and not_start: "start \<notin> set (tl steps)"
    and steps: "steps \<noteq> []"
begin

text \<open>Whoever reaches the end of the chain has just walked all of it.\<close>

lemma walked:
  assumes "history table h" and "hd h = start" and "last h = steps ! n" and "n < length steps"
  shows "\<exists>before. h = before @ take (Suc n) steps"
  using assms
proof (induction n arbitrary: h)
  case 0
  then have "h = butlast h @ [steps ! 0]" by (metis append_butlast_last_id history.simps(1))
  moreover have "take (Suc 0) steps = [steps ! 0]" using steps by (cases steps) simp_all
  ultimately show ?case by metis
next
  case (Suc n)
  have hne: "h \<noteq> []" using Suc.prems(1) by auto
  have "steps ! Suc n \<in> set (tl steps)"
    using Suc.prems(4) steps by (metis Suc_less_eq length_Suc_conv list.sel(3) neq_Nil_conv nth_Cons_Suc nth_mem)
  then have "last h \<noteq> start" using Suc.prems(3) not_start by auto
  with Suc.prems(2) hne have "length h \<noteq> 1" by (cases h) auto
  with hne obtain xs s t where h: "h = xs @ [s, t]"
    by (cases h rule: rev_cases) (auto, metis append_butlast_last_id append.assoc append_Cons append_Nil)
  with Suc.prems(1,3,4) have s: "s = steps ! n" "history table (xs @ [s])"
    using forced [of n s] by (auto simp: history_snoc)
  moreover have "hd (xs @ [s]) = start" using Suc.prems(2) h by (cases xs) auto
  ultimately obtain before where "xs @ [s] = before @ take (Suc n) steps"
    using Suc.IH [of "xs @ [s]"] Suc.prems(4) by auto
  moreover have "take (Suc (Suc n)) steps = take (Suc n) steps @ [t]"
    using Suc.prems(3,4) h by (simp add: take_Suc_conv_app_nth)
  ultimately show ?case using h by (metis append.assoc append_Cons append_Nil)
qed

end

subsection \<open>Records and schemas\<close>

definition relativeLocatorSchema :: "string \<Rightarrow> bool" where
  "relativeLocatorSchema s \<longleftrightarrow>
     1 \<le> js_length s \<and> js_length s \<le> 512 \<and>
     \<not> starts_with ''/'' s \<and> NUL \<notin> set s \<and> ''..'' \<notin> set (split_on (CHR ''/'') s)"

datatype SecretKind = DatabasePassword | ApplicationPepper

fun secret_kind_text :: "SecretKind \<Rightarrow> string" where
  "secret_kind_text DatabasePassword = ''database-password''"
| "secret_kind_text ApplicationPepper = ''application-pepper''"

datatype SecretState = SecCreated | SecReused | SecRetained

record ServiceSecretReference =
  ss_kind :: SecretKind
  ss_relativePath :: string
  ss_identitySha256 :: string
  ss_state :: "SecretState option"

definition serviceSecretReferenceSchema :: "ServiceSecretReference \<Rightarrow> bool" where
  "serviceSecretReferenceSchema r \<longleftrightarrow>
     ss_relativePath r \<in> {''secrets/database-password'', ''secrets/application-pepper''} \<and>
     hex_string 64 (ss_identitySha256 r) \<and>
     ss_relativePath r = ''secrets/'' @ secret_kind_text (ss_kind r)"

datatype SecretSetState = SetAvailable | SetRotating | SetInvalid | SetRetained | SetRemoved

record ServiceSecretSet =
  st_serviceSecretSetId :: string
  st_installationId :: string
  st_secrets :: "ServiceSecretReference list"
  st_createdByOperation :: string
  st_state :: SecretSetState

definition serviceSecretSetSchema :: "formats \<Rightarrow> ServiceSecretSet \<Rightarrow> bool" where
  "serviceSecretSetSchema fm s \<longleftrightarrow>
     uuid fm (st_serviceSecretSetId s) \<and> uuid fm (st_installationId s) \<and>
     list_all serviceSecretReferenceSchema (st_secrets s) \<and> length (st_secrets s) = 2 \<and>
     uuid fm (st_createdByOperation s) \<and>
     length (uniq (map ss_kind (st_secrets s))) = 2"

datatype ClientState =
  Planned | CredentialStored | McpRegistered | AdapterInstalled | CVerified | ExternalVerified
| Compensating | Failed | Removed | RetainedExternal

record ClientIntegration =
  cl_clientIntegrationId :: string
  cl_installationId :: string
  cl_client :: ClientKind
  cl_clientVersion :: string
  cl_state :: ClientState
  cl_credentialReferenceId :: "string option"
  cl_keyPublicIdHash :: "string option"
  cl_mcpIdentitySha256 :: string
  cl_adapterIdentitySha256 :: string

datatype InstallationStatus =
  Prepared | ServiceReady | ICompleted | Incomplete | DataRetained | IRecoveryRequired | Purged

record url =
  url_protocol :: string
  url_hostname :: string
  url_pathname :: string
  url_search :: string
  url_hash :: string
  url_username :: string
  url_password :: string
  url_port :: string

definition localEndpoint :: "(string \<Rightarrow> url option) \<Rightarrow> string \<Rightarrow> bool" where
  "localEndpoint parse_url v =
     (case parse_url v of
        None \<Rightarrow> False
      | Some endpoint \<Rightarrow>
          url_protocol endpoint = ''unix:'' \<and> url_hostname endpoint = '''' \<and>
          starts_with ''/'' (url_pathname endpoint) \<and> ends_with ''/mcp.sock'' (url_pathname endpoint) \<and>
          url_search endpoint = '''' \<and> url_hash endpoint = '''' \<and> url_username endpoint = '''' \<and>
          url_password endpoint = '''' \<and> url_port endpoint = '''')"

record Installation =
  in_installationId :: string
  in_ownerUid :: int
  in_accountId :: string
  in_activeReleaseId :: string
  in_highestAcceptedReleaseSequence :: int
  in_activeTrustPolicySequence :: int
  in_endpoint :: string
  in_composeProject :: string
  in_postgresVolume :: string
  in_selectedClients :: "ClientKind list"
  in_codexIntegration :: "string option"
  in_claudeIntegration :: "string option"
  in_status :: InstallationStatus
  in_createdAt :: string
  in_updatedAt :: string
  in_lastValidatedAt :: "string option"

definition bounded_name :: "string \<Rightarrow> nat \<Rightarrow> string \<Rightarrow> bool" where
  "bounded_name extra limit s \<longleftrightarrow>
     (case s of
        [] \<Rightarrow> False
      | c # cs \<Rightarrow> (lower_char c \<or> digit_char c) \<and> length cs \<le> limit \<and>
          list_all (\<lambda>d. lower_char d \<or> digit_char d \<or> d \<in> set extra) cs)"

definition safe_int :: "int \<Rightarrow> bool" where
  "safe_int n \<longleftrightarrow> \<bar>n\<bar> \<le> 9007199254740991"

fun integration_of :: "Installation \<Rightarrow> ClientKind \<Rightarrow> string option" where
  "integration_of i Codex = in_codexIntegration i"
| "integration_of i Claude = in_claudeIntegration i"

definition opt_all :: "('a \<Rightarrow> bool) \<Rightarrow> 'a option \<Rightarrow> bool" where
  "opt_all p v = (case v of None \<Rightarrow> True | Some x \<Rightarrow> p x)"

definition installationSchema :: "formats \<Rightarrow> (string \<Rightarrow> url option) \<Rightarrow> Installation \<Rightarrow> bool" where
  "installationSchema fm parse_url i \<longleftrightarrow>
     uuid fm (in_installationId i) \<and> 0 \<le> in_ownerUid i \<and> safe_int (in_ownerUid i) \<and>
     uuid fm (in_accountId i) \<and>
     1 \<le> js_length (in_activeReleaseId i) \<and> js_length (in_activeReleaseId i) \<le> 128 \<and>
     0 < in_highestAcceptedReleaseSequence i \<and> safe_int (in_highestAcceptedReleaseSequence i) \<and>
     0 < in_activeTrustPolicySequence i \<and> safe_int (in_activeTrustPolicySequence i) \<and>
     js_length (in_endpoint i) \<le> 1024 \<and> localEndpoint parse_url (in_endpoint i) \<and>
     bounded_name ''_-'' 62 (in_composeProject i) \<and> bounded_name ''_.-'' 127 (in_postgresVolume i) \<and>
     length (in_selectedClients i) \<le> 2 \<and>
     opt_all (uuid fm) (in_codexIntegration i) \<and> opt_all (uuid fm) (in_claudeIntegration i) \<and>
     datetime fm (in_createdAt i) \<and> datetime fm (in_updatedAt i) \<and>
     opt_all (datetime fm) (in_lastValidatedAt i) \<and>
     length (uniq (in_selectedClients i)) = length (in_selectedClients i) \<and>
     list_all (\<lambda>c. c \<in> set (in_selectedClients i) \<or> integration_of i c = None) [Codex, Claude]"

datatype CredentialBackend = SecretService | RestrictiveFile

datatype CredentialState = CrAvailable | CrMissing | CrLocked | CrRejected | CrRetained | CrRemoved

record CredentialReference =
  cr_credentialReferenceId :: string
  cr_installationId :: string
  cr_client :: ClientKind
  cr_backend :: CredentialBackend
  cr_locator :: string
  cr_keyPublicIdHash :: "string option"
  cr_createdByOperation :: string
  cr_state :: CredentialState
  cr_fallbackRiskConfirmed :: bool

definition credentialReferenceSchema :: "formats \<Rightarrow> CredentialReference \<Rightarrow> bool" where
  "credentialReferenceSchema fm c \<longleftrightarrow>
     uuid fm (cr_credentialReferenceId c) \<and> uuid fm (cr_installationId c) \<and>
     relativeLocatorSchema (cr_locator c) \<and> opt_all (hex_string 64) (cr_keyPublicIdHash c) \<and>
     uuid fm (cr_createdByOperation c) \<and>
     (cr_backend c = SecretService \<or> cr_fallbackRiskConfirmed c)"

subsection \<open>Transitions\<close>

fun installationTransitions :: "InstallationStatus \<Rightarrow> InstallationStatus list" where
  "installationTransitions Prepared = [ServiceReady, Incomplete, IRecoveryRequired]"
| "installationTransitions ServiceReady = [ICompleted, Incomplete, DataRetained, IRecoveryRequired]"
| "installationTransitions ICompleted = [Incomplete, DataRetained, IRecoveryRequired]"
| "installationTransitions Incomplete = [ICompleted, DataRetained, IRecoveryRequired]"
| "installationTransitions DataRetained = [ServiceReady, Purged, IRecoveryRequired]"
| "installationTransitions IRecoveryRequired = [ServiceReady, DataRetained, Purged]"
| "installationTransitions Purged = []"

fun clientTransitions :: "ClientState \<Rightarrow> ClientState list" where
  "clientTransitions Planned = [CredentialStored, ExternalVerified, Failed]"
| "clientTransitions CredentialStored = [McpRegistered, Compensating]"
| "clientTransitions McpRegistered = [AdapterInstalled, Compensating]"
| "clientTransitions AdapterInstalled = [CVerified, Compensating]"
| "clientTransitions CVerified = [Removed, Compensating]"
| "clientTransitions ExternalVerified = [RetainedExternal]"
| "clientTransitions Compensating = [Failed]"
| "clientTransitions Failed = [Planned]"
| "clientTransitions Removed = [Planned]"
| "clientTransitions RetainedExternal = [ExternalVerified]"

text \<open>The error messages quote the two states; the model keeps the prefix.\<close>

definition transitionInstallation ::
  "string \<Rightarrow> Installation \<Rightarrow> InstallationStatus \<Rightarrow> Installation res" where
  "transitionInstallation now i status =
     (if status \<notin> set (installationTransitions (in_status i))
      then Inl (Error ''Invalid installation transition'')
      else Inr (i\<lparr>in_status := status, in_updatedAt := now,
                  in_lastValidatedAt :=
                    (if status \<in> set [ServiceReady, ICompleted] then Some now else in_lastValidatedAt i)\<rparr>))"

definition transitionClientIntegration :: "ClientIntegration \<Rightarrow> ClientState \<Rightarrow> ClientIntegration res" where
  "transitionClientIntegration c state =
     (if state \<notin> set (clientTransitions (cl_state c)) then Inl (Error ''Invalid client transition'')
      else Inr (c\<lparr>cl_state := state\<rparr>))"

fun installation_run :: "string \<Rightarrow> Installation \<Rightarrow> InstallationStatus list \<Rightarrow> Installation res" where
  "installation_run now i [] = Inr i"
| "installation_run now i (status # rest) =
     and_then (transitionInstallation now i status) (\<lambda>i'. installation_run now i' rest)"

fun client_run :: "ClientIntegration \<Rightarrow> ClientState list \<Rightarrow> ClientIntegration res" where
  "client_run c [] = Inr c"
| "client_run c (state # rest) =
     and_then (transitionClientIntegration c state) (\<lambda>c'. client_run c' rest)"

lemma client_run_history:
  "client_run c states = Inr c' \<Longrightarrow>
     history clientTransitions (cl_state c # states) \<and> cl_state c' = last (cl_state c # states)"
proof (induction states arbitrary: c)
  case (Cons s states)
  then obtain c1 where "transitionClientIntegration c s = Inr c1" "client_run c1 states = Inr c'" by auto
  moreover from this(1) have "s \<in> set (clientTransitions (cl_state c))" "cl_state c1 = s"
    by (auto simp: transitionClientIntegration_def split: if_splits)
  ultimately show ?case using Cons.IH [of c1] by auto
qed simp

lemma installation_run_history:
  "installation_run now i states = Inr i' \<Longrightarrow>
     history installationTransitions (in_status i # states) \<and> in_status i' = last (in_status i # states)"
proof (induction states arbitrary: i)
  case (Cons s states)
  then obtain i1 where "transitionInstallation now i s = Inr i1" "installation_run now i1 states = Inr i'" by auto
  moreover from this(1) have "s \<in> set (installationTransitions (in_status i))" "in_status i1 = s"
    by (auto simp: transitionInstallation_def split: if_splits)
  ultimately show ?case using Cons.IH [of i1] by auto
qed simp

lemma installation_run_now:
  "installation_run now i states = Inr i' \<Longrightarrow> states \<noteq> [] \<Longrightarrow> in_updatedAt i' = now"
proof (induction states arbitrary: i)
  case (Cons s rest)
  then obtain i1 where i1: "transitionInstallation now i s = Inr i1" "installation_run now i1 rest = Inr i'" by auto
  then have "in_updatedAt i1 = now" by (auto simp: transitionInstallation_def split: if_splits)
  with i1(2) Cons.IH [of i1] show ?case by (cases "rest = []") auto
qed simp

definition verification_steps :: "ClientState list" where
  "verification_steps = [Planned, CredentialStored, McpRegistered, AdapterInstalled, CVerified]"

interpretation verified: forced_chain clientTransitions Planned verification_steps
proof
  fix i s
  assume "Suc i < length verification_steps" "verification_steps ! Suc i \<in> set (clientTransitions s)"
  moreover from this(1) have "i = 0 \<or> i = 1 \<or> i = 2 \<or> i = 3" by (auto simp: verification_steps_def)
  ultimately show "s = verification_steps ! i"
    by (cases s) (auto simp: verification_steps_def)
qed (simp_all add: verification_steps_def)

subsection \<open>Properties\<close>

text \<open>A verified client has walked the whole protocol: whenever transitions take a planned client
  integration to \<open>verified\<close>, the last states on the way are planned, credential stored, MCP
  registered, adapter installed and verified, in this order, however often earlier attempts failed.\<close>

theorem verified_client_walked_protocol:
  assumes "cl_state c = Planned" and "client_run c states = Inr c'" and "cl_state c' = CVerified"
  shows "\<exists>before. Planned # states = before @
    [Planned, CredentialStored, McpRegistered, AdapterInstalled, CVerified]"
proof -
  have "history clientTransitions (Planned # states)" "last (Planned # states) = verification_steps ! 4"
    using client_run_history [OF assms(2)] assms(1,3) by (simp_all add: verification_steps_def)
  from verified.walked [OF this(1) _ this(2)] show ?thesis by (simp add: verification_steps_def)
qed

definition example_client :: ClientIntegration where
  "example_client =
     \<lparr>cl_clientIntegrationId = ''c'', cl_installationId = ''i'', cl_client = Codex,
      cl_clientVersion = ''1.0.0'', cl_state = Planned, cl_credentialReferenceId = None,
      cl_keyPublicIdHash = None, cl_mcpIdentitySha256 = zeros64, cl_adapterIdentitySha256 = zeros64\<rparr>"

theorem verified_client_walked_protocol_witness:
  "\<exists>before. Planned # [Failed, Planned, CredentialStored, McpRegistered, AdapterInstalled, CVerified] = before @
    [Planned, CredentialStored, McpRegistered, AdapterInstalled, CVerified]"
  by (rule verified_client_walked_protocol [of example_client _ "example_client\<lparr>cl_state := CVerified\<rparr>"])
    (simp_all add: example_client_def transitionClientIntegration_def)

text \<open>Purging is final and guarded: on any run of accepted transitions of an installation, the
  status \<open>purged\<close> can only be the last one, it directly follows retained data or required recovery,
  and the run always ends in a permitted status whose update time is the time of the transition.\<close>

theorem purge_is_final_and_guarded:
  assumes "installation_run now i states = Inr i'" and "states \<noteq> []" and "n < length states"
    and "states ! n = Purged"
  shows "n = length states - 1 \<and>
    (in_status i # states) ! n \<in> {DataRetained, IRecoveryRequired} \<and> in_updatedAt i' = now"
proof -
  have h: "history installationTransitions (in_status i # states)"
    using installation_run_history [OF assms(1)] by simp
  have step: "history installationTransitions xs \<Longrightarrow> Suc k < length xs \<Longrightarrow>
      xs ! Suc k \<in> set (installationTransitions (xs ! k))" for xs k
  proof (induction installationTransitions xs arbitrary: k rule: history.induct)
    case (3 s t rest)
    then show ?case by (cases k) auto
  qed auto
  have "(in_status i # states) ! n \<in> {DataRetained, IRecoveryRequired}"
    using step [OF h, of n] assms(3,4) by (cases "(in_status i # states) ! n") simp_all
  moreover have "n = length states - 1"
  proof (rule ccontr)
    assume "n \<noteq> length states - 1"
    then have "Suc (Suc n) < length (in_status i # states)" using assms(3) by simp
    from step [OF h this] assms(4) show False by simp
  qed
  moreover have "in_updatedAt i' = now" by (rule installation_run_now [OF assms(1,2)])
  ultimately show ?thesis by blast
qed

definition example_installation :: Installation where
  "example_installation =
     \<lparr>in_installationId = ''i'', in_ownerUid = 1000, in_accountId = ''a'', in_activeReleaseId = ''r'',
      in_highestAcceptedReleaseSequence = 1, in_activeTrustPolicySequence = 1,
      in_endpoint = ''unix:///run/mcp.sock'', in_composeProject = ''p'', in_postgresVolume = ''v'',
      in_selectedClients = [Codex], in_codexIntegration = Some ''c'', in_claudeIntegration = None,
      in_status = ICompleted, in_createdAt = ''t'', in_updatedAt = ''t'', in_lastValidatedAt = None\<rparr>"

theorem purge_is_final_and_guarded_witness:
  "(in_status example_installation # [DataRetained, Purged]) ! 1 \<in> {DataRetained, IRecoveryRequired}"
  by (rule purge_is_final_and_guarded [of "''now''" example_installation "[DataRetained, Purged]"
        "example_installation\<lparr>in_status := Purged, in_updatedAt := ''now''\<rparr>" 1,
        THEN conjunct2, THEN conjunct1])
    (simp_all add: example_installation_def transitionInstallation_def)

text \<open>A transition keeps the installation record valid and changes nothing else: the schema still
  holds, identity, release boundary, endpoint and clients are untouched, and the validation time moves
  exactly when the service is observed ready or complete.\<close>

theorem transitionInstallation_keeps_schema:
  assumes "installationSchema fm parse_url i" and "datetime fm now"
    and "transitionInstallation now i status = Inr i'"
  shows "installationSchema fm parse_url i' \<and> in_status i' = status \<and>
    i' = i\<lparr>in_status := status, in_updatedAt := now, in_lastValidatedAt := in_lastValidatedAt i'\<rparr> \<and>
    in_lastValidatedAt i' = (if status = ServiceReady \<or> status = ICompleted then Some now else in_lastValidatedAt i)"
proof -
  from assms(3) have i': "i' = i\<lparr>in_status := status, in_updatedAt := now, in_lastValidatedAt :=
      (if status = ServiceReady \<or> status = ICompleted then Some now else in_lastValidatedAt i)\<rparr>"
    by (auto simp: transitionInstallation_def split: if_splits)
  have "integration_of i' = integration_of i"
  proof
    show "integration_of i' c = integration_of i c" for c by (cases c) (simp_all add: i')
  qed
  then have "installationSchema fm parse_url i'"
    using assms(1,2) unfolding installationSchema_def by (simp add: i' opt_all_def split: option.splits)
  then show ?thesis by (simp add: i')
qed

definition example_url :: "string \<Rightarrow> url option" where
  "example_url s = Some \<lparr>url_protocol = ''unix:'', url_hostname = [], url_pathname = ''/run/mcp.sock'',
     url_search = [], url_hash = [], url_username = [], url_password = [], url_port = []\<rparr>"

theorem transitionInstallation_keeps_schema_witness:
  "installationSchema any_format example_url
     (example_installation\<lparr>in_status := DataRetained, in_updatedAt := ''now''\<rparr>)"
proof -
  have "installationSchema any_format example_url example_installation"
    by (simp add: installationSchema_def example_installation_def any_format_def localEndpoint_def example_url_def
        starts_with_def ends_with_def bounded_name_def safe_int_def js_length_def code_of_def lower_char_def
        opt_all_def)
  from transitionInstallation_keeps_schema [OF this, of "''now''" DataRetained
      "example_installation\<lparr>in_status := DataRetained, in_updatedAt := ''now''\<rparr>"]
  show ?thesis
    by (simp add: transitionInstallation_def example_installation_def any_format_def)
qed

end
