(* ===== verification/File_System.thy ===== *)
theory File_System
  imports Effects
begin

text \<open>
  The part of the file system that the installer's profile code uses (\<open>node:fs/promises\<close> and
  \<open>node:path\<close>). An absolute path is the list of its segments; a directory tree is a partial function
  from paths to nodes. A new file gets a fresh inode and modification time from a counter, and random
  names are drawn from a table at the same counter. Hard links are a count on the file; umask is not
  modelled, and no other process writes while one of the operations below runs.
\<close>

subsection \<open>Nodes and paths\<close>

type_synonym path = "string list"

record plain_file =
  pf_owner :: int
  pf_mode :: int
  pf_links :: nat
  pf_inode :: nat
  pf_mtime :: nat
  pf_bytes :: string

datatype fs_node = Directory int int | Symlink int | Plain plain_file

record fs =
  fs_nodes :: "path \<Rightarrow> fs_node option"
  fs_tick :: nat

record machine =
  mc_uid :: int
  mc_device :: string
  mc_random :: "nat \<Rightarrow> string"
  mc_semantic :: "string \<Rightarrow> string"

fun node_owner :: "fs_node \<Rightarrow> int" where
  "node_owner (Directory u _) = u"
| "node_owner (Symlink u) = u"
| "node_owner (Plain f) = pf_owner f"

definition is_directory :: "fs_node \<Rightarrow> bool" where
  "is_directory n = (case n of Directory _ _ \<Rightarrow> True | _ \<Rightarrow> False)"

definition is_symlink :: "fs_node \<Rightarrow> bool" where
  "is_symlink n = (case n of Symlink _ \<Rightarrow> True | _ \<Rightarrow> False)"

text \<open>\<open>path.resolve(base, relative)\<close>: empty segments and \<open>.\<close> are dropped, \<open>..\<close> goes up.\<close>

fun add_segments :: "path \<Rightarrow> string list \<Rightarrow> path" where
  "add_segments base [] = base"
| "add_segments base (s # ss) =
     add_segments (if s = [] \<or> s = ''.'' then base else if s = ''..'' then butlast base else base @ [s]) ss"

definition isAbsolute :: "string \<Rightarrow> bool" where
  "isAbsolute s = starts_with ''/'' s"

definition fs_resolve :: "path \<Rightarrow> string \<Rightarrow> path" where
  "fs_resolve base s = add_segments (if isAbsolute s then [] else base) (split_on (CHR ''/'') s)"

text \<open>The segments of \<open>path.relative(base, target)\<close> when the target is below the base; otherwise that path
  begins with \<open>..\<close>.\<close>

fun below :: "path \<Rightarrow> path \<Rightarrow> string list option" where
  "below [] target = Some target"
| "below (r # base) (t # target) = (if r = t then below base target else None)"
| "below (r # base) [] = None"

definition show_path :: "path \<Rightarrow> string" where
  "show_path p = ''/'' @ join ''/'' p"

lemma below_append [simp]: "below base (base @ segments) = Some segments"
  by (induction base) simp_all

lemma below_Some: "below base target = Some segments \<Longrightarrow> target = base @ segments"
  by (induction base target rule: below.induct) (auto split: if_splits)

subsection \<open>System calls\<close>

type_synonym 'a fsop = "(error, fs, 'a) eff"

definition OS :: "string \<Rightarrow> error" where
  "OS code = Error code"

definition put_node :: "path \<Rightarrow> fs_node option \<Rightarrow> fs \<Rightarrow> fs" where
  "put_node p n fs = fs\<lparr>fs_nodes := (fs_nodes fs)(p := n), fs_tick := Suc (fs_tick fs)\<rparr>"

definition draw :: "machine \<Rightarrow> string fsop" where
  "draw m fs = (Inr (mc_random m (fs_tick fs)), fs\<lparr>fs_tick := Suc (fs_tick fs)\<rparr>)"

definition lstat :: "path \<Rightarrow> fs \<Rightarrow> fs_node res" where
  "lstat p fs = (case fs_nodes fs p of None \<Rightarrow> Inl (OS ''ENOENT'') | Some n \<Rightarrow> Inr n)"

definition parent_ok :: "path \<Rightarrow> fs \<Rightarrow> bool" where
  "parent_ok p fs = (case fs_nodes fs (butlast p) of None \<Rightarrow> False | Some n \<Rightarrow> is_directory n)"

definition mkdir_at :: "machine \<Rightarrow> int \<Rightarrow> path \<Rightarrow> unit fsop" where
  "mkdir_at m mode p fs =
     (if fs_nodes fs p \<noteq> None then (Inl (OS ''EEXIST''), fs)
      else if \<not> parent_ok p fs then (Inl (OS ''ENOENT''), fs)
      else (Inr (), put_node p (Some (Directory (mc_uid m) mode)) fs))"

text \<open>\<open>open(path, "wx", mode)\<close>, \<open>writeFile\<close>, \<open>sync\<close>, \<open>close\<close>.\<close>

definition create_file :: "machine \<Rightarrow> int \<Rightarrow> path \<Rightarrow> string \<Rightarrow> unit fsop" where
  "create_file m mode p bytes fs =
     (if fs_nodes fs p \<noteq> None then (Inl (OS ''EEXIST''), fs)
      else if \<not> parent_ok p fs then (Inl (OS ''ENOENT''), fs)
      else (Inr (), put_node p (Some (Plain
             \<lparr>pf_owner = mc_uid m, pf_mode = mode, pf_links = 1, pf_inode = fs_tick fs, pf_mtime = fs_tick fs,
              pf_bytes = bytes\<rparr>)) fs))"

text \<open>\<open>open(path, O_RDONLY | O_NOFOLLOW)\<close> and \<open>readFile\<close>.\<close>

definition open_file :: "path \<Rightarrow> fs \<Rightarrow> plain_file res" where
  "open_file p fs =
     (case fs_nodes fs p of
        None \<Rightarrow> Inl (OS ''ENOENT'')
      | Some (Plain f) \<Rightarrow> Inr f
      | Some (Symlink _) \<Rightarrow> Inl (OS ''ELOOP'')
      | Some (Directory _ _) \<Rightarrow> Inl (OS ''EISDIR''))"

definition rename_to :: "path \<Rightarrow> path \<Rightarrow> unit fsop" where
  "rename_to source target fs =
     (case fs_nodes fs source of
        None \<Rightarrow> (Inl (OS ''ENOENT''), fs)
      | Some n \<Rightarrow>
          if \<not> parent_ok target fs then (Inl (OS ''ENOENT''), fs)
          else if (case fs_nodes fs target of None \<Rightarrow> False | Some t \<Rightarrow> is_directory t) then (Inl (OS ''EISDIR''), fs)
          else (Inr (), put_node target (Some n) (put_node source None fs)))"

definition unlink_at :: "path \<Rightarrow> unit fsop" where
  "unlink_at p fs =
     (case fs_nodes fs p of
        None \<Rightarrow> (Inl (OS ''ENOENT''), fs)
      | Some n \<Rightarrow> if is_directory n then (Inl (OS ''EISDIR''), fs) else (Inr (), put_node p None fs))"

definition chmod_at :: "int \<Rightarrow> path \<Rightarrow> unit fsop" where
  "chmod_at mode p fs =
     (case fs_nodes fs p of
        None \<Rightarrow> (Inl (OS ''ENOENT''), fs)
      | Some (Plain f) \<Rightarrow> (Inr (), put_node p (Some (Plain (f\<lparr>pf_mode := mode\<rparr>))) fs)
      | Some (Directory u _) \<Rightarrow> (Inr (), put_node p (Some (Directory u mode)) fs)
      | Some (Symlink _) \<Rightarrow> (Inl (OS ''ELOOP''), fs))"

text \<open>\<open>open(path, O_RDONLY | O_DIRECTORY | O_NOFOLLOW)\<close> and \<open>sync\<close>.\<close>

definition sync_directory :: "path \<Rightarrow> unit fsop" where
  "sync_directory p fs =
     ((case fs_nodes fs p of
         None \<Rightarrow> Inl (OS ''ENOENT'')
       | Some (Directory _ _) \<Rightarrow> Inr ()
       | Some (Symlink _) \<Rightarrow> Inl (OS ''ELOOP'')
       | Some (Plain _) \<Rightarrow> Inl (OS ''ENOTDIR'')), fs)"

definition remove_tree :: "path \<Rightarrow> fs \<Rightarrow> fs" where
  "remove_tree p fs =
     fs\<lparr>fs_nodes := \<lambda>q. if below p q = None then fs_nodes fs q else None, fs_tick := Suc (fs_tick fs)\<rparr>"

text \<open>\<open>.catch((error) => if (error.code !== code) throw error)\<close>\<close>

definition unless_code :: "string \<Rightarrow> unit fsop \<Rightarrow> unit fsop" where
  "unless_code code m = catch_eff m (\<lambda>e. if e = OS code then give () else raise_eff e)"

subsection \<open>What the calls change\<close>

text \<open>\<open>outside S fs0\<close>: nothing differs from \<open>fs0\<close> but at the paths of \<open>S\<close>.\<close>

definition outside :: "path set \<Rightarrow> fs \<Rightarrow> fs \<Rightarrow> bool" where
  "outside S fs0 fs \<longleftrightarrow> (\<forall>p. p \<notin> S \<longrightarrow> fs_nodes fs p = fs_nodes fs0 p)"

lemma outside_refl [simp]: "outside S fs fs"
  by (simp add: outside_def)

lemma outside_trans: "outside S fs0 fs1 \<Longrightarrow> outside S fs1 fs2 \<Longrightarrow> outside S fs0 fs2"
  by (simp add: outside_def)

lemma outside_mono: "outside S fs0 fs1 \<Longrightarrow> S \<subseteq> T \<Longrightarrow> outside T fs0 fs1"
  by (auto simp: outside_def)

lemma put_node_nodes [simp]: "fs_nodes (put_node p n fs) = (fs_nodes fs)(p := n)"
  by (simp add: put_node_def)

lemma outside_put: "p \<in> S \<Longrightarrow> outside S fs0 fs \<Longrightarrow> outside S fs0 (put_node p n fs)"
  by (auto simp: outside_def)

lemma draw_outside [intro]: "preserves (outside S fs0) (draw m)"
  by (simp add: preserves_def draw_def outside_def)

lemma mkdir_outside [intro]: "p \<in> S \<Longrightarrow> preserves (outside S fs0) (mkdir_at m mode p)"
  by (auto simp: preserves_def mkdir_at_def outside_put split: if_splits)

lemma create_outside [intro]: "p \<in> S \<Longrightarrow> preserves (outside S fs0) (create_file m mode p bytes)"
  by (auto simp: preserves_def create_file_def outside_put split: if_splits)

lemma rename_outside [intro]: "p \<in> S \<Longrightarrow> q \<in> S \<Longrightarrow> preserves (outside S fs0) (rename_to p q)"
  by (auto simp: preserves_def rename_to_def outside_put split: option.splits if_splits)

lemma unlink_outside [intro]: "p \<in> S \<Longrightarrow> preserves (outside S fs0) (unlink_at p)"
  by (auto simp: preserves_def unlink_at_def outside_put split: option.splits if_splits)

lemma chmod_outside [intro]: "p \<in> S \<Longrightarrow> preserves (outside S fs0) (chmod_at mode p)"
  by (auto simp: preserves_def chmod_at_def outside_put split: option.splits fs_node.splits)

lemma sync_outside [intro]: "preserves (outside S fs0) (sync_directory p)"
  by (simp add: preserves_def sync_directory_def)

lemma unless_code_outside [intro]:
  "preserves P m \<Longrightarrow> preserves P (unless_code code m)"
  unfolding unless_code_def by auto

end
