(* ===== verification/Profile_Snapshot.thy ===== *)
theory Profile_Snapshot
  imports File_System Canonical_JSON Text_Normalization
begin

text \<open>
  Protected copies of client profiles (\<open>src/onboarding/domain/profile-snapshot.ts\<close>) on the file system of
  \<open>File_System\<close>. Roots are resolved absolute paths. \<open>mc_semantic\<close> is the re-serialization
  \<open>JSON.stringify(JSON.parse(bytes))\<close>, the bytes themselves where they are not JSON.
\<close>

subsection \<open>Records\<close>

record ProfileFileIdentity =
  fi_device :: string
  fi_inode :: string
  fi_size :: nat
  fi_mode :: int
  fi_mtimeNanoseconds :: string
  fi_sha256 :: string
  fi_semanticSha256 :: string

text \<open>\<open>expectedPostIdentity\<close> is undefined (\<open>None\<close>), null (\<open>Some None\<close>) or an identity.\<close>

record ProfileSnapshotEntry =
  pe_relativePath :: string
  pe_existed :: bool
  pe_beforeIdentity :: "ProfileFileIdentity option"
  pe_expectedPostIdentity :: "ProfileFileIdentity option option"
  pe_protectedCopy :: "path option"

datatype restoration_state = Eligible | Restored | Blocked_By_Concurrent_Change | Retained

record ProtectedProfileSnapshot =
  ps_snapshotId :: string
  ps_client :: string
  ps_profileRoot :: path
  ps_stateRoot :: path
  ps_snapshotRoot :: path
  ps_entries :: "ProfileSnapshotEntry list"
  ps_restorationState :: restoration_state

record CaptureProfileSnapshotOptions =
  co_client :: string
  co_profileRoot :: string
  co_stateRoot :: string
  co_relativePaths :: "string list"

subsection \<open>The persisted form\<close>

text \<open>\<open>JSON.stringify\<close> of the values a snapshot is made of; undefined members are left out.\<close>

fun stringify :: "json \<Rightarrow> string" where
  "stringify (JBool b) = (if b then ''true'' else ''false'')"
| "stringify (JNum n) = show_int n"
| "stringify (JStr s) = quote s"
| "stringify (JArr vs) = ''['' @ join '','' (map stringify vs) @ '']''"
| "stringify (JObj es) = ''{'' @ join '','' (map (\<lambda>(k, v). quote k @ '':'' @ stringify v) es) @ ''}''"
| "stringify _ = ''null''"

definition identity_json :: "ProfileFileIdentity option \<Rightarrow> json" where
  "identity_json i = (case i of None \<Rightarrow> JNull
     | Some f \<Rightarrow> JObj [(''device'', JStr (fi_device f)), (''inode'', JStr (fi_inode f)), (''size'', JNum (int (fi_size f))),
         (''mode'', JNum (fi_mode f)), (''mtimeNanoseconds'', JStr (fi_mtimeNanoseconds f)),
         (''sha256'', JStr (fi_sha256 f)), (''semanticSha256'', JStr (fi_semanticSha256 f))])"

fun restoration_name :: "restoration_state \<Rightarrow> string" where
  "restoration_name Eligible = ''eligible''"
| "restoration_name Restored = ''restored''"
| "restoration_name Blocked_By_Concurrent_Change = ''blocked-by-concurrent-change''"
| "restoration_name Retained = ''retained''"

definition entry_json :: "ProfileSnapshotEntry \<Rightarrow> json" where
  "entry_json e = JObj
     ([(''relativePath'', JStr (pe_relativePath e)), (''existed'', JBool (pe_existed e)),
       (''beforeIdentity'', identity_json (pe_beforeIdentity e))] @
      (case pe_expectedPostIdentity e of None \<Rightarrow> [] | Some i \<Rightarrow> [(''expectedPostIdentity'', identity_json i)]) @
      [(''protectedCopy'', case pe_protectedCopy e of None \<Rightarrow> JNull | Some p \<Rightarrow> JStr (show_path p))])"

definition snapshot_text :: "ProtectedProfileSnapshot \<Rightarrow> string" where
  "snapshot_text s = stringify (JObj
     [(''schemaVersion'', JStr ''skillwire.profile-snapshot/v1''), (''snapshotId'', JStr (ps_snapshotId s)),
      (''client'', JStr (ps_client s)), (''profileRoot'', JStr (show_path (ps_profileRoot s))),
      (''stateRoot'', JStr (show_path (ps_stateRoot s))), (''snapshotRoot'', JStr (show_path (ps_snapshotRoot s))),
      (''entries'', JArr (map entry_json (ps_entries s))),
      (''restorationState'', JStr (restoration_name (ps_restorationState s)))]) @ [CHR 0x0A]"

subsection \<open>Paths and directories\<close>

text \<open>\<open>relative\<close> must not begin with two dots, so a first segment like \<open>..x\<close> counts as outside.\<close>

definition contained :: "path \<Rightarrow> path \<Rightarrow> bool" where
  "contained base target =
     (case below base target of None \<Rightarrow> False | Some [] \<Rightarrow> True | Some (s # _) \<Rightarrow> \<not> starts_with ''..'' s)"

definition validateRelativePath :: "string \<Rightarrow> string res" where
  "validateRelativePath p =
     (let slashed = map (\<lambda>c. if c = CHR 0x5C then CHR ''/'' else c) p
      in if js_length p < 1 \<or> 512 < js_length p \<or> isAbsolute p \<or> NUL \<in> set p \<or>
            list_ex (\<lambda>part. part = ''..'' \<or> part = []) (split_on (CHR ''/'') slashed)
         then Inl (Error ''Profile snapshot path must be a safe relative path'')
         else Inr slashed)"

text \<open>The parts are the segments of a relative path, proper names that \<open>resolve\<close> appends.\<close>

fun walk_ancestors :: "int \<Rightarrow> fs \<Rightarrow> path \<Rightarrow> string list \<Rightarrow> unit res" where
  "walk_ancestors uid fs current [] = Inr ()"
| "walk_ancestors uid fs current (part # parts) =
     (let here = (if part = [] then current else current @ [part])
      in case fs_nodes fs here of
           None \<Rightarrow> Inr ()
         | Some node \<Rightarrow>
             if is_symlink node then Inl (Error ''Profile path contains a symlink'')
             else if node_owner node \<noteq> uid then Inl (Error ''Profile path has the wrong owner'')
             else if parts \<noteq> [] \<and> \<not> is_directory node then Inl (Error ''Profile path ancestor is not a directory'')
             else walk_ancestors uid fs here parts)"

text \<open>\<open>"".split("/")\<close> is one empty part: for the root itself the walk looks at the root.\<close>

definition validateProfileAncestors :: "machine \<Rightarrow> path \<Rightarrow> path \<Rightarrow> fs \<Rightarrow> unit res" where
  "validateProfileAncestors m base target fs =
     (if \<not> contained base target then Inl (Error ''Profile path is outside profile root'')
      else case below base target of
             None \<Rightarrow> Inl (Error ''Profile path is outside profile root'')
           | Some parts \<Rightarrow> walk_ancestors (mc_uid m) fs base (if parts = [] then [[]] else parts))"

definition validateOwnedDirectory :: "machine \<Rightarrow> path \<Rightarrow> fs \<Rightarrow> unit res" where
  "validateOwnedDirectory m p fs =
     and_then (lstat p fs) (\<lambda>node.
       ensure (\<not> is_symlink node \<and> is_directory node \<and> node_owner node = mc_uid m)
         (Error ''Profile snapshot directory is unsafe''))"

definition createOwnedDirectory :: "machine \<Rightarrow> path \<Rightarrow> string \<Rightarrow> path fsop" where
  "createOwnedDirectory m parent name =
     (let p = fs_resolve parent name
      in bind_eff (read_eff (validateOwnedDirectory m parent)) (\<lambda>_.
         bind_eff (guard_eff (contained parent p) (Error ''Snapshot directory escapes its root'')) (\<lambda>_.
         bind_eff (unless_code ''EEXIST'' (mkdir_at m 448 p)) (\<lambda>_.
         bind_eff (read_eff (validateOwnedDirectory m p)) (\<lambda>_.
         bind_eff (chmod_at 448 p) (\<lambda>_. give p))))))"

subsection \<open>Identities\<close>

definition MAX_PROFILE_BYTES :: int where
  "MAX_PROFILE_BYTES = 4 * 1024 * 1024"

definition identity_of :: "machine \<Rightarrow> runtime \<Rightarrow> plain_file \<Rightarrow> ProfileFileIdentity" where
  "identity_of m rt f =
     \<lparr>fi_device = mc_device m, fi_inode = show_nat (pf_inode f), fi_size = length (pf_bytes f),
      fi_mode = pf_mode f mod 512, fi_mtimeNanoseconds = show_nat (pf_mtime f),
      fi_sha256 = sha256 rt (pf_bytes f), fi_semanticSha256 = sha256 rt (mc_semantic m (pf_bytes f))\<rparr>"

definition fileIdentity :: "machine \<Rightarrow> runtime \<Rightarrow> path \<Rightarrow> string \<Rightarrow> fs \<Rightarrow> ProfileFileIdentity option res" where
  "fileIdentity m rt profileRoot relativePath fs =
     (let target = fs_resolve profileRoot relativePath
      in and_then (validateProfileAncestors m profileRoot target fs) (\<lambda>_.
         if fs_nodes fs target = None then Inr None
         else and_then (open_file target fs) (\<lambda>f.
              if pf_links f \<noteq> 1 \<or> pf_owner f \<noteq> mc_uid m \<or> MAX_PROFILE_BYTES < int (length (pf_bytes f))
              then Inl (Error ''Profile snapshot source is unsafe'')
              else Inr (Some (identity_of m rt f)))))"

definition sameIdentity :: "ProfileFileIdentity option \<Rightarrow> ProfileFileIdentity option option \<Rightarrow> bool" where
  "sameIdentity left right = (case right of None \<Rightarrow> False | Some r \<Rightarrow> left = r)"

definition sameRestoredImage :: "ProfileFileIdentity option \<Rightarrow> ProfileFileIdentity option option \<Rightarrow> bool" where
  "sameRestoredImage left right =
     (case right of None \<Rightarrow> False
      | Some r \<Rightarrow>
          (case (left, r) of
             (Some l, Some r) \<Rightarrow> fi_size l = fi_size r \<and> fi_mode l = fi_mode r \<and> fi_sha256 l = fi_sha256 r \<and>
               fi_semanticSha256 l = fi_semanticSha256 r
           | (l, r) \<Rightarrow> l = r))"

subsection \<open>Capturing\<close>

definition persistSnapshot :: "machine \<Rightarrow> ProtectedProfileSnapshot \<Rightarrow> unit fsop" where
  "persistSnapshot m s =
     bind_eff (draw m) (\<lambda>random.
       let stage = ps_snapshotRoot s @ [''.snapshot-'' @ random @ ''.stage'']
       in bind_eff (create_file m 384 stage (snapshot_text s)) (\<lambda>_.
          bind_eff (rename_to stage (ps_snapshotRoot s @ [''snapshot.json''])) (\<lambda>_.
          sync_directory (ps_snapshotRoot s))))"

definition capture_entry ::
  "machine \<Rightarrow> runtime \<Rightarrow> path \<Rightarrow> path \<Rightarrow> nat \<times> string \<Rightarrow> ProfileSnapshotEntry fsop" where
  "capture_entry m rt profileRoot snapshotRoot = (\<lambda>(index, relativePath).
     bind_eff (read_eff (fileIdentity m rt profileRoot relativePath)) (\<lambda>identity.
     let entry = (\<lambda>copy. \<lparr>pe_relativePath = relativePath, pe_existed = (identity \<noteq> None), pe_beforeIdentity = identity,
           pe_expectedPostIdentity = None, pe_protectedCopy = copy\<rparr>)
     in case identity of
          None \<Rightarrow> give (entry None)
        | Some i \<Rightarrow>
            (let copy = snapshotRoot @ [show_nat index @ ''.copy'']
             in bind_eff (read_eff (open_file (fs_resolve profileRoot relativePath))) (\<lambda>source.
                bind_eff (create_file m 384 copy []) (\<lambda>_.
                bind_eff (guard_eff (sha256 rt (pf_bytes source) = fi_sha256 i)
                  (Error ''Profile changed while its snapshot was captured'')) (\<lambda>_.
                bind_eff (change_eff (\<lambda>fs. case fs_nodes fs copy of
                    Some (Plain f) \<Rightarrow> put_node copy (Some (Plain (f\<lparr>pf_bytes := pf_bytes source\<rparr>))) fs | _ \<Rightarrow> fs)) (\<lambda>_.
                give (entry (Some copy)))))))))"

definition captureProfileSnapshot ::
  "machine \<Rightarrow> runtime \<Rightarrow> CaptureProfileSnapshotOptions \<Rightarrow> ProtectedProfileSnapshot fsop" where
  "captureProfileSnapshot m rt options =
     bind_eff (guard_eff (isAbsolute (co_profileRoot options) \<and> isAbsolute (co_stateRoot options))
       (Error ''Profile and state roots must be absolute'')) (\<lambda>_.
     bind_eff (guard_eff (1 \<le> length (co_relativePaths options) \<and> length (co_relativePaths options) \<le> 16 \<and>
         length (uniq (co_relativePaths options)) = length (co_relativePaths options))
       (Error ''Profile snapshot path inventory is invalid'')) (\<lambda>_.
     let profileRoot = fs_resolve [] (co_profileRoot options); stateRoot = fs_resolve [] (co_stateRoot options)
     in bind_eff (read_eff (validateOwnedDirectory m profileRoot)) (\<lambda>_.
        bind_eff (read_eff (validateOwnedDirectory m stateRoot)) (\<lambda>_.
        bind_eff (of_sum (traverse validateRelativePath (co_relativePaths options))) (\<lambda>relativePaths.
        bind_eff (each_eff (\<lambda>p. read_eff (validateProfileAncestors m profileRoot (fs_resolve profileRoot p))) relativePaths) (\<lambda>_.
        bind_eff (draw m) (\<lambda>snapshotId.
        bind_eff (createOwnedDirectory m stateRoot ''skillwire'') (\<lambda>skillwireRoot.
        bind_eff (createOwnedDirectory m skillwireRoot ''snapshots'') (\<lambda>snapshotsRoot.
        let snapshotRoot = fs_resolve snapshotsRoot snapshotId
        in bind_eff (guard_eff (contained stateRoot snapshotRoot) (Error ''Snapshot path escapes state root'')) (\<lambda>_.
           bind_eff (mkdir_at m 448 snapshotRoot) (\<lambda>_.
           bind_eff (read_eff (validateOwnedDirectory m snapshotRoot)) (\<lambda>_.
           catch_eff
             (bind_eff (each_eff (capture_entry m rt profileRoot snapshotRoot) (enumerate 0 relativePaths)) (\<lambda>entries.
              let snapshot = \<lparr>ps_snapshotId = snapshotId, ps_client = co_client options, ps_profileRoot = profileRoot,
                    ps_stateRoot = stateRoot, ps_snapshotRoot = snapshotRoot, ps_entries = entries,
                    ps_restorationState = Eligible\<rparr>
              in bind_eff (persistSnapshot m snapshot) (\<lambda>_. give snapshot)))
             (\<lambda>e. bind_eff (change_eff (remove_tree snapshotRoot)) (\<lambda>_. raise_eff e))))))))))))))"

subsection \<open>Post images\<close>

definition recordExpectedProfilePostImage ::
  "machine \<Rightarrow> runtime \<Rightarrow> ProtectedProfileSnapshot \<Rightarrow> ProtectedProfileSnapshot fsop" where
  "recordExpectedProfilePostImage m rt snapshot =
     bind_eff (each_eff (\<lambda>entry. bind_eff (read_eff (fileIdentity m rt (ps_profileRoot snapshot) (pe_relativePath entry)))
         (\<lambda>identity. give (entry\<lparr>pe_expectedPostIdentity := Some identity\<rparr>))) (ps_entries snapshot)) (\<lambda>entries.
     let updated = snapshot\<lparr>ps_entries := entries\<rparr>
     in bind_eff (persistSnapshot m updated) (\<lambda>_. give updated))"

text \<open>A loop that returns false at the first mismatch, and throws what \<open>fileIdentity\<close> throws before it.\<close>

fun all_match :: "('a \<Rightarrow> bool res) \<Rightarrow> 'a list \<Rightarrow> bool res" where
  "all_match f [] = Inr True"
| "all_match f (x # xs) = and_then (f x) (\<lambda>ok. if ok then all_match f xs else Inr False)"

definition profileMatchesSnapshotBefore :: "machine \<Rightarrow> runtime \<Rightarrow> ProtectedProfileSnapshot \<Rightarrow> fs \<Rightarrow> bool res" where
  "profileMatchesSnapshotBefore m rt snapshot fs =
     all_match (\<lambda>entry. and_then (fileIdentity m rt (ps_profileRoot snapshot) (pe_relativePath entry) fs)
       (\<lambda>i. Inr (sameRestoredImage i (Some (pe_beforeIdentity entry))))) (ps_entries snapshot)"

definition selectedEntries ::
  "ProtectedProfileSnapshot \<Rightarrow> string list option \<Rightarrow> ProfileSnapshotEntry list res" where
  "selectedEntries snapshot relativePaths =
     (case relativePaths of
        None \<Rightarrow> Inr (ps_entries snapshot)
      | Some ps \<Rightarrow>
          if length ps < 1 \<or> length (uniq ps) \<noteq> length ps
          then Inl (Error ''Profile checkpoint path selection is invalid'')
          else traverse (\<lambda>p. and_then (validateRelativePath p) (\<lambda>normalized.
                 case find (\<lambda>candidate. pe_relativePath candidate = normalized) (ps_entries snapshot) of
                   None \<Rightarrow> Inl (Error ''Profile checkpoint path is outside the snapshot'')
                 | Some entry \<Rightarrow> Inr entry)) ps)"

definition profileMatchesExpectedPostImage ::
  "machine \<Rightarrow> runtime \<Rightarrow> ProtectedProfileSnapshot \<Rightarrow> string list option \<Rightarrow> fs \<Rightarrow> bool res" where
  "profileMatchesExpectedPostImage m rt snapshot relativePaths fs =
     and_then (selectedEntries snapshot relativePaths) (all_match (\<lambda>entry.
       and_then (fileIdentity m rt (ps_profileRoot snapshot) (pe_relativePath entry) fs)
         (\<lambda>i. Inr (sameIdentity i (pe_expectedPostIdentity entry)))))"

definition profileMatchesExpectedPostContent ::
  "machine \<Rightarrow> runtime \<Rightarrow> ProtectedProfileSnapshot \<Rightarrow> string list option \<Rightarrow> fs \<Rightarrow> bool res" where
  "profileMatchesExpectedPostContent m rt snapshot relativePaths fs =
     and_then (selectedEntries snapshot relativePaths) (all_match (\<lambda>entry.
       and_then (fileIdentity m rt (ps_profileRoot snapshot) (pe_relativePath entry) fs)
         (\<lambda>i. Inr (sameRestoredImage i (pe_expectedPostIdentity entry)))))"

subsection \<open>Restoring\<close>

definition restoreEntry ::
  "machine \<Rightarrow> runtime \<Rightarrow> ProtectedProfileSnapshot \<Rightarrow> ProfileSnapshotEntry \<Rightarrow> unit fsop" where
  "restoreEntry m rt snapshot entry =
     (let target = fs_resolve (ps_profileRoot snapshot) (pe_relativePath entry); parent = butlast target
      in bind_eff (read_eff (validateProfileAncestors m (ps_profileRoot snapshot) target)) (\<lambda>_.
         if \<not> pe_existed entry
         then bind_eff (unless_code ''ENOENT'' (unlink_at target)) (\<lambda>_. sync_directory parent)
         else case (pe_protectedCopy entry, pe_beforeIdentity entry) of
                (Some copy, Some before) \<Rightarrow>
                  bind_eff (read_eff (open_file copy)) (\<lambda>f.
                  bind_eff (guard_eff (pf_links f = 1 \<and> pf_owner f = mc_uid m \<and> pf_mode f mod 512 = 384)
                    (Error ''Protected profile copy is unsafe'')) (\<lambda>_.
                  bind_eff (guard_eff (sha256 rt (pf_bytes f) = fi_sha256 before)
                    (Error ''Protected profile copy identity changed'')) (\<lambda>_.
                  bind_eff (draw m) (\<lambda>random.
                  let stage = parent @ [''.skillwire-restore-'' @ random @ ''.stage'']
                  in bind_eff (create_file m (fi_mode before) stage (pf_bytes f)) (\<lambda>_.
                     bind_eff (chmod_at (fi_mode before) stage) (\<lambda>_.
                     bind_eff (rename_to stage target) (\<lambda>_.
                     sync_directory parent)))))))
              | _ \<Rightarrow> raise_eff (Error ''Profile snapshot copy is incomplete'')))"

definition restoreProfileSnapshot ::
  "machine \<Rightarrow> runtime \<Rightarrow> ProtectedProfileSnapshot \<Rightarrow> ProtectedProfileSnapshot fsop" where
  "restoreProfileSnapshot m rt snapshot =
     bind_eff (read_eff (\<lambda>fs. all_match (\<lambda>entry.
         and_then (fileIdentity m rt (ps_profileRoot snapshot) (pe_relativePath entry) fs)
           (\<lambda>i. Inr (sameIdentity i (pe_expectedPostIdentity entry)))) (ps_entries snapshot))) (\<lambda>unchanged.
     if \<not> unchanged
     then (let blocked = snapshot\<lparr>ps_restorationState := Blocked_By_Concurrent_Change\<rparr>
           in bind_eff (persistSnapshot m blocked) (\<lambda>_. give blocked))
     else bind_eff (each_eff (restoreEntry m rt snapshot) (ps_entries snapshot)) (\<lambda>_.
          let restored = snapshot\<lparr>ps_restorationState := Restored\<rparr>
          in bind_eff (persistSnapshot m restored) (\<lambda>_. give restored)))"

subsection \<open>What the steps leave alone\<close>

definition at_or_below :: "path \<Rightarrow> path set" where
  "at_or_below base = {p. below base p \<noteq> None}"

lemma at_or_below_child [simp]: "base @ segments \<in> at_or_below base"
  by (simp add: at_or_below_def)

lemma below_trans: "below a b \<noteq> None \<Longrightarrow> below b c \<noteq> None \<Longrightarrow> below a c \<noteq> None"
proof -
  assume "below a b \<noteq> None" and "below b c \<noteq> None"
  then obtain s1 s2 where "below a b = Some s1" "below b c = Some s2" by blast
  then have "b = a @ s1" "c = b @ s2" by (auto dest: below_Some)
  then have "c = a @ s1 @ s2" by simp
  then show ?thesis by simp
qed

lemma at_or_below_mono: "p \<in> at_or_below base \<Longrightarrow> at_or_below p \<subseteq> at_or_below base"
  unfolding at_or_below_def using below_trans by blast

lemma preserves_outside_mono:
  "(\<And>fs1. preserves (outside S fs1) m) \<Longrightarrow> S \<subseteq> T \<Longrightarrow> preserves (outside T fs0) m"
  unfolding preserves_def by (meson outside_mono outside_refl outside_trans)

lemma persistSnapshot_outside: "preserves (outside (at_or_below (ps_snapshotRoot s)) fs0) (persistSnapshot m s)"
  unfolding persistSnapshot_def Let_def by (intro preserves_bind) auto

text \<open>Persisting changes the file \<open>snapshot.json\<close> only: the stage is created fresh and renamed away.\<close>

lemma persistSnapshot_Inr:
  assumes "persistSnapshot m s fs = (Inr (), fs')"
  shows "\<forall>p. p \<noteq> ps_snapshotRoot s @ [''snapshot.json''] \<longrightarrow> fs_nodes fs' p = fs_nodes fs p"
proof -
  let ?stage = "ps_snapshotRoot s @ [''.snapshot-'' @ mc_random m (fs_tick fs) @ ''.stage'']"
  from assms have "bind_eff (create_file m 384 ?stage (snapshot_text s)) (\<lambda>_.
      bind_eff (rename_to ?stage (ps_snapshotRoot s @ [''snapshot.json''])) (\<lambda>_.
      sync_directory (ps_snapshotRoot s))) (fs\<lparr>fs_tick := Suc (fs_tick fs)\<rparr>) = (Inr (), fs')"
    unfolding persistSnapshot_def Let_def bind_Inr [of "draw m"] draw_def by simp
  then obtain fs2 fs3 where
    made: "create_file m 384 ?stage (snapshot_text s) (fs\<lparr>fs_tick := Suc (fs_tick fs)\<rparr>) = (Inr (), fs2)"
    and moved: "rename_to ?stage (ps_snapshotRoot s @ [''snapshot.json'']) fs2 = (Inr (), fs3)"
    and synced: "sync_directory (ps_snapshotRoot s) fs3 = (Inr (), fs')"
    unfolding bind_Inr by auto
  have created: "fs_nodes fs ?stage = None" "\<forall>p. p \<noteq> ?stage \<longrightarrow> fs_nodes fs2 p = fs_nodes fs p"
    using made by (simp_all add: create_file_def split: if_splits) auto
  have "\<forall>p. p \<noteq> ps_snapshotRoot s @ [''snapshot.json''] \<longrightarrow> fs_nodes fs3 p = (if p = ?stage then None else fs_nodes fs2 p)"
    using moved unfolding rename_to_def by (auto split: option.splits if_splits)
  moreover have "fs' = fs3" using synced by (simp add: sync_directory_def)
  ultimately show ?thesis using created by auto
qed

lemma resolve_name:
  assumes "name \<noteq> []" and "name \<noteq> ''.''" and "name \<noteq> ''..''" and "CHR ''/'' \<notin> set name"
  shows "fs_resolve base name = base @ [name]"
proof -
  have "\<not> isAbsolute name" using assms(1,4) by (cases name) (auto simp: isAbsolute_def starts_with_def)
  then show ?thesis using assms by (simp add: fs_resolve_def split_on_no_sep)
qed

lemma createOwnedDirectory_outside:
  assumes "name \<noteq> []" and "name \<noteq> ''.''" and "name \<noteq> ''..''" and "CHR ''/'' \<notin> set name"
    and "parent @ [name] \<in> S"
  shows "preserves (outside S fs0) (createOwnedDirectory m parent name)"
  unfolding createOwnedDirectory_def Let_def resolve_name [OF assms(1-4)]
  using assms(5) by (intro preserves_bind) auto

lemma createOwnedDirectory_Inr:
  assumes "createOwnedDirectory m parent name fs = (Inr p, fs')"
  shows "p = fs_resolve parent name"
  using assms by (auto simp: createOwnedDirectory_def Let_def eff_run)

lemma capture_entry_outside:
  "preserves (outside (at_or_below snapshotRoot) fs0) (capture_entry m rt profileRoot snapshotRoot x)"
proof -
  have "preserves (outside (at_or_below snapshotRoot) fs0)
      (change_eff (\<lambda>fs. case fs_nodes fs (snapshotRoot @ [c]) of
         Some (Plain f) \<Rightarrow> put_node (snapshotRoot @ [c]) (Some (Plain (f\<lparr>pf_bytes := b\<rparr>))) fs | _ \<Rightarrow> fs))" for c b
    by (rule preserves_change) (auto simp: outside_put split: option.splits fs_node.splits)
  then show ?thesis
    unfolding capture_entry_def Let_def
    by (auto intro!: preserves_bind create_outside split: prod.splits option.splits)
qed

text \<open>Random names are proper file names, as hexadecimal digits and UUIDs are.\<close>

definition random_names_ok :: "machine \<Rightarrow> bool" where
  "random_names_ok m \<longleftrightarrow> (\<forall>n. mc_random m n \<noteq> [] \<and> mc_random m n \<noteq> ''.'' \<and> mc_random m n \<noteq> ''..'' \<and>
     CHR ''/'' \<notin> set (mc_random m n))"

lemma remove_tree_outside [intro]:
  "at_or_below p \<subseteq> S \<Longrightarrow> preserves (outside S fs0) (change_eff (remove_tree p))"
  by (rule preserves_change) (auto simp: outside_def remove_tree_def at_or_below_def)

text \<open>The area a capture may write to.\<close>

definition snapshot_area :: "CaptureProfileSnapshotOptions \<Rightarrow> path set" where
  "snapshot_area options = at_or_below (fs_resolve [] (co_stateRoot options) @ [''skillwire''])"

lemma captureProfileSnapshot_outside:
  assumes "random_names_ok m"
  shows "preserves (outside (snapshot_area options) fs0) (captureProfileSnapshot m rt options)"
proof -
  let ?S = "snapshot_area options"
  let ?sw = "fs_resolve [] (co_stateRoot options) @ [''skillwire'']"
  let ?sn = "?sw @ [''snapshots'']"
  have inside: "?sw @ segments \<in> ?S" for segments unfolding snapshot_area_def by (rule at_or_below_child)
  have area: "at_or_below (?sw @ segments) \<subseteq> ?S" for segments
    unfolding snapshot_area_def by (rule at_or_below_mono [OF at_or_below_child])
  have sw: "preserves (outside ?S fs0) (createOwnedDirectory m (fs_resolve [] (co_stateRoot options)) ''skillwire'')"
    by (rule createOwnedDirectory_outside) (use inside [of "[]"] in simp_all)
  have snaps: "preserves (outside ?S fs0) (createOwnedDirectory m ?sw ''snapshots'')"
    by (rule createOwnedDirectory_outside) (use inside [of "[''snapshots'']"] in simp_all)
  have root: "preserves (outside ?S fs0) (catch_eff
      (bind_eff (each_eff (capture_entry m rt p (?sn @ [n])) xs) (\<lambda>entries.
        bind_eff (persistSnapshot m (mk entries)) (\<lambda>_. give (mk entries))))
      (\<lambda>e. bind_eff (change_eff (remove_tree (?sn @ [n]))) (\<lambda>_. raise_eff e)))"
    if mk: "\<And>entries. ps_snapshotRoot (mk entries) = ?sn @ [n]" for p n xs mk
  proof (intro preserves_catch preserves_bind preserves_each)
    have sub: "at_or_below (?sn @ [n]) \<subseteq> ?S" using area [of "[''snapshots'', n]"] by simp
    show "preserves (outside ?S fs0) (capture_entry m rt p (?sn @ [n]) x)" for x
      by (rule preserves_outside_mono [OF capture_entry_outside sub])
    show "preserves (outside ?S fs0) (persistSnapshot m (mk entries))" for entries
      using preserves_outside_mono [OF persistSnapshot_outside, of _ ?S] sub mk by simp
    show "preserves (outside ?S fs0) (change_eff (remove_tree (?sn @ [n])))"
      using sub by (rule remove_tree_outside)
  qed simp_all
  note area_root = root [simplified append_assoc append_Cons append_Nil]
  have resolved: "fs_resolve (fs_resolve [] (co_stateRoot options)) ''skillwire'' = ?sw" "fs_resolve ?sw ''snapshots'' = ?sn"
    by (simp_all add: resolve_name)
  have drawn: "n \<noteq> [] \<and> n \<noteq> ''.'' \<and> n \<noteq> ''..'' \<and> CHR ''/'' \<notin> set n" if "draw m w = (Inr n, w')" for n w w'
    using assms that by (auto simp: draw_def random_names_ok_def)
  show ?thesis
    unfolding captureProfileSnapshot_def Let_def
    apply (rule preserves_bind_of, simp)+
      apply (rule preserves_each, simp)
    apply (rule preserves_bind_of [OF draw_outside])
    apply (drule drawn)
    apply (rule preserves_bind_of [OF sw])
    apply (drule createOwnedDirectory_Inr)
    apply (simp only: resolved)
    apply (rule preserves_bind_of [OF snaps])
    apply (drule createOwnedDirectory_Inr)
    apply (simp add: resolved resolve_name)
    apply (intro preserves_bind area_root preserves_guard preserves_read mkdir_outside)
     apply (rule inside [of "[''snapshots'', _]", simplified append_assoc append_Cons append_Nil])
    apply simp
    done
qed

subsection \<open>What a restore does\<close>

definition entry_target :: "ProtectedProfileSnapshot \<Rightarrow> ProfileSnapshotEntry \<Rightarrow> path" where
  "entry_target s e = fs_resolve (ps_profileRoot s) (pe_relativePath e)"

text \<open>The image a snapshot promises for an entry: an absent file, or a private file with the recorded
  digest and mode, made of the bytes of the protected copy.\<close>

definition entry_restored ::
  "machine \<Rightarrow> runtime \<Rightarrow> ProtectedProfileSnapshot \<Rightarrow> fs \<Rightarrow> ProfileSnapshotEntry \<Rightarrow> fs \<Rightarrow> bool" where
  "entry_restored m rt s fs0 e fs =
     (if \<not> pe_existed e then fs_nodes fs (entry_target s e) = None
      else case (pe_protectedCopy e, pe_beforeIdentity e, fs_nodes fs (entry_target s e)) of
             (Some copy, Some before, Some (Plain f)) \<Rightarrow>
               sha256 rt (pf_bytes f) = fi_sha256 before \<and> pf_mode f = fi_mode before \<and> pf_links f = 1 \<and>
               pf_owner f = mc_uid m \<and> (case fs_nodes fs0 copy of Some (Plain c) \<Rightarrow> pf_bytes c = pf_bytes f | _ \<Rightarrow> False)
           | _ \<Rightarrow> False)"

lemma write_and_move:
  assumes "bind_eff (create_file m mode stage bytes) (\<lambda>_. bind_eff (chmod_at mode stage) (\<lambda>_.
      bind_eff (rename_to stage target) (\<lambda>_. sync_directory dir))) fs = (Inr (), fs')"
  shows "\<exists>f. fs_nodes fs' = (fs_nodes fs)(target \<mapsto> Plain f) \<and> pf_bytes f = bytes \<and> pf_mode f = mode \<and> pf_links f = 1 \<and>
    pf_owner f = mc_uid m"
proof -
  from assms obtain fs1 fs2 fs3 where made: "create_file m mode stage bytes fs = (Inr (), fs1)"
    and moded: "chmod_at mode stage fs1 = (Inr (), fs2)" and moved: "rename_to stage target fs2 = (Inr (), fs3)"
    and synced: "sync_directory dir fs3 = (Inr (), fs')"
    unfolding bind_Inr by auto
  let ?f = "\<lparr>pf_owner = mc_uid m, pf_mode = mode, pf_links = 1, pf_inode = fs_tick fs, pf_mtime = fs_tick fs, pf_bytes = bytes\<rparr>"
  have new: "fs_nodes fs stage = None" "fs_nodes fs1 = (fs_nodes fs)(stage \<mapsto> Plain ?f)"
    using made by (auto simp: create_file_def split: if_splits)
  have "fs_nodes fs2 = (fs_nodes fs)(stage \<mapsto> Plain ?f)" using moded new(2) by (auto simp: chmod_at_def)
  then have "fs_nodes fs3 = (fs_nodes fs)(stage := None, target \<mapsto> Plain ?f)"
    using moved by (auto simp: rename_to_def split: if_splits)
  then have "fs_nodes fs' = (fs_nodes fs)(target \<mapsto> Plain ?f)"
    using new(1) synced by (auto simp: sync_directory_def fun_upd_idem)
  then show ?thesis by (intro exI [of _ ?f]) simp
qed

lemma unlink_if_present:
  assumes "unless_code ''ENOENT'' (unlink_at p) fs = (Inr (), fs')"
  shows "fs_nodes fs' = (fs_nodes fs)(p := None)"
  using assms by (auto simp: unless_code_def catch_Inr unlink_at_def give_run raise_run OS_def fun_upd_idem
    split: option.splits if_splits)

lemma restoreEntry_Inr:
  assumes run: "restoreEntry m rt s e fs = (Inr (), fs')"
  shows "entry_restored m rt s fs e fs' \<and> (\<forall>p. p \<noteq> entry_target s e \<longrightarrow> fs_nodes fs' p = fs_nodes fs p)"
proof (cases "pe_existed e")
  case False
  with run obtain fs1 where gone: "unless_code ''ENOENT'' (unlink_at (entry_target s e)) fs = (Inr (), fs1)"
    and synced: "sync_directory (butlast (entry_target s e)) fs1 = (Inr (), fs')"
    by (auto simp: restoreEntry_def Let_def bind_Inr [of "read_eff _"] bind_Inr [of "unless_code _ _"] read_run entry_target_def)
  have "fs' = fs1" using synced by (simp add: sync_directory_def)
  with unlink_if_present [OF gone] False show ?thesis by (simp add: entry_restored_def)
next
  case True
  show ?thesis
  proof (cases "pe_protectedCopy e")
    case None with run True show ?thesis by (simp add: restoreEntry_def Let_def eff_run)
  next
    case copy: (Some copy)
    show ?thesis
    proof (cases "pe_beforeIdentity e")
      case None with run True copy show ?thesis by (simp add: restoreEntry_def Let_def eff_run)
    next
      case before: (Some before)
      let ?target = "entry_target s e" and ?stage = "\<lambda>random. butlast (entry_target s e) @ [''.skillwire-restore-'' @ random @ ''.stage'']"
      from run True copy before obtain f random fs1 where opened: "open_file copy fs = Inr f"
        and sha: "sha256 rt (pf_bytes f) = fi_sha256 before" and drew: "draw m fs = (Inr random, fs1)"
        and rest: "bind_eff (create_file m (fi_mode before) (?stage random) (pf_bytes f)) (\<lambda>_.
          bind_eff (chmod_at (fi_mode before) (?stage random)) (\<lambda>_. bind_eff (rename_to (?stage random) ?target) (\<lambda>_.
            sync_directory (butlast ?target)))) fs1 = (Inr (), fs')"
        unfolding restoreEntry_def Let_def entry_target_def [symmetric]
        by (auto simp: eff_step bind_Inr [of "draw _"] simp del: append_Cons split: sum.splits if_splits)
      from write_and_move [OF rest] obtain g where g: "fs_nodes fs' = (fs_nodes fs1)(?target \<mapsto> Plain g)" "pf_bytes g = pf_bytes f"
        "pf_mode g = fi_mode before" "pf_links g = 1" "pf_owner g = mc_uid m" by blast
      moreover have "fs_nodes fs1 = fs_nodes fs" using drew by (auto simp: draw_def)
      moreover have "fs_nodes fs copy = Some (Plain f)"
        using opened by (auto simp: open_file_def split: option.splits fs_node.splits)
      ultimately show ?thesis using True copy before sha by (simp add: entry_restored_def)
    qed
  qed
qed

lemma entry_target_entries [simp]: "entry_target (s\<lparr>ps_entries := es\<rparr>) e = entry_target s e"
  by (simp add: entry_target_def)

lemma entry_restored_root:
  "entry_restored m rt (s\<lparr>ps_entries := es\<rparr>) fs0 e fs = entry_restored m rt s fs0 e fs"
  by (simp only: entry_restored_def entry_target_entries)

lemma all_match_False:
  "all_match f xs = Inr False \<Longrightarrow> \<exists>x \<in> set xs. f x = Inr False"
  by (induction xs) (auto split: if_splits)

lemma all_match_True: "all_match f xs = Inr True \<longleftrightarrow> (\<forall>x \<in> set xs. f x = Inr True)"
  by (induction xs) (auto split: if_splits)

text \<open>A restored entry stays restored while its target and its protected copy are left alone.\<close>

lemma entry_restored_cong:
  assumes "entry_restored m rt s fs0 e fs"
    and "fs_nodes fs' (entry_target s e) = fs_nodes fs (entry_target s e)"
    and "\<And>c. pe_protectedCopy e = Some c \<Longrightarrow> fs_nodes fs1 c = fs_nodes fs0 c"
  shows "entry_restored m rt s fs1 e fs'"
proof (cases "pe_existed e")
  case True
  then obtain c b f where parts: "pe_protectedCopy e = Some c" "pe_beforeIdentity e = Some b"
    "fs_nodes fs (entry_target s e) = Some (Plain f)"
    using assms(1) by (auto simp: entry_restored_def split: option.splits fs_node.splits)
  show ?thesis using assms(1,2) assms(3) [OF parts(1)] True parts by (simp add: entry_restored_def)
qed (use assms in \<open>simp add: entry_restored_def\<close>)

lemma restore_all_Inr:
  assumes "each_eff (restoreEntry m rt s) es fs = (Inr us, fs')"
    and "distinct (map (entry_target s) es)"
    and "\<And>e c. e \<in> set es \<Longrightarrow> pe_protectedCopy e = Some c \<Longrightarrow> c \<notin> entry_target s ` set es"
  shows "(\<forall>e \<in> set es. entry_restored m rt s fs e fs') \<and>
    (\<forall>p. p \<notin> entry_target s ` set es \<longrightarrow> fs_nodes fs' p = fs_nodes fs p)"
  using assms
proof (induction es arbitrary: fs us)
  case Nil then show ?case by (simp add: give_run)
next
  case (Cons e es)
  from Cons.prems(1) obtain fs1 vs where first: "restoreEntry m rt s e fs = (Inr (), fs1)"
    and rest: "each_eff (restoreEntry m rt s) es fs1 = (Inr vs, fs')" by (auto simp: eff_run)
  note one = restoreEntry_Inr [OF first]
  have all: "(\<forall>e \<in> set es. entry_restored m rt s fs1 e fs') \<and>
      (\<forall>p. p \<notin> entry_target s ` set es \<longrightarrow> fs_nodes fs' p = fs_nodes fs1 p)"
  proof (rule Cons.IH [OF rest])
    show "distinct (map (entry_target s) es)" using Cons.prems(2) by simp
    show "c \<notin> entry_target s ` set es" if "x \<in> set es" "pe_protectedCopy x = Some c" for x c
      using Cons.prems(3) [of x c] that by auto
  qed
  have apart: "entry_target s e \<notin> entry_target s ` set es" using Cons.prems(2) by auto
  have "entry_restored m rt s fs e fs'"
    by (rule entry_restored_cong [OF conjunct1 [OF one]]) (use all apart in auto)
  moreover have "entry_restored m rt s fs x fs'" if "x \<in> set es" for x
  proof (rule entry_restored_cong [where fs = fs' and fs0 = fs1])
    show "entry_restored m rt s fs1 x fs'" using all that by blast
    show "fs_nodes fs c = fs_nodes fs1 c" if "pe_protectedCopy x = Some c" for c
      using one Cons.prems(3) [of x c] that \<open>x \<in> set es\<close> by auto
  qed simp
  ultimately show ?case using one all by auto
qed

lemma restoreProfileSnapshot_Inr:
  assumes "restoreProfileSnapshot m rt s fs = (Inr s', fs')"
  obtains (blocked) e i where "e \<in> set (ps_entries s)"
      and "fileIdentity m rt (ps_profileRoot s) (pe_relativePath e) fs = Inr i" and "\<not> sameIdentity i (pe_expectedPostIdentity e)"
      and "s' = s\<lparr>ps_restorationState := Blocked_By_Concurrent_Change\<rparr>" and "persistSnapshot m s' fs = (Inr (), fs')"
  | (restored) us fs1 where "\<forall>e \<in> set (ps_entries s). \<exists>i. fileIdentity m rt (ps_profileRoot s) (pe_relativePath e) fs = Inr i \<and>
        sameIdentity i (pe_expectedPostIdentity e)"
      and "each_eff (restoreEntry m rt s) (ps_entries s) fs = (Inr us, fs1)"
      and "s' = s\<lparr>ps_restorationState := Restored\<rparr>" and "persistSnapshot m s' fs1 = (Inr (), fs')"
proof -
  let ?ok = "\<lambda>e. and_then (fileIdentity m rt (ps_profileRoot s) (pe_relativePath e) fs)
      (\<lambda>i. Inr (sameIdentity i (pe_expectedPostIdentity e)))"
  show thesis
  proof (cases "all_match ?ok (ps_entries s)")
    case (Inl e) with assms show thesis by (simp add: restoreProfileSnapshot_def eff_step)
  next
    case (Inr unchanged)
    show thesis
    proof (cases unchanged)
      case True
      with Inr assms have "bind_eff (each_eff (restoreEntry m rt s) (ps_entries s)) (\<lambda>_.
          bind_eff (persistSnapshot m (s\<lparr>ps_restorationState := Restored\<rparr>)) (\<lambda>_. give (s\<lparr>ps_restorationState := Restored\<rparr>))) fs
        = (Inr s', fs')"
        by (simp add: restoreProfileSnapshot_def eff_step Let_def)
      moreover have "\<forall>e \<in> set (ps_entries s). \<exists>i. fileIdentity m rt (ps_profileRoot s) (pe_relativePath e) fs = Inr i \<and>
          sameIdentity i (pe_expectedPostIdentity e)"
        using Inr True by (auto simp: all_match_True)
      ultimately show thesis by (elim bind_eff_cases) (auto simp: give_run intro: restored)
    next
      case False
      with Inr assms have run: "bind_eff (persistSnapshot m (s\<lparr>ps_restorationState := Blocked_By_Concurrent_Change\<rparr>))
          (\<lambda>_. give (s\<lparr>ps_restorationState := Blocked_By_Concurrent_Change\<rparr>)) fs = (Inr s', fs')"
        by (simp add: restoreProfileSnapshot_def eff_step Let_def)
      from Inr False have "all_match ?ok (ps_entries s) = Inr False" by simp
      then obtain e where "e \<in> set (ps_entries s)" "?ok e = Inr False"
        by (blast dest: all_match_False)
      with run show thesis
        by (elim bind_eff_cases) (auto simp: give_run intro!: blocked)
    qed
  qed
qed

subsection \<open>What a capture records\<close>

text \<open>\<open>entry_captured s fs0 fs e\<close>: the entry describes its file in \<open>fs0\<close>, and its copy in \<open>fs\<close> has the
  bytes of that file.\<close>

definition copy_area :: "path \<Rightarrow> path set" where
  "copy_area snapshotRoot = at_or_below snapshotRoot - {snapshotRoot @ [''snapshot.json'']}"

definition entry_captured ::
  "machine \<Rightarrow> runtime \<Rightarrow> path \<Rightarrow> path \<Rightarrow> fs \<Rightarrow> fs \<Rightarrow> ProfileSnapshotEntry \<Rightarrow> bool" where
  "entry_captured m rt profileRoot snapshotRoot fs0 fs e =
     (case fs_nodes fs0 (fs_resolve profileRoot (pe_relativePath e)) of
        None \<Rightarrow> \<not> pe_existed e \<and> pe_beforeIdentity e = None \<and> pe_protectedCopy e = None
      | Some (Plain f) \<Rightarrow> pe_existed e \<and> pe_beforeIdentity e = Some (identity_of m rt f) \<and>
          (case pe_protectedCopy e of None \<Rightarrow> False
           | Some c \<Rightarrow> c \<in> copy_area snapshotRoot \<and>
               (case fs_nodes fs c of Some (Plain g) \<Rightarrow> pf_bytes g = pf_bytes f | _ \<Rightarrow> False))
      | _ \<Rightarrow> False)"

lemma fileIdentity_Inr:
  assumes "fileIdentity m rt base p fs = Inr i"
  shows "case fs_nodes fs (fs_resolve base p) of None \<Rightarrow> i = None
    | Some (Plain f) \<Rightarrow> i = Some (identity_of m rt f) | _ \<Rightarrow> False"
  using assms by (auto simp: fileIdentity_def Let_def open_file_def split: option.splits fs_node.splits if_splits)

lemma copy_name: "n @ ''.copy'' \<noteq> ''snapshot.json''"
proof
  assume "n @ ''.copy'' = ''snapshot.json''"
  then have "last (n @ ''.copy'') = last ''snapshot.json''" by simp
  then show False by simp
qed

lemma capture_entry_Inr:
  assumes run: "capture_entry m rt base root_dir x fs = (Inr e, fs')"
    and apart: "fs_resolve base (snd x) \<notin> at_or_below root_dir"
  shows "entry_captured m rt base root_dir fs fs' e \<and> pe_relativePath e = snd x \<and>
    (\<forall>p. fs_nodes fs p \<noteq> None \<longrightarrow> fs_nodes fs' p = fs_nodes fs p)"
proof -
  obtain index p where x: "x = (index, p)" by (cases x)
  let ?copy = "root_dir @ [show_nat index @ ''.copy'']"
  from run x obtain i where id: "fileIdentity m rt base p fs = Inr i"
    by (auto simp: capture_entry_def eff_step split: sum.splits)
  show ?thesis
  proof (cases i)
    case None
    with run x id have "e = \<lparr>pe_relativePath = p, pe_existed = False, pe_beforeIdentity = None, pe_expectedPostIdentity = None,
        pe_protectedCopy = None\<rparr>" "fs' = fs"
      by (auto simp: capture_entry_def eff_step give_def)
    with fileIdentity_Inr [OF id] None x show ?thesis
      by (auto simp: entry_captured_def split: option.splits fs_node.splits)
  next
    case (Some f)
    obtain src fs1 where source: "open_file (fs_resolve base p) fs = Inr src"
      and made: "create_file m 384 ?copy [] fs = (Inr (), fs1)"
      and e: "e = \<lparr>pe_relativePath = p, pe_existed = True, pe_beforeIdentity = Some f, pe_expectedPostIdentity = None,
        pe_protectedCopy = Some ?copy\<rparr>"
      and fs': "fs' = (case fs_nodes fs1 ?copy of
          Some (Plain g) \<Rightarrow> put_node ?copy (Some (Plain (g\<lparr>pf_bytes := pf_bytes src\<rparr>))) fs1 | _ \<Rightarrow> fs1)"
      using run x id Some
      by (auto simp: capture_entry_def eff_step Let_def give_run bind_Inr [of "create_file _ _ _ _"] split: sum.splits if_splits)
    have node: "fs_nodes fs (fs_resolve base p) = Some (Plain src)"
      using source by (auto simp: open_file_def split: option.splits fs_node.splits)
    with fileIdentity_Inr [OF id] Some have f: "f = identity_of m rt src" by simp
    obtain g where fresh: "fs_nodes fs ?copy = None" and fs1: "fs_nodes fs1 = (fs_nodes fs)(?copy \<mapsto> Plain g)"
      using made by (auto simp: create_file_def split: if_splits)
    have "fs_nodes fs' = (fs_nodes fs)(?copy \<mapsto> Plain (g\<lparr>pf_bytes := pf_bytes src\<rparr>))" by (simp add: fs' fs1)
    moreover have "?copy \<in> copy_area root_dir" by (simp add: copy_area_def copy_name)
    ultimately show ?thesis using x e node f fresh by (auto simp: entry_captured_def)
  qed
qed

lemma entry_captured_cases:
  assumes "entry_captured m rt base root_dir fs0 fs e"
  obtains (absent) "fs_nodes fs0 (fs_resolve base (pe_relativePath e)) = None" "\<not> pe_existed e"
      "pe_beforeIdentity e = None" "pe_protectedCopy e = None"
  | (present) f c g where "fs_nodes fs0 (fs_resolve base (pe_relativePath e)) = Some (Plain f)" "pe_existed e"
      "pe_beforeIdentity e = Some (identity_of m rt f)" "pe_protectedCopy e = Some c" "c \<in> copy_area root_dir"
      "fs_nodes fs c = Some (Plain g)" "pf_bytes g = pf_bytes f"
proof (cases "fs_nodes fs0 (fs_resolve base (pe_relativePath e))")
  case None with assms absent show thesis by (simp add: entry_captured_def)
next
  case (Some n)
  with assms obtain f where n: "n = Plain f" by (cases n) (simp_all add: entry_captured_def)
  with Some assms obtain c where c: "pe_protectedCopy e = Some c"
    by (cases "pe_protectedCopy e") (simp_all add: entry_captured_def)
  with Some n assms obtain k where k: "fs_nodes fs c = Some k" by (cases "fs_nodes fs c") (simp_all add: entry_captured_def)
  with Some n c assms obtain g where "k = Plain g" by (cases k) (simp_all add: entry_captured_def)
  with Some n c k assms show thesis
    by (intro present [of f c g]) (simp_all add: entry_captured_def)
qed

lemma entry_captured_cong:
  assumes "entry_captured m rt base root_dir fs0 fs e"
    and "fs_nodes fs0' (fs_resolve base (pe_relativePath e)) = fs_nodes fs0 (fs_resolve base (pe_relativePath e))"
    and "\<And>p. p \<in> copy_area root_dir \<Longrightarrow> fs_nodes fs p \<noteq> None \<Longrightarrow> fs_nodes fs' p = fs_nodes fs p"
  shows "entry_captured m rt base root_dir fs0' fs' e"
  using assms(1)
proof (cases rule: entry_captured_cases)
  case absent with assms(2) show ?thesis by (simp add: entry_captured_def)
next
  case (present f c g)
  with assms(3) [of c] have "fs_nodes fs' c = Some (Plain g)" by simp
  with present assms(2) show ?thesis by (simp add: entry_captured_def)
qed

lemma capture_all_Inr:
  assumes "each_eff (capture_entry m rt base root_dir) xs fs = (Inr es, fs')"
    and "\<And>x. x \<in> set xs \<Longrightarrow> fs_resolve base (snd x) \<notin> at_or_below root_dir"
  shows "map pe_relativePath es = map snd xs \<and> (\<forall>e \<in> set es. entry_captured m rt base root_dir fs fs' e) \<and>
    (\<forall>p. fs_nodes fs p \<noteq> None \<longrightarrow> fs_nodes fs' p = fs_nodes fs p)"
  using assms
proof (induction xs arbitrary: fs es)
  case Nil then show ?case by (simp add: give_run)
next
  case (Cons x xs)
  from Cons.prems(1) obtain e es1 fs1 where es: "es = e # es1"
    and first: "capture_entry m rt base root_dir x fs = (Inr e, fs1)"
    and rest: "each_eff (capture_entry m rt base root_dir) xs fs1 = (Inr es1, fs')" by (auto simp: eff_run)
  have one: "entry_captured m rt base root_dir fs fs1 e \<and> pe_relativePath e = snd x \<and>
      (\<forall>p. fs_nodes fs p \<noteq> None \<longrightarrow> fs_nodes fs1 p = fs_nodes fs p)"
    by (rule capture_entry_Inr [OF first]) (use Cons.prems(2) in simp)
  have all: "map pe_relativePath es1 = map snd xs \<and> (\<forall>e \<in> set es1. entry_captured m rt base root_dir fs1 fs' e) \<and>
      (\<forall>p. fs_nodes fs1 p \<noteq> None \<longrightarrow> fs_nodes fs' p = fs_nodes fs1 p)"
    by (rule Cons.IH [OF rest]) (use Cons.prems(2) in simp)
  have same: "fs_nodes fs1 (fs_resolve base q) = fs_nodes fs (fs_resolve base q)" if "q \<in> snd ` set xs" for q
  proof -
    have "outside (at_or_below root_dir) fs fs1"
      using preservesD [OF capture_entry_outside outside_refl first] .
    then show ?thesis using that Cons.prems(2) by (auto simp: outside_def)
  qed
  have "entry_captured m rt base root_dir fs fs' y" if "y \<in> set es1" for y
  proof (rule entry_captured_cong [where fs = fs' and fs0 = fs1])
    show "entry_captured m rt base root_dir fs1 fs' y" using all that by blast
    have "pe_relativePath y \<in> snd ` set xs" using all that by (metis image_eqI image_set set_map)
    then show "fs_nodes fs (fs_resolve base (pe_relativePath y)) = fs_nodes fs1 (fs_resolve base (pe_relativePath y))"
      using same by simp
  qed simp
  moreover have "entry_captured m rt base root_dir fs fs' e"
    by (rule entry_captured_cong [OF conjunct1 [OF one]]) (use all in auto)
  ultimately show ?case using one all es by (metis list.simps(9) set_ConsD)
qed

lemma captureProfileSnapshot_steps:
  assumes run: "captureProfileSnapshot m rt options fs0 = (Inr s, fs1)" and names: "random_names_ok m"
  obtains paths n fs_b fs_c fs_d fs_e where
      "createOwnedDirectory m (fs_resolve [] (co_stateRoot options)) ''skillwire'' (fs0\<lparr>fs_tick := Suc (fs_tick fs0)\<rparr>) =
         (Inr (fs_resolve [] (co_stateRoot options) @ [''skillwire'']), fs_b)"
    and "createOwnedDirectory m (fs_resolve [] (co_stateRoot options) @ [''skillwire'']) ''snapshots'' fs_b =
         (Inr (fs_resolve [] (co_stateRoot options) @ [''skillwire'', ''snapshots'']), fs_c)"
    and "mkdir_at m 448 (ps_snapshotRoot s) fs_c = (Inr (), fs_d)"
    and "each_eff (capture_entry m rt (ps_profileRoot s) (ps_snapshotRoot s)) (enumerate 0 paths) fs_d = (Inr (ps_entries s), fs_e)"
    and "persistSnapshot m s fs_e = (Inr (), fs1)"
    and "ps_snapshotRoot s = fs_resolve [] (co_stateRoot options) @ [''skillwire'', ''snapshots'', n]"
    and "traverse validateRelativePath (co_relativePaths options) = Inr paths"
    and "ps_profileRoot s = fs_resolve [] (co_profileRoot options)"
    and "ps_restorationState s = Eligible"
proof -
  let ?state = "fs_resolve [] (co_stateRoot options)"
  have resolved: "fs_resolve ?state ''skillwire'' = ?state @ [''skillwire'']"
    "fs_resolve (?state @ [''skillwire'']) ''snapshots'' = ?state @ [''skillwire'', ''snapshots'']" by (simp_all add: resolve_name)
  have drawn: "n \<noteq> [] \<and> n \<noteq> ''.'' \<and> n \<noteq> ''..'' \<and> CHR ''/'' \<notin> set n \<and> w' = w\<lparr>fs_tick := Suc (fs_tick w)\<rparr>"
    if "draw m w = (Inr n, w')" for n w w'
    using names that by (auto simp: draw_def random_names_ok_def)
  have created: "p = fs_resolve parent name" if "createOwnedDirectory m parent name w = (Inr p, w')" for parent name p w w'
    using createOwnedDirectory_Inr [OF that] .
  show thesis
    using run
    apply (clarsimp simp: captureProfileSnapshot_def bind_guard_step bind_of_sum_step bind_each_read_step bind_change_step
      Let_def catch_Inr change_run raise_run read_run bind_Inr [of "read_eff _"] bind_Inr [of "draw _"]
      bind_Inr [of "createOwnedDirectory _ _ _"] bind_Inr [of "mkdir_at _ _ _"] bind_Inr [of "each_eff _ _"]
      bind_Inr [of "persistSnapshot _ _"] give_run simp del: append_Cons split: sum.split_asm if_split_asm)
    apply (frule drawn)
    apply (frule created [of _ "''skillwire''"])
    apply (frule created [of _ "''snapshots''"])
    apply (rule that)
            apply (simp_all add: resolved resolve_name del: append_Cons)
    done
qed

lemma capture_entry_path:
  assumes "capture_entry m rt base root_dir x fs = (Inr e, fs')"
  shows "pe_relativePath e = snd x"
  using assms by (cases x) (auto simp: capture_entry_def eff_step Let_def give_run bind_Inr [of "create_file _ _ _ _"]
    split: sum.splits option.splits if_splits)

lemma capture_all_paths:
  "each_eff (capture_entry m rt base root_dir) xs fs = (Inr es, fs') \<Longrightarrow> map pe_relativePath es = map snd xs"
  by (induction xs arbitrary: fs es) (auto simp: eff_run dest: capture_entry_path)

lemma captureProfileSnapshot_Inr:
  assumes run: "captureProfileSnapshot m rt options fs0 = (Inr s, fs1)" and names: "random_names_ok m"
    and apart: "\<And>e. e \<in> set (ps_entries s) \<Longrightarrow> entry_target s e \<notin> snapshot_area options"
  shows "(\<forall>e \<in> set (ps_entries s). entry_captured m rt (ps_profileRoot s) (ps_snapshotRoot s) fs0 fs1 e) \<and>
    at_or_below (ps_snapshotRoot s) \<subseteq> snapshot_area options"
  using run names
proof (cases rule: captureProfileSnapshot_steps)
  case (1 paths n fs_b fs_c fs_d fs_e)
  let ?sw = "fs_resolve [] (co_stateRoot options) @ [''skillwire'']"
  have root: "ps_snapshotRoot s = ?sw @ [''snapshots'', n]" using 1 by simp
  have area: "at_or_below (ps_snapshotRoot s) \<subseteq> snapshot_area options"
    unfolding snapshot_area_def root by (rule at_or_below_mono) (rule at_or_below_child)
  have inside: "?sw @ segments \<in> snapshot_area options" for segments
    unfolding snapshot_area_def by (rule at_or_below_child)
  have b: "outside (snapshot_area options) fs0 fs_b"
    by (rule preservesD [OF createOwnedDirectory_outside _ 1(1)]) (use inside [of "[]"] in \<open>simp_all add: outside_def\<close>)
  have c: "outside (snapshot_area options) fs0 fs_c"
    by (rule preservesD [OF createOwnedDirectory_outside b 1(2)]) (use inside [of "[''snapshots'']"] in simp_all)
  have d: "outside (snapshot_area options) fs0 fs_d"
    by (rule preservesD [OF mkdir_outside c 1(3)]) (use inside [of "[''snapshots'', n]"] root in simp)
  have targets: "fs_resolve (ps_profileRoot s) (snd x) \<notin> snapshot_area options" if "x \<in> set (enumerate 0 paths)" for x
  proof -
    have "snd x \<in> set (map pe_relativePath (ps_entries s))"
      unfolding capture_all_paths [OF 1(4)] set_map using that by (rule imageI)
    then show ?thesis using apart by (auto simp: entry_target_def)
  qed
  have all: "map pe_relativePath (ps_entries s) = map snd (enumerate 0 paths) \<and>
      (\<forall>e \<in> set (ps_entries s). entry_captured m rt (ps_profileRoot s) (ps_snapshotRoot s) fs_d fs_e e) \<and>
      (\<forall>p. fs_nodes fs_d p \<noteq> None \<longrightarrow> fs_nodes fs_e p = fs_nodes fs_d p)"
    by (rule capture_all_Inr [OF 1(4)]) (use targets area in blast)
  have "entry_captured m rt (ps_profileRoot s) (ps_snapshotRoot s) fs0 fs1 e" if "e \<in> set (ps_entries s)" for e
  proof (rule entry_captured_cong [where ?fs0.0 = fs_d and fs = fs_e])
    show "entry_captured m rt (ps_profileRoot s) (ps_snapshotRoot s) fs_d fs_e e" using all that by blast
    show "fs_nodes fs0 (fs_resolve (ps_profileRoot s) (pe_relativePath e)) = fs_nodes fs_d (fs_resolve (ps_profileRoot s) (pe_relativePath e))"
      using d apart [OF that] by (simp add: outside_def entry_target_def)
    show "fs_nodes fs1 p = fs_nodes fs_e p" if "p \<in> copy_area (ps_snapshotRoot s)" for p
      using persistSnapshot_Inr [OF 1(5)] that by (simp add: copy_area_def)
  qed
  with area show ?thesis by blast
qed

subsection \<open>Capture, change, restore\<close>

text \<open>What a client reads of a profile file: nothing, or its bytes and permissions.\<close>

definition file_image :: "fs \<Rightarrow> path \<Rightarrow> (string \<times> int) option" where
  "file_image fs p = (case fs_nodes fs p of Some (Plain f) \<Rightarrow> Some (pf_bytes f, pf_mode f mod 512) | _ \<Rightarrow> None)"

lemma list_all2_in_left: "list_all2 R xs ys \<Longrightarrow> x \<in> set xs \<Longrightarrow> \<exists>y \<in> set ys. R x y"
  by (induction rule: list_all2_induct) auto

lemma list_all2_in_right: "list_all2 R xs ys \<Longrightarrow> y \<in> set ys \<Longrightarrow> \<exists>x \<in> set xs. R x y"
  by (induction rule: list_all2_induct) auto

lemma recordExpected_Inr:
  assumes "recordExpectedProfilePostImage m rt s fs = (Inr s', fs')"
  shows "(\<exists>es. s' = s\<lparr>ps_entries := es\<rparr> \<and> list_all2 (\<lambda>e e'. \<exists>i. e' = e\<lparr>pe_expectedPostIdentity := Some i\<rparr> \<and>
      fileIdentity m rt (ps_profileRoot s) (pe_relativePath e) fs = Inr i) (ps_entries s) es) \<and>
    (\<forall>p. p \<noteq> ps_snapshotRoot s @ [''snapshot.json''] \<longrightarrow> fs_nodes fs' p = fs_nodes fs p)"
proof -
  have each: "fs1 = fs2 \<and> list_all2 (\<lambda>e e'. \<exists>i. e' = e\<lparr>pe_expectedPostIdentity := Some i\<rparr> \<and>
      fileIdentity m rt base (pe_relativePath e) fs1 = Inr i) xs es"
    if "each_eff (\<lambda>entry. bind_eff (read_eff (fileIdentity m rt base (pe_relativePath entry)))
         (\<lambda>identity. give (entry\<lparr>pe_expectedPostIdentity := Some identity\<rparr>))) xs fs1 = (Inr es, fs2)" for base xs fs1 fs2 es
    using that
  proof (induction xs arbitrary: es)
    case (Cons x xs)
    from Cons.prems obtain i es1 where "fileIdentity m rt base (pe_relativePath x) fs1 = Inr i"
      and "es = x\<lparr>pe_expectedPostIdentity := Some i\<rparr> # es1"
      "each_eff (\<lambda>entry. bind_eff (read_eff (fileIdentity m rt base (pe_relativePath entry)))
         (\<lambda>identity. give (entry\<lparr>pe_expectedPostIdentity := Some identity\<rparr>))) xs fs1 = (Inr es1, fs2)"
      by (auto simp: eff_run dest: sym)
    with Cons.IH show ?case by auto
  qed (simp add: give_run)
  from assms obtain es fs1 where "each_eff (\<lambda>entry. bind_eff (read_eff (fileIdentity m rt (ps_profileRoot s) (pe_relativePath entry)))
         (\<lambda>identity. give (entry\<lparr>pe_expectedPostIdentity := Some identity\<rparr>))) (ps_entries s) fs = (Inr es, fs1)"
    "persistSnapshot m (s\<lparr>ps_entries := es\<rparr>) fs1 = (Inr (), fs')" "s' = s\<lparr>ps_entries := es\<rparr>"
    by (auto simp: recordExpectedProfilePostImage_def Let_def bind_Inr [of "each_eff _ _"] bind_Inr [of "persistSnapshot _ _"]
      give_run)
  with each [OF this(1)] persistSnapshot_Inr [OF this(2)] show ?thesis by auto
qed

lemma entry_restored_image:
  assumes "entry_captured m rt (ps_profileRoot s) root_dir fs0 fs1 e"
    and "entry_restored m rt s fs2 (e\<lparr>pe_expectedPostIdentity := x\<rparr>) fs3"
    and "\<And>p. p \<in> copy_area root_dir \<Longrightarrow> fs_nodes fs2 p = fs_nodes fs1 p"
  shows "file_image fs3 (entry_target s e) = file_image fs0 (entry_target s e)"
  using assms(1)
proof (cases rule: entry_captured_cases)
  case absent
  then show ?thesis using assms(2) by (simp add: entry_restored_def file_image_def entry_target_def)
next
  case (present f c g)
  have copy: "fs_nodes fs2 c = Some (Plain g)" using assms(3) present(5,6) by simp
  have same: "entry_target s (e\<lparr>pe_expectedPostIdentity := x\<rparr>) = entry_target s e" by (simp add: entry_target_def)
  note restored = assms(2) [unfolded entry_restored_def same]
  obtain n where n: "fs_nodes fs3 (entry_target s e) = Some n"
    using restored present(2,3,4) by (cases "fs_nodes fs3 (entry_target s e)") simp_all
  obtain h where h: "n = Plain h" using restored present(2,3,4) n by (cases n) simp_all
  have "pf_mode h = pf_mode f mod 512 \<and> pf_bytes g = pf_bytes h"
    using restored present(2,3,4) n h copy by (simp add: identity_of_def)
  with present(7) show ?thesis
    by (simp add: file_image_def n h present(1) [folded entry_target_def])
qed

text \<open>A small disk for the examples: a profile \<open>/p\<close> with the file \<open>a\<close>, and a state directory \<open>/s\<close>.\<close>

definition example_machine :: machine where
  "example_machine = \<lparr>mc_uid = 1, mc_device = ''1'', mc_random = (\<lambda>_. ''r''), mc_semantic = (\<lambda>b. b)\<rparr>"

definition example_hashes :: runtime where
  "example_hashes = \<lparr>sha256 = (\<lambda>b. b), nfc = (\<lambda>b. b), localeCompare = (\<lambda>_ _. 0)\<rparr>"

definition example_file :: "string \<Rightarrow> plain_file" where
  "example_file b = \<lparr>pf_owner = 1, pf_mode = 420, pf_links = 1, pf_inode = 7, pf_mtime = 7, pf_bytes = b\<rparr>"

definition example_fs :: fs where
  "example_fs = \<lparr>fs_nodes = [[] \<mapsto> Directory 0 493, [''p''] \<mapsto> Directory 1 448, [''s''] \<mapsto> Directory 1 448,
     [''p'', ''a''] \<mapsto> Plain (example_file ''x'')], fs_tick = 8\<rparr>"

definition example_options :: CaptureProfileSnapshotOptions where
  "example_options = \<lparr>co_client = ''codex'', co_profileRoot = ''/p'', co_stateRoot = ''/s'', co_relativePaths = [''a'', ''b'']\<rparr>"

definition example_identity :: "string \<Rightarrow> ProfileFileIdentity option" where
  "example_identity b = Some \<lparr>fi_device = ''1'', fi_inode = ''7'', fi_size = 1, fi_mode = 420, fi_mtimeNanoseconds = ''7'',
     fi_sha256 = b, fi_semanticSha256 = b\<rparr>"

definition example_snapshot :: "ProfileFileIdentity option option \<Rightarrow> ProfileFileIdentity option option \<Rightarrow> restoration_state \<Rightarrow>
    ProtectedProfileSnapshot" where
  "example_snapshot post_a post_b state = \<lparr>ps_snapshotId = ''r'', ps_client = ''codex'', ps_profileRoot = [''p''],
     ps_stateRoot = [''s''], ps_snapshotRoot = [''s'', ''skillwire'', ''snapshots'', ''r''],
     ps_entries =
       [\<lparr>pe_relativePath = ''a'', pe_existed = True, pe_beforeIdentity = example_identity ''x'',
          pe_expectedPostIdentity = post_a,
          pe_protectedCopy = Some [''s'', ''skillwire'', ''snapshots'', ''r'', ''0.copy'']\<rparr>,
        \<lparr>pe_relativePath = ''b'', pe_existed = False, pe_beforeIdentity = None, pe_expectedPostIdentity = post_b,
          pe_protectedCopy = None\<rparr>],
     ps_restorationState = state\<rparr>"

definition example_captured :: fs where
  "example_captured = snd (captureProfileSnapshot example_machine example_hashes example_options example_fs)"

definition example_changed :: fs where
  "example_changed = put_node [''p'', ''b''] (Some (Plain (example_file ''n'')))
     (put_node [''p'', ''a''] (Some (Plain (example_file ''y''))) example_captured)"

lemma example_paths:
  "fs_resolve [''p''] ''a'' = [''p'', ''a'']" "fs_resolve [''p''] ''b'' = [''p'', ''b'']" "fs_resolve [] ''/p'' = [''p'']"
  "fs_resolve [] ''/s'' = [''s'']" "fs_resolve [''s''] ''skillwire'' = [''s'', ''skillwire'']"
  "fs_resolve [''s'', ''skillwire''] ''snapshots'' = [''s'', ''skillwire'', ''snapshots'']"
  "fs_resolve [''s'', ''skillwire'', ''snapshots''] ''r'' = [''s'', ''skillwire'', ''snapshots'', ''r'']"
  "validateRelativePath ''a'' = Inr ''a''" "validateRelativePath ''b'' = Inr ''b''" "isAbsolute ''/p''" "isAbsolute ''/s''"
  "uniq [''a'', ''b''] = [''a'', ''b'']" "show_nat 0 = ''0''" "show_nat 1 = ''1''" "show_nat 7 = ''7''"
  by code_simp+

lemmas example_defs = example_machine_def example_options_def example_fs_def example_hashes_def example_file_def
  example_snapshot_def example_identity_def example_captured_def example_changed_def

lemmas run_defs = captureProfileSnapshot_def restoreProfileSnapshot_def recordExpectedProfilePostImage_def
  bind_eff_def give_def read_eff_def of_sum_def guard_eff_def raise_eff_def catch_eff_def change_eff_def unless_code_def Let_def
  draw_def lstat_def mkdir_at_def parent_ok_def put_node_def chmod_at_def open_file_def create_file_def rename_to_def
  sync_directory_def unlink_at_def is_directory_def is_symlink_def
  validateOwnedDirectory_def ensure_def validateProfileAncestors_def contained_def starts_with_def createOwnedDirectory_def
  capture_entry_def restoreEntry_def fileIdentity_def MAX_PROFILE_BYTES_def identity_of_def persistSnapshot_def
  sameIdentity_def sameRestoredImage_def

lemma example_capture_run:
  "captureProfileSnapshot example_machine example_hashes example_options example_fs =
     (Inr (example_snapshot None None Eligible), example_captured)"
  by (rule prod_eqI) (simp_all add: run_defs example_defs example_paths)

definition example_recorded :: fs where
  "example_recorded = snd (recordExpectedProfilePostImage example_machine example_hashes (example_snapshot None None Eligible)
     example_changed)"

lemma example_record_run:
  "recordExpectedProfilePostImage example_machine example_hashes (example_snapshot None None Eligible) example_changed =
     (Inr (example_snapshot (Some (example_identity ''y'')) (Some (example_identity ''n'')) Eligible), example_recorded)"
  by (rule prod_eqI) (simp_all add: run_defs example_defs example_paths example_recorded_def)

definition example_restored :: fs where
  "example_restored = snd (restoreProfileSnapshot example_machine example_hashes
     (example_snapshot (Some (example_identity ''y'')) (Some (example_identity ''n'')) Eligible) example_recorded)"

lemma example_restore_run:
  "restoreProfileSnapshot example_machine example_hashes
     (example_snapshot (Some (example_identity ''y'')) (Some (example_identity ''n'')) Eligible) example_recorded =
     (Inr (example_snapshot (Some (example_identity ''y'')) (Some (example_identity ''n'')) Restored), example_restored)"
  by (rule prod_eqI) (simp_all add: run_defs example_defs example_paths example_recorded_def example_restored_def)

lemma example_names: "random_names_ok example_machine"
  by (simp add: random_names_ok_def example_machine_def)

lemma example_targets:
  "entry_target (example_snapshot a b st) ` set (ps_entries (example_snapshot c d st')) = {[''p'', ''a''], [''p'', ''b'']}"
  "map (entry_target (example_snapshot a b st)) (ps_entries (example_snapshot c d st')) = [[''p'', ''a''], [''p'', ''b'']]"
  by (simp_all add: example_snapshot_def entry_target_def example_paths)

lemma example_entries: "(\<forall>e \<in> set (ps_entries (example_snapshot c d st)). P (entry_target (example_snapshot a b st') e)) \<longleftrightarrow>
    P [''p'', ''a''] \<and> P [''p'', ''b'']"
  by (simp add: example_snapshot_def entry_target_def example_paths)

text \<open>C8. Capturing a profile, changing it in any way, recording the post image and restoring brings back
  what was there: if the restore reports the state restored, every inventoried file has its old bytes and
  permissions, and a file that did not exist is gone, whatever happened to the rest of the disk in between as
  long as the directory of the snapshot was left alone.\<close>

theorem capture_restore_roundtrip:
  assumes "random_names_ok m"
    and "captureProfileSnapshot m rt options fs0 = (Inr s, fs1)"
    and "\<forall>p \<in> at_or_below (ps_snapshotRoot s). fs_nodes fs2 p = fs_nodes fs1 p"
    and "recordExpectedProfilePostImage m rt s fs2 = (Inr s1, fs3)"
    and "\<forall>p \<in> at_or_below (ps_snapshotRoot s). fs_nodes fs4 p = fs_nodes fs3 p"
    and "restoreProfileSnapshot m rt s1 fs4 = (Inr s2, fs5)" and "ps_restorationState s2 = Restored"
    and "distinct (map (entry_target s) (ps_entries s))"
    and "\<forall>e \<in> set (ps_entries s). entry_target s e \<notin> snapshot_area options"
  shows "\<forall>e \<in> set (ps_entries s). file_image fs5 (entry_target s e) = file_image fs0 (entry_target s e)"
proof -
  let ?root = "ps_snapshotRoot s"
  have captured: "entry_captured m rt (ps_profileRoot s) ?root fs0 fs1 e" if "e \<in> set (ps_entries s)" for e
    using captureProfileSnapshot_Inr [OF assms(2,1)] assms(9) that by blast
  have area: "at_or_below ?root \<subseteq> snapshot_area options"
    using captureProfileSnapshot_Inr [OF assms(2,1)] assms(9) by blast
  obtain es where s1: "s1 = s\<lparr>ps_entries := es\<rparr>"
    and es: "list_all2 (\<lambda>e e'. \<exists>i. e' = e\<lparr>pe_expectedPostIdentity := Some i\<rparr> \<and>
      fileIdentity m rt (ps_profileRoot s) (pe_relativePath e) fs2 = Inr i) (ps_entries s) es"
    and fs3: "\<And>p. p \<noteq> ?root @ [''snapshot.json''] \<Longrightarrow> fs_nodes fs3 p = fs_nodes fs2 p"
    using recordExpected_Inr [OF assms(4)] by blast
  have targets: "map (entry_target s1) es = map (entry_target s) (ps_entries s)"
    using es by (induction rule: list_all2_induct) (auto simp: s1 entry_target_def)
  have copies: "fs_nodes fs4 p = fs_nodes fs1 p" if "p \<in> copy_area ?root" for p
    using that assms(3,5) fs3 by (simp add: copy_area_def)
  from assms(6) show ?thesis
  proof (cases rule: restoreProfileSnapshot_Inr)
    case (blocked e i)
    with assms(7) show ?thesis by simp
  next
    case (restored us fs6)
    show ?thesis
    proof
      fix e
      assume e: "e \<in> set (ps_entries s)"
      then obtain i where e': "e\<lparr>pe_expectedPostIdentity := Some i\<rparr> \<in> set es"
        using list_all2_in_left [OF es] by blast
      have copy: "c \<in> copy_area ?root" if "x \<in> set es" "pe_protectedCopy x = Some c" for x c
      proof -
        obtain y j where "y \<in> set (ps_entries s)" "x = y\<lparr>pe_expectedPostIdentity := Some j\<rparr>"
          using list_all2_in_right [OF es \<open>x \<in> set es\<close>] by blast
        then show ?thesis using captured [of y] that(2) by (auto elim: entry_captured_cases)
      qed
      have apart: "entry_target s1 ` set es \<inter> snapshot_area options = {}"
        using arg_cong [OF targets, of set] assms(9) by auto
      have entries: "ps_entries s1 = es" by (simp add: s1)
      have all: "(\<forall>e \<in> set es. entry_restored m rt s1 fs4 e fs6) \<and>
          (\<forall>p. p \<notin> entry_target s1 ` set es \<longrightarrow> fs_nodes fs6 p = fs_nodes fs4 p)"
      proof (rule restore_all_Inr [OF restored(2) [unfolded entries]])
        show "distinct (map (entry_target s1) es)" using targets assms(8) by simp
        show "c \<notin> entry_target s1 ` set es" if "x \<in> set es" "pe_protectedCopy x = Some c" for x c
          using copy [OF that] apart area by (auto simp: copy_area_def)
      qed
      have target: "entry_target s1 (e\<lparr>pe_expectedPostIdentity := Some i\<rparr>) = entry_target s e"
        by (simp add: s1 entry_target_def)
      have away: "entry_target s e \<noteq> ps_snapshotRoot s2 @ [''snapshot.json'']"
      proof -
        have "ps_snapshotRoot s2 @ [''snapshot.json''] \<in> snapshot_area options"
          using area restored(3) s1 at_or_below_child by auto
        then show ?thesis using assms(9) e by auto
      qed
      have "entry_restored m rt s1 fs4 (e\<lparr>pe_expectedPostIdentity := Some i\<rparr>) fs5"
      proof (rule entry_restored_cong [where fs = fs6 and fs0 = fs4])
        show "entry_restored m rt s1 fs4 (e\<lparr>pe_expectedPostIdentity := Some i\<rparr>) fs6" using all e' by blast
        show "fs_nodes fs5 (entry_target s1 (e\<lparr>pe_expectedPostIdentity := Some i\<rparr>)) =
            fs_nodes fs6 (entry_target s1 (e\<lparr>pe_expectedPostIdentity := Some i\<rparr>))"
          using persistSnapshot_Inr [OF restored(4)] away by (simp add: target)
      qed simp
      then have "entry_restored m rt s fs4 (e\<lparr>pe_expectedPostIdentity := Some i\<rparr>) fs5"
        by (simp only: entry_restored_root s1)
      then show "file_image fs5 (entry_target s e) = file_image fs0 (entry_target s e)"
        by (rule entry_restored_image [OF captured [OF e]]) (rule copies)
    qed
  qed
qed

theorem capture_restore_roundtrip_witness:
  "file_image example_restored [''p'', ''a''] = Some (''x'', 420) \<and> file_image example_restored [''p'', ''b''] = None \<and>
   file_image example_changed [''p'', ''a''] = Some (''y'', 420)"
proof -
  have apart: "p \<notin> at_or_below [''s'', ''skillwire'']" if "p = [''p'', ''a''] \<or> p = [''p'', ''b'']" for p
    using that by (auto simp: at_or_below_def)
  have "\<forall>e \<in> set (ps_entries (example_snapshot None None Eligible)).
      file_image example_restored (entry_target (example_snapshot None None Eligible) e) =
      file_image example_fs (entry_target (example_snapshot None None Eligible) e)"
  proof (rule capture_restore_roundtrip [OF example_names example_capture_run _ example_record_run _ example_restore_run])
    show "\<forall>p \<in> at_or_below (ps_snapshotRoot (example_snapshot None None Eligible)).
        fs_nodes example_changed p = fs_nodes example_captured p"
      by (auto simp: example_changed_def example_snapshot_def at_or_below_def)
    show "\<forall>e \<in> set (ps_entries (example_snapshot None None Eligible)).
        entry_target (example_snapshot None None Eligible) e \<notin> snapshot_area example_options"
      by (rule example_entries [THEN iffD2]) (simp add: snapshot_area_def example_options_def example_paths apart)
  qed (simp_all add: example_targets, simp add: example_snapshot_def)
  from example_entries [THEN iffD1, OF this] show ?thesis
    by (simp add: file_image_def example_fs_def example_file_def example_changed_def)
qed

subsection \<open>What is left alone\<close>

text \<open>Capturing a profile is confined to \<open>skillwire\<close> in the state directory: whether it succeeds or fails, no
  other file or directory is created, changed or removed; the profile itself never is.\<close>

theorem capture_confined:
  assumes "random_names_ok m" and "captureProfileSnapshot m rt options fs = (r, fs')"
  shows "\<forall>p. p \<notin> snapshot_area options \<longrightarrow> fs_nodes fs' p = fs_nodes fs p"
  using preservesD [OF captureProfileSnapshot_outside [OF assms(1)] outside_refl assms(2)] by (simp add: outside_def)

theorem capture_confined_witness:
  "fs_nodes example_captured [''p'', ''a''] = fs_nodes example_fs [''p'', ''a''] \<and>
   fs_nodes example_captured [''s'', ''skillwire''] \<noteq> fs_nodes example_fs [''s'', ''skillwire'']"
proof
  have "[''p'', ''a''] \<notin> snapshot_area example_options"
    by (simp add: snapshot_area_def example_options_def example_paths at_or_below_def)
  with capture_confined [OF example_names example_capture_run]
  show "fs_nodes example_captured [''p'', ''a''] = fs_nodes example_fs [''p'', ''a'']" by simp
  have "fs_nodes example_captured [''s'', ''skillwire''] \<noteq> None"
    by (simp add: run_defs example_defs example_paths)
  then show "fs_nodes example_captured [''s'', ''skillwire''] \<noteq> fs_nodes example_fs [''s'', ''skillwire'']"
    by (simp add: example_fs_def)
qed

text \<open>A restore never overwrites a file that someone changed after the recorded post image: if the current identity of
  an inventoried file is not the recorded one, a restore that returns reports
  the conflict and changes nothing but the snapshot's own \<open>snapshot.json\<close>.\<close>

theorem restore_refuses_drift:
  assumes "e \<in> set (ps_entries s)"
    and "fileIdentity m rt (ps_profileRoot s) (pe_relativePath e) fs = Inr i"
    and "\<not> sameIdentity i (pe_expectedPostIdentity e)"
    and "restoreProfileSnapshot m rt s fs = (Inr s', fs')"
  shows "s' = s\<lparr>ps_restorationState := Blocked_By_Concurrent_Change\<rparr> \<and>
    (\<forall>p. p \<noteq> ps_snapshotRoot s @ [''snapshot.json''] \<longrightarrow> fs_nodes fs' p = fs_nodes fs p)"
  using assms(4)
proof (cases rule: restoreProfileSnapshot_Inr)
  case (blocked e i)
  with persistSnapshot_Inr [OF blocked(5)] show ?thesis by simp
next
  case (restored us fs1)
  with assms(1-3) show ?thesis by auto
qed

theorem restore_refuses_drift_witness:
  "fst (restoreProfileSnapshot example_machine example_hashes
      (example_snapshot (Some (example_identity ''x'')) (Some None) Eligible) example_changed) =
    Inr (example_snapshot (Some (example_identity ''x'')) (Some None) Blocked_By_Concurrent_Change)"
proof -
  let ?s = "example_snapshot (Some (example_identity ''x'')) (Some None) Eligible"
  let ?run = "restoreProfileSnapshot example_machine example_hashes ?s example_changed"
  obtain e where e: "e \<in> set (ps_entries ?s)" "pe_relativePath e = ''a''" "pe_expectedPostIdentity e = Some (example_identity ''x'')"
    using that [of "hd (ps_entries ?s)"] by (simp add: example_snapshot_def)
  have now: "fileIdentity example_machine example_hashes (ps_profileRoot ?s) ''a'' example_changed = Inr (example_identity ''y'')"
    by (simp add: run_defs example_defs example_paths)
  have "\<not> isl (fst ?run)" by (simp add: run_defs example_defs example_paths)
  then obtain s' where "fst ?run = Inr s'" by (cases "fst ?run") simp_all
  then have run: "?run = (Inr s', snd ?run)" by (metis prod.collapse)
  have diff: "\<not> sameIdentity (example_identity ''y'') (Some (example_identity ''x''))"
    by (simp add: sameIdentity_def example_identity_def)
  have "s' = ?s\<lparr>ps_restorationState := Blocked_By_Concurrent_Change\<rparr>"
    by (rule restore_refuses_drift [OF e(1) _ _ run, of "example_identity ''y''", THEN conjunct1])
      (simp_all add: e now diff)
  with \<open>fst ?run = Inr s'\<close> show ?thesis by (simp add: example_snapshot_def)
qed

text \<open>A flaw: a file that did not exist before, in a directory that does not exist either, cannot be restored. The
  missing file is tolerated by the removal, but the directory is then opened to be
  synchronized, and that throws: the restore ends with \<open>ENOENT\<close> though nothing had to be done.\<close>

theorem restore_needs_parent_directory:
  assumes "ps_entries s = [e]" and "\<not> pe_existed e" and "pe_expectedPostIdentity e = Some None"
    and "fileIdentity m rt (ps_profileRoot s) (pe_relativePath e) fs = Inr None"
    and "fs_nodes fs (butlast (entry_target s e)) = None"
  shows "restoreProfileSnapshot m rt s fs = (Inl (OS ''ENOENT''), fs) \<and> profileMatchesSnapshotBefore m rt s fs = Inr (pe_beforeIdentity e = None)"
proof -
  have absent: "fs_nodes fs (entry_target s e) = None \<and> validateProfileAncestors m (ps_profileRoot s) (entry_target s e) fs = Inr ()"
    using assms(4) by (auto simp: fileIdentity_def Let_def entry_target_def split: if_splits)
  have "restoreEntry m rt s e fs = (Inl (OS ''ENOENT''), fs)"
    using absent assms(2,5)
    by (simp add: restoreEntry_def Let_def entry_target_def [symmetric] eff_step unless_code_def catch_eff_def unlink_at_def
      bind_eff_def give_def read_eff_def sync_directory_def)
  then show ?thesis
    using assms by (simp add: restoreProfileSnapshot_def eff_step sameIdentity_def bind_eff_def read_eff_def profileMatchesSnapshotBefore_def
      sameRestoredImage_def split: option.splits)
qed

definition missing_fs :: fs where
  "missing_fs = \<lparr>fs_nodes = [[] \<mapsto> Directory 0 493, [''p''] \<mapsto> Directory 1 448], fs_tick = 0\<rparr>"

definition missing_snapshot :: ProtectedProfileSnapshot where
  "missing_snapshot = \<lparr>ps_snapshotId = ''r'', ps_client = ''codex'', ps_profileRoot = [''p''], ps_stateRoot = [''s''],
     ps_snapshotRoot = [''s''], ps_entries = [\<lparr>pe_relativePath = ''d/a'', pe_existed = False, pe_beforeIdentity = None,
       pe_expectedPostIdentity = Some None, pe_protectedCopy = None\<rparr>], ps_restorationState = Eligible\<rparr>"

theorem restore_needs_parent_directory_witness:
  "fst (restoreProfileSnapshot example_machine example_hashes missing_snapshot missing_fs) = Inl (OS ''ENOENT'') \<and>
   profileMatchesSnapshotBefore example_machine example_hashes missing_snapshot missing_fs = Inr True"
proof -
  have path: "fs_resolve [''p''] ''d/a'' = [''p'', ''d'', ''a'']" by code_simp
  show ?thesis
    using restore_needs_parent_directory [of missing_snapshot "hd (ps_entries missing_snapshot)" example_machine example_hashes missing_fs]
    by (simp add: missing_snapshot_def missing_fs_def entry_target_def path fileIdentity_def validateProfileAncestors_def
      contained_def starts_with_def example_machine_def is_directory_def is_symlink_def)
qed

end
