(* ===== verification/Profile_Transaction.thy ===== *)
theory Profile_Transaction
  imports Profile_Snapshot
begin

text \<open>
  The transaction on a client profile (\<open>src/onboarding/application/profile-transaction.ts\<close>): capture,
  mutate, record the post image, verify; on failure the given inverse or the snapshot brings the profile back. The
  mutation, the verification and the inverse are arguments over the file system and the rest of the world.
\<close>

subsection \<open>Transactions\<close>

datatype tx_error = Tx error | Profile_Recovery ProtectedProfileSnapshot error

definition on_fs :: "'a fsop \<Rightarrow> (tx_error, fs \<times> 'w, 'a) eff" where
  "on_fs op w = (case op (fst w) of (r, fs) \<Rightarrow> (map_sum Tx id r, (fs, snd w)))"

definition attempt :: "('e, 'w, 'a) eff \<Rightarrow> ('e2, 'w, 'e + 'a) eff" where
  "attempt op w = (case op w of (r, w') \<Rightarrow> (Inr r, w'))"

definition rollback_transaction ::
  "machine \<Rightarrow> runtime \<Rightarrow> (error, fs \<times> 'w, unit) eff \<Rightarrow> ProtectedProfileSnapshot \<Rightarrow> error \<Rightarrow> (tx_error, fs \<times> 'w, 'r) eff" where
  "rollback_transaction m rt undo snapshot error =
     bind_eff (if list_ex (\<lambda>e. pe_expectedPostIdentity e = None) (ps_entries snapshot)
               then on_fs (recordExpectedProfilePostImage m rt snapshot) else give snapshot) (\<lambda>snapshot.
     bind_eff (attempt (bind_eff undo (\<lambda>_. read_eff (\<lambda>w. profileMatchesSnapshotBefore m rt snapshot (fst w))))) (\<lambda>undone.
     if undone = Inr True then raise_eff (Tx error)
     else bind_eff (on_fs (restoreProfileSnapshot m rt snapshot)) (\<lambda>restored.
          if ps_restorationState restored = Restored then raise_eff (Tx error)
          else raise_eff (Profile_Recovery restored error))))"

definition runProfileTransaction ::
  "machine \<Rightarrow> runtime \<Rightarrow> CaptureProfileSnapshotOptions \<Rightarrow> (error, fs \<times> 'w, 'v) eff \<Rightarrow>
   ('v \<Rightarrow> (error, fs \<times> 'w, unit) eff) \<Rightarrow> (error, fs \<times> 'w, unit) eff \<Rightarrow>
   (tx_error, fs \<times> 'w, 'v \<times> ProtectedProfileSnapshot) eff" where
  "runProfileTransaction m rt options mutate verify undo =
     bind_eff (on_fs (captureProfileSnapshot m rt options)) (\<lambda>snapshot.
     bind_eff (attempt (bind_eff mutate (\<lambda>v w.
         case recordExpectedProfilePostImage m rt snapshot (fst w) of (r, fs) \<Rightarrow> (map_sum id (Pair v) r, (fs, snd w))))) (\<lambda>mutated.
     case mutated of
       Inl e \<Rightarrow> rollback_transaction m rt undo snapshot e
     | Inr (v, snapshot) \<Rightarrow>
         bind_eff (attempt (verify v)) (\<lambda>verified.
         case verified of
           Inl e \<Rightarrow> rollback_transaction m rt undo snapshot e
         | Inr _ \<Rightarrow> give (v, snapshot))))"

subsection \<open>Outcomes of a transaction\<close>

lemma on_fs_Inl: "on_fs op w = (Inl e, w') \<longleftrightarrow> (\<exists>e'. op (fst w) = (Inl e', fst w') \<and> e = Tx e' \<and> snd w' = snd w)"
  by (cases w'; cases "op (fst w)"; cases "fst (op (fst w))") (auto simp: on_fs_def)

lemma on_fs_Inr: "on_fs op w = (Inr x, w') \<longleftrightarrow> op (fst w) = (Inr x, fst w') \<and> snd w' = snd w"
  by (cases w'; cases "op (fst w)"; cases "fst (op (fst w))") (auto simp: on_fs_def)

lemma attempt_run: "attempt op w = (r, w') \<longleftrightarrow> (\<exists>q. op w = (q, w') \<and> r = Inr q)"
  by (cases "op w") (auto simp: attempt_def)

lemma recorded_before:
  assumes "recordExpectedProfilePostImage m rt s fs = (Inr s', fs')"
  shows "profileMatchesSnapshotBefore m rt s' fs2 = profileMatchesSnapshotBefore m rt s fs2"
proof -
  obtain es where s': "s' = s\<lparr>ps_entries := es\<rparr>"
    and es: "list_all2 (\<lambda>e e'. \<exists>i. e' = e\<lparr>pe_expectedPostIdentity := Some i\<rparr> \<and>
      fileIdentity m rt (ps_profileRoot s) (pe_relativePath e) fs = Inr i) (ps_entries s) es"
    using recordExpected_Inr [OF assms] by blast
  let ?f = "\<lambda>entry. and_then (fileIdentity m rt (ps_profileRoot s) (pe_relativePath entry) fs2)
       (\<lambda>i. Inr (sameRestoredImage i (Some (pe_beforeIdentity entry))))"
  have "all_match ?f es = all_match ?f (ps_entries s)"
    using es by (induction rule: list_all2_induct) (auto cong: if_cong)
  then show ?thesis by (simp add: profileMatchesSnapshotBefore_def s')
qed

text \<open>The ways a rollback ends.\<close>

lemma rollback_outcomes:
  assumes "rollback_transaction m rt undo s error w = (r, w')"
  obtains (undone) "r = Inl (Tx error)" and "profileMatchesSnapshotBefore m rt s (fst w') = Inr True"
  | (restored) s' s'' fs2 where "r = Inl (Tx error)" and "restoreProfileSnapshot m rt s' fs2 = (Inr s'', fst w')"
      and "ps_restorationState s'' = Restored"
  | (refused) s' s'' fs2 where "r = Inl (Profile_Recovery s'' error)"
      and "restoreProfileSnapshot m rt s' fs2 = (Inr s'', fst w')" and "ps_restorationState s'' \<noteq> Restored"
  | (broken) e s' fs2 where "r = Inl (Tx e)"
      and "restoreProfileSnapshot m rt s' fs2 = (Inl e, fst w') \<or> recordExpectedProfilePostImage m rt s' fs2 = (Inl e, fst w')"
  using assms unfolding rollback_transaction_def
proof (cases rule: bind_eff_cases)
  case (throws e)
  from throws(1) obtain e' where "recordExpectedProfilePostImage m rt s (fst w) = (Inl e', fst w')" "e = Tx e'"
    by (auto simp: on_fs_Inl give_run split: if_splits)
  with throws(2) show thesis using broken [of e' s "fst w"] by simp
next
  case (goes_on s1 w1)
  have same: "profileMatchesSnapshotBefore m rt s1 fs = profileMatchesSnapshotBefore m rt s fs" for fs
  proof (cases "list_ex (\<lambda>e. pe_expectedPostIdentity e = None) (ps_entries s)")
    case True
    with goes_on(1) have "recordExpectedProfilePostImage m rt s (fst w) = (Inr s1, fst w1)" by (simp add: on_fs_Inr)
    then show ?thesis by (rule recorded_before)
  next
    case False
    with goes_on(1) show ?thesis by (simp add: give_run)
  qed
  from goes_on(2) show thesis
  proof (cases rule: bind_eff_cases)
    case (throws e)
    then show thesis by (simp add: attempt_run)
  next
    case last: (goes_on u w2)
    have u: "bind_eff undo (\<lambda>_. read_eff (\<lambda>w. profileMatchesSnapshotBefore m rt s1 (fst w))) w1 = (u, w2)"
      using last(1) by (auto simp: attempt_run)
    show thesis
    proof (cases "u = Inr True")
      case True
      with u have "profileMatchesSnapshotBefore m rt s1 (fst w2) = Inr True" by (auto simp: bind_Inr read_run)
      moreover have "r = Inl (Tx error)" "w' = w2" using last(2) True by (simp_all add: raise_run)
      ultimately show thesis using undone same by simp
    next
      case False
      with last(2) have "bind_eff (on_fs (restoreProfileSnapshot m rt s1)) (\<lambda>restored.
          if ps_restorationState restored = Restored then raise_eff (Tx error)
          else raise_eff (Profile_Recovery restored error)) w2 = (r, w')" by simp
      then show thesis
      proof (cases rule: bind_eff_cases)
        case (throws e)
        then show thesis using broken by (auto simp: on_fs_Inl)
      next
        case (goes_on s2 w3)
        then have "restoreProfileSnapshot m rt s1 (fst w2) = (Inr s2, fst w3)" by (simp add: on_fs_Inr)
        with goes_on(2) show thesis
          by (cases "ps_restorationState s2 = Restored") (auto simp: raise_run intro: restored refused)
      qed
    qed
  qed
qed

text \<open>A failed transaction that had captured \<open>s\<close>, with the file system it left.\<close>

definition rolled_back :: "machine \<Rightarrow> runtime \<Rightarrow> ProtectedProfileSnapshot \<Rightarrow> fs \<Rightarrow> tx_error \<Rightarrow> bool" where
  "rolled_back m rt s fs x =
     (case x of
        Profile_Recovery s2 e \<Rightarrow> ps_restorationState s2 = Blocked_By_Concurrent_Change \<and>
          (\<exists>s1 fs1. restoreProfileSnapshot m rt s1 fs1 = (Inr s2, fs))
      | Tx e \<Rightarrow> profileMatchesSnapshotBefore m rt s fs = Inr True \<or>
          (\<exists>s1 fs1 s2. restoreProfileSnapshot m rt s1 fs1 = (Inr s2, fs) \<and> ps_restorationState s2 = Restored) \<or>
          (\<exists>s1 fs1. restoreProfileSnapshot m rt s1 fs1 = (Inl e, fs) \<or> recordExpectedProfilePostImage m rt s1 fs1 = (Inl e, fs)))"

lemma rollback_rolled_back:
  assumes "rollback_transaction m rt undo s1 e w = (r, w')"
    and "\<And>fs. profileMatchesSnapshotBefore m rt s1 fs = profileMatchesSnapshotBefore m rt s fs"
  shows "\<exists>x. r = Inl x \<and> rolled_back m rt s (fst w') x"
  using assms(1)
proof (cases rule: rollback_outcomes)
  case undone with assms(2) show ?thesis by (simp add: rolled_back_def)
next
  case restored then show ?thesis by (auto simp: rolled_back_def)
next
  case (refused s' s'' fs2)
  from refused(2) have "ps_restorationState s'' = Restored \<or> ps_restorationState s'' = Blocked_By_Concurrent_Change"
    by (cases rule: restoreProfileSnapshot_Inr) simp_all
  with refused show ?thesis by (auto simp: rolled_back_def)
next
  case broken then show ?thesis by (auto simp: rolled_back_def)
qed


definition example_transaction :: "(tx_error + unit \<times> ProtectedProfileSnapshot) \<times> (fs \<times> unit)" where
  "example_transaction = runProfileTransaction example_machine example_hashes example_options
     (\<lambda>w. (Inr (), (put_node [''p'', ''a''] (Some (Plain (example_file ''y''))) (fst w), snd w)))
     (\<lambda>_. raise_eff (Error ''no'')) (give ()) (example_fs, ())"


end
