(* ===== verification/Client_Lifecycle.thy ===== *)
theory Client_Lifecycle
  imports Profile_Snapshot
begin

text \<open>
  Connecting a client and disconnecting it (\<open>src/onboarding/application/client-lifecycle.ts\<close>). The ports of
  the code (preflight, adding and removing the MCP entry and the plugin, credentials, verification) are
  arguments: operations on a world, which is the file system of \<open>File_System\<close> and whatever else they
  touch, and may throw. The local variables that the \<open>catch\<close> block reads are a record beside the world.
\<close>

subsection \<open>Decisions\<close>

datatype ClientName = ClientCodex | ClientClaude

datatype ClientComponentClassification =
  CAbsent | COwnedEquivalent | CExternalEquivalent | CSameNameConflict | CAmbiguous | CDuplicate | CShadowed | CManaged
| CDriftedOwned

datatype ClientComponentAction = ActCreate | ActReuseOwned | ActReuseExternal

datatype ClientLifecycleOperation = OpSetup | OpRepair | OpUpgrade | OpUninstall | OpPurge

datatype client_action = Mutate | ReuseExternal | NoOp | BlockAction

definition evaluateClientLifecycleAction ::
  "ClientLifecycleOperation \<Rightarrow> ClientComponentClassification \<Rightarrow> client_action \<times> bool" where
  "evaluateClientLifecycleAction op c =
     (if c = CExternalEquivalent then (ReuseExternal, False)
      else if c = CAbsent \<and> (op = OpUninstall \<or> op = OpPurge) then (NoOp, False)
      else if c = CAbsent \<or> c = COwnedEquivalent then (Mutate, True)
      else (BlockAction, False))"

record ClientConflictFinding =
  cf_client :: ClientName
  cf_component :: string
  cf_classification :: ClientComponentClassification
  cf_scope :: string
  cf_identitySha256 :: string

definition clientConflictFinding ::
  "ClientName \<Rightarrow> string \<Rightarrow> ClientComponentClassification \<Rightarrow> string \<Rightarrow> string \<Rightarrow> ClientConflictFinding res" where
  "clientConflictFinding client component classification scope identity =
     (if \<not> hex_string 64 identity then Inl (Error ''Client conflict identity is invalid'')
      else Inr \<lparr>cf_client = client, cf_component = component, cf_classification = classification, cf_scope = scope,
                cf_identitySha256 = identity\<rparr>)"

datatype ClientPreflightDecision =
  Proceed ClientComponentAction ClientComponentAction
| Block ClientComponentClassification "ClientConflictFinding option"

subsection \<open>Ports and results\<close>

datatype mutation_stage = StageMcp | StagePlugin

datatype client_error = Mutation_Not_Started mutation_stage | Provisioning_Recovery | Other_Error error

type_synonym ('w, 'a) port = "(client_error, fs \<times> 'w, 'a) eff"

record 'w ClientLifecycleDependencies =
  preflight :: "('w, ClientPreflightDecision option) port"
  provisionCredential :: "('w, string \<times> string) port"
  addMcp :: "('w, unit) port"
  addPlugin :: "('w, unit) port"
  verify_client :: "('w, unit) port"
  removePlugin :: "('w, unit) port"
  removeMcp :: "('w, unit) port"
  revokeCredential :: "string \<Rightarrow> string \<Rightarrow> ('w, unit) port"
  profileSnapshot :: "CaptureProfileSnapshotOptions option"
  mcpProfilePaths :: "string list option"
  pluginProfilePaths :: "string list option"

datatype client_status = Verified | ExternalVerified | FailedStatus | RecoveryRequired

datatype component_state = CompCreated | CompOwned | CompExternal | CompNone

record ClientLifecycleResult =
  cr_client :: ClientName
  cr_status :: client_status
  cr_compensated :: bool
  cr_owned :: bool
  cr_components :: "component_state \<times> component_state \<times> component_state"
  cr_summary :: string
  cr_snapshotId :: "string option"
  cr_conflict :: "ClientConflictFinding option"

definition client_text :: "ClientName \<Rightarrow> string" where
  "client_text c = (case c of ClientCodex \<Rightarrow> ''codex'' | ClientClaude \<Rightarrow> ''claude'')"

subsection \<open>Connecting\<close>

record install_vars =
  iv_credential :: "(string \<times> string) option"
  iv_mcpMutationAttempted :: bool
  iv_pluginMutationAttempted :: bool
  iv_plannedComponents :: "component_state \<times> component_state \<times> component_state"
  iv_snapshot :: "ProtectedProfileSnapshot option"
  iv_mcpPostSnapshot :: "ProtectedProfileSnapshot option"
  iv_pluginPostSnapshot :: "ProtectedProfileSnapshot option"
  iv_compensationFailed :: bool

type_synonym ('e, 'w, 'a) local_eff = "('e, install_vars \<times> fs \<times> 'w, 'a) eff"

definition call :: "('w, 'a) port \<Rightarrow> (client_error, 'w, 'a) local_eff" where
  "call op = (\<lambda>(v, w). case op w of (r, w') \<Rightarrow> (r, (v, w')))"

definition call_fs :: "'a fsop \<Rightarrow> (client_error, 'w, 'a) local_eff" where
  "call_fs op = (\<lambda>(v, fs, w). case op fs of (r, fs') \<Rightarrow> (map_sum Other_Error id r, (v, fs', w)))"

definition assign :: "(install_vars \<Rightarrow> install_vars) \<Rightarrow> ('e, 'w, unit) local_eff" where
  "assign f = change_eff (\<lambda>(v, w). (f v, w))"

definition vars_of :: "('e, 'w, install_vars) local_eff" where
  "vars_of = read_eff (\<lambda>(v, w). Inr v)"

definition initial_vars :: install_vars where
  "initial_vars = \<lparr>iv_credential = None, iv_mcpMutationAttempted = False, iv_pluginMutationAttempted = False,
     iv_plannedComponents = (CompNone, CompNone, CompNone), iv_snapshot = None, iv_mcpPostSnapshot = None,
     iv_pluginPostSnapshot = None, iv_compensationFailed = False\<rparr>"

definition component_plan :: "ClientComponentAction \<Rightarrow> component_state" where
  "component_plan a = (case a of ActCreate \<Rightarrow> CompCreated | ActReuseOwned \<Rightarrow> CompOwned | ActReuseExternal \<Rightarrow> CompExternal)"

text \<open>\<open>snapshot = await recordExpectedProfilePostImage(snapshot)\<close> and the variable it is also stored in.\<close>

definition record_post ::
  "machine \<Rightarrow> runtime \<Rightarrow> (ProtectedProfileSnapshot \<Rightarrow> install_vars \<Rightarrow> install_vars) \<Rightarrow> (client_error, 'w, unit) local_eff" where
  "record_post m rt store =
     bind_eff vars_of (\<lambda>v. case iv_snapshot v of None \<Rightarrow> give ()
       | Some s \<Rightarrow> bind_eff (call_fs (recordExpectedProfilePostImage m rt s)) (\<lambda>s'.
           assign (\<lambda>v. store s' (v\<lparr>iv_snapshot := Some s'\<rparr>))))"

definition capture_step ::
  "machine \<Rightarrow> runtime \<Rightarrow> 'w ClientLifecycleDependencies \<Rightarrow> (client_error, 'w, unit) local_eff" where
  "capture_step m rt deps =
     (case profileSnapshot deps of
        None \<Rightarrow> give ()
      | Some options \<Rightarrow> bind_eff (call_fs (captureProfileSnapshot m rt options)) (\<lambda>s.
          assign (\<lambda>v. v\<lparr>iv_snapshot := Some s\<rparr>)))"

definition mcp_step :: "machine \<Rightarrow> runtime \<Rightarrow> 'w ClientLifecycleDependencies \<Rightarrow> (client_error, 'w, unit) local_eff" where
  "mcp_step m rt deps =
     bind_eff (call (provisionCredential deps)) (\<lambda>c.
     bind_eff (assign (\<lambda>v. v\<lparr>iv_credential := Some c\<rparr>)) (\<lambda>_.
     bind_eff (assign (\<lambda>v. v\<lparr>iv_mcpMutationAttempted := True\<rparr>)) (\<lambda>_.
     bind_eff (call (addMcp deps)) (\<lambda>_. record_post m rt (\<lambda>s v. v\<lparr>iv_mcpPostSnapshot := Some s\<rparr>)))))"

definition plugin_step :: "machine \<Rightarrow> runtime \<Rightarrow> 'w ClientLifecycleDependencies \<Rightarrow> (client_error, 'w, unit) local_eff" where
  "plugin_step m rt deps =
     bind_eff (assign (\<lambda>v. v\<lparr>iv_pluginMutationAttempted := True\<rparr>)) (\<lambda>_.
     bind_eff (call (addPlugin deps)) (\<lambda>_. record_post m rt (\<lambda>s v. v\<lparr>iv_pluginPostSnapshot := Some s\<rparr>)))"

definition success_result :: "ClientName \<Rightarrow> bool \<Rightarrow> install_vars \<Rightarrow> ClientLifecycleResult" where
  "success_result client ownsAny v =
     \<lparr>cr_client = client, cr_status = (if ownsAny then Verified else ExternalVerified), cr_compensated = False,
      cr_owned = ownsAny, cr_components = iv_plannedComponents v,
      cr_summary = client_text client @ '' native integration verified'',
      cr_snapshotId = map_option ps_snapshotId (iv_snapshot v), cr_conflict = None\<rparr>"

definition install_proceed ::
  "machine \<Rightarrow> runtime \<Rightarrow> ClientName \<Rightarrow> 'w ClientLifecycleDependencies \<Rightarrow> ClientComponentAction \<Rightarrow> ClientComponentAction \<Rightarrow>
   (client_error, 'w, ClientLifecycleResult) local_eff" where
  "install_proceed m rt client deps mcp plugin =
     bind_eff (assign (\<lambda>v. v\<lparr>iv_plannedComponents :=
       (if mcp = ActCreate then CompCreated else CompNone, component_plan mcp, component_plan plugin)\<rparr>)) (\<lambda>_.
     bind_eff (if mcp = ActCreate \<or> plugin = ActCreate then capture_step m rt deps else give ()) (\<lambda>_.
     bind_eff (if mcp = ActCreate then mcp_step m rt deps else give ()) (\<lambda>_.
     bind_eff (if plugin = ActCreate then plugin_step m rt deps else give ()) (\<lambda>_.
     bind_eff (call (verify_client deps)) (\<lambda>_.
     bind_eff vars_of (\<lambda>v. give (success_result client
       (mcp = ActReuseOwned \<or> plugin = ActReuseOwned \<or> mcp = ActCreate \<or> plugin = ActCreate) v)))))))"

definition blocked_result :: "ClientName \<Rightarrow> ClientConflictFinding option \<Rightarrow> install_vars \<Rightarrow> ClientLifecycleResult" where
  "blocked_result client finding v =
     \<lparr>cr_client = client, cr_status = FailedStatus, cr_compensated = False, cr_owned = False,
      cr_components = iv_plannedComponents v,
      cr_summary = client_text client @ '' native integration is blocked by existing client state'',
      cr_snapshotId = None, cr_conflict = finding\<rparr>"

definition install_body ::
  "machine \<Rightarrow> runtime \<Rightarrow> ClientName \<Rightarrow> 'w ClientLifecycleDependencies \<Rightarrow> (client_error, 'w, ClientLifecycleResult) local_eff" where
  "install_body m rt client deps =
     bind_eff (call (preflight deps)) (\<lambda>d.
     case (case d of None \<Rightarrow> Proceed ActCreate ActCreate | Some decision \<Rightarrow> decision) of
       Block classification finding \<Rightarrow> bind_eff vars_of (\<lambda>v. give (blocked_result client finding v))
     | Proceed mcp plugin \<Rightarrow> install_proceed m rt client deps mcp plugin)"

text \<open>The \<open>catch\<close> block. None of its operations throws.\<close>

definition matches_post ::
  "machine \<Rightarrow> runtime \<Rightarrow> bool \<Rightarrow> ProtectedProfileSnapshot \<Rightarrow> string list option \<Rightarrow> fs \<Rightarrow> bool" where
  "matches_post m rt trustedPreviousInverse expected relativePaths fs =
     ((if trustedPreviousInverse then profileMatchesExpectedPostContent m rt expected relativePaths fs
       else profileMatchesExpectedPostImage m rt expected relativePaths fs) = Inr True)"

definition guardedInverse ::
  "machine \<Rightarrow> runtime \<Rightarrow> ProtectedProfileSnapshot option \<Rightarrow> ('w, unit) port \<Rightarrow> bool \<Rightarrow> string list option \<Rightarrow>
   ('e, 'w, bool) local_eff" where
  "guardedInverse m rt expected undo trustedPreviousInverse relativePaths = (\<lambda>(v, fs, w).
     if (case expected of None \<Rightarrow> False | Some s \<Rightarrow> \<not> matches_post m rt trustedPreviousInverse s relativePaths fs)
     then (Inr False, (v\<lparr>iv_compensationFailed := True\<rparr>, fs, w))
     else case undo (fs, w) of
            (Inr _, w') \<Rightarrow> (Inr True, (v, w'))
          | (Inl _, w') \<Rightarrow> (Inr False, (v\<lparr>iv_compensationFailed := True\<rparr>, w')))"

definition record_after_failure :: "machine \<Rightarrow> runtime \<Rightarrow> ('e, 'w, unit) local_eff" where
  "record_after_failure m rt = (\<lambda>(v, fs, w).
     case iv_snapshot v of
       None \<Rightarrow> (Inr (), (v, fs, w))
     | Some s \<Rightarrow>
         if \<not> list_ex (\<lambda>e. pe_expectedPostIdentity e = None) (ps_entries s) then (Inr (), (v, fs, w))
         else case recordExpectedProfilePostImage m rt s fs of
                (Inl _, fs') \<Rightarrow> (Inr (), (v\<lparr>iv_compensationFailed := True\<rparr>, fs', w))
              | (Inr s', fs') \<Rightarrow> (Inr (), (if iv_pluginMutationAttempted v then v\<lparr>iv_snapshot := Some s', iv_pluginPostSnapshot := Some s'\<rparr>
                  else if iv_mcpMutationAttempted v then v\<lparr>iv_snapshot := Some s', iv_mcpPostSnapshot := Some s'\<rparr>
                  else v\<lparr>iv_snapshot := Some s'\<rparr>, fs', w)))"

definition undo_plugin :: "machine \<Rightarrow> runtime \<Rightarrow> 'w ClientLifecycleDependencies \<Rightarrow> ('e, 'w, bool) local_eff" where
  "undo_plugin m rt deps =
     bind_eff vars_of (\<lambda>v.
     if \<not> iv_pluginMutationAttempted v then give True
     else bind_eff (guardedInverse m rt (iv_pluginPostSnapshot v) (removePlugin deps) False (pluginProfilePaths deps)) (\<lambda>safe.
            \<lambda>(v, fs, w).
              if safe \<and> (case iv_mcpPostSnapshot v of None \<Rightarrow> False | Some s \<Rightarrow> \<not> matches_post m rt True s (mcpProfilePaths deps) fs)
              then (Inr False, (v\<lparr>iv_compensationFailed := True\<rparr>, fs, w))
              else (Inr safe, (v, fs, w))))"

definition undo_credential :: "'w ClientLifecycleDependencies \<Rightarrow> ('e, 'w, unit) local_eff" where
  "undo_credential deps = (\<lambda>(v, w).
     case iv_credential v of
       None \<Rightarrow> (Inr (), (v, w))
     | Some (keyId, reference) \<Rightarrow>
         (case revokeCredential deps keyId reference w of
            (Inr _, w') \<Rightarrow> (Inr (), (v, w'))
          | (Inl _, w') \<Rightarrow> (Inr (), (v\<lparr>iv_compensationFailed := True\<rparr>, w'))))"

definition failure_vars :: "client_error \<Rightarrow> install_vars \<Rightarrow> install_vars" where
  "failure_vars e v = v\<lparr>iv_mcpMutationAttempted := iv_mcpMutationAttempted v \<and> e \<noteq> Mutation_Not_Started StageMcp,
     iv_pluginMutationAttempted := iv_pluginMutationAttempted v \<and> e \<noteq> Mutation_Not_Started StagePlugin,
     iv_compensationFailed := (e = Provisioning_Recovery)\<rparr>"

definition failure_result :: "ClientName \<Rightarrow> install_vars \<Rightarrow> ClientLifecycleResult" where
  "failure_result client v =
     (if iv_compensationFailed v
      then \<lparr>cr_client = client, cr_status = RecoveryRequired, cr_compensated = False,
             cr_owned = (iv_credential v \<noteq> None \<or> iv_mcpMutationAttempted v \<or> iv_pluginMutationAttempted v),
             cr_components = iv_plannedComponents v,
             cr_summary = client_text client @ '' installation failed and narrow compensation needs recovery'',
             cr_snapshotId = map_option ps_snapshotId (iv_snapshot v), cr_conflict = None\<rparr>
      else \<lparr>cr_client = client, cr_status = FailedStatus, cr_compensated = True, cr_owned = False,
             cr_components = (CompNone, CompNone, CompNone),
             cr_summary = client_text client @ '' installation failed and was compensated'',
             cr_snapshotId = map_option ps_snapshotId (iv_snapshot v), cr_conflict = None\<rparr>)"

definition install_compensate ::
  "machine \<Rightarrow> runtime \<Rightarrow> ClientName \<Rightarrow> 'w ClientLifecycleDependencies \<Rightarrow> client_error \<Rightarrow>
   ('e, 'w, ClientLifecycleResult) local_eff" where
  "install_compensate m rt client deps e =
     bind_eff (assign (failure_vars e)) (\<lambda>_.
     bind_eff (record_after_failure m rt) (\<lambda>_.
     bind_eff (undo_plugin m rt deps) (\<lambda>clientInverseSafe.
     bind_eff vars_of (\<lambda>v.
     bind_eff (if iv_mcpMutationAttempted v \<and> clientInverseSafe
       then guardedInverse m rt (iv_mcpPostSnapshot v) (removeMcp deps) (iv_pluginMutationAttempted v) (mcpProfilePaths deps)
       else give True) (\<lambda>_.
     bind_eff (undo_credential deps) (\<lambda>_.
     bind_eff vars_of (\<lambda>v. give (failure_result client v))))))))"

text \<open>The result, and the world afterwards.\<close>

definition installClientLifecycle ::
  "machine \<Rightarrow> runtime \<Rightarrow> ClientName \<Rightarrow> 'w ClientLifecycleDependencies \<Rightarrow> fs \<times> 'w \<Rightarrow>
   (client_error + ClientLifecycleResult) \<times> (fs \<times> 'w)" where
  "installClientLifecycle m rt client deps w =
     (case catch_eff (install_body m rt client deps) (install_compensate m rt client deps) (initial_vars, w) of
        (r, (v, w')) \<Rightarrow> (r, w'))"

subsection \<open>Disconnecting\<close>

datatype RemovableClientComponent = RcMcpEntry | RcPlugin | RcMarketplace | RcCredential

record ClientRemovalObservation =
  ro_component :: RemovableClientComponent
  ro_classification :: ClientComponentClassification
  ro_expectedIdentitySha256 :: "string option"
  ro_currentIdentitySha256 :: "string option"

record ('e, 'w) ClientRemovalDependencies =
  rd_inspect :: "('e, 'w, ClientRemovalObservation list) eff"
  rd_inverse :: "RemovableClientComponent \<Rightarrow> ('e, 'w, unit) eff"
  rd_verifyAbsent :: "RemovableClientComponent \<Rightarrow> ('e, 'w, bool) eff"

datatype removal_status = RemovalRemoved | RemovalUnchanged | RemovalRecoveryRequired

record ClientRemovalResult =
  rr_client :: ClientName
  rr_status :: removal_status
  rr_removed :: "RemovableClientComponent list"
  rr_retainedExternal :: "RemovableClientComponent list"

definition removal_order :: "RemovableClientComponent list" where
  "removal_order = [RcPlugin, RcMarketplace, RcMcpEntry, RcCredential]"

text \<open>The loop over the order: whether it came to its end, and what was removed.\<close>

fun removal_loop ::
  "('e, 'w) ClientRemovalDependencies \<Rightarrow> ('w \<Rightarrow> bool) \<Rightarrow> RemovableClientComponent list \<Rightarrow> RemovableClientComponent list \<Rightarrow>
   RemovableClientComponent list \<Rightarrow> 'w \<Rightarrow> (bool \<times> RemovableClientComponent list) \<times> 'w" where
  "removal_loop deps aborted removable [] removed w = ((True, removed), w)"
| "removal_loop deps aborted removable (component # order) removed w =
     (if component \<notin> set removable then removal_loop deps aborted removable order removed w
      else if aborted w then ((False, removed), w)
      else case rd_inverse deps component w of
             (Inl _, w1) \<Rightarrow> ((False, removed), w1)
           | (Inr _, w1) \<Rightarrow>
               (case rd_verifyAbsent deps component w1 of
                  (Inr True, w2) \<Rightarrow> removal_loop deps aborted removable order (removed @ [component]) w2
                | (_, w2) \<Rightarrow> ((False, removed), w2)))"

definition removal_blocked :: "ClientRemovalObservation list \<Rightarrow> bool" where
  "removal_blocked observations \<longleftrightarrow>
     list_ex (\<lambda>ob. ro_classification ob \<notin> {CAbsent, CExternalEquivalent, COwnedEquivalent}) observations \<or>
     list_ex (\<lambda>ob. ro_expectedIdentitySha256 ob = None \<or> ro_currentIdentitySha256 ob = None \<or>
         ro_expectedIdentitySha256 ob \<noteq> ro_currentIdentitySha256 ob)
       (filter (\<lambda>ob. ro_classification ob = COwnedEquivalent) observations)"

definition removable_components :: "ClientRemovalObservation list \<Rightarrow> RemovableClientComponent list" where
  "removable_components observations =
     map ro_component (filter (\<lambda>ob. ro_classification ob = COwnedEquivalent) observations)"

definition uninstallClientLifecycle ::
  "ClientName \<Rightarrow> ('e, 'w) ClientRemovalDependencies \<Rightarrow> ('w \<Rightarrow> bool) \<Rightarrow> ('e, 'w, ClientRemovalResult) eff" where
  "uninstallClientLifecycle client deps aborted =
     bind_eff (rd_inspect deps) (\<lambda>observations.
     let retainedExternal = map ro_component (filter (\<lambda>ob. ro_classification ob = CExternalEquivalent) observations);
         result = (\<lambda>status removed. \<lparr>rr_client = client, rr_status = status, rr_removed = removed,
           rr_retainedExternal = retainedExternal\<rparr>)
     in if removal_blocked observations then give (result RemovalRecoveryRequired [])
        else (\<lambda>w. case removal_loop deps aborted (removable_components observations) removal_order [] w of
               ((finished, removed), w') \<Rightarrow>
                 (Inr (result (if \<not> finished then RemovalRecoveryRequired
                               else if removed = [] then RemovalUnchanged else RemovalRemoved) removed), w')))"

subsection \<open>Which clients may be changed\<close>

text \<open>Only an absent or owned component is ever mutable; an external one never is, nor one in conflict or drift, and
  removing what is absent is a no-op.\<close>

theorem lifecycle_action_mutable:
  "evaluateClientLifecycleAction op c = (a, mutable) \<Longrightarrow>
     (mutable \<longleftrightarrow> a = Mutate) \<and> (mutable \<longrightarrow> c = COwnedEquivalent \<or> c = CAbsent \<and> op \<notin> {OpUninstall, OpPurge}) \<and>
     (a = BlockAction \<longleftrightarrow> c \<notin> {CAbsent, COwnedEquivalent, CExternalEquivalent})"
  by (auto simp: evaluateClientLifecycleAction_def split: if_splits)

subsection \<open>What a run is made of\<close>

lemma call_Inr: "call op (v, w) = (Inr x, (v', w')) \<longleftrightarrow> op w = (Inr x, w') \<and> v' = v"
  by (cases "op w") (auto simp: call_def)

lemma call_Inl: "call op (v, w) = (Inl e, (v', w')) \<longleftrightarrow> op w = (Inl e, w') \<and> v' = v"
  by (cases "op w") (auto simp: call_def)

lemma bind_assign_step [eff_step]: "bind_eff (assign f) g (v, w) = g () (f v, w)"
  by (simp add: assign_def eff_step)

lemma bind_vars_step [eff_step]: "bind_eff vars_of g (v, w) = g v (v, w)"
  by (simp add: vars_of_def eff_step)

lemma bind_call_step [eff_step]:
  "bind_eff (call op) g (v, w) = (case op w of (Inl e, w') \<Rightarrow> (Inl e, (v, w')) | (Inr x, w') \<Rightarrow> g x (v, w'))"
  by (cases "op w") (auto simp: call_def bind_eff_def split: sum.splits)

lemma returns_assign [intro]: "returns (assign f)"
  and returns_vars [intro]: "returns vars_of"
  by (auto simp: assign_def vars_of_def returns_def read_eff_def change_eff_def)

lemma returns_guarded [intro]: "returns (guardedInverse m rt expected undo trusted paths)"
  by (auto simp: returns_def guardedInverse_def split: prod.splits sum.splits option.splits)

lemma returns_record [intro]: "returns (record_after_failure m rt)"
  by (auto simp: returns_def record_after_failure_def split: prod.splits sum.splits option.splits)

lemma returns_credential [intro]: "returns (undo_credential deps)"
  by (auto simp: returns_def undo_credential_def split: prod.splits sum.splits option.splits)

lemma returns_undo_plugin [intro]: "returns (undo_plugin m rt deps)"
  unfolding undo_plugin_def by (intro returns_bind returns_vars returns_if returns_give returns_guarded) (auto simp: returns_def)

lemma returns_compensate: "returns (install_compensate m rt client deps e)"
  unfolding install_compensate_def
  by (intro returns_bind returns_assign returns_record returns_undo_plugin returns_vars returns_if returns_guarded returns_give
    returns_credential)

text \<open>Connecting a client never throws: whatever its ports and the file system do, it answers a result.\<close>

lemma installClientLifecycle_returns:
  fixes deps :: "'w ClientLifecycleDependencies"
  shows "\<exists>r w'. installClientLifecycle m rt client deps w = (Inr r, w')"
proof -
  let ?run = "catch_eff (install_body m rt client deps) (install_compensate m rt client deps) ::
    (client_error, 'w, ClientLifecycleResult) local_eff"
  have "returns ?run" by (rule returns_catch) (rule returns_compensate)
  then obtain x y where "?run (initial_vars, w) = (Inr x, y)"
    unfolding returns_def by blast
  then show ?thesis by (cases y) (simp add: installClientLifecycle_def)
qed

subsection \<open>What the steps keep of the local variables\<close>

text \<open>\<open>on_vars Q\<close>: a fact \<open>Q\<close> about the local variables. It is steady if it does not depend on the
  variables that all steps may set.\<close>

definition on_vars :: "(install_vars \<Rightarrow> bool) \<Rightarrow> install_vars \<times> fs \<times> 'w \<Rightarrow> bool" where
  "on_vars Q x \<longleftrightarrow> Q (fst x)"

definition steady :: "(install_vars \<Rightarrow> bool) \<Rightarrow> bool" where
  "steady Q \<longleftrightarrow> (\<forall>v. Q v \<longrightarrow> (\<forall>p. Q (v\<lparr>iv_plannedComponents := p\<rparr>)) \<and> (\<forall>s. Q (v\<lparr>iv_snapshot := s\<rparr>)) \<and>
     (\<forall>s. Q (v\<lparr>iv_mcpPostSnapshot := s\<rparr>)) \<and> (\<forall>s. Q (v\<lparr>iv_pluginPostSnapshot := s\<rparr>)) \<and>
     (\<forall>b. Q (v\<lparr>iv_compensationFailed := b\<rparr>)))"

lemma steadyD:
  assumes "steady Q" and "Q v"
  shows "Q (v\<lparr>iv_plannedComponents := p\<rparr>)" "Q (v\<lparr>iv_snapshot := s\<rparr>)" "Q (v\<lparr>iv_mcpPostSnapshot := s\<rparr>)"
    "Q (v\<lparr>iv_pluginPostSnapshot := s\<rparr>)" "Q (v\<lparr>iv_compensationFailed := b\<rparr>)"
  using assms unfolding steady_def by blast+

lemma keeps_vars_of [intro]: "preserves P vars_of"
  by (simp add: vars_of_def)

lemma keeps_call [intro]: "preserves (on_vars Q) (call op)"
  by (auto simp: preserves_def on_vars_def call_def split: prod.splits)

lemma keeps_call_fs [intro]: "preserves (on_vars Q) (call_fs fsop)"
  by (auto simp: preserves_def on_vars_def call_fs_def split: prod.splits)

lemma keeps_assign [intro]: "(\<And>v. Q v \<Longrightarrow> Q (f v)) \<Longrightarrow> preserves (on_vars Q) (assign f)"
  by (auto simp: preserves_def on_vars_def assign_def change_eff_def)

lemma keeps_guarded: "steady Q \<Longrightarrow> preserves (on_vars Q) (guardedInverse m rt expected undo trusted paths)"
  by (auto simp: preserves_def on_vars_def guardedInverse_def steadyD split: prod.splits sum.splits option.splits if_splits)

lemma keeps_record_post:
  "steady Q \<Longrightarrow> (\<And>s v. Q v \<Longrightarrow> Q (store s v)) \<Longrightarrow> preserves (on_vars Q) (record_post m rt store)"
  unfolding record_post_def
  by (intro preserves_bind keeps_vars_of, split option.split)
    (simp add: preserves_bind [OF keeps_call_fs keeps_assign] steadyD(2))

lemma keeps_record_after_failure: "steady Q \<Longrightarrow> preserves (on_vars Q) (record_after_failure m rt)"
  by (auto simp: preserves_def on_vars_def record_after_failure_def steadyD split: prod.splits sum.splits option.splits if_splits)

lemma keeps_capture_step: "steady Q \<Longrightarrow> preserves (on_vars Q) (capture_step m rt deps)"
  unfolding capture_step_def
  by (split option.split) (simp add: preserves_bind [OF keeps_call_fs keeps_assign] steadyD(2))

lemma keeps_undo_plugin:
  assumes "steady Q"
  shows "preserves (on_vars Q) (undo_plugin m rt deps)"
proof -
  have "preserves (on_vars Q) (\<lambda>(v, fs, w).
      if safe \<and> (case iv_mcpPostSnapshot v of None \<Rightarrow> False | Some s \<Rightarrow> \<not> matches_post m rt True s (mcpProfilePaths deps) fs)
      then (Inr False, (v\<lparr>iv_compensationFailed := True\<rparr>, fs, w)) else (Inr safe, (v, fs, w)))" for safe
    using assms by (auto simp: preserves_def on_vars_def steadyD)
  then show ?thesis
    unfolding undo_plugin_def using keeps_guarded [OF assms] by (intro preserves_bind keeps_vars_of preserves_if) auto
qed

definition no_mcp :: "install_vars \<Rightarrow> bool" where
  "no_mcp v \<longleftrightarrow> \<not> iv_mcpMutationAttempted v \<and> iv_credential v = None"

definition no_plugin :: "install_vars \<Rightarrow> bool" where
  "no_plugin v \<longleftrightarrow> \<not> iv_pluginMutationAttempted v"

lemma steady_flags [simp]: "steady no_mcp" "steady no_plugin"
  by (simp_all add: steady_def no_mcp_def no_plugin_def)

lemma keeps_plugin_step: "preserves (on_vars no_mcp) (plugin_step m rt deps)"
  unfolding plugin_step_def
  by (intro preserves_bind keeps_assign keeps_call keeps_record_post) (auto simp: no_mcp_def)

lemma keeps_mcp_step: "preserves (on_vars no_plugin) (mcp_step m rt deps)"
  unfolding mcp_step_def
  by (intro preserves_bind keeps_assign keeps_call keeps_record_post) (auto simp: no_plugin_def)

subsection \<open>External components stay untouched\<close>

text \<open>The ports of the MCP entry and its credential, and those of the plugin, replaced by others.\<close>

definition other_mcp ::
  "('w, string \<times> string) port \<Rightarrow> ('w, unit) port \<Rightarrow> ('w, unit) port \<Rightarrow> (string \<Rightarrow> string \<Rightarrow> ('w, unit) port) \<Rightarrow>
   'w ClientLifecycleDependencies \<Rightarrow> 'w ClientLifecycleDependencies" where
  "other_mcp p a r q deps = deps\<lparr>provisionCredential := p, addMcp := a, removeMcp := r, revokeCredential := q\<rparr>"

definition other_plugin ::
  "('w, unit) port \<Rightarrow> ('w, unit) port \<Rightarrow> 'w ClientLifecycleDependencies \<Rightarrow> 'w ClientLifecycleDependencies" where
  "other_plugin a r deps = deps\<lparr>addPlugin := a, removePlugin := r\<rparr>"

lemma other_mcp_sel [simp]:
  "preflight (other_mcp p a r q deps) = preflight deps" "addPlugin (other_mcp p a r q deps) = addPlugin deps"
  "removePlugin (other_mcp p a r q deps) = removePlugin deps" "verify_client (other_mcp p a r q deps) = verify_client deps"
  "profileSnapshot (other_mcp p a r q deps) = profileSnapshot deps"
  "mcpProfilePaths (other_mcp p a r q deps) = mcpProfilePaths deps"
  "pluginProfilePaths (other_mcp p a r q deps) = pluginProfilePaths deps"
  by (simp_all add: other_mcp_def)

lemma other_plugin_sel [simp]:
  "preflight (other_plugin a r deps) = preflight deps" "addMcp (other_plugin a r deps) = addMcp deps"
  "removeMcp (other_plugin a r deps) = removeMcp deps" "verify_client (other_plugin a r deps) = verify_client deps"
  "provisionCredential (other_plugin a r deps) = provisionCredential deps"
  "revokeCredential (other_plugin a r deps) = revokeCredential deps"
  "profileSnapshot (other_plugin a r deps) = profileSnapshot deps"
  "mcpProfilePaths (other_plugin a r deps) = mcpProfilePaths deps"
  by (simp_all add: other_plugin_def)

lemma compensate_same_mcp:
  "same_on (on_vars no_mcp) (install_compensate m rt client (other_mcp p a r q deps) e) (install_compensate m rt client deps e)"
proof -
  have plugin: "undo_plugin m rt (other_mcp p a r q deps) = undo_plugin m rt deps"
    by (simp only: undo_plugin_def other_mcp_sel)
  have mcp: "same_on (on_vars no_mcp)
      (bind_eff vars_of (\<lambda>v. bind_eff (if iv_mcpMutationAttempted v \<and> safe
         then guardedInverse m rt (iv_mcpPostSnapshot v) (removeMcp (other_mcp p a r q deps)) (iv_pluginMutationAttempted v)
           (mcpProfilePaths (other_mcp p a r q deps)) else give True) k))
      (bind_eff vars_of (\<lambda>v. bind_eff (if iv_mcpMutationAttempted v \<and> safe
         then guardedInverse m rt (iv_mcpPostSnapshot v) (removeMcp deps) (iv_pluginMutationAttempted v)
           (mcpProfilePaths deps) else give True) k'))"
    if "same_on (on_vars no_mcp) (k True) (k' True)" for k k' safe
    using that by (auto simp: same_on_def on_vars_def no_mcp_def eff_step)
  have credential: "same_on (on_vars no_mcp) (undo_credential (other_mcp p a r q deps)) (undo_credential deps)"
    by (auto simp: same_on_def on_vars_def no_mcp_def undo_credential_def)
  have quiet: "preserves (on_vars no_mcp) (undo_credential (other_mcp p a r q deps))"
    by (auto simp: preserves_def on_vars_def no_mcp_def undo_credential_def)
  have failing: "preserves (on_vars no_mcp) (assign (failure_vars e))"
    by (rule keeps_assign) (simp add: no_mcp_def failure_vars_def)
  show ?thesis
    unfolding install_compensate_def plugin
    by (intro mcp same_on_bind [OF same_on_refl] same_on_bind [OF credential quiet] same_on_refl failing
      keeps_record_after_failure keeps_undo_plugin keeps_vars_of steady_flags)
qed

lemma compensate_same_plugin:
  "same_on (on_vars no_plugin) (install_compensate m rt client (other_plugin a r deps) e) (install_compensate m rt client deps e)"
proof -
  have plugin: "same_on (on_vars no_plugin) (undo_plugin m rt (other_plugin a r deps)) (undo_plugin m rt deps)"
    by (auto simp: same_on_def on_vars_def no_plugin_def undo_plugin_def eff_step)
  have quiet: "preserves (on_vars no_plugin) (undo_plugin m rt (other_plugin a r deps))"
    by (rule keeps_undo_plugin) simp
  have failing: "preserves (on_vars no_plugin) (assign (failure_vars e))"
    by (rule keeps_assign) (simp add: no_plugin_def failure_vars_def)
  have credential: "undo_credential (other_plugin a r deps) = undo_credential deps" by (simp only: undo_credential_def other_plugin_sel)
  show ?thesis
    unfolding install_compensate_def other_plugin_sel credential
    by (intro same_on_bind [OF plugin quiet] same_on_bind [OF same_on_refl] same_on_refl failing
      keeps_record_after_failure keeps_vars_of steady_flags)
qed

lemma proceed_same_mcp:
  assumes "mcp \<noteq> ActCreate"
  shows "install_proceed m rt client (other_mcp p a r q deps) mcp plugin = install_proceed m rt client deps mcp plugin"
  using assms by (simp only: install_proceed_def capture_step_def plugin_step_def other_mcp_sel if_False)

lemma proceed_same_plugin:
  assumes "plugin \<noteq> ActCreate"
  shows "install_proceed m rt client (other_plugin a r deps) mcp plugin = install_proceed m rt client deps mcp plugin"
  using assms by (simp only: install_proceed_def capture_step_def mcp_step_def other_plugin_sel if_False)

lemma proceed_keeps:
  "mcp \<noteq> ActCreate \<Longrightarrow> preserves (on_vars no_mcp) (install_proceed m rt client deps mcp plugin)"
  "plugin \<noteq> ActCreate \<Longrightarrow> preserves (on_vars no_plugin) (install_proceed m rt client deps mcp plugin)"
  unfolding install_proceed_def
  by (auto intro!: preserves_bind keeps_assign keeps_capture_step keeps_plugin_step keeps_mcp_step keeps_call keeps_vars_of
    simp: no_mcp_def no_plugin_def)

text \<open>The run after a preflight that lets it proceed.\<close>

lemma install_after_preflight:
  assumes "preflight deps w = (Inr (Some (Proceed mcp plugin)), w1)"
  shows "installClientLifecycle m rt client deps w =
    (case catch_eff (install_proceed m rt client deps mcp plugin) (install_compensate m rt client deps) (initial_vars, w1) of
       (r, (v, w')) \<Rightarrow> (r, w'))"
proof -
  have "install_body m rt client deps (initial_vars, w) = install_proceed m rt client deps mcp plugin (initial_vars, w1)"
    using assms by (simp add: install_body_def eff_step)
  then show ?thesis by (simp add: installClientLifecycle_def catch_eff_def)
qed

text \<open>C35. What a preflight found to belong to someone else, or to be in place already, is left alone: if it does
  not ask to create the MCP entry, the operations that add and remove that entry and those that
  provision and revoke a credential have no influence on the run at all, failing or not, and likewise the
  plugin operations if it does not ask to create the plugin.\<close>

theorem reused_components_untouched:
  assumes "preflight deps w = (Inr (Some (Proceed mcp plugin)), w1)"
  shows "(mcp \<noteq> ActCreate \<longrightarrow>
      installClientLifecycle m rt client (other_mcp p a r q deps) w = installClientLifecycle m rt client deps w) \<and>
    (plugin \<noteq> ActCreate \<longrightarrow>
      installClientLifecycle m rt client (other_plugin a r deps) w = installClientLifecycle m rt client deps w)"
proof (intro conjI impI)
  have other: "preflight (other_mcp p a r q deps) w = (Inr (Some (Proceed mcp plugin)), w1)"
    "preflight (other_plugin a r deps) w = (Inr (Some (Proceed mcp plugin)), w1)" using assms by simp_all
  have start: "on_vars no_mcp (initial_vars, w1)" "on_vars no_plugin (initial_vars, w1)"
    by (simp_all add: on_vars_def no_mcp_def no_plugin_def initial_vars_def)
  show "installClientLifecycle m rt client (other_mcp p a r q deps) w = installClientLifecycle m rt client deps w"
    if "mcp \<noteq> ActCreate"
    unfolding install_after_preflight [OF assms] install_after_preflight [OF other(1)] proceed_same_mcp [OF that]
    by (simp only: same_onD [OF same_on_catch [OF same_on_refl proceed_keeps(1) [OF that] compensate_same_mcp] start(1)])
  show "installClientLifecycle m rt client (other_plugin a r deps) w = installClientLifecycle m rt client deps w"
    if "plugin \<noteq> ActCreate"
    unfolding install_after_preflight [OF assms] install_after_preflight [OF other(2)] proceed_same_plugin [OF that]
    by (simp only: same_onD [OF same_on_catch [OF same_on_refl proceed_keeps(2) [OF that] compensate_same_plugin] start(2)])
qed

subsection \<open>What a result means\<close>

text \<open>One optional step of a chain: run if asked for, and then without an error.\<close>

definition step_ran :: "bool \<Rightarrow> ('w, 'a) port \<Rightarrow> 'a \<Rightarrow> fs \<times> 'w \<Rightarrow> fs \<times> 'w \<Rightarrow> bool" where
  "step_ran asked op x w w' \<longleftrightarrow> (if asked then op w = (Inr x, w') else w' = w)"

lemma call_fs_Inr:
  "call_fs op (v, fs, w) = (Inr x, (v', fs', w')) \<longleftrightarrow> op fs = (Inr x, fs') \<and> v' = v \<and> w' = w"
  by (cases "op fs"; cases "fst (op fs)") (auto simp: call_fs_def)

lemma assign_run: "assign f (v, w) = (r, (v', w')) \<longleftrightarrow> r = Inr () \<and> v' = f v \<and> w' = w"
  by (auto simp: assign_def change_run)

lemma record_post_Inr:
  assumes "record_post m rt store (v, fs, w) = (Inr (), (v', fs', w'))"
  shows "w' = w"
  using assms by (auto simp: record_post_def bind_vars_step bind_Inr [of "call_fs _"] assign_run call_fs_Inr give_run
    split: option.splits)

lemma capture_step_Inr:
  assumes "capture_step m rt deps (v, fs, w) = (Inr (), (v', fs', w'))"
  shows "w' = w"
  using assms by (auto simp: capture_step_def bind_Inr [of "call_fs _"] assign_run call_fs_Inr give_run
    split: option.splits)

lemma record_after_failure_run:
  assumes "record_after_failure m rt (v, fs, w) = (Inr (), (v', fs', w'))"
  shows "w' = w \<and> iv_credential v' = iv_credential v \<and> iv_mcpMutationAttempted v' = iv_mcpMutationAttempted v \<and>
    iv_pluginMutationAttempted v' = iv_pluginMutationAttempted v \<and> (iv_compensationFailed v \<longrightarrow> iv_compensationFailed v')"
  using assms by (auto simp: record_after_failure_def split: option.splits sum.splits prod.splits if_splits)

lemma guarded_run:
  assumes "guardedInverse m rt expected undo trusted paths (v, w) = (Inr safe, (v', w'))"
  shows "iv_credential v' = iv_credential v \<and> iv_mcpMutationAttempted v' = iv_mcpMutationAttempted v \<and>
    iv_pluginMutationAttempted v' = iv_pluginMutationAttempted v \<and>
    (if iv_compensationFailed v' then iv_compensationFailed v \<or> \<not> safe else \<not> iv_compensationFailed v \<and> safe \<and> undo w = (Inr (), w'))"
  using assms by (cases w) (auto simp: guardedInverse_def split: prod.splits sum.splits if_splits)

lemma undo_plugin_run:
  fixes deps :: "'w ClientLifecycleDependencies"
  assumes "undo_plugin m rt deps (v, w) = (Inr safe :: 'e + bool, (v', w'))"
  shows "iv_credential v' = iv_credential v \<and> iv_mcpMutationAttempted v' = iv_mcpMutationAttempted v \<and>
    (\<not> iv_compensationFailed v' \<longrightarrow>
       \<not> iv_compensationFailed v \<and> safe \<and> step_ran (iv_pluginMutationAttempted v) (removePlugin deps) () w w')"
proof (cases "iv_pluginMutationAttempted v")
  case False
  with assms show ?thesis by (auto simp: undo_plugin_def eff_step give_run step_ran_def)
next
  case True
  let ?check = "(\<lambda>s1 (v1, fs1, w1).
    if s1 \<and> (case iv_mcpPostSnapshot v1 of None \<Rightarrow> False | Some s \<Rightarrow> \<not> matches_post m rt True s (mcpProfilePaths deps) fs1)
    then (Inr False, (v1\<lparr>iv_compensationFailed := True\<rparr>, fs1, w1)) else (Inr s1, (v1, fs1, w1))) ::
    bool \<Rightarrow> ('e, 'w, bool) local_eff"
  have "bind_eff (guardedInverse m rt (iv_pluginPostSnapshot v) (removePlugin deps) False (pluginProfilePaths deps)) ?check (v, w) =
      (Inr safe, (v', w'))"
    using assms True by (simp add: undo_plugin_def bind_vars_step)
  then obtain s1 y where g0: "guardedInverse m rt (iv_pluginPostSnapshot v) (removePlugin deps) False (pluginProfilePaths deps) (v, w) = (Inr s1 :: 'e + bool, y)"
    and rest0: "?check s1 y = (Inr safe, (v', w'))"
    unfolding bind_Inr by blast
  obtain v1 fs1 w1 where y: "y = (v1, fs1, w1)" by (cases y)
  note g = g0 [unfolded y] and rest = rest0 [unfolded y prod.case]
  show ?thesis
  proof (cases "iv_compensationFailed v'")
    case True
    with rest guarded_run [OF g] show ?thesis by (auto split: if_splits)
  next
    case False
    with rest have "v' = v1" "w' = (fs1, w1)" "safe = s1" by (auto split: if_splits)
    with False True guarded_run [OF g] show ?thesis by (simp add: step_ran_def)
  qed
qed

lemma undo_credential_run:
  assumes "undo_credential deps (v, w) = (Inr (), (v', w'))"
  shows "\<not> iv_compensationFailed v' \<longrightarrow> \<not> iv_compensationFailed v \<and>
    (case iv_credential v of None \<Rightarrow> w' = w | Some (k, reference) \<Rightarrow> revokeCredential deps k reference w = (Inr (), w'))"
  using assms by (auto simp: undo_credential_def split: option.splits sum.splits prod.splits)

lemma mcp_step_Inr:
  assumes "mcp_step m rt deps (v, w) = (Inr (), (v', w'))"
  shows "\<exists>c w1 w2. provisionCredential deps w = (Inr c, w1) \<and> addMcp deps w1 = (Inr (), w2) \<and> snd w' = snd w2"
proof -
  from assms obtain c w1 w2 v2 where "provisionCredential deps w = (Inr c, w1)" "addMcp deps w1 = (Inr (), w2)"
    and post: "record_post m rt (\<lambda>s v. v\<lparr>iv_mcpPostSnapshot := Some s\<rparr>) (v2, w2) = (Inr (), (v', w'))"
    by (auto simp: mcp_step_def eff_step split: prod.splits sum.splits)
  moreover have "snd w' = snd w2" using post by (cases w2; cases w') (auto dest: record_post_Inr)
  ultimately show ?thesis by blast
qed

lemma plugin_step_Inr:
  assumes "plugin_step m rt deps (v, w) = (Inr (), (v', w'))"
  shows "\<exists>w1. addPlugin deps w = (Inr (), w1) \<and> snd w' = snd w1"
proof -
  from assms obtain w1 v1 where "addPlugin deps w = (Inr (), w1)"
    and post: "record_post m rt (\<lambda>s v. v\<lparr>iv_pluginPostSnapshot := Some s\<rparr>) (v1, w1) = (Inr (), (v', w'))"
    by (auto simp: plugin_step_def eff_step split: prod.splits sum.splits)
  moreover have "snd w' = snd w1" using post by (cases w1; cases w') (auto dest: record_post_Inr)
  ultimately show ?thesis by blast
qed

text \<open>\<open>walked\<close>: the operations a decision asks for, in their order, ending with the verification.\<close>

definition walked ::
  "'w ClientLifecycleDependencies \<Rightarrow> ClientComponentAction \<Rightarrow> ClientComponentAction \<Rightarrow> fs \<times> 'w \<Rightarrow> fs \<times> 'w \<Rightarrow> bool" where
  "walked deps mcp plugin w w' \<longleftrightarrow> (\<exists>c w1 w2 w3 w4 w5 w6. snd w1 = snd w \<and>
     step_ran (mcp = ActCreate) (provisionCredential deps) c w1 w2 \<and> step_ran (mcp = ActCreate) (addMcp deps) () w2 w3 \<and> snd w4 = snd w3 \<and>
     step_ran (plugin = ActCreate) (addPlugin deps) () w4 w5 \<and> snd w6 = snd w5 \<and> verify_client deps w6 = (Inr (), w'))"

lemma install_proceed_Inr:
  assumes "install_proceed m rt client deps mcp plugin (v, w) = (Inr x, (v', w'))"
  shows "walked deps mcp plugin w w' \<and> \<not> cr_compensated x \<and>
    cr_status x = (if mcp = ActReuseExternal \<and> plugin = ActReuseExternal then ExternalVerified else Verified)"
proof -
  let ?own = "mcp = ActReuseOwned \<or> plugin = ActReuseOwned \<or> mcp = ActCreate \<or> plugin = ActCreate"
  from assms obtain v0 v1 w1 v2 w2 v3 w3 where
    captured: "(if mcp = ActCreate \<or> plugin = ActCreate then capture_step m rt deps else give ()) (v0, w) = (Inr (), (v1, w1))"
    and mcp: "(if mcp = ActCreate then mcp_step m rt deps else give ()) (v1, w1) = (Inr (), (v2, w2))"
    and plugin: "(if plugin = ActCreate then plugin_step m rt deps else give ()) (v2, w2) = (Inr (), (v3, w3))"
    and verified: "verify_client deps w3 = (Inr (), w')" and x: "x = success_result client ?own v3"
    unfolding install_proceed_def bind_assign_step
    by (elim bind_Inr [THEN iffD1, elim_format] exE conjE)
      (auto simp: call_Inr vars_of_def read_run give_run)
  have "snd w1 = snd w"
    using captured by (cases w; cases w1) (auto simp: give_run split: if_splits dest: capture_step_Inr)
  moreover have "\<exists>c w12 w13. step_ran (mcp = ActCreate) (provisionCredential deps) c w1 w12 \<and>
      step_ran (mcp = ActCreate) (addMcp deps) () w12 w13 \<and> snd w2 = snd w13"
    using mcp by (cases "mcp = ActCreate") (auto simp: step_ran_def give_run dest!: mcp_step_Inr)
  moreover have "\<exists>w23. step_ran (plugin = ActCreate) (addPlugin deps) () w2 w23 \<and> snd w3 = snd w23"
    using plugin by (cases "plugin = ActCreate") (auto simp: step_ran_def give_run dest!: plugin_step_Inr)
  ultimately have "walked deps mcp plugin w w'" unfolding walked_def using verified by blast
  moreover have "?own \<longleftrightarrow> \<not> (mcp = ActReuseExternal \<and> plugin = ActReuseExternal)"
    by (cases mcp; cases plugin) simp_all
  ultimately show ?thesis by (simp add: x success_result_def)
qed

lemma install_body_Inr:
  assumes "install_body m rt client deps (v, w) = (Inr x, (v', w'))"
  obtains (blocked) c f where "preflight deps w = (Inr (Some (Block c f)), w')" and "x = blocked_result client f v"
  | (proceeded) d mcp plugin w1 where "preflight deps w = (Inr d, w1)"
      and "d = Some (Proceed mcp plugin) \<or> d = None \<and> mcp = ActCreate \<and> plugin = ActCreate"
      and "walked deps mcp plugin w1 w'" and "\<not> cr_compensated x"
      and "cr_status x = (if mcp = ActReuseExternal \<and> plugin = ActReuseExternal then ExternalVerified else Verified)"
proof -
  from assms obtain d w1 where pre: "preflight deps w = (Inr d, w1)"
    and rest: "(case (case d of None \<Rightarrow> Proceed ActCreate ActCreate | Some decision \<Rightarrow> decision) of
       Block classification finding \<Rightarrow> bind_eff vars_of (\<lambda>v. give (blocked_result client finding v))
     | Proceed mcp plugin \<Rightarrow> install_proceed m rt client deps mcp plugin) (v, w1) = (Inr x, (v', w'))"
    by (auto simp: install_body_def eff_step split: prod.splits sum.splits)
  show thesis
  proof (cases "case d of None \<Rightarrow> Proceed ActCreate ActCreate | Some decision \<Rightarrow> decision")
    case (Proceed mcp plugin)
    with rest have "install_proceed m rt client deps mcp plugin (v, w1) = (Inr x, (v', w'))" by simp
    moreover have "d = Some (Proceed mcp plugin) \<or> d = None \<and> mcp = ActCreate \<and> plugin = ActCreate"
      using Proceed by (auto split: option.splits)
    ultimately show thesis using proceeded [OF pre] install_proceed_Inr by blast
  next
    case (Block c f)
    then have "d = Some (Block c f)" by (auto split: option.splits)
    with Block rest pre show thesis by (intro blocked [of c f]) (simp_all add: bind_vars_step give_run)
  qed
qed

lemma compensate_status:
  "install_compensate m rt client deps e y = (Inr r, y') \<Longrightarrow> cr_status r \<in> {FailedStatus, RecoveryRequired}"
  by (auto simp: install_compensate_def bind_Inr give_run failure_result_def)

text \<open>C34. A client is reported verified only after everything the preflight decided was done, in order and without an
  error: the credential, the MCP entry, the plugin, then the verification as the last operation. It is
  reported as externally verified exactly if both components belong to someone else.\<close>

theorem verified_means_walked:
  assumes "installClientLifecycle m rt client deps w = (Inr r, w')"
    and "cr_status r = Verified \<or> cr_status r = ExternalVerified"
  shows "\<exists>d mcp plugin w1. preflight deps w = (Inr d, w1) \<and>
    (d = Some (Proceed mcp plugin) \<or> d = None \<and> mcp = ActCreate \<and> plugin = ActCreate) \<and> walked deps mcp plugin w1 w' \<and>
    (cr_status r = ExternalVerified \<longleftrightarrow> mcp = ActReuseExternal \<and> plugin = ActReuseExternal)"
proof -
  obtain v' where run: "catch_eff (install_body m rt client deps) (install_compensate m rt client deps) (initial_vars, w) =
      (Inr r :: client_error + ClientLifecycleResult, (v', w'))"
    using assms(1) by (auto simp: installClientLifecycle_def split: prod.splits)
  then show ?thesis
  proof (cases rule: catch_eff_cases)
    case (caught e y)
    from compensate_status [OF caught(2)] assms(2) show ?thesis by auto
  next
    case (fine x)
    then have "install_body m rt client deps (initial_vars, w) = (Inr r, (v', w'))" by simp
    then show ?thesis
    proof (cases rule: install_body_Inr)
      case blocked with assms(2) show ?thesis by (simp add: blocked_result_def)
    next
      case proceeded then show ?thesis by (auto split: if_splits)
    qed
  qed
qed


subsection \<open>Disconnecting\<close>

text \<open>One component removed: its inverse ran without an error and its absence was then confirmed.\<close>

definition removed_once :: "('e, 'w) ClientRemovalDependencies \<Rightarrow> RemovableClientComponent \<Rightarrow> 'w \<Rightarrow> 'w \<Rightarrow> bool" where
  "removed_once deps c w w' \<longleftrightarrow> (\<exists>w1. rd_inverse deps c w = (Inr (), w1) \<and> rd_verifyAbsent deps c w1 = (Inr True, w'))"

fun removed_in_turn :: "('e, 'w) ClientRemovalDependencies \<Rightarrow> RemovableClientComponent list \<Rightarrow> 'w \<Rightarrow> 'w \<Rightarrow> bool" where
  "removed_in_turn deps [] w w' \<longleftrightarrow> w' = w"
| "removed_in_turn deps (c # cs) w w' \<longleftrightarrow> (\<exists>w1. removed_once deps c w w1 \<and> removed_in_turn deps cs w1 w')"

lemma removal_loop_run:
  assumes "removal_loop deps aborted removable order acc w = ((finished, removed), w')"
  shows "\<exists>now rest w1. removed = acc @ now \<and> filter (\<lambda>c. c \<in> set removable) order = now @ rest \<and>
    removed_in_turn deps now w w1 \<and> (if finished then rest = [] \<and> w' = w1 else rest \<noteq> [])"
  using assms
proof (induction order arbitrary: acc w)
  case Nil then show ?case by (auto intro!: exI [of _ "[]"])
next
  case (Cons c order)
  show ?case
  proof (cases "c \<in> set removable")
    case False with Cons show ?thesis by simp
  next
    case True
    consider (stop) "\<not> finished" "removed = acc"
      | (go) w1 w2 where "rd_inverse deps c w = (Inr (), w1)" "rd_verifyAbsent deps c w1 = (Inr True, w2)"
          "removal_loop deps aborted removable order (acc @ [c]) w2 = ((finished, removed), w')"
      using Cons.prems True by (auto split: if_splits sum.splits prod.splits bool.splits)
    then show ?thesis
    proof cases
      case stop with True show ?thesis by (auto intro!: exI [of _ "[]"])
    next
      case go
      from Cons.IH [OF go(3)] obtain now rest w3 where ih: "removed = (acc @ [c]) @ now"
        "filter (\<lambda>c. c \<in> set removable) order = now @ rest" "removed_in_turn deps now w2 w3"
        "if finished then rest = [] \<and> w' = w3 else rest \<noteq> []" by blast
      moreover have "removed_in_turn deps (c # now) w w3"
        using go(1,2) ih(3) by (auto simp: removed_once_def)
      ultimately show ?thesis using True by (intro exI [of _ "c # now"] exI [of _ rest] exI [of _ w3]) simp
    qed
  qed
qed

text \<open>C36. Disconnecting removes the owned components in a fixed order (plugin, marketplace, MCP entry, credential). What it
  reports removed is an initial part of that list; each of these was removed without an error and confirmed
  absent before the next was begun. It reports success only if the list was finished. A
  conflict, or an owned component whose identity is not the recorded one, stops it before anything is changed.\<close>

theorem uninstall_removes_in_order:
  assumes "rd_inspect deps w = (Inr observations, w1)"
    and "uninstallClientLifecycle client deps aborted w = (Inr r, w')"
  shows "\<exists>rest w2. filter (\<lambda>c. c \<in> set (removable_components observations)) removal_order = rr_removed r @ rest \<and>
      removed_in_turn deps (rr_removed r) w1 w2 \<and>
      (if rr_status r = RemovalRecoveryRequired then removal_blocked observations \<longrightarrow> rr_removed r = [] \<and> w' = w1
       else \<not> removal_blocked observations \<and> rest = [] \<and> w' = w2 \<and>
         (rr_status r = RemovalUnchanged \<longleftrightarrow> removable_components observations = []))"
proof (cases "removal_blocked observations")
  case True
  with assms show ?thesis
    by (auto simp: uninstallClientLifecycle_def bind_eff_def Let_def give_def)
next
  case False
  obtain finished removed w2 where loop: "removal_loop deps aborted (removable_components observations) removal_order [] w1 =
      ((finished, removed), w2)" by (metis prod.exhaust)
  with assms False have r: "rr_removed r = removed" "w' = w2"
    "rr_status r = (if \<not> finished then RemovalRecoveryRequired else if removed = [] then RemovalUnchanged else RemovalRemoved)"
    by (auto simp: uninstallClientLifecycle_def bind_eff_def Let_def)
  from removal_loop_run [OF loop] obtain now rest w3 where steps: "removed = now"
    "filter (\<lambda>c. c \<in> set (removable_components observations)) removal_order = now @ rest" "removed_in_turn deps now w1 w3"
    "if finished then rest = [] \<and> w2 = w3 else rest \<noteq> []" by auto
  have "filter (\<lambda>c. c \<in> set (removable_components observations)) removal_order = [] \<longleftrightarrow> removable_components observations = []"
  proof -
    have "c \<in> set removal_order" for c by (cases c) (simp_all add: removal_order_def)
    then show ?thesis by (cases "removable_components observations") (auto simp: filter_empty_conv)
  qed
  with steps r False show ?thesis
    by (intro exI [of _ rest] exI [of _ w3]) (auto split: if_splits)
qed

text \<open>Components that are external or absent are never touched: for a component not found owned, another inverse makes
  no difference to the run.\<close>

theorem uninstall_spares_external:
  assumes "rd_inspect deps w = (Inr observations, w1)" and "c \<notin> set (removable_components observations)"
  shows "uninstallClientLifecycle client (deps\<lparr>rd_inverse := (rd_inverse deps)(c := other)\<rparr>) aborted w =
    uninstallClientLifecycle client deps aborted w"
proof -
  have loop: "removal_loop (deps\<lparr>rd_inverse := (rd_inverse deps)(c := other)\<rparr>) aborted (removable_components observations) order removed x =
      removal_loop deps aborted (removable_components observations) order removed x" for order removed x
  proof (induction order arbitrary: removed x)
    case (Cons b order)
    then show ?case using assms(2) by (auto split: sum.splits prod.splits bool.splits)
  qed simp
  then show ?thesis using assms(1) by (simp add: uninstallClientLifecycle_def bind_eff_def Let_def)
qed

subsection \<open>Examples\<close>

definition logged :: "string \<Rightarrow> 'a \<Rightarrow> (string list, 'a) port" where
  "logged name x = (\<lambda>(fs, l). (Inr x, (fs, l @ [name])))"

definition logged_failure :: "string \<Rightarrow> (string list, 'a) port" where
  "logged_failure name = (\<lambda>(fs, l). (Inl (Other_Error (Error name)), (fs, l @ [name])))"

definition example_ports :: "ClientPreflightDecision option \<Rightarrow> bool \<Rightarrow> string list ClientLifecycleDependencies" where
  "example_ports d fine = \<lparr>preflight = logged ''preflight'' d, provisionCredential = logged ''provision'' (''k'', ''c''),
     addMcp = logged ''add mcp'' (), addPlugin = logged ''add plugin'' (),
     verify_client = (if fine then logged ''verify'' () else logged_failure ''verify''), removePlugin = logged ''remove plugin'' (),
     removeMcp = logged ''remove mcp'' (), revokeCredential = (\<lambda>_ _. logged ''revoke'' ()), profileSnapshot = None,
     mcpProfilePaths = None, pluginProfilePaths = None\<rparr>"

lemmas connect_defs = installClientLifecycle_def install_body_def install_proceed_def capture_step_def mcp_step_def plugin_step_def
  install_compensate_def undo_plugin_def guardedInverse_def undo_credential_def record_after_failure_def record_post_def
  failure_vars_def failure_result_def success_result_def call_def assign_def vars_of_def initial_vars_def component_plan_def
  bind_eff_def catch_eff_def read_eff_def change_eff_def give_def logged_def logged_failure_def

lemma lifecycle_action_mutable_witness:
  "evaluateClientLifecycleAction OpRepair COwnedEquivalent = (Mutate, True) \<and> (True \<longleftrightarrow> Mutate = Mutate)"
  using lifecycle_action_mutable [of OpRepair COwnedEquivalent Mutate True]
  by (simp add: evaluateClientLifecycleAction_def)

theorem reused_components_untouched_witness:
  "installClientLifecycle example_machine example_hashes ClientCodex
     (other_mcp (logged_failure ''p'') (logged_failure ''a'') (logged_failure ''r'') (\<lambda>_ _. logged_failure ''q'')
       (example_ports (Some (Proceed ActReuseExternal ActCreate)) False)) (example_fs, []) =
   installClientLifecycle example_machine example_hashes ClientCodex
     (example_ports (Some (Proceed ActReuseExternal ActCreate)) False) (example_fs, [])"
proof -
  have "preflight (example_ports (Some (Proceed ActReuseExternal ActCreate)) False) (example_fs, []) =
      (Inr (Some (Proceed ActReuseExternal ActCreate)), (example_fs, [''preflight'']))"
    by (simp add: example_ports_def logged_def)
  from reused_components_untouched [OF this, THEN conjunct1] show ?thesis by simp
qed

definition example_log :: "string list" where
  "example_log = [''preflight'', ''provision'', ''add mcp'', ''add plugin'', ''verify'', ''remove plugin'', ''remove mcp'', ''revoke'']"

lemma example_connect:
  "fst (installClientLifecycle example_machine example_hashes ClientCodex (example_ports None True) (example_fs, [])) =
     Inr \<lparr>cr_client = ClientCodex, cr_status = Verified, cr_compensated = False, cr_owned = True,
       cr_components = (CompCreated, CompCreated, CompCreated), cr_summary = ''codex native integration verified'',
       cr_snapshotId = None, cr_conflict = None\<rparr>"
  "installClientLifecycle example_machine example_hashes ClientCodex (example_ports None False) (example_fs, []) =
     (Inr \<lparr>cr_client = ClientCodex, cr_status = FailedStatus, cr_compensated = True, cr_owned = False,
       cr_components = (CompNone, CompNone, CompNone), cr_summary = ''codex installation failed and was compensated'',
       cr_snapshotId = None, cr_conflict = None\<rparr>,
      (example_fs, example_log))"
  by (simp_all add: connect_defs example_ports_def client_text_def example_log_def)

theorem verified_means_walked_witness:
  "\<exists>w' w1. walked (example_ports None True) ActCreate ActCreate w1 w'"
proof -
  let ?run = "installClientLifecycle example_machine example_hashes ClientCodex (example_ports None True) (example_fs, [])"
  have run: "?run = (Inr (projr (fst ?run)), snd ?run)" using example_connect(1) by (metis prod.collapse sum.sel(2))
  have pre: "fst (preflight (example_ports None True) (example_fs, [])) = Inr None" by (simp add: example_ports_def logged_def)
  from verified_means_walked [OF run] obtain d mcp plugin w1 where
    "preflight (example_ports None True) (example_fs, []) = (Inr d, w1)"
    and "d = Some (Proceed mcp plugin) \<or> d = None \<and> mcp = ActCreate \<and> plugin = ActCreate"
    and "walked (example_ports None True) mcp plugin w1 (snd ?run)"
    by (auto simp: example_connect(1))
  with pre have "walked (example_ports None True) ActCreate ActCreate w1 (snd ?run)" by auto
  then show ?thesis by blast
qed


definition example_removal :: "ClientRemovalObservation list \<Rightarrow> (error, string list) ClientRemovalDependencies" where
  "example_removal obs = \<lparr>rd_inspect = give obs,
     rd_inverse = (\<lambda>c. change_eff (\<lambda>l. l @ [if c = RcPlugin then ''plugin'' else ''other''])), rd_verifyAbsent = (\<lambda>c. give True)\<rparr>"

definition owned_observation :: "RemovableClientComponent \<Rightarrow> ClientRemovalObservation" where
  "owned_observation c = \<lparr>ro_component = c, ro_classification = COwnedEquivalent, ro_expectedIdentitySha256 = Some ''1'',
     ro_currentIdentitySha256 = Some ''1''\<rparr>"

lemma example_removal_run:
  "uninstallClientLifecycle ClientCodex (example_removal [owned_observation RcMcpEntry, owned_observation RcPlugin]) (\<lambda>_. False) [] =
     (Inr \<lparr>rr_client = ClientCodex, rr_status = RemovalRemoved, rr_removed = [RcPlugin, RcMcpEntry], rr_retainedExternal = []\<rparr>,
      [''plugin'', ''other''])"
  by (simp add: uninstallClientLifecycle_def example_removal_def owned_observation_def removal_blocked_def removable_components_def
    removal_order_def eff_step change_eff_def give_def)

theorem uninstall_removes_in_order_witness:
  "\<exists>w2. removed_in_turn (example_removal [owned_observation RcMcpEntry, owned_observation RcPlugin]) [RcPlugin, RcMcpEntry] [] w2"
proof -
  have "rd_inspect (example_removal [owned_observation RcMcpEntry, owned_observation RcPlugin]) [] =
      (Inr [owned_observation RcMcpEntry, owned_observation RcPlugin], [])" by (simp add: example_removal_def give_def)
  from uninstall_removes_in_order [OF this example_removal_run] show ?thesis by auto
qed

theorem uninstall_spares_external_witness:
  "uninstallClientLifecycle ClientCodex ((example_removal [owned_observation RcPlugin])
       \<lparr>rd_inverse := (rd_inverse (example_removal [owned_observation RcPlugin]))(RcMcpEntry := raise_eff (Error ''x''))\<rparr>) (\<lambda>_. False) [] =
   uninstallClientLifecycle ClientCodex (example_removal [owned_observation RcPlugin]) (\<lambda>_. False) []"
proof -
  have inspect: "rd_inspect (example_removal [owned_observation RcPlugin]) [] = (Inr [owned_observation RcPlugin], [])"
    by (simp add: example_removal_def give_def)
  show ?thesis by (rule uninstall_spares_external [OF inspect]) (simp add: removable_components_def owned_observation_def)
qed

end
