(* ===== verification/Spec2Isabelle.thy ===== *)
theory Spec2Isabelle
  imports Prelude Js_Text Doubles Canonical_JSON Text_Normalization Revision Advisory_Chain
    Ranking Service_Errors Memory_Store Use_Cases Catalog_Providers External_Types
    Candidate_Policy Dependencies External_Revision License Effects Skill_Parsing Sync_Lease
    Source_Staging Source_Propagation Source_Revisions Source_Sync Observability Rate_Limit
    Authentication Http_App Journal Recovery Ownership Installation File_System
    Profile_Snapshot Profile_Transaction Client_Lifecycle
begin

text \<open>
  This library models the skillwire service and its installer. The service stores published skills
  (bundles of instructions and text resources, addressed by hash), ranks them for a task, serves exact
  revisions of them to authenticated clients over MCP, keeps a memory of what a repository used, and
  imports further skills from GitHub repositories under a verification policy. The installer sets the
  service up on a machine, connects clients to it, and records what it owns so that it can be undone.

  \<^bold>\<open>How the code is represented.\<close> Pure functions are functions, \<open>throw\<close> is the left of a sum,
  stateful objects are records that every operation returns updated, a \<open>Map\<close> is an association list
  in insertion order, SQL statements are functions on tables with the constraints of the migrations,
  and callbacks and ports are arguments over a world. A string is its UTF-8 bytes; a double that is no
  integer is the rational it stands for, rounded after each operation. Every theory begins with what
  it represents and how; every definition named in \<open>PROJECT.json\<close> is mapped to its lines.

  \<^bold>\<open>Theories and the code they model\<close> (paths under \<open>src/\<close>).

  \<^item> \<open>Prelude\<close>, \<open>Js_Text\<close>, \<open>Doubles\<close>: the vocabulary, that is sums, strings, sets and maps in insertion
    order, stable sorting by a comparator, white space and word boundaries of regular expressions,
    rounding to binary64.
  \<^item> \<open>Canonical_JSON\<close>, \<open>Text_Normalization\<close>, \<open>Revision\<close>, \<open>Advisory_Chain\<close>: \<open>domain/catalog\<close>. What is hashed
    (canonical texts identify data), how text and paths are made safe, what a revision is and that its
    bundle hash pins it, and the chain of advisory events whose head pins its history.
  \<^item> \<open>Ranking\<close>, \<open>Memory_Store\<close>, \<open>Use_Cases\<close>, \<open>Service_Errors\<close>: \<open>domain/catalog/ranking.ts\<close>,
    \<open>persistence/postgres/repository-memory-store.ts\<close>, \<open>application\<close>. Search, load, read, record, list and
    forget over any catalog provider and memory store, with tenant isolation of the memory.
  \<^item> \<open>Catalog_Providers\<close>: \<open>catalog\<close>. Release provider, verified cache, static adapter and the union of
    providers; the locale \<open>exact_provider\<close> is the contract the use cases rely on.
  \<^item> \<open>External_Types\<close>, \<open>Candidate_Policy\<close>, \<open>Dependencies\<close>, \<open>External_Revision\<close>, \<open>License\<close>, \<open>Sync_Lease\<close>:
    \<open>domain/external-catalog\<close> and \<open>persistence/postgres/sync-lease-store.ts\<close>. The classification of imports,
    their dependencies, their hashes, their licenses and the leases of the jobs that import them.
  \<^item> \<open>Skill_Parsing\<close>: \<open>ingestion/parsing\<close>. What the importer reads out of the files of a repository: front
    matter, invocations, resource links, plugin manifests and the layout of the skills.
  \<^item> \<open>Source_Staging\<close>, \<open>Source_Propagation\<close>, \<open>Source_Revisions\<close>, \<open>Source_Sync\<close>:
    \<open>application/services/source-synchronization-service.ts\<close>. One synchronization from the resolution of the
    repository to the publication: candidates are staged, failures spread along dependencies, revisions
    are built after those they depend on, and the result is published or the failure recorded.
  \<^item> \<open>Observability\<close>, \<open>Rate_Limit\<close>, \<open>Authentication\<close>, \<open>Http_App\<close>: \<open>observability\<close>, \<open>authentication\<close>,
    \<open>persistence/postgres/api-key-store.ts\<close> and \<open>transport/mcp/app.ts\<close>. The path of a request up to the MCP
    handler, which is a parameter.
  \<^item> \<open>Journal\<close>, \<open>Recovery\<close>, \<open>Ownership\<close>, \<open>Installation\<close>: \<open>onboarding/domain\<close> and
    \<open>onboarding/application/recovery.ts\<close>. The operation journal and its recovery, the ownership ledger and
    the state machines of the installation and of its clients.
  \<^item> \<open>Effects\<close>, \<open>File_System\<close>, \<open>Profile_Snapshot\<close>, \<open>Profile_Transaction\<close>, \<open>Client_Lifecycle\<close>: sequencing of
    asynchronous code that may throw, the part of the file system the installer uses, and on top of them
    \<open>onboarding/domain/profile-snapshot.ts\<close>, \<open>onboarding/application/profile-transaction.ts\<close> and
    \<open>onboarding/application/client-lifecycle.ts\<close>: protected copies of client profiles and what a failed
    change of a client leaves behind.

  \<^bold>\<open>Interfaces.\<close> A contract between components is a locale: \<open>hash_chain\<close> (a head pins a history),
  \<open>scoped_store\<close> and \<open>memory_contract\<close> (what a memory store owes its callers), \<open>exact_provider\<close> (what a
  catalog provider owes the loader), \<open>forced_chain\<close> (a state machine that must pass its steps in order),
  \<open>metered\<close> (a limiter seen by one client). Each is interpreted on the model of the code that provides it.

  \<^bold>\<open>Parameters and hypotheses.\<close> SHA-256, HMAC, Unicode normalization and \<open>localeCompare\<close> are tables of
  the record \<open>runtime\<close> or arguments; the laws used of them are named (\<open>nfc_laws\<close>, \<open>consistent\<close>). The
  YAML and Markdown parsers are fields of the record \<open>importer\<close>. No hash is assumed injective: a theorem
  about hashes concludes equality or exhibits a collision. The clock, random bytes, activity checks and
  the answers of callbacks are arguments.

  \<^bold>\<open>Fuel and bounds.\<close> The cycle search of dependencies takes fuel, and it is proved that the number of
  names plus one is enough. The construction of revisions takes fuel, and it is proved for the accepted
  candidates of a synchronization that their number plus one is enough. The loop that spreads failures
  ends by a proved measure, as does all other recursion that is not structural. Numbers of the code that
  may overflow a double's integers are guarded by the same checks as in the code.

  \<^bold>\<open>Not modelled.\<close> The adapters of network, processes, containers and credentials, command line parsing and
  output, the evaluation harness, the SQL engine and its locks, and the MCP package, which only call code
  that is not part of the repository; the production workflows that sequence those adapters; deadlines
  and abort signals of a synchronization. \<open>PROJECT.json\<close> lists these parts one by one with the reason.
\<close>

end
